(* ===== verification/Prelude.thy ===== *)
theory Prelude
  imports Main "HOL-Library.Word"
begin

text \<open>
  Shared vocabulary of the development: the errors a C statement can run into, the
  sum-typed sequencing of fallible statements, and generic facts on lists that
  several components use (index scans over fixed-size arrays, updates by index).
\<close>

section \<open>Collections\<close>

named_theorems c_simps \<open>equations of the C string and buffer primitives\<close>
named_theorems errE \<open>elimination of successful fallible computations\<close>

section \<open>Errors of C statements\<close>

text \<open>
  What a statement of the C program may do instead of completing. \<open>Deadlock\<close> is a
  lock of a mutex that is already held and that nobody will release; \<open>BadMalloc\<close> marks
  a run in which \<open>malloc\<close> would have returned memory in use, which its contract excludes.
\<close>

datatype c_error =
    NullDeref
  | OutOfBounds
  | Unterminated
  | UseAfterFree
  | DivByZero
  | BadFormat
  | Deadlock
  | BadMalloc

type_synonym 'a result = "c_error + 'a"

text \<open>Sequencing: stop at the first error.\<close>

definition and_then :: "'a result \<Rightarrow> ('a \<Rightarrow> 'b result) \<Rightarrow> 'b result" where
  "and_then m f = (case m of Inl e \<Rightarrow> Inl e | Inr x \<Rightarrow> f x)"

lemma and_then_simps [simp]:
  "and_then (Inl e) f = Inl e"
  "and_then (Inr x) f = f x"
  by (simp_all add: and_then_def)

lemma and_then_Inr_iff: "and_then m f = Inr y \<longleftrightarrow> (\<exists>x. m = Inr x \<and> f x = Inr y)"
  by (cases m) auto

lemma and_then_InrE [elim!, errE]:
  assumes "and_then m f = Inr y"
  obtains x where "m = Inr x" and "f x = Inr y"
  using assms by (auto simp: and_then_Inr_iff)

lemma and_then_assoc: "and_then (and_then m f) g = and_then m (\<lambda>x. and_then (f x) g)"
  by (cases m) auto

definition guard :: "bool \<Rightarrow> c_error \<Rightarrow> unit result" where
  "guard b e = (if b then Inr () else Inl e)"

lemma guard_simps [simp]:
  "guard True e = Inr ()"
  "guard False e = Inl e"
  "guard b e = Inr u \<longleftrightarrow> b"
  by (simp_all add: guard_def)

lemma option_eqI: "(\<And>p. a = Some p \<longleftrightarrow> b = Some p) \<Longrightarrow> a = b"
  by (metis option.exhaust)

section \<open>Scanning a fixed-size array\<close>

text \<open>
  The shape of every search loop of the program:
  \<^verbatim>\<open>for (i = 0; i < N; i++) if (P(a[i])) return i; return -1;\<close>
\<close>

fun scan_from :: "('a \<Rightarrow> bool) \<Rightarrow> nat \<Rightarrow> 'a list \<Rightarrow> int" where
  "scan_from P i [] = -1"
| "scan_from P i (x # xs) = (if P x then int i else scan_from P (Suc i) xs)"

definition scan :: "('a \<Rightarrow> bool) \<Rightarrow> 'a list \<Rightarrow> int" where
  "scan P xs = scan_from P 0 xs"

lemma scan_from_found:
  "scan_from P i xs = int k \<Longrightarrow>
     i \<le> k \<and> k - i < length xs \<and> P (xs ! (k - i)) \<and> (\<forall>j<k - i. \<not> P (xs ! j))"
proof (induction xs arbitrary: i)
  case Nil
  then show ?case by simp
next
  case (Cons x xs)
  show ?case
  proof (cases "P x")
    case True
    with Cons.prems show ?thesis by simp
  next
    case False
    with Cons.prems have "scan_from P (Suc i) xs = int k" by simp
    then have IH: "Suc i \<le> k" "k - Suc i < length xs" "P (xs ! (k - Suc i))"
      "\<forall>j<k - Suc i. \<not> P (xs ! j)"
      using Cons.IH by blast+
    have eq: "k - i = Suc (k - Suc i)" using IH(1) by simp
    have "\<not> P ((x # xs) ! j)" if "j < k - i" for j
      using that False IH(4) eq by (cases j) auto
    with IH eq show ?thesis by simp
  qed
qed

lemma scan_from_none: "scan_from P i xs = -1 \<longleftrightarrow> (\<forall>x\<in>set xs. \<not> P x)"
  by (induction xs arbitrary: i) auto

lemma scan_from_cases: "scan_from P i xs = -1 \<or> (\<exists>k. scan_from P i xs = int k)"
  by (induction xs arbitrary: i) auto

lemma scan_from_least:
  "k < length xs \<Longrightarrow> P (xs ! k) \<Longrightarrow> \<forall>j<k. \<not> P (xs ! j) \<Longrightarrow> scan_from P i xs = int (i + k)"
proof (induction xs arbitrary: i k)
  case Nil
  then show ?case by simp
next
  case (Cons x xs)
  show ?case
  proof (cases k)
    case 0
    with Cons.prems show ?thesis by simp
  next
    case (Suc m)
    have "\<not> P x" using Cons.prems(3) Suc by (metis nth_Cons_0 zero_less_Suc)
    moreover have "\<forall>j<m. \<not> P (xs ! j)"
      using Cons.prems(3) Suc by (metis Suc_less_eq nth_Cons_Suc)
    ultimately show ?thesis using Cons.IH [of m "Suc i"] Cons.prems Suc by simp
  qed
qed

lemma scan_int_iff:
  "scan P xs = int k \<longleftrightarrow> k < length xs \<and> P (xs ! k) \<and> (\<forall>j<k. \<not> P (xs ! j))"
  unfolding scan_def
  using scan_from_found [of P 0 xs k] scan_from_least [of k xs P 0] by auto

lemma scan_none_iff: "scan P xs = -1 \<longleftrightarrow> (\<forall>x\<in>set xs. \<not> P x)"
  by (simp add: scan_def scan_from_none)

lemma scan_cases [case_names none found]:
  obtains "scan P xs = -1" "\<forall>x\<in>set xs. \<not> P x"
  | k where "scan P xs = int k" "k < length xs" "P (xs ! k)" "\<forall>j<k. \<not> P (xs ! j)"
  using scan_from_cases [of P 0 xs] scan_none_iff [of P xs] scan_int_iff [of P xs]
  by (metis scan_def)

lemma scan_bounds: "-1 \<le> scan P xs \<and> scan P xs < int (length xs)"
  by (cases rule: scan_cases [of P xs]) auto

lemma scan_unique:
  assumes "k < length xs" "P (xs ! k)" "\<And>j. j < length xs \<Longrightarrow> P (xs ! j) \<Longrightarrow> j = k"
  shows "scan P xs = int k"
proof -
  have "\<not> P (xs ! j)" if "j < k" for j
    using assms(1,3) that by (metis less_trans nat_neq_iff)
  with assms(1,2) show ?thesis by (simp add: scan_int_iff)
qed

section \<open>Counting and updating\<close>

lemma length_filter_update:
  assumes "i < length xs"
  shows "length (filter P (xs[i := y])) + (if P (xs ! i) then 1 else 0)
         = length (filter P xs) + (if P y then 1 else 0)"
  using assms
proof (induction xs arbitrary: i)
  case Nil
  then show ?case by simp
next
  case (Cons x xs)
  show ?case
  proof (cases i)
    case 0
    then show ?thesis by simp
  next
    case (Suc j)
    with Cons.prems have "length (filter P (xs[j := y])) + (if P (xs ! j) then 1 else 0)
         = length (filter P xs) + (if P y then 1 else 0)"
      by (intro Cons.IH) simp
    with Suc show ?thesis by (simp split: if_splits)
  qed
qed

text \<open>An update by index replaces one element between a prefix and a suffix.\<close>

lemma update_split:
  assumes "i < length xs"
  obtains a x b where "xs = a @ x # b" "xs ! i = x" "xs[i := y] = a @ y # b" "length a = i"
proof -
  have "xs = take i xs @ xs ! i # drop (Suc i) xs" "xs[i := y] = take i xs @ y # drop (Suc i) xs"
    "length (take i xs) = i"
    using assms by (simp_all add: id_take_nth_drop upd_conv_take_nth_drop)
  then show thesis by (intro that [OF _ refl])
qed

lemma set_update_subset: "set (xs[i := y]) \<subseteq> insert y (set xs)"
  by (rule set_update_subset_insert)

lemma list_all_update [simp]: "list_all P xs \<Longrightarrow> P y \<Longrightarrow> list_all P (xs[i := y])"
  unfolding list_all_iff using set_update_subset by fastforce

end
