(* ===== verification/CString.thy ===== *)
theory CString
  imports Prelude
begin

text \<open>
  The part of the C library and of the C memory model that the program uses on
  characters: a \<open>char\<close> array is a \<open>string\<close> (a list of 8-bit characters) whose length
  is the array's size, and a write or read outside it is an error value. Each
  primitive (\<open>strcpy\<close>, \<open>strncpy\<close>, \<open>snprintf\<close>, \<open>strncmp\<close>, \<open>strchr\<close>, \<open>strstr\<close>, \<open>atoi\<close>,
  \<open>inet_ntoa\<close>, \<open>inet_addr\<close>) is written after its ISO C or POSIX description; the
  integers of the wire format are little endian, as on the x86-64 target.
\<close>

section \<open>Terminated strings\<close>

definition NUL :: char where
  "NUL = CHR 0x00"

definition cstr :: "string \<Rightarrow> string" where
  "cstr b = takeWhile (\<lambda>c. c \<noteq> NUL) b"

definition terminated :: "string \<Rightarrow> bool" where
  "terminated b \<longleftrightarrow> NUL \<in> set b"

definition nulfree :: "string \<Rightarrow> bool" where
  "nulfree s \<longleftrightarrow> NUL \<notin> set s"

lemma cstr_append_NUL [simp, c_simps]: "nulfree s \<Longrightarrow> cstr (s @ NUL # r) = s"
  by (auto simp: cstr_def nulfree_def takeWhile_append)

lemma cstr_nulfree [simp, c_simps]: "nulfree s \<Longrightarrow> cstr s = s"
  by (auto simp: cstr_def nulfree_def takeWhile_eq_all_conv)

lemma nulfree_cstr [simp, c_simps]: "nulfree (cstr b)"
  by (auto simp: cstr_def nulfree_def dest: set_takeWhileD)

lemma cstr_Nil [simp]: "cstr [] = []"
  by (simp add: cstr_def)

lemma cstr_Cons: "cstr (c # b) = (if c = NUL then [] else c # cstr b)"
  by (simp add: cstr_def)

lemma length_cstr_le: "length (cstr b) \<le> length b"
  by (simp add: cstr_def length_takeWhile_le)

lemma length_cstr_less: "terminated b \<Longrightarrow> length (cstr b) < length b"
  unfolding terminated_def cstr_def
  by (metis (mono_tags, lifting) length_takeWhile_le nat_less_le takeWhile_eq_all_conv
      takeWhile_eq_take take_all_iff)

lemma terminated_append [simp, c_simps]: "terminated (a @ b) \<longleftrightarrow> terminated a \<or> terminated b"
  by (auto simp: terminated_def)

lemma terminated_Cons [simp, c_simps]: "terminated (c # b) \<longleftrightarrow> c = NUL \<or> terminated b"
  by (auto simp: terminated_def)

lemma terminated_Nil [simp, c_simps]: "\<not> terminated []"
  by (simp add: terminated_def)

lemma nulfree_simps [simp, c_simps]:
  "nulfree []"
  "nulfree (c # s) \<longleftrightarrow> c \<noteq> NUL \<and> nulfree s"
  "nulfree (s @ t) \<longleftrightarrow> nulfree s \<and> nulfree t"
  by (auto simp: nulfree_def)

lemma nulfree_take [simp]: "nulfree s \<Longrightarrow> nulfree (take n s)"
  unfolding nulfree_def by (meson in_set_takeD)

lemma nulfree_not_terminated: "nulfree s \<longleftrightarrow> \<not> terminated s"
  by (simp add: nulfree_def terminated_def)

lemma cstr_append_terminated: "terminated a \<Longrightarrow> cstr (a @ b) = cstr a"
  by (induction a) (auto simp: cstr_Cons)

lemma cstr_replicate_NUL [simp]: "cstr (replicate n NUL @ b) = (if n = 0 then cstr b else [])"
  by (cases n) (auto simp: cstr_Cons)

lemma cstr_replicate_NUL' [simp]: "cstr (replicate n NUL) = []"
  using cstr_replicate_NUL [of n "[]"] by (simp split: if_splits)

lemma terminated_replicate [simp]: "terminated (replicate n NUL) \<longleftrightarrow> 0 < n"
  by (auto simp: terminated_def)

section \<open>Reads and writes in a buffer\<close>

definition write_at :: "nat \<Rightarrow> string \<Rightarrow> string \<Rightarrow> string result" where
  "write_at off s buf =
     (if off + length s \<le> length buf
      then Inr (take off buf @ s @ drop (off + length s) buf)
      else Inl OutOfBounds)"

definition read_at :: "nat \<Rightarrow> nat \<Rightarrow> string \<Rightarrow> string result" where
  "read_at off n buf =
     (if off + n \<le> length buf then Inr (take n (drop off buf)) else Inl OutOfBounds)"

text \<open>The string a \<open>char *\<close> into a buffer denotes: an error when no NUL follows.\<close>

definition str_at :: "nat \<Rightarrow> string \<Rightarrow> string result" where
  "str_at off buf = (if terminated (drop off buf) then Inr (cstr (drop off buf)) else Inl Unterminated)"

lemma write_at_succeeds: "off + length s \<le> length buf \<Longrightarrow> \<exists>b. write_at off s buf = Inr b"
  by (simp add: write_at_def)

lemma split_off: "n \<le> length b \<Longrightarrow> \<exists>x r. b = x @ r \<and> length x = n \<and> length r = length b - n"
  by (intro exI [of _ "take n b"] exI [of _ "drop n b"]) simp

lemma write_at_Inr_iff:
  "write_at off s buf = Inr b \<longleftrightarrow>
     off + length s \<le> length buf \<and> b = take off buf @ s @ drop (off + length s) buf"
  by (auto simp: write_at_def)

lemma write_at_length: "write_at off s buf = Inr b \<Longrightarrow> length b = length buf"
  by (auto simp: write_at_Inr_iff)

text \<open>A write leaves what lies before and after it unchanged, and reads back.\<close>

lemma write_at_read_same:
  "write_at off s buf = Inr b \<Longrightarrow> take (length s) (drop off b) = s"
  by (auto simp: write_at_Inr_iff)

lemma write_at_drop_after:
  assumes "write_at off s buf = Inr b" "off + length s \<le> k"
  shows "drop k b = drop k buf"
proof -
  have "drop k b = drop (k - off - length s) (drop (off + length s) buf)"
    using assms by (auto simp: write_at_Inr_iff)
  then show ?thesis using assms(2) by (simp add: add.commute)
qed

lemma write_at_take_before:
  "write_at off s buf = Inr b \<Longrightarrow> k \<le> off \<Longrightarrow> take k b = take k buf"
  by (auto simp: write_at_Inr_iff min_def)

lemma write_at_slice_before:
  assumes "write_at off s buf = Inr b" "k + n \<le> off"
  shows "take n (drop k b) = take n (drop k buf)"
proof -
  have "take n (drop k b) = drop k (take (k + n) b)" by (simp add: take_drop add.commute)
  also have "\<dots> = drop k (take (k + n) buf)"
    using write_at_take_before [OF assms(1,2)] by simp
  finally show ?thesis by (simp add: take_drop add.commute)
qed

section \<open>Copying strings\<close>

text \<open>\<open>strncpy(dst, src, n)\<close>: exactly n bytes, padded with NUL, unterminated when src is long.\<close>

definition strncpy_bytes :: "nat \<Rightarrow> string \<Rightarrow> string" where
  "strncpy_bytes n src = take n (cstr src) @ replicate (n - length (cstr src)) NUL"

definition strncpy :: "string \<Rightarrow> string \<Rightarrow> nat \<Rightarrow> string result" where
  "strncpy dst src n =
     (if n \<le> length src \<or> terminated src
      then write_at 0 (strncpy_bytes n src) dst
      else Inl OutOfBounds)"

lemma length_strncpy_bytes [simp, c_simps]: "length (strncpy_bytes n src) = n"
  by (simp add: strncpy_bytes_def)

lemma cstr_strncpy_bytes: "cstr (strncpy_bytes n src) = take n (cstr src)"
proof (cases "n \<le> length (cstr src)")
  case True
  then show ?thesis by (simp add: strncpy_bytes_def)
next
  case False
  then obtain m where "n - length (cstr src) = Suc m" by (metis Suc_diff_Suc not_le)
  then show ?thesis using False by (simp add: strncpy_bytes_def)
qed

lemma terminated_strncpy_bytes [c_simps]:
  "terminated (strncpy_bytes n src) \<longleftrightarrow> length (cstr src) < n"
proof -
  have "\<not> terminated (take n (cstr src))"
    by (simp add: nulfree_not_terminated [symmetric])
  then show ?thesis by (simp add: strncpy_bytes_def)
qed

lemma strncpy_whole:
  "n = length dst \<Longrightarrow> n \<le> length src \<or> terminated src \<Longrightarrow> strncpy dst src n = Inr (strncpy_bytes n src)"
  by (simp add: strncpy_def write_at_def)

text \<open>\<open>strcpy\<close> of the string in the array \<open>src\<close> to offset \<open>off\<close> of \<open>buf\<close>, a field of size \<open>cap\<close>.\<close>

definition strcpy_at :: "nat \<Rightarrow> nat \<Rightarrow> string \<Rightarrow> string \<Rightarrow> string result" where
  "strcpy_at off cap src buf =
     (if \<not> terminated src then Inl Unterminated
      else if cap < Suc (length (cstr src)) then Inl OutOfBounds
      else write_at off (cstr src @ [NUL]) buf)"

text \<open>\<open>snprintf(buf + off, n, "%s", s)\<close> with \<open>n > 0\<close>: at most \<open>n - 1\<close> characters and a NUL.\<close>

definition snprintf_at :: "nat \<Rightarrow> nat \<Rightarrow> string \<Rightarrow> string \<Rightarrow> string result" where
  "snprintf_at off n s buf = write_at off (take (n - 1) s @ [NUL]) buf"

text \<open>\<open>strncmp(a, b, n) == 0\<close> on arrays that hold at least n bytes or a NUL.\<close>

definition strncmp_eq :: "nat \<Rightarrow> string \<Rightarrow> string \<Rightarrow> bool" where
  "strncmp_eq n a b \<longleftrightarrow> take n (cstr a) = take n (cstr b)"

lemma strncmp_eq_refl [simp]: "strncmp_eq n a a"
  by (simp add: strncmp_eq_def)

lemma strncmp_eq_sym: "strncmp_eq n a b \<longleftrightarrow> strncmp_eq n b a"
  by (auto simp: strncmp_eq_def)

section \<open>Little-endian integers\<close>

primrec le_bytes :: "nat \<Rightarrow> nat \<Rightarrow> string" where
  "le_bytes 0 x = []"
| "le_bytes (Suc k) x = char_of (x mod 256) # le_bytes k (x div 256)"

fun le_val :: "string \<Rightarrow> nat" where
  "le_val [] = 0"
| "le_val (c # cs) = of_char c + 256 * le_val cs"

lemma length_le_bytes [simp, c_simps]: "length (le_bytes k x) = k"
  by (induction k arbitrary: x) auto

lemma le_val_le_bytes: "le_val (le_bytes k x) = x mod 256 ^ k"
proof (induction k arbitrary: x)
  case 0
  then show ?case by simp
next
  case (Suc k)
  have "x mod 256 + 256 * (x div 256 mod 256 ^ k) = x mod (256 * 256 ^ k)"
    by (simp add: mod_mult2_eq)
  with Suc show ?case by simp
qed

definition put32 :: "32 word \<Rightarrow> string" where
  "put32 w = le_bytes 4 (unat w)"

definition get32 :: "string \<Rightarrow> 32 word" where
  "get32 b = word_of_nat (le_val (take 4 b))"

definition put64 :: "64 word \<Rightarrow> string" where
  "put64 w = le_bytes 8 (unat w)"

definition get64 :: "string \<Rightarrow> 64 word" where
  "get64 b = word_of_nat (le_val (take 8 b))"

lemma length_put32 [simp, c_simps]: "length (put32 w) = 4"
  by (simp add: put32_def)

lemma length_put64 [simp, c_simps]: "length (put64 w) = 8"
  by (simp add: put64_def)

lemma get32_put32 [simp, c_simps]: "get32 (put32 w @ r) = w"
proof -
  have "unat w < 256 ^ 4" using unsigned_less [of w, where ?'a = nat] by simp
  then show ?thesis by (simp add: get32_def put32_def le_val_le_bytes)
qed

lemma get64_put64 [simp, c_simps]: "get64 (put64 w @ r) = w"
proof -
  have "unat w < 256 ^ 8" using unsigned_less [of w, where ?'a = nat] by simp
  then show ?thesis by (simp add: get64_def put64_def le_val_le_bytes)
qed

lemma get32_put32' [simp, c_simps]: "get32 (put32 w) = w"
  using get32_put32 [of w "[]"] by simp

lemma get64_put64' [simp, c_simps]: "get64 (put64 w) = w"
  using get64_put64 [of w "[]"] by simp

lemma get32_take: "4 \<le> n \<Longrightarrow> get32 (take n b) = get32 b"
  by (simp add: get32_def min_def)

lemma get64_take: "8 \<le> n \<Longrightarrow> get64 (take n b) = get64 b"
  by (simp add: get64_def min_def)

text \<open>
  Fixed-width codecs: an encoder whose image has one width and a decoder that reads it
  back from the front of a longer buffer.
\<close>

locale codec =
  fixes enc :: "'a \<Rightarrow> string"
    and dec :: "string \<Rightarrow> 'a"
    and width :: nat
  assumes enc_width: "length (enc x) = width"
    and dec_enc: "dec (enc x @ r) = x"
begin

lemma dec_enc_at:
  assumes "write_at off (enc x) buf = Inr b"
  shows "dec (drop off b) = x"
  using assms by (auto simp: write_at_Inr_iff dec_enc)

lemma enc_inj: "enc x = enc y \<longleftrightarrow> x = y"
  by (metis append.right_neutral dec_enc)

text \<open>Consecutive encodings decode at the multiples of the width.\<close>

lemma dec_concat:
  "i < length xs \<Longrightarrow> dec (drop (i * width) (concat (map enc xs) @ r)) = xs ! i"
proof (induction xs arbitrary: i)
  case Nil
  then show ?case by simp
next
  case (Cons x xs)
  show ?case
  proof (cases i)
    case 0
    then show ?thesis by (simp add: dec_enc)
  next
    case (Suc j)
    with Cons show ?thesis by (simp add: enc_width)
  qed
qed

end

interpretation c32: codec put32 get32 4
  by unfold_locales simp_all

interpretation c64: codec put64 get64 8
  by unfold_locales simp_all

end
