(* ===== verification/CText.thy ===== *)
theory CText
  imports CString
begin

text \<open>
  Text conversions of the C library the program relies on: \<open>%d\<close>, \<open>%x\<close> and \<open>%02x\<close> of
  \<open>printf\<close>, \<open>atoi\<close> / \<open>atol\<close>, \<open>strchr\<close>, \<open>strstr\<close>, \<open>inet_ntoa\<close> and \<open>inet_addr\<close> (the
  four-part decimal form, which is the one \<open>inet_ntoa\<close> prints and the program stores).
\<close>

section \<open>Printing integers\<close>

definition digit_char :: "nat \<Rightarrow> char" where
  "digit_char d = char_of (48 + d)"

fun show_nat :: "nat \<Rightarrow> string" where
  "show_nat n = (if n < 10 then [digit_char n] else show_nat (n div 10) @ [digit_char (n mod 10)])"

declare show_nat.simps [simp del]

definition show_int :: "int \<Rightarrow> string" where
  "show_int i = (if i < 0 then CHR ''-'' # show_nat (nat (- i)) else show_nat (nat i))"

definition hex_char :: "nat \<Rightarrow> char" where
  "hex_char d = (if d < 10 then char_of (48 + d) else char_of (87 + d))"

fun show_hex :: "nat \<Rightarrow> string" where
  "show_hex n = (if n < 16 then [hex_char n] else show_hex (n div 16) @ [hex_char (n mod 16)])"

declare show_hex.simps [simp del]

text \<open>\<open>%02x\<close> of an \<open>unsigned char\<close>.\<close>

definition hex2 :: "char \<Rightarrow> string" where
  "hex2 c = [hex_char (of_char c div 16), hex_char (of_char c mod 16)]"

lemma length_hex2 [simp, c_simps]: "length (hex2 c) = 2"
  by (simp add: hex2_def)

lemma length_concat_hex2 [simp]: "length (concat (map hex2 b)) = 2 * length b"
  by (induction b) auto

section \<open>Reading integers\<close>

definition is_digit :: "char \<Rightarrow> bool" where
  "is_digit c \<longleftrightarrow> (48::nat) \<le> of_char c \<and> of_char c \<le> (57::nat)"

definition dec_val :: "string \<Rightarrow> nat" where
  "dec_val s = foldl (\<lambda>a c. 10 * a + (of_char c - 48)) 0 s"

definition is_space :: "char \<Rightarrow> bool" where
  "is_space c \<longleftrightarrow> of_char c = (32::nat) \<or> ((9::nat) \<le> of_char c \<and> of_char c \<le> (13::nat))"

text \<open>\<open>atoi\<close> / \<open>atol\<close>: leading space, one sign, then digits; 0 when there are none.\<close>

definition atoi :: "string \<Rightarrow> int" where
  "atoi s =
     (let t = dropWhile is_space s in
      case t of
        [] \<Rightarrow> 0
      | c # r \<Rightarrow>
          if c = CHR ''-'' then - int (dec_val (takeWhile is_digit r))
          else if c = CHR ''+'' then int (dec_val (takeWhile is_digit r))
          else int (dec_val (takeWhile is_digit t)))"

lemma of_char_digit_char: "d < 10 \<Longrightarrow> of_char (digit_char d) = 48 + d"
  by (simp add: digit_char_def)

lemma is_digit_digit_char: "d < 10 \<Longrightarrow> is_digit (digit_char d)"
  by (simp add: is_digit_def of_char_digit_char)

lemma show_nat_digits: "\<forall>c\<in>set (show_nat n). is_digit c"
proof (induction n rule: show_nat.induct)
  case (1 n)
  then show ?case
    by (cases "n < 10") (auto simp: show_nat.simps [of n] is_digit_digit_char)
qed

lemma show_nat_nonempty [simp]: "show_nat n \<noteq> []"
  by (subst show_nat.simps) simp

lemma dec_val_snoc: "dec_val (s @ [c]) = 10 * dec_val s + (of_char c - 48)"
  by (simp add: dec_val_def)

lemma dec_val_show_nat: "dec_val (show_nat n) = n"
proof (induction n rule: show_nat.induct)
  case (1 n)
  show ?case
  proof (cases "n < 10")
    case True
    then show ?thesis
      by (simp add: show_nat.simps [of n] dec_val_def of_char_digit_char)
  next
    case False
    with 1 show ?thesis
      by (simp add: show_nat.simps [of n] dec_val_snoc of_char_digit_char)
  qed
qed

lemma is_digit_not:
  "is_digit c \<Longrightarrow> c \<noteq> CHR ''-''" "is_digit c \<Longrightarrow> c \<noteq> CHR ''+''" "is_digit c \<Longrightarrow> \<not> is_space c"
  "is_digit c \<Longrightarrow> c \<noteq> NUL" "is_digit c \<Longrightarrow> c \<noteq> CHR ''.''"
  by (auto simp: is_digit_def is_space_def NUL_def)

lemma nulfree_show_nat [simp]: "nulfree (show_nat n)"
  using show_nat_digits [of n] is_digit_not(4) unfolding nulfree_def by blast

lemma nulfree_show_int [simp]: "nulfree (show_int i)"
  by (simp add: show_int_def NUL_def)

lemma takeWhile_digits: "\<forall>c\<in>set s. is_digit c \<Longrightarrow> takeWhile is_digit s = s"
  by (simp add: takeWhile_eq_all_conv)

lemma atoi_show_nat [simp]: "atoi (show_nat n) = int n"
proof -
  obtain c r where s: "show_nat n = c # r" by (cases "show_nat n") auto
  then have "is_digit c" using show_nat_digits [of n] by simp
  moreover have "\<forall>c\<in>set r. is_digit c"
    using show_nat_digits [of n] s by simp
  ultimately show ?thesis
    using dec_val_show_nat [of n] s by (simp add: atoi_def is_digit_not takeWhile_digits)
qed

text \<open>\<open>atoi\<close> inverts \<open>%d\<close>.\<close>

lemma atoi_show_int: "atoi (show_int i) = i"
proof (cases "i < 0")
  case True
  have "\<not> is_space (CHR ''-'')" by (simp add: is_space_def)
  with True show ?thesis
    using show_nat_digits [of "nat (- i)"]
    by (simp add: show_int_def atoi_def takeWhile_digits dec_val_show_nat)
next
  case False
  then show ?thesis by (simp add: show_int_def)
qed

section \<open>Searching\<close>

text \<open>\<open>strchr(s, c)\<close> as the suffix that starts at the first \<open>c\<close> of the C string \<open>s\<close>.\<close>

fun strchr :: "string \<Rightarrow> char \<Rightarrow> string option" where
  "strchr [] c = None"
| "strchr (x # xs) c = (if x = c then Some (x # xs) else strchr xs c)"

fun strstr :: "string \<Rightarrow> string \<Rightarrow> string option" where
  "strstr [] p = (if p = [] then Some [] else None)"
| "strstr (x # xs) p = (if take (length p) (x # xs) = p then Some (x # xs) else strstr xs p)"

lemma strchr_None_iff: "strchr s c = None \<longleftrightarrow> c \<notin> set s"
  by (induction s) auto

lemma strchr_Some: "strchr s c = Some t \<Longrightarrow> \<exists>a. s = a @ t \<and> c \<notin> set a \<and> (\<exists>r. t = c # r)"
proof (induction s)
  case Nil
  then show ?case by simp
next
  case (Cons x s)
  show ?case
  proof (cases "x = c")
    case True
    with Cons.prems show ?thesis by auto
  next
    case False
    with Cons.prems Cons.IH obtain a where "s = a @ t" "c \<notin> set a" "\<exists>r. t = c # r" by auto
    with False show ?thesis by (intro exI [of _ "x # a"]) auto
  qed
qed

lemma strchr_append: "c \<notin> set a \<Longrightarrow> strchr (a @ c # r) c = Some (c # r)"
  by (induction a) auto

section \<open>IPv4 addresses\<close>

text \<open>The bytes of an \<open>in_addr\<close>, in memory (network) order.\<close>

definition ip_byte :: "nat \<Rightarrow> 32 word \<Rightarrow> nat" where
  "ip_byte k a = unat a div 256 ^ k mod 256"

definition inet_ntoa :: "32 word \<Rightarrow> string" where
  "inet_ntoa a = show_nat (ip_byte 0 a) @ ''.'' @ show_nat (ip_byte 1 a) @ ''.''
     @ show_nat (ip_byte 2 a) @ ''.'' @ show_nat (ip_byte 3 a)"

fun split_on :: "char \<Rightarrow> string \<Rightarrow> string list" where
  "split_on c [] = [[]]"
| "split_on c (x # xs) =
     (if x = c then [] # split_on c xs
      else (case split_on c xs of [] \<Rightarrow> [[x]] | p # ps \<Rightarrow> (x # p) # ps))"

definition inet_part :: "string \<Rightarrow> nat option" where
  "inet_part s =
     (if s \<noteq> [] \<and> (\<forall>c\<in>set s. is_digit c) \<and> (length s = 1 \<or> hd s \<noteq> CHR ''0'') \<and> dec_val s < 256
      then Some (dec_val s) else None)"

definition INADDR_NONE :: "32 word" where
  "INADDR_NONE = -1"

definition inet_addr :: "string \<Rightarrow> 32 word" where
  "inet_addr s =
     (case map inet_part (split_on (CHR ''.'') s) of
        [Some a, Some b, Some c, Some d] \<Rightarrow> word_of_nat (a + 256 * b + 256 ^ 2 * c + 256 ^ 3 * d)
      | _ \<Rightarrow> INADDR_NONE)"

lemma split_on_none: "c \<notin> set a \<Longrightarrow> split_on c a = [a]"
  by (induction a) auto

lemma split_on_append: "c \<notin> set a \<Longrightarrow> split_on c (a @ c # r) = a # split_on c r"
  by (induction a) auto

lemma dot_notin_show_nat: "CHR ''.'' \<notin> set (show_nat n)"
  using show_nat_digits [of n] is_digit_not(5) by blast

lemma show_nat_hd: "0 < n \<Longrightarrow> hd (show_nat n) \<noteq> CHR ''0''"
proof (induction n rule: show_nat.induct)
  case (1 n)
  show ?case
  proof (cases "n < 10")
    case True
    have "of_char (digit_char n) \<noteq> (of_char (CHR ''0'') :: nat)"
      using True 1(2) by (simp add: of_char_digit_char)
    with True show ?thesis by (metis list.sel(1) show_nat.simps)
  next
    case False
    with 1 have "hd (show_nat (n div 10)) \<noteq> CHR ''0''" by simp
    with False show ?thesis by (simp add: show_nat.simps [of n] hd_append)
  qed
qed

lemma inet_part_show_nat: "n < 256 \<Longrightarrow> inet_part (show_nat n) = Some n"
  using show_nat_hd [of n] show_nat_digits [of n] dec_val_show_nat [of n]
  by (cases "n = 0") (auto simp: inet_part_def show_nat.simps [of 0])

lemma ip_byte_less: "ip_byte k a < 256"
  by (simp add: ip_byte_def)

lemma word_bytes_sum:
  "n < 4294967296 \<Longrightarrow> n mod 256 + 256 * (n div 256 mod 256) + 65536 * (n div 65536 mod 256)
     + 16777216 * (n div 16777216 mod 256) = (n::nat)"
proof -
  assume "n < 4294967296"
  then have top: "n div 16777216 mod 256 = n div 16777216" by simp
  have d: "n div 65536 = n div 256 div 256" "n div 16777216 = n div 256 div 256 div 256"
    by (simp_all add: div_mult2_eq [symmetric])
  have "n mod 256 + 256 * (n div 256 mod 256 + 256 * (n div 256 div 256 mod 256
      + 256 * (n div 256 div 256 div 256))) = n"
    by (simp only: mod_mult_div_eq)
  then show ?thesis unfolding top unfolding d by (simp only: distrib_left mult.assoc [symmetric])
qed

text \<open>\<open>inet_addr\<close> reads back what \<open>inet_ntoa\<close> prints.\<close>

lemma inet_addr_ntoa: "inet_addr (inet_ntoa a) = a"
proof -
  let ?s = "\<lambda>k. show_nat (ip_byte k a)"
  have "split_on (CHR ''.'') (inet_ntoa a) = [?s 0, ?s 1, ?s 2, ?s 3]"
    unfolding inet_ntoa_def
    by (simp add: split_on_append split_on_none dot_notin_show_nat)
  then have "inet_addr (inet_ntoa a) = word_of_nat (ip_byte 0 a + 256 * ip_byte 1 a
      + 256 ^ 2 * ip_byte 2 a + 256 ^ 3 * ip_byte 3 a)"
    by (simp add: inet_addr_def inet_part_show_nat ip_byte_less)
  also have "ip_byte 0 a + 256 * ip_byte 1 a + 256 ^ 2 * ip_byte 2 a + 256 ^ 3 * ip_byte 3 a
      = unat a"
    using word_bytes_sum [of "unat a"] unsigned_less [of a, where ?'a = nat]
    by (simp add: ip_byte_def)
  finally show ?thesis by (simp del: of_nat_add)
qed

lemma show_nat_bound: "n < 10 ^ Suc k \<Longrightarrow> length (show_nat n) \<le> Suc k"
proof (induction k arbitrary: n)
  case 0
  then show ?case by (simp add: show_nat.simps [of n])
next
  case (Suc k)
  then have "n div 10 < 10 ^ Suc k" by (simp add: less_mult_imp_div_less mult.commute)
  from Suc.IH [OF this] show ?case by (simp add: show_nat.simps [of n])
qed

lemma show_nat_length: "n < 256 \<Longrightarrow> length (show_nat n) \<le> 3"
  by (simp add: show_nat.simps [of n] show_nat.simps [of "n div 10"] show_nat.simps [of "n div 10 div 10"])

lemma inet_ntoa_length: "length (inet_ntoa a) \<le> 15"
  using show_nat_length [OF ip_byte_less, of 0 a] show_nat_length [OF ip_byte_less, of 1 a]
    show_nat_length [OF ip_byte_less, of 2 a] show_nat_length [OF ip_byte_less, of 3 a]
  by (simp add: inet_ntoa_def)

lemma nulfree_inet_ntoa [simp]: "nulfree (inet_ntoa a)"
  by (simp add: inet_ntoa_def NUL_def)

end
