(* ===== verification/Proto.thy ===== *)
theory Proto
  imports CText
begin

text \<open>
  \<open>src/server/proto.h\<close>: the message types and the layout of the messages. The
  sizes and offsets are those of the structs on x86-64 (4-byte \<open>int\<close>, 8-byte
  \<open>time_t\<close> aligned to 8), which the server relies on when it casts a receive buffer to
  a struct.
\<close>

section \<open>Message types\<close>

definition CMD_SENDUI :: "32 word" where "CMD_SENDUI = 0xfffe"
definition CMD_GETREMOTE :: "32 word" where "CMD_GETREMOTE = 0xfffd"
definition CMD_GETREMOTE_ACK :: "32 word" where "CMD_GETREMOTE_ACK = 0xfffc"
definition CMD_HANDSHAKE :: "32 word" where "CMD_HANDSHAKE = 0xfffb"
definition CMD_HANDSHAKE_ACK :: "32 word" where "CMD_HANDSHAKE_ACK = 0xfffa"
definition CMD_GETALLUSER :: "32 word" where "CMD_GETALLUSER = 0xfff9"
definition CMD_GETALLUSER_ACK :: "32 word" where "CMD_GETALLUSER_ACK = 0xfff8"
definition CMD_HEARTBEAT :: "32 word" where "CMD_HEARTBEAT = 0xfff1"

lemmas cmd_defs = CMD_SENDUI_def CMD_GETREMOTE_def CMD_GETREMOTE_ACK_def CMD_HANDSHAKE_def
  CMD_HANDSHAKE_ACK_def CMD_GETALLUSER_def CMD_GETALLUSER_ACK_def CMD_HEARTBEAT_def

section \<open>Sizes and offsets\<close>

text \<open>\<open>struct stJQMessage\<close> is the 8-byte header of every message; the payload follows it.\<close>

definition sizeof_stJQMessage :: nat where "sizeof_stJQMessage = 8"
definition sizeof_userId :: nat where "sizeof_userId = 10"
definition sizeof_passwd :: nat where "sizeof_passwd = 7"
definition sizeof_info :: nat where "sizeof_info = 256"
definition sizeof_HandshakeAckMessage :: nat where "sizeof_HandshakeAckMessage = sizeof_info"
definition sizeof_SendUIMessage :: nat where "sizeof_SendUIMessage = sizeof_userId + sizeof_passwd"
definition sizeof_GetRemoteMessage :: nat where
  "sizeof_GetRemoteMessage = sizeof_userId + sizeof_passwd"
definition sizeof_GetRemoteAckMessage :: nat where
  "sizeof_GetRemoteAckMessage = 4 + 4 + 4 + sizeof_info"

text \<open>
  \<open>struct JQUserNode\<close>: now at 0, client_ip_addr[20] at 8, client_port at 28, UsrhashId[10]
  at 32, passwd[7] at 42; 49 bytes, padded to 56 by the alignment of \<open>time_t\<close>.
  In \<open>struct GetAllUserAckMessage\<close> the \<open>node\<close> array follows \<open>int cnt\<close> at offset 8.
\<close>

definition off_node_ip :: nat where "off_node_ip = 8"
definition off_node_port :: nat where "off_node_port = 28"
definition off_node_user :: nat where "off_node_user = 32"
definition off_node_passwd :: nat where "off_node_passwd = 42"
definition sizeof_JQUserNode :: nat where "sizeof_JQUserNode = 56"
definition off_nodes :: nat where "off_nodes = 8"

lemmas layout_defs = sizeof_stJQMessage_def sizeof_userId_def sizeof_passwd_def sizeof_info_def
  sizeof_HandshakeAckMessage_def sizeof_SendUIMessage_def sizeof_GetRemoteMessage_def
  sizeof_GetRemoteAckMessage_def off_node_ip_def off_node_port_def off_node_user_def
  off_node_passwd_def sizeof_JQUserNode_def off_nodes_def

section \<open>The header\<close>

record stJQMessage =
  iMessageType :: "32 word"
  iMessageLen :: "32 word"

definition put_header :: "stJQMessage \<Rightarrow> string" where
  "put_header h = put32 (iMessageType h) @ put32 (iMessageLen h)"

definition get_header :: "string \<Rightarrow> stJQMessage" where
  "get_header b = \<lparr>iMessageType = get32 b, iMessageLen = get32 (drop 4 b)\<rparr>"

interpretation hdr: codec put_header get_header 8
  by unfold_locales (simp_all add: put_header_def get_header_def)

lemma put_header_length [simp, c_simps]: "length (put_header h) = 8"
  by (rule hdr.enc_width)

text \<open>The payload fields of \<open>SendUIMessage\<close> and \<open>GetRemoteMessage\<close>, as the handler casts them.\<close>

definition msg_userId :: "string \<Rightarrow> string" where
  "msg_userId b = drop sizeof_stJQMessage b"

definition msg_passwd :: "string \<Rightarrow> string" where
  "msg_passwd b = drop (sizeof_stJQMessage + sizeof_userId) b"

section \<open>What a client reads out of a reply\<close>

record GetRemoteAckMessage =
  ack_flag :: "32 word"
  ack_ip :: "32 word"
  ack_port :: "32 word"
  ack_info :: string

definition get_remote_ack :: "string \<Rightarrow> GetRemoteAckMessage" where
  "get_remote_ack b =
     \<lparr>ack_flag = get32 (drop 8 b), ack_ip = get32 (drop 12 b), ack_port = get32 (drop 16 b),
      ack_info = cstr (take sizeof_info (drop 20 b))\<rparr>"

record JQUserNode =
  jq_now :: "64 word"
  jq_ip :: string
  jq_port :: "32 word"
  jq_user :: string
  jq_passwd :: string

text \<open>The fields of one \<open>JQUserNode\<close> at the front of the bytes \<open>b\<close>.\<close>

definition get_node :: "string \<Rightarrow> JQUserNode" where
  "get_node b =
     \<lparr>jq_now = get64 b,
      jq_ip = cstr (take (off_node_port - off_node_ip) (drop off_node_ip b)),
      jq_port = get32 (drop off_node_port b),
      jq_user = cstr (take sizeof_userId (drop off_node_user b)),
      jq_passwd = cstr (take sizeof_passwd (drop off_node_passwd b))\<rparr>"

text \<open>A node's fields lie in its first 49 bytes.\<close>

definition node_extent :: nat where "node_extent = off_node_passwd + sizeof_passwd"

lemma get_node_take: "node_extent \<le> n \<Longrightarrow> get_node (take n b) = get_node b"
  by (simp add: get_node_def node_extent_def layout_defs drop_take get32_take get64_take min_def)

text \<open>The \<open>i\<close>-th node of a \<open>CMD_GETALLUSER_ACK\<close> reply, and its count.\<close>

definition reply_cnt :: "string \<Rightarrow> 32 word" where
  "reply_cnt b = get32 (drop sizeof_stJQMessage b)"

definition reply_node :: "nat \<Rightarrow> string \<Rightarrow> JQUserNode" where
  "reply_node i b = get_node (drop (sizeof_stJQMessage + off_nodes + i * sizeof_JQUserNode) b)"

end
