(* ===== verification/Layouts.thy ===== *)
theory Layouts
  imports Proto
begin

text \<open>
  The structs of \<open>src/server/proto.h\<close> and of the Windows client's own copy of it
  (\<open>src/Win32ClientTest/Win32ClientTest/Proto.h\<close>), with the C rules for offsets and sizes. They give
  the offsets the rest of the development uses, and both programs have the same ones.
\<close>

section \<open>Sizes, alignments and offsets\<close>

text \<open>
  On both platforms an \<open>int\<close> has 4 bytes and a \<open>time_t\<close> 8 (the 64-bit \<open>time_t\<close> of Visual C++ on
  Windows), each aligned to its size. An array of structs has its element's fields and a length.
\<close>

datatype c_type =
    C_int
  | C_time_t
  | C_chars nat
  | C_structs "(string \<times> c_type) list" nat

definition round_up :: "nat \<Rightarrow> nat \<Rightarrow> nat" where
  "round_up off a = (off + a - 1) div a * a"

fun align_of :: "c_type \<Rightarrow> nat" and aligns :: "(string \<times> c_type) list \<Rightarrow> nat" where
  "align_of C_int = 4"
| "align_of C_time_t = 8"
| "align_of (C_chars n) = 1"
| "align_of (C_structs fs n) = aligns fs"
| "aligns [] = 1"
| "aligns ((x, t) # fs) = max (align_of t) (aligns fs)"

fun size_of :: "c_type \<Rightarrow> nat" and end_of :: "nat \<Rightarrow> (string \<times> c_type) list \<Rightarrow> nat" where
  "size_of C_int = 4"
| "size_of C_time_t = 8"
| "size_of (C_chars n) = n"
| "size_of (C_structs fs n) = n * round_up (end_of 0 fs) (aligns fs)"
| "end_of off [] = off"
| "end_of off ((x, t) # fs) = end_of (round_up off (align_of t) + size_of t) fs"

definition sizeof :: "(string \<times> c_type) list \<Rightarrow> nat" where
  "sizeof fs = round_up (end_of 0 fs) (aligns fs)"

fun offset_from :: "nat \<Rightarrow> string \<Rightarrow> (string \<times> c_type) list \<Rightarrow> nat option" where
  "offset_from off x [] = None"
| "offset_from off x ((y, t) # fs) =
     (let o1 = round_up off (align_of t) in
      if x = y then Some o1 else offset_from (o1 + size_of t) x fs)"

definition offsetof :: "(string \<times> c_type) list \<Rightarrow> string \<Rightarrow> nat option" where
  "offsetof fs x = offset_from 0 x fs"

section \<open>The structs\<close>

datatype struct_name =
    JQMessage | JQAckMessage | HandshakeMsg | HandshakeAckMsg | SendUIMsg | GetRemoteMsg
  | GetRemoteAckMsg | HeartBeatMsg | UserNode | GetAllUserAckMsg

text \<open>The server's header.\<close>

definition user_node :: "(string \<times> c_type) list" where
  "user_node = [(''now'', C_time_t), (''client_ip_addr'', C_chars 20), (''client_port'', C_int),
     (''UsrhashId'', C_chars 10), (''passwd'', C_chars 7)]"

fun struct_fields :: "struct_name \<Rightarrow> (string \<times> c_type) list" where
  "struct_fields JQMessage = [(''iMessageType'', C_int), (''iMessageLen'', C_int)]"
| "struct_fields JQAckMessage = [(''iMessageType'', C_int), (''iMessageLen'', C_int), (''info'', C_chars 512)]"
| "struct_fields HandshakeMsg = [(''greetings'', C_chars 256)]"
| "struct_fields HandshakeAckMsg = [(''info'', C_chars 256)]"
| "struct_fields SendUIMsg = [(''userId'', C_chars 10), (''passwd'', C_chars 7)]"
| "struct_fields GetRemoteMsg = [(''userId'', C_chars 10), (''passwd'', C_chars 7)]"
| "struct_fields GetRemoteAckMsg = [(''flag'', C_int), (''ip'', C_int), (''port'', C_int), (''info'', C_chars 256)]"
| "struct_fields HeartBeatMsg = [(''iMessageType'', C_int)]"
| "struct_fields UserNode = user_node"
| "struct_fields GetAllUserAckMsg = [(''cnt'', C_int), (''node'', C_structs user_node 1)]"

text \<open>The Windows client's header.\<close>

definition win_user_node :: "(string \<times> c_type) list" where
  "win_user_node = [(''now'', C_time_t), (''client_ip_addr'', C_chars 20), (''client_port'', C_int),
     (''UsrhashId'', C_chars 10), (''passwd'', C_chars 7)]"

fun win_fields :: "struct_name \<Rightarrow> (string \<times> c_type) list" where
  "win_fields JQMessage = [(''iMessageType'', C_int), (''iMessageLen'', C_int)]"
| "win_fields JQAckMessage = [(''iMessageType'', C_int), (''iMessageLen'', C_int), (''info'', C_chars 512)]"
| "win_fields HandshakeMsg = [(''greetings'', C_chars 256)]"
| "win_fields HandshakeAckMsg = [(''info'', C_chars 256)]"
| "win_fields SendUIMsg = [(''userId'', C_chars 10), (''passwd'', C_chars 7)]"
| "win_fields GetRemoteMsg = [(''userId'', C_chars 10), (''passwd'', C_chars 7)]"
| "win_fields GetRemoteAckMsg = [(''flag'', C_int), (''ip'', C_int), (''port'', C_int), (''info'', C_chars 256)]"
| "win_fields HeartBeatMsg = [(''iMessageType'', C_int)]"
| "win_fields UserNode = win_user_node"
| "win_fields GetAllUserAckMsg = [(''cnt'', C_int), (''node'', C_structs win_user_node 1)]"

text \<open>The codes of the Windows client's header.\<close>

datatype command_name =
    Sendui | Getremote | Getremote_ack | Handshake | Handshake_ack | Getalluser | Getalluser_ack | Heartbeat

fun win_code :: "command_name \<Rightarrow> 32 word" where
  "win_code Sendui = 0xfffe"
| "win_code Getremote = 0xfffd"
| "win_code Getremote_ack = 0xfffc"
| "win_code Handshake = 0xfffb"
| "win_code Handshake_ack = 0xfffa"
| "win_code Getalluser = 0xfff9"
| "win_code Getalluser_ack = 0xfff8"
| "win_code Heartbeat = 0xfff1"

section \<open>The layouts of the development\<close>

lemma struct_sizes:
  "sizeof (struct_fields JQMessage) = sizeof_stJQMessage"
  "sizeof (struct_fields HandshakeAckMsg) = sizeof_HandshakeAckMessage"
  "sizeof (struct_fields SendUIMsg) = sizeof_SendUIMessage"
  "sizeof (struct_fields GetRemoteMsg) = sizeof_GetRemoteMessage"
  "sizeof (struct_fields GetRemoteAckMsg) = sizeof_GetRemoteAckMessage"
  "sizeof (struct_fields UserNode) = sizeof_JQUserNode"
  by (simp_all add: sizeof_def round_up_def layout_defs user_node_def)

lemma struct_offsets:
  "offsetof (struct_fields JQMessage) ''iMessageLen'' = Some 4"
  "offsetof (struct_fields SendUIMsg) ''passwd'' = Some sizeof_userId"
  "offsetof (struct_fields GetRemoteAckMsg) ''info'' = Some 12"
  "offsetof (struct_fields UserNode) ''client_ip_addr'' = Some off_node_ip"
  "offsetof (struct_fields UserNode) ''client_port'' = Some off_node_port"
  "offsetof (struct_fields UserNode) ''UsrhashId'' = Some off_node_user"
  "offsetof (struct_fields UserNode) ''passwd'' = Some off_node_passwd"
  "offsetof (struct_fields GetAllUserAckMsg) ''node'' = Some off_nodes"
  by (simp_all add: offsetof_def round_up_def layout_defs user_node_def)

text \<open>An array of users in a reply is longer by 56 bytes per user.\<close>

lemma users_size:
  "sizeof [(''cnt'', C_int), (''node'', C_structs (struct_fields UserNode) n)] = off_nodes + n * sizeof_JQUserNode"
proof -
  have "(15 + n * 56) div 8 = 1 + n * (7::nat)" by presburger
  then show ?thesis by (simp add: sizeof_def round_up_def layout_defs user_node_def)
qed

text \<open>The client reads the fields where the server writes them, and knows the same codes.\<close>

lemma win_layout: "sizeof (win_fields st) = sizeof (struct_fields st)"
    "offsetof (win_fields st) x = offsetof (struct_fields st) x"
  by (cases st; simp add: user_node_def win_user_node_def)+

lemma win_codes:
  "win_code Sendui = CMD_SENDUI" "win_code Getremote = CMD_GETREMOTE" "win_code Getremote_ack = CMD_GETREMOTE_ACK"
  "win_code Handshake = CMD_HANDSHAKE" "win_code Handshake_ack = CMD_HANDSHAKE_ACK"
  "win_code Getalluser = CMD_GETALLUSER" "win_code Getalluser_ack = CMD_GETALLUSER_ACK"
  "win_code Heartbeat = CMD_HEARTBEAT"
  by (simp_all add: cmd_defs)

end
