(* ===== verification/Effects.thy ===== *)
theory Effects
  imports CText
begin

text \<open>
  The calls that leave the process, recorded in order: what is logged (the level, the
  \<open>__FUNCTION__\<close> and \<open>__LINE__\<close> of the \<open>LOG_INFO\<close> and the formatted message, or a bare \<open>log_s\<close>), printed,
  written to a socket, closed, or registered with epoll, the options set on sockets, and the database
  connections closed. The last constructors are calls of the test clients: connecting, starting a
  thread, waiting, setting and killing a timer, \<open>WSAIoctl\<close> and \<open>WSACleanup\<close>.
\<close>

datatype effect =
    Log nat string nat string
  | Log_s nat string
  | Print string
  | Send int string
  | Shutdown int
  | Close int
  | EpollAdd int
  | EpollDel int
  | Sleep nat
  | SetBlockOpt int
  | SockOpt int string int
  | Listen int int
  | Mysql_close nat
  | Connect int string int
  | Thread string
  | Sleep_ms nat
  | Set_timer nat nat
  | Kill_timer nat
  | Ioctl int string "int list"
  | Wsa_cleanup

text \<open>The levels of \<open>log.h\<close>.\<close>

definition LOG_LEVEL_INDISPENSABLE :: nat where "LOG_LEVEL_INDISPENSABLE = 1"
definition LOG_LEVEL_FATAL :: nat where "LOG_LEVEL_FATAL = 2"
definition LOG_LEVEL_ERROR :: nat where "LOG_LEVEL_ERROR = 3"
definition LOG_LEVEL_WARNING :: nat where "LOG_LEVEL_WARNING = 4"
definition LOG_LEVEL_DEBUG :: nat where "LOG_LEVEL_DEBUG = 5"
definition LOG_LEVEL_INFO :: nat where "LOG_LEVEL_INFO = 6"

definition nl :: string where "nl = [CHR 0x0A]"

lemma nulfree_nl [simp]: "nulfree nl"
  by (simp add: nl_def NUL_def)

text \<open>The bytes a run of effects writes to a socket, and the sockets it closes.\<close>

fun sent_to :: "int \<Rightarrow> effect list \<Rightarrow> string" where
  "sent_to s [] = []"
| "sent_to s (Send t b # es) = (if t = s then b @ sent_to s es else sent_to s es)"
| "sent_to s (_ # es) = sent_to s es"

fun closed :: "effect list \<Rightarrow> int list" where
  "closed [] = []"
| "closed (Close s # es) = s # closed es"
| "closed (_ # es) = closed es"

text \<open>
  The sockets that are registered with epoll and have not been closed since, from those of before:
  what a descriptor that is not open is, as far as the program's own calls tell.
\<close>

fun opens :: "int set \<Rightarrow> effect list \<Rightarrow> int set" where
  "opens A [] = A"
| "opens A (EpollAdd s # es) = opens (insert s A) es"
| "opens A (Close s # es) = opens (A - {s}) es"
| "opens A (_ # es) = opens A es"

abbreviation open_fds :: "effect list \<Rightarrow> int set" where
  "open_fds \<equiv> opens {}"

lemma opens_append [simp]: "opens A (a @ b) = opens (opens A a) b"
  by (induction A a rule: opens.induct) auto

lemma opens_keeps: "x \<in> A \<Longrightarrow> x \<notin> set (closed es) \<Longrightarrow> x \<in> opens A es"
  by (induction A es rule: opens.induct) auto

lemma sent_to_append [simp]: "sent_to s (a @ b) = sent_to s a @ sent_to s b"
  by (induction s a rule: sent_to.induct) auto

lemma closed_append [simp]: "closed (a @ b) = closed a @ closed b"
  by (induction a rule: closed.induct) auto

end
