(* ===== verification/Clients.thy ===== *)
theory Clients
  imports Layouts Effects
begin

text \<open>
  The two test clients: the packets of the Windows client
  (\<open>src/Win32ClientTest/Win32ClientTest/Win32ClientTest.cpp\<close>), its command line and what it does
  with a reply, and the session of the Linux client (\<open>src/client_test/JQClient.c\<close>).
\<close>

section \<open>The packets of the Windows client\<close>

text \<open>Each function clears 512 bytes of the buffer and returns it with the packet's length.\<close>

definition ConstructHandShakePkt :: "string \<Rightarrow> string \<Rightarrow> (string \<times> nat) result" where
  "ConstructHandShakePkt buf greets =
     and_then (write_at 0 (replicate 512 NUL) buf) (\<lambda>b.
     and_then (write_at 0 (put32 CMD_HANDSHAKE) b) (\<lambda>b.
     and_then (write_at sizeof_stJQMessage (cstr greets) b) (\<lambda>b.
     let len = sizeof_stJQMessage + length (cstr greets) + 1 in
     and_then (write_at 4 (put32 (word_of_nat len)) b) (\<lambda>b. Inr (b, len)))))"

definition ConstructSendUIPkt :: "string \<Rightarrow> string \<Rightarrow> string \<Rightarrow> (string \<times> nat) result" where
  "ConstructSendUIPkt buf userId passwd =
     and_then (write_at 0 (replicate 512 NUL) buf) (\<lambda>b.
     and_then (write_at 0 (put32 CMD_SENDUI) b) (\<lambda>b.
     and_then (strcpy_at sizeof_stJQMessage sizeof_userId userId b) (\<lambda>b.
     and_then (strcpy_at (sizeof_stJQMessage + sizeof_userId) sizeof_passwd passwd b) (\<lambda>b.
     let len = sizeof_stJQMessage + sizeof_SendUIMessage in
     and_then (write_at 4 (put32 (word_of_nat len)) b) (\<lambda>b. Inr (b, len))))))"

definition ConstructGetRemotePkt :: "string \<Rightarrow> string \<Rightarrow> string \<Rightarrow> (string \<times> nat) result" where
  "ConstructGetRemotePkt buf userId passwd =
     and_then (write_at 0 (replicate 512 NUL) buf) (\<lambda>b.
     and_then (write_at 0 (put32 CMD_GETREMOTE) b) (\<lambda>b.
     and_then (strcpy_at sizeof_stJQMessage sizeof_userId userId b) (\<lambda>b.
     and_then (strcpy_at (sizeof_stJQMessage + sizeof_userId) sizeof_passwd passwd b) (\<lambda>b.
     let len = sizeof_stJQMessage + sizeof_GetRemoteMessage in
     and_then (write_at 4 (put32 (word_of_nat len)) b) (\<lambda>b. Inr (b, len))))))"

definition ConstructGetAllUserPkt :: "string \<Rightarrow> (string \<times> nat) result" where
  "ConstructGetAllUserPkt buf =
     and_then (write_at 0 (replicate 512 NUL) buf) (\<lambda>b.
     and_then (write_at 0 (put32 CMD_GETALLUSER) b) (\<lambda>b.
     let len = sizeof_stJQMessage in
     and_then (write_at 4 (put32 (word_of_nat len)) b) (\<lambda>b. Inr (b, len))))"

text \<open>The timer's message, a \<open>struct HeartBeatMessage\<close>; it is sent once the socket is known.\<close>

definition TimeProc :: "int \<Rightarrow> effect list" where
  "TimeProc sockSrvInTimer =
     (if sockSrvInTimer \<noteq> 0 then [Send sockSrvInTimer (put32 CMD_HEARTBEAT)]
      else [Print (''socket fd have lost! '' @ nl)])"

section \<open>The command line of the Windows client\<close>

text \<open>
  What \<open>ParseCommand\<close> does with a line: it rejects it, ends the program, sends a packet, or falls
  off its end. The message for a rejected line, in a Chinese encoding, is left out.
\<close>

datatype command_res = Rejected | Exited | Sent string "effect list" | No_command

definition ParseCommand :: "string \<Rightarrow> command_res result" where
  "ParseCommand CommandLine =
     and_then (str_at 0 CommandLine) (\<lambda>line.
       if length line < 4 then Inr Rejected
       else
         (let Command = take 4 line in
          if Command = ''exit'' then Inr Exited
          else if Command = ''getu'' then
            and_then (ConstructGetRemotePkt (replicate 1024 NUL) (''876543210'' @ [NUL]) (''CiGeWK'' @ [NUL]))
              (\<lambda>(b, pktlen). Inr (Sent (take pktlen b) [Print (''Send command to get remote address'' @ nl)]))
          else if Command = ''allu'' then
            and_then (ConstructGetAllUserPkt (replicate 1024 NUL))
              (\<lambda>(b, pktlen). Inr (Sent (take pktlen b) [Print (''Send command to get All user '' @ nl)]))
          else Inr No_command))"

section \<open>What the Windows client does with a reply\<close>

definition int_at :: "nat \<Rightarrow> string \<Rightarrow> int result" where
  "int_at off b = and_then (read_at off 4 b) (\<lambda>w. Inr (sint (get32 w)))"

text \<open>One line of the user list; \<open>off\<close> is the offset of the node. Of \<open>now\<close> the low half is printed.\<close>

definition show_node :: "nat \<Rightarrow> string \<Rightarrow> string result" where
  "show_node off b =
     and_then (str_at (off + off_node_user) b) (\<lambda>user.
     and_then (str_at (off + off_node_passwd) b) (\<lambda>passwd.
     and_then (str_at (off + off_node_ip) b) (\<lambda>ip.
     and_then (int_at (off + off_node_port) b) (\<lambda>port.
     and_then (int_at off b) (\<lambda>now.
       Inr (user @ ''  '' @ passwd @ ''   '' @ ip @ '' '' @ show_int port @ '' '' @ show_int now @ nl))))))"

fun show_nodes :: "nat \<Rightarrow> nat \<Rightarrow> string \<Rightarrow> string result" where
  "show_nodes 0 off b = Inr []"
| "show_nodes (Suc n) off b =
     and_then (show_node off b) (\<lambda>l.
     and_then (show_nodes n (off + sizeof_JQUserNode) b) (\<lambda>ls. Inr (l @ ls)))"

text \<open>
  The \<open>switch\<close> of \<open>recv_func\<close> on what it prints; the text before other messages, in a Chinese
  encoding, is left out.
\<close>

definition show_reply :: "string \<Rightarrow> string result" where
  "show_reply recvBuf =
     (let ty = iMessageType (get_header recvBuf) in
      if ty = CMD_HANDSHAKE_ACK then
        and_then (str_at sizeof_stJQMessage recvBuf) (\<lambda>i. Inr (''[HANDSHAKE ACK] '' @ i @ nl))
      else if ty = CMD_GETREMOTE_ACK then
        and_then (str_at (sizeof_stJQMessage + 12) recvBuf) (\<lambda>i. Inr (''[GETREMOTE ACK] '' @ i @ nl))
      else if ty = CMD_GETALLUSER_ACK then
        and_then (int_at sizeof_stJQMessage recvBuf) (\<lambda>cnt.
        and_then (show_nodes (nat cnt) (sizeof_stJQMessage + off_nodes) recvBuf) (\<lambda>ls.
          Inr (''user list:'' @ nl @ ''userId   |   Password  | IP | port | create time'' @ nl @ ls)))
      else and_then (str_at 8 recvBuf) (\<lambda>s. Inr (s @ nl)))"

text \<open>One turn of \<open>recv_func\<close>: \<open>recv\<close> may write up to 1024 bytes into \<open>recvBuf[256]\<close>.\<close>

definition recv_turn :: "string \<Rightarrow> string \<Rightarrow> (string \<times> string) result" where
  "recv_turn bytes recvBuf =
     and_then (write_at 0 bytes recvBuf) (\<lambda>b. and_then (show_reply b) (\<lambda>p. Inr (p, b)))"

section \<open>The Linux client\<close>

definition linux_CMD_SENDUI :: "32 word" where "linux_CMD_SENDUI = 0xfffe"
definition linux_CMD_GETREMOTE :: "32 word" where "linux_CMD_GETREMOTE = 0xfffd"
definition linux_CMD_HANDSHAKE :: "32 word" where "linux_CMD_HANDSHAKE = 0xfffc"

definition linux_greets :: string where
  "linux_greets = ''Hello JQServer, I'' @ [CHR 0x27] @ ''m linux client''"

text \<open>The handshake: the type, and the greeting behind a header of four bytes.\<close>

definition linux_handshake :: "string \<Rightarrow> (string \<times> nat) result" where
  "linux_handshake send_buffer =
     and_then (write_at 0 (put32 linux_CMD_HANDSHAKE) send_buffer) (\<lambda>b.
     and_then (write_at 4 linux_greets b) (\<lambda>b.
     let cur_dptr = 4 + length linux_greets in
     and_then (write_at cur_dptr [NUL] b) (\<lambda>b. Inr (b, cur_dptr))))"

text \<open>A login or a request: type, id and password back to back.\<close>

definition linux_credentials :: "32 word \<Rightarrow> string \<Rightarrow> string \<Rightarrow> string \<Rightarrow> (string \<times> nat) result" where
  "linux_credentials ty userId passwd send_buffer =
     and_then (write_at 0 (replicate 1024 NUL) send_buffer) (\<lambda>b.
     and_then (write_at 0 (put32 ty) b) (\<lambda>b.
     and_then (write_at 4 (userId @ [NUL]) b) (\<lambda>b.
     and_then (write_at (4 + 9) (passwd @ [NUL]) b) (\<lambda>b.
     let cur_dptr = 4 + 9 + 6 in
     and_then (write_at cur_dptr [NUL] b) (\<lambda>b. Inr (b, cur_dptr))))))"

definition linux_login :: "string \<Rightarrow> (string \<times> nat) result" where
  "linux_login = linux_credentials linux_CMD_SENDUI ''123456798'' ''WiGeWd''"

definition linux_getremote :: "string \<Rightarrow> (string \<times> nat) result" where
  "linux_getremote = linux_credentials linux_CMD_GETREMOTE ''876543210'' ''CiGeWK''"

text \<open>
  The answers of one session: the socket, what \<open>connect\<close> returns, what the first two
  \<open>write\<close>s return, and the keys the user types, each with what the \<open>write\<close> for it would return.
\<close>

record linux_env =
  lx_fd :: int
  lx_connect :: int
  lx_write1 :: int
  lx_write2 :: int
  lx_keys :: "(char \<times> int) list"

text \<open>What a call of \<open>write\<close> or \<open>send\<close> that returns \<open>n\<close> puts on the wire.\<close>

definition sends :: "int \<Rightarrow> int \<Rightarrow> string \<Rightarrow> effect list" where
  "sends fd n b = (if n \<le> 0 then [] else [Send fd (take (nat n) b)])"

text \<open>
  The loop over the keys: it ends at \<open>q\<close>; \<open>None\<close> is a loop that still waits (or spins, at the
  end of the input, where \<open>getchar\<close> keeps returning \<open>EOF\<close>).
\<close>

fun linux_keys :: "int \<Rightarrow> string \<Rightarrow> (char \<times> int) list \<Rightarrow> (int option \<times> effect list) result" where
  "linux_keys fd send_buffer [] = Inr (None, [])"
| "linux_keys fd send_buffer ((ch, num) # keys) =
     (if ch = CHR ''q'' then Inr (Some 0, [])
      else if ch = CHR ''g'' then
        and_then (linux_getremote send_buffer) (\<lambda>(b, cur_dptr).
        and_then (linux_keys fd b keys) (\<lambda>(r, es). Inr (r, sends fd num (take (cur_dptr + 1) b) @ es)))
      else linux_keys fd send_buffer keys)"

definition G_NET_UPDATE_SERVER_ADDR :: string where "G_NET_UPDATE_SERVER_ADDR = ''127.0.0.1''"

definition connect_to_g_net :: "int \<Rightarrow> linux_env \<Rightarrow> (int option \<times> effect list) result" where
  "connect_to_g_net port env =
     (let fd = lx_fd env; es = [Connect fd G_NET_UPDATE_SERVER_ADDR port] in
      if lx_connect env \<noteq> 0 then Inr (Some 1, es @ [Print (''connect error'' @ nl)])
      else
        and_then (linux_handshake (replicate 1024 NUL)) (\<lambda>(b, cur_dptr).
        and_then (str_at 4 b) (\<lambda>greets.
        and_then (str_at 0 b) (\<lambda>s.
        let num = lx_write1 env;
            es = es @ Print (''send handshake: '' @ greets @ nl @ '' cur_dptr = '' @ show_int (int cur_dptr)
                    @ '' strlen(send_buffer) = '' @ show_int (int (length s)) @ nl)
                  # sends fd num (take (cur_dptr + 1) b) in
        if num \<le> 0 then Inr (Some (-1), es @ [Print (''send error'' @ nl)])
        else
          and_then (linux_login b) (\<lambda>(b, cur_dptr).
          let num = lx_write2 env; es = es @ Thread ''recv_thread'' # sends fd num (take (cur_dptr + 1) b) in
          if num \<le> 0 then Inr (Some (-1), es @ [Print (''send error'' @ nl)])
          else and_then (linux_keys fd b (lx_keys env)) (\<lambda>(r, es'). Inr (r, es @ es')))))))"

text \<open>A turn of \<open>recv_thread\<close> that has received something.\<close>

definition linux_recv_turn :: "string \<Rightarrow> string \<Rightarrow> (string \<times> effect) result" where
  "linux_recv_turn bytes recv_buffer =
     and_then (write_at 0 bytes recv_buffer) (\<lambda>b.
     and_then (str_at 4 b) (\<lambda>s. Inr (b, Print (''recv buffer: '' @ s @ nl))))"

end
