(* ===== verification/EpollConnect.thy ===== *)
theory EpollConnect
  imports Proto
begin

text \<open>
  \<open>src/server/epoll_connect.c\<close> and \<open>epoll_connect.h\<close>: the table of client connections,
  a fixed array of \<open>MAX_EVENTS\<close> slots. A slot is free when its \<open>connect_fd\<close> is -1.
\<close>

section \<open>Data\<close>

definition MAX_EVENTS :: nat where "MAX_EVENTS = 10240"
definition IP_ADDR_LENGTH :: nat where "IP_ADDR_LENGTH = 20"

text \<open>
  One slot. \<open>conn_now\<close> is the field \<open>now\<close>, \<open>conn_passwd\<close> the field \<open>passwd\<close>;
  \<open>mutex\<close> says whether the slot's mutex is held.
\<close>

record EPOLL_CONNECT =
  connect_fd :: int
  socket_status :: int
  conn_now :: int
  client_ip_addr :: string
  client_port :: int
  UsrhashId :: string
  conn_passwd :: string
  mutex :: bool

type_synonym conn_table = "EPOLL_CONNECT list"

section \<open>Operations\<close>

text \<open>\<open>pthread_mutex_lock\<close> of a held mutex blocks; the model reports it.\<close>

definition event_state_lock :: "nat \<Rightarrow> conn_table \<Rightarrow> conn_table result" where
  "event_state_lock i t =
     (if length t \<le> i then Inl OutOfBounds
      else if mutex (t ! i) then Inl Deadlock
      else Inr (t[i := (t ! i)\<lparr>mutex := True\<rparr>]))"

definition event_state_unlock :: "nat \<Rightarrow> conn_table \<Rightarrow> conn_table result" where
  "event_state_unlock i t =
     (if length t \<le> i then Inl OutOfBounds else Inr (t[i := (t ! i)\<lparr>mutex := False\<rparr>]))"

definition zero_slot :: EPOLL_CONNECT where
  "zero_slot = \<lparr>connect_fd = 0, socket_status = 0, conn_now = 0,
     client_ip_addr = replicate IP_ADDR_LENGTH NUL, client_port = 0,
     UsrhashId = replicate sizeof_userId NUL, conn_passwd = replicate sizeof_passwd NUL,
     mutex = False\<rparr>"

definition init_slot :: "EPOLL_CONNECT \<Rightarrow> EPOLL_CONNECT" where
  "init_slot c = c\<lparr>connect_fd := -1, socket_status := 0, mutex := False\<rparr>"

definition init_epoll_connect :: conn_table where
  "init_epoll_connect = map init_slot (replicate MAX_EVENTS zero_slot)"

definition get_epoll_connect_free_event_index :: "conn_table \<Rightarrow> int" where
  "get_epoll_connect_free_event_index t = scan (\<lambda>c. connect_fd c = -1) t"

text \<open>
  \<open>uiClientIP\<close> is the memory the pointer argument points to; \<open>memcpy\<close> reads
  \<open>IP_ADDR_LENGTH\<close> bytes of it. No bound of \<open>iEvent\<close> is checked.
\<close>

definition fill_slot :: "int \<Rightarrow> int \<Rightarrow> string \<Rightarrow> int \<Rightarrow> EPOLL_CONNECT \<Rightarrow> EPOLL_CONNECT" where
  "fill_slot tm iConnectFD ip cliPort c =
     c\<lparr>conn_now := tm, client_ip_addr := ip, client_port := cliPort,
       connect_fd := iConnectFD, socket_status := 1\<rparr>"

definition init_epoll_connect_by_index ::
    "int \<Rightarrow> int \<Rightarrow> int \<Rightarrow> string \<Rightarrow> int \<Rightarrow> conn_table \<Rightarrow> conn_table result" where
  "init_epoll_connect_by_index tm iEvent iConnectFD uiClientIP cliPort t =
     (if iEvent < 0 then Inl OutOfBounds
      else and_then (event_state_lock (nat iEvent) t) (\<lambda>t.
           and_then (read_at 0 IP_ADDR_LENGTH uiClientIP) (\<lambda>ip.
           event_state_unlock (nat iEvent)
             (t[nat iEvent := fill_slot tm iConnectFD ip cliPort (t ! nat iEvent)]))))"

definition get_matched_event_index_by_fd :: "int \<Rightarrow> conn_table \<Rightarrow> int" where
  "get_matched_event_index_by_fd iConnectFD t = scan (\<lambda>c. connect_fd c = iConnectFD) t"

definition get_matched_event_index_by_UsrHashId :: "string \<Rightarrow> conn_table \<Rightarrow> int" where
  "get_matched_event_index_by_UsrHashId u t = scan (\<lambda>c. strncmp_eq 9 (UsrhashId c) u) t"

definition in_range :: "int \<Rightarrow> bool" where
  "in_range index \<longleftrightarrow> 0 \<le> index \<and> index < int MAX_EVENTS"

definition update_time_by_index :: "int \<Rightarrow> int \<Rightarrow> conn_table \<Rightarrow> int \<times> conn_table" where
  "update_time_by_index index tm t =
     (if in_range index then (0, t[nat index := (t ! nat index)\<lparr>conn_now := tm\<rparr>]) else (-1, t))"

definition clear_slot :: "EPOLL_CONNECT \<Rightarrow> EPOLL_CONNECT" where
  "clear_slot c = c\<lparr>connect_fd := -1, socket_status := 0\<rparr>"

definition free_event_by_index :: "int \<Rightarrow> conn_table \<Rightarrow> conn_table result" where
  "free_event_by_index index t =
     (if in_range index then
        and_then (event_state_lock (nat index) t) (\<lambda>t.
          event_state_unlock (nat index) (t[nat index := clear_slot (t ! nat index)]))
      else Inr t)"

definition get_fd_by_event_index :: "int \<Rightarrow> conn_table \<Rightarrow> int" where
  "get_fd_by_event_index index t = (if in_range index then connect_fd (t ! nat index) else -1)"

text \<open>\<open>tm\<close> is the current time, which the out-of-range branch returns.\<close>

definition get_event_connect_time_by_index :: "int \<Rightarrow> int \<Rightarrow> conn_table \<Rightarrow> int" where
  "get_event_connect_time_by_index tm index t =
     (if in_range index then conn_now (t ! nat index) else tm)"

text \<open>The string the returned pointer denotes.\<close>

definition get_client_addr_by_index :: "int \<Rightarrow> conn_table \<Rightarrow> string result" where
  "get_client_addr_by_index index t =
     (if in_range index then str_at 0 (client_ip_addr (t ! nat index)) else Inr ''0.0.0.0'')"

definition get_client_port_by_index :: "int \<Rightarrow> conn_table \<Rightarrow> int" where
  "get_client_port_by_index index t = (if in_range index then client_port (t ! nat index) else -1)"

text \<open>The pointer as the index it points to; \<open>None\<close> is NULL.\<close>

definition get_connect_prv_by_index :: "int \<Rightarrow> conn_table \<Rightarrow> nat option" where
  "get_connect_prv_by_index index t = (if in_range index then Some (nat index) else None)"


section \<open>Every user of the table\<close>

text \<open>
  \<open>get_all_users(NULL, &cnt)\<close> counts the live slots; \<open>get_all_users(buf, &cnt)\<close> writes
  one node per live slot into \<open>userList->node\<close>. \<open>buf\<close> is the memory from the
  \<open>GetAllUserAckMessage\<close> on.
\<close>

definition live :: "EPOLL_CONNECT \<Rightarrow> bool" where
  "live c \<longleftrightarrow> connect_fd c \<noteq> -1"

definition count_users :: "conn_table \<Rightarrow> nat" where
  "count_users t = length (filter live t)"

definition write_node :: "nat \<Rightarrow> EPOLL_CONNECT \<Rightarrow> string \<Rightarrow> string result" where
  "write_node off c buf =
     and_then (write_at off (put64 (word_of_int (conn_now c))) buf) (\<lambda>buf.
     and_then (strcpy_at (off + off_node_ip) IP_ADDR_LENGTH (client_ip_addr c) buf) (\<lambda>buf.
     and_then (write_at (off + off_node_port) (put32 (word_of_int (client_port c))) buf) (\<lambda>buf.
     and_then (strcpy_at (off + off_node_user) sizeof_userId (UsrhashId c) buf) (\<lambda>buf.
     strcpy_at (off + off_node_passwd) sizeof_passwd (conn_passwd c) buf))))"

fun fill_users :: "nat \<Rightarrow> conn_table \<Rightarrow> string \<Rightarrow> string result" where
  "fill_users cnt [] buf = Inr buf"
| "fill_users cnt (c # t) buf =
     (if live c
      then and_then (write_node (off_nodes + cnt * sizeof_JQUserNode) c buf) (fill_users (Suc cnt) t)
      else fill_users cnt t buf)"

text \<open>The two modes: no buffer (the count goes to \<open>*outlen\<close>), or a buffer to fill.\<close>

definition get_all_users :: "string option \<Rightarrow> nat \<Rightarrow> conn_table \<Rightarrow> (string option \<times> nat) result" where
  "get_all_users buf outlen t =
     (case buf of
        None \<Rightarrow> Inr (None, count_users t)
      | Some b \<Rightarrow> and_then (fill_users 0 t b) (\<lambda>b. Inr (Some b, outlen)))"

text \<open>\<open>print_all_users\<close>: what it prints; it reads the first ten slots, live or not.\<close>

definition user_line :: "EPOLL_CONNECT \<Rightarrow> string result" where
  "user_line c =
     and_then (str_at 0 (client_ip_addr c)) (\<lambda>ip.
     and_then (str_at 0 (UsrhashId c)) (\<lambda>u.
     and_then (str_at 0 (conn_passwd c)) (\<lambda>p.
     Inr (show_int (conn_now c) @ '' '' @ ip @ '' '' @ show_int (client_port c) @ '' '' @ u
          @ '' '' @ p @ [CHR 0x0A]))))"

fun user_lines :: "conn_table \<Rightarrow> string result" where
  "user_lines [] = Inr []"
| "user_lines (c # t) = and_then (user_line c) (\<lambda>l. and_then (user_lines t) (\<lambda>ls. Inr (l @ ls)))"

definition print_all_users :: "conn_table \<Rightarrow> string result" where
  "print_all_users t =
     and_then (user_lines (take 10 t))
       (\<lambda>ls. Inr (''Now IP   Port   UserId  Password'' @ [CHR 0x0A] @ ls))"

end
