(* ===== verification/ConnRegistry.thy ===== *)
theory ConnRegistry
  imports EpollConnect
begin

text \<open>
  Correctness of the connection table: its invariant, the abstract view of it as a map
  from socket to peer, the interface (a locale) the accept loop and the event loop rely
  on, and the proof that the operations of \<open>epoll_connect.c\<close> provide it.
\<close>

section \<open>The invariant\<close>

definition conn_ok :: "EPOLL_CONNECT \<Rightarrow> bool" where
  "conn_ok c \<longleftrightarrow> length (client_ip_addr c) = IP_ADDR_LENGTH \<and> terminated (client_ip_addr c)
     \<and> length (UsrhashId c) = sizeof_userId \<and> length (conn_passwd c) = sizeof_passwd
     \<and> \<not> mutex c"

definition distinct_fds :: "conn_table \<Rightarrow> bool" where
  "distinct_fds t \<longleftrightarrow> distinct (map connect_fd (filter live t))"

definition conn_inv :: "conn_table \<Rightarrow> bool" where
  "conn_inv t \<longleftrightarrow> length t = MAX_EVENTS \<and> list_all conn_ok t \<and> distinct_fds t"

text \<open>The name fields hold C strings, which \<open>get_all_users\<close> and \<open>print_all_users\<close> need.\<close>

definition names_ok :: "conn_table \<Rightarrow> bool" where
  "names_ok t \<longleftrightarrow> list_all (\<lambda>c. terminated (UsrhashId c) \<and> terminated (conn_passwd c)) t"

lemma conn_inv_length: "conn_inv t \<Longrightarrow> length t = MAX_EVENTS"
  by (simp add: conn_inv_def)

lemma conn_inv_nth: "conn_inv t \<Longrightarrow> i < MAX_EVENTS \<Longrightarrow> conn_ok (t ! i)"
  by (simp add: conn_inv_def list_all_length)

lemma in_range_iff: "conn_inv t \<Longrightarrow> in_range index \<longleftrightarrow> 0 \<le> index \<and> nat index < length t"
  by (auto simp: in_range_def conn_inv_def)

lemma distinct_fds_iff:
  "distinct_fds t \<longleftrightarrow> (\<forall>i<length t. \<forall>j<length t.
     live (t ! i) \<longrightarrow> connect_fd (t ! i) = connect_fd (t ! j) \<longrightarrow> i = j)"
proof (induction t)
  case Nil
  then show ?case by (simp add: distinct_fds_def)
next
  case (Cons c t)
  have "distinct_fds (c # t) \<longleftrightarrow>
      (live c \<longrightarrow> (\<forall>j<length t. connect_fd c \<noteq> connect_fd (t ! j))) \<and> distinct_fds t"
    unfolding distinct_fds_def
    by (auto simp: live_def in_set_conv_nth image_iff)
  also have "\<dots> \<longleftrightarrow> (\<forall>i<length (c # t). \<forall>j<length (c # t).
     live ((c # t) ! i) \<longrightarrow> connect_fd ((c # t) ! i) = connect_fd ((c # t) ! j) \<longrightarrow> i = j)"
    unfolding Cons.IH by (auto simp: All_less_Suc2 live_def)
  finally show ?case .
qed

section \<open>Slots after locked updates\<close>

lemma locked_update:
  assumes "i < length t" "\<not> mutex (t ! i)"
    "\<And>c b. f (c\<lparr>mutex := b\<rparr>) = (f c)\<lparr>mutex := b\<rparr>"
  shows "and_then (event_state_lock i t) (\<lambda>t. event_state_unlock i (t[i := f (t ! i)]))
         = Inr (t[i := f (t ! i)])"
proof -
  have "f ((t ! i)\<lparr>mutex := False\<rparr>) = f (t ! i)"
    using assms(2) by (cases "t ! i") simp
  with assms(1,2) show ?thesis
    by (simp add: event_state_lock_def event_state_unlock_def assms(3) [symmetric])
qed

lemma free_event_by_index_eq:
  assumes "conn_inv t"
  shows "free_event_by_index index t
         = Inr (if in_range index then t[nat index := clear_slot (t ! nat index)] else t)"
proof (cases "in_range index")
  case True
  then have "nat index < length t" "\<not> mutex (t ! nat index)"
    using assms conn_inv_nth [of t "nat index"]
    by (auto simp: in_range_iff conn_inv_length conn_ok_def)
  then show ?thesis
    using True locked_update [of "nat index" t clear_slot]
    by (simp add: free_event_by_index_def clear_slot_def)
next
  case False
  then show ?thesis by (simp add: free_event_by_index_def)
qed

lemma init_epoll_connect_by_index_eq:
  assumes "conn_inv t" "k < MAX_EVENTS" "IP_ADDR_LENGTH \<le> length ip"
  shows "init_epoll_connect_by_index tm (int k) fd ip port t
         = Inr (t[k := fill_slot tm fd (take IP_ADDR_LENGTH ip) port (t ! k)])"
proof -
  have "k < length t" "\<not> mutex (t ! k)"
    using assms conn_inv_nth [of t k] by (auto simp: conn_inv_length conn_ok_def)
  then show ?thesis
    using locked_update [of k t "fill_slot tm fd (take IP_ADDR_LENGTH ip) port"] assms(3)
    by (simp add: init_epoll_connect_by_index_def read_at_def fill_slot_def)
qed

text \<open>The four slot updates of the program keep the invariant.\<close>

lemma conn_inv_update:
  assumes "conn_inv t" "i < length t" "conn_ok c"
    "live c \<Longrightarrow> \<forall>j<length t. j \<noteq> i \<longrightarrow> connect_fd (t ! j) \<noteq> connect_fd c"
  shows "conn_inv (t[i := c])"
proof -
  have "distinct_fds (t[i := c])"
    unfolding distinct_fds_iff
  proof (intro allI impI)
    fix a b
    assume ab: "a < length (t[i := c])" "b < length (t[i := c])" "live (t[i := c] ! a)"
      "connect_fd (t[i := c] ! a) = connect_fd (t[i := c] ! b)"
    show "a = b"
    proof (cases "a = i \<or> b = i")
      case True
      with ab assms(2,4) show ?thesis
        by (cases "a = i"; cases "b = i") (auto simp: live_def)
    next
      case False
      with ab assms(1) show ?thesis by (auto simp: conn_inv_def distinct_fds_iff)
    qed
  qed
  with assms show ?thesis by (simp add: conn_inv_def)
qed

lemma conn_inv_same_fd:
  assumes "conn_inv t" "i < length t" "conn_ok c" "connect_fd c = connect_fd (t ! i)"
  shows "conn_inv (t[i := c])"
proof (rule conn_inv_update [OF assms(1-3)])
  assume "live c"
  with assms show "\<forall>j<length t. j \<noteq> i \<longrightarrow> connect_fd (t ! j) \<noteq> connect_fd c"
    unfolding conn_inv_def distinct_fds_iff by (metis live_def)
qed

lemma conn_ok_fill_slot:
  "conn_ok c \<Longrightarrow> length ip = IP_ADDR_LENGTH \<Longrightarrow> terminated ip \<Longrightarrow> conn_ok (fill_slot tm fd ip port c)"
  by (simp add: conn_ok_def fill_slot_def)

lemma conn_ok_clear_slot [simp]: "conn_ok (clear_slot c) = conn_ok c"
  by (simp add: conn_ok_def clear_slot_def)

lemma clear_slot_not_live [simp]: "\<not> live (clear_slot c)"
  by (simp add: live_def clear_slot_def)

lemma live_fill_slot [simp]: "live (fill_slot tm fd ip port c) \<longleftrightarrow> fd \<noteq> -1"
  by (simp add: live_def fill_slot_def)

lemma conn_inv_clear: "conn_inv t \<Longrightarrow> i < length t \<Longrightarrow> conn_inv (t[i := clear_slot (t ! i)])"
  by (rule conn_inv_update) (simp_all add: conn_inv_def list_all_length)

lemma conn_inv_touch:
  "conn_inv t \<Longrightarrow> conn_inv (snd (update_time_by_index index tm t))"
proof (cases "in_range index")
  case True
  assume inv: "conn_inv t"
  with True have i: "nat index < length t" by (simp add: in_range_iff)
  then have "conn_ok (t ! nat index)" using inv conn_inv_nth by (simp add: conn_inv_length)
  then have "conn_ok ((t ! nat index)\<lparr>conn_now := tm\<rparr>)" by (simp add: conn_ok_def)
  with inv i True show ?thesis by (simp add: update_time_by_index_def conn_inv_same_fd)
next
  case False
  assume "conn_inv t"
  with False show ?thesis by (simp add: update_time_by_index_def)
qed


lemma init_epoll_connect_eq: "init_epoll_connect = replicate MAX_EVENTS (init_slot zero_slot)"
  by (simp add: init_epoll_connect_def)

lemma conn_inv_init: "conn_inv init_epoll_connect"
  by (auto simp: conn_inv_def init_epoll_connect_eq list_all_length distinct_fds_def conn_ok_def
      init_slot_def zero_slot_def live_def IP_ADDR_LENGTH_def)

lemma names_ok_init: "names_ok init_epoll_connect"
  by (auto simp: names_ok_def init_epoll_connect_eq list_all_length init_slot_def zero_slot_def
      layout_defs)

section \<open>The table as a map from sockets to peers\<close>

text \<open>What the table promises of a socket: the last activity time, the address, the port.\<close>

type_synonym peer = "int \<times> string \<times> int"

definition peer_of :: "EPOLL_CONNECT \<Rightarrow> peer" where
  "peer_of c = (conn_now c, cstr (client_ip_addr c), client_port c)"

definition conns :: "conn_table \<Rightarrow> int \<Rightarrow> peer option" where
  "conns t fd =
     (let k = get_matched_event_index_by_fd fd t in
      if fd = -1 \<or> k = -1 then None else Some (peer_of (t ! nat k)))"

lemma same_fd_same_slot:
  assumes "conn_inv t" "i < length t" "j < length t" "live (t ! i)"
    "connect_fd (t ! j) = connect_fd (t ! i)"
  shows "j = i"
  using assms unfolding conn_inv_def distinct_fds_iff by metis

lemma matched_fd_nth:
  assumes "conn_inv t" "i < length t" "live (t ! i)"
  shows "get_matched_event_index_by_fd (connect_fd (t ! i)) t = int i"
  unfolding get_matched_event_index_by_fd_def
  using assms by (intro scan_unique) (auto intro: same_fd_same_slot)

lemma matched_fd_none:
  "get_matched_event_index_by_fd fd t = -1 \<longleftrightarrow> (\<forall>i<length t. connect_fd (t ! i) \<noteq> fd)"
  by (auto simp: get_matched_event_index_by_fd_def scan_none_iff all_set_conv_all_nth)

lemma matched_fd_cases [case_names none found]:
  obtains "get_matched_event_index_by_fd fd t = -1" "\<forall>i<length t. connect_fd (t ! i) \<noteq> fd"
  | k where "get_matched_event_index_by_fd fd t = int k" "k < length t" "connect_fd (t ! k) = fd"
  by (cases rule: scan_cases [of "\<lambda>c. connect_fd c = fd" t])
    (auto simp: get_matched_event_index_by_fd_def all_set_conv_all_nth)

lemma conns_Some_iff:
  assumes "conn_inv t"
  shows "conns t fd = Some p \<longleftrightarrow>
           (\<exists>i<length t. live (t ! i) \<and> connect_fd (t ! i) = fd \<and> peer_of (t ! i) = p)"
proof (cases rule: matched_fd_cases [of fd t])
  case none
  then show ?thesis by (auto simp: conns_def)
next
  case (found k)
  then have u: "i = k" if "i < length t" "live (t ! i)" "connect_fd (t ! i) = fd" for i
    using same_fd_same_slot [OF assms that(1) found(2) that(2)] that by simp
  have "conns t fd = Some p \<longleftrightarrow> live (t ! k) \<and> peer_of (t ! k) = p"
    using found by (auto simp: conns_def live_def)
  also have "\<dots> \<longleftrightarrow> (\<exists>i<length t. live (t ! i) \<and> connect_fd (t ! i) = fd \<and> peer_of (t ! i) = p)"
    using u found by blast
  finally show ?thesis .
qed

lemma conns_Some_set:
  assumes "conn_inv t"
  shows "conns t fd = Some p \<longleftrightarrow> (\<exists>c\<in>set t. live c \<and> connect_fd c = fd \<and> peer_of c = p)"
  unfolding conns_Some_iff [OF assms] by (metis in_set_conv_nth)

lemma conns_None_iff:
  "conn_inv t \<Longrightarrow> conns t fd = None \<longleftrightarrow> (\<forall>i<length t. live (t ! i) \<longrightarrow> connect_fd (t ! i) \<noteq> fd)"
  using conns_Some_iff [of t fd] by (metis not_None_eq)

lemma conns_init: "conns init_epoll_connect fd = None"
proof -
  have "\<forall>i<length init_epoll_connect. live (init_epoll_connect ! i) \<longrightarrow> connect_fd (init_epoll_connect ! i) \<noteq> fd"
    by (simp add: init_epoll_connect_def live_def init_slot_def)
  then show ?thesis using conns_None_iff [OF conn_inv_init] by blast
qed

lemma conns_minus_one [simp]: "conns t (-1) = None"
  by (simp add: conns_def)

lemma conns_update_live:
  assumes "conn_inv t" "conn_inv (t[i := c])" "i < length t" "live c"
    "\<not> live (t ! i) \<or> connect_fd (t ! i) = connect_fd c"
  shows "conns (t[i := c]) = (conns t)(connect_fd c \<mapsto> peer_of c)"
proof (rule ext)
  fix fd
  show "conns (t[i := c]) fd = ((conns t)(connect_fd c \<mapsto> peer_of c)) fd"
  proof (cases "fd = connect_fd c")
    case True
    have "conns (t[i := c]) fd = Some (peer_of c)"
      unfolding conns_Some_iff [OF assms(2)] using assms(3,4) True
      by (intro exI [of _ i]) simp
    with True show ?thesis by simp
  next
    case False
    have "conns (t[i := c]) fd = Some p \<longleftrightarrow> conns t fd = Some p" for p
      using assms(5) False unfolding conns_Some_set [OF assms(1)] conns_Some_set [OF assms(2)]
      by (cases rule: update_split [OF assms(3), of c]) auto
    then have "conns (t[i := c]) fd = conns t fd" by (rule option_eqI)
    with False show ?thesis by simp
  qed
qed

lemma conns_update_free:
  assumes "conn_inv t" "conn_inv (t[i := c])" "i < length t" "\<not> live c"
  shows "conns (t[i := c]) = (if live (t ! i) then (conns t)(connect_fd (t ! i) := None) else conns t)"
proof (rule ext)
  fix fd
  have "distinct_fds t" using assms(1) by (simp add: conn_inv_def)
  then have "conns (t[i := c]) fd = Some p \<longleftrightarrow>
      (conns t fd = Some p \<and> \<not> (live (t ! i) \<and> fd = connect_fd (t ! i)))" for p
    using assms(4) unfolding conns_Some_set [OF assms(1)] conns_Some_set [OF assms(2)] distinct_fds_def
    by (cases rule: update_split [OF assms(3), of c]) (auto simp: image_iff, metis)
  then have "conns (t[i := c]) fd = Some p \<longleftrightarrow>
      (if live (t ! i) then (conns t)(connect_fd (t ! i) := None) else conns t) fd = Some p" for p
    by auto
  then show "conns (t[i := c]) fd
      = (if live (t ! i) then (conns t)(connect_fd (t ! i) := None) else conns t) fd"
    by (rule option_eqI)
qed


lemma dom_conns: "conn_inv t \<Longrightarrow> dom (conns t) = set (map connect_fd (filter live t))"
  by (fastforce simp: dom_def conns_Some_set image_iff peer_of_def)

lemma card_dom_conns:
  assumes "conn_inv t"
  shows "card (dom (conns t)) = count_users t"
proof -
  have "distinct (map connect_fd (filter live t))"
    using assms by (simp add: conn_inv_def distinct_fds_def)
  then show ?thesis
    using distinct_card dom_conns [OF assms] by (fastforce simp: count_users_def)
qed

lemma free_index_none_iff: "get_epoll_connect_free_event_index t = -1 \<longleftrightarrow> count_users t = length t"
proof -
  have "get_epoll_connect_free_event_index t = -1 \<longleftrightarrow> (\<forall>c\<in>set t. live c)"
    by (simp add: get_epoll_connect_free_event_index_def scan_none_iff live_def)
  also have "\<dots> \<longleftrightarrow> filter live t = t" by (simp add: filter_id_conv)
  also have "\<dots> \<longleftrightarrow> length (filter live t) = length t"
    by (metis length_filter_less nat_less_le filter_id_conv)
  finally show ?thesis by (simp add: count_users_def)
qed

lemma free_index_found:
  assumes "get_epoll_connect_free_event_index t \<noteq> -1"
  obtains k where "get_epoll_connect_free_event_index t = int k" "k < length t"
    "\<not> live (t ! k)" "\<forall>j<k. live (t ! j)"
  using assms that unfolding get_epoll_connect_free_event_index_def live_def
  by (cases rule: scan_cases [of "\<lambda>c. connect_fd c = -1" t]) auto

section \<open>The interface of a connection registry\<close>

text \<open>
  What the accept loop and the event loop rely on: a bounded registry of sockets with
  allocation of an entry, insertion, search by socket and removal. \<open>val\<close> is what the
  registry records of the insertion's argument and \<open>ok\<close> says when the argument is valid.
\<close>

locale conn_registry =
  fixes inv :: "'t \<Rightarrow> bool"
    and view :: "'t \<Rightarrow> int \<Rightarrow> 'p option"
    and cap :: nat
    and alloc :: "'t \<Rightarrow> int"
    and ok :: "'a \<Rightarrow> bool"
    and val :: "'a \<Rightarrow> 'p"
    and ins :: "int \<Rightarrow> int \<Rightarrow> 'a \<Rightarrow> 't \<Rightarrow> 't result"
    and find :: "int \<Rightarrow> 't \<Rightarrow> int"
    and del :: "int \<Rightarrow> 't \<Rightarrow> 't result"
  assumes alloc_full: "inv t \<Longrightarrow> alloc t = -1 \<longleftrightarrow> card (dom (view t)) = cap"
    and ins_free: "inv t \<Longrightarrow> alloc t \<noteq> -1 \<Longrightarrow> ok a \<Longrightarrow> fd \<noteq> -1 \<Longrightarrow> view t fd = None \<Longrightarrow>
      \<exists>t'. ins (alloc t) fd a t = Inr t' \<and> inv t' \<and> view t' = (view t)(fd \<mapsto> val a)"
    and find_iff: "inv t \<Longrightarrow> fd \<noteq> -1 \<Longrightarrow> find fd t = -1 \<longleftrightarrow> view t fd = None"
    and del_find: "inv t \<Longrightarrow> fd \<noteq> -1 \<Longrightarrow>
      \<exists>t'. del (find fd t) t = Inr t' \<and> inv t' \<and> view t' = (view t)(fd := None)"
begin

lemma ins_succeeds:
  assumes "inv t" "card (dom (view t)) \<noteq> cap" "ok a" "fd \<noteq> -1" "view t fd = None"
  obtains t' where "ins (alloc t) fd a t = Inr t'" "inv t'" "view t' = (view t)(fd \<mapsto> val a)"
  using ins_free [OF assms(1) _ assms(3-5)] alloc_full [OF assms(1)] assms(2) by blast

text \<open>A registered socket is found; the others are found or not as before.\<close>

lemma ins_then_find:
  assumes "inv t" "alloc t \<noteq> -1" "ok a" "fd \<noteq> -1" "view t fd = None"
    and "ins (alloc t) fd a t = Inr t'" "fd' \<noteq> -1"
  shows "find fd' t' = -1 \<longleftrightarrow> fd' \<noteq> fd \<and> find fd' t = -1"
  using ins_free [OF assms(1-5)] assms find_iff by auto

text \<open>Connecting and then closing a socket restores the view.\<close>

lemma ins_then_del:
  assumes "inv t" "alloc t \<noteq> -1" "ok a" "fd \<noteq> -1" "view t fd = None"
  shows "\<exists>t' t''. ins (alloc t) fd a t = Inr t' \<and> del (find fd t') t' = Inr t'' \<and> inv t''
           \<and> view t'' = view t"
proof -
  obtain t' where t': "ins (alloc t) fd a t = Inr t'" "inv t'" "view t' = (view t)(fd \<mapsto> val a)"
    using ins_free [OF assms] by blast
  obtain t'' where "del (find fd t') t' = Inr t''" "inv t''" "view t'' = (view t')(fd := None)"
    using del_find [OF t'(2) assms(4)] by blast
  with t' assms(5) show ?thesis by auto
qed

text \<open>Closing is idempotent on the view.\<close>

lemma del_twice:
  assumes "inv t" "fd \<noteq> -1" "del (find fd t) t = Inr t'" "del (find fd t') t' = Inr t''"
  shows "view t'' = view t'"
  using del_find [OF assms(1,2)] del_find [of t' fd] assms by fastforce

lemma card_after_ins:
  assumes "inv t" "alloc t \<noteq> -1" "ok a" "fd \<noteq> -1" "view t fd = None" "finite (dom (view t))"
    and "ins (alloc t) fd a t = Inr t'"
  shows "card (dom (view t')) = Suc (card (dom (view t)))"
  using ins_free [OF assms(1-5)] assms by (auto simp: domIff)

end

section \<open>The table of epoll_connect.c provides it\<close>

text \<open>
  The insertion's argument: the time, the bytes at the address string, the port. The
  bytes must cover the 20 that \<open>memcpy\<close> reads, with the string's NUL among them.
\<close>

type_synonym conn_arg = "int \<times> string \<times> int"

definition arg_ok :: "conn_arg \<Rightarrow> bool" where
  "arg_ok a = (case a of (_, ip, _) \<Rightarrow>
     IP_ADDR_LENGTH \<le> length ip \<and> terminated (take IP_ADDR_LENGTH ip))"

definition arg_peer :: "conn_arg \<Rightarrow> peer" where
  "arg_peer a = (case a of (tm, ip, port) \<Rightarrow> (tm, cstr ip, port))"

definition ins_conn :: "int \<Rightarrow> int \<Rightarrow> conn_arg \<Rightarrow> conn_table \<Rightarrow> conn_table result" where
  "ins_conn index fd a t =
     (case a of (tm, ip, port) \<Rightarrow> init_epoll_connect_by_index tm index fd ip port t)"

lemma cstr_take_terminated: "terminated (take n s) \<Longrightarrow> cstr (take n s) = cstr s"
  by (metis append_take_drop_id cstr_append_terminated)

lemma ins_conn_correct:
  assumes "conn_inv t" "get_epoll_connect_free_event_index t \<noteq> -1" "arg_ok a" "fd \<noteq> -1"
    "conns t fd = None"
  shows "\<exists>t'. ins_conn (get_epoll_connect_free_event_index t) fd a t = Inr t' \<and> conn_inv t'
           \<and> conns t' = (conns t)(fd \<mapsto> arg_peer a)"
proof -
  obtain tm ip port where a: "a = (tm, ip, port)" by (cases a)
  obtain k where k: "get_epoll_connect_free_event_index t = int k" "k < length t" "\<not> live (t ! k)"
    using assms(2) by (rule free_index_found)
  let ?c = "fill_slot tm fd (take IP_ADDR_LENGTH ip) port (t ! k)"
  have ip: "IP_ADDR_LENGTH \<le> length ip" "terminated (take IP_ADDR_LENGTH ip)"
    using assms(3) a by (auto simp: arg_ok_def)
  have km: "k < MAX_EVENTS" using k(2) assms(1) by (simp add: conn_inv_length)
  have ok: "conn_ok ?c"
    using conn_inv_nth [OF assms(1) km] ip by (intro conn_ok_fill_slot) auto
  have "\<forall>j<length t. j \<noteq> k \<longrightarrow> connect_fd (t ! j) \<noteq> fd"
    using assms(4,5) conns_None_iff [OF assms(1), of fd] by (auto simp: live_def)
  then have inv': "conn_inv (t[k := ?c])"
    using assms(1) k(2) ok by (intro conn_inv_update) (auto simp: fill_slot_def)
  have "conns (t[k := ?c]) = (conns t)(connect_fd ?c \<mapsto> peer_of ?c)"
    using assms(1,4) inv' k by (intro conns_update_live) auto
  moreover have "connect_fd ?c = fd" "peer_of ?c = arg_peer a"
    using ip by (auto simp: fill_slot_def peer_of_def arg_peer_def a cstr_take_terminated)
  ultimately show ?thesis
    using init_epoll_connect_by_index_eq [OF assms(1) km ip(1)] inv' k(1)
    by (simp add: ins_conn_def a)
qed

lemma free_event_correct:
  assumes "conn_inv t" "fd \<noteq> -1"
  shows "\<exists>t'. free_event_by_index (get_matched_event_index_by_fd fd t) t = Inr t' \<and> conn_inv t'
           \<and> conns t' = (conns t)(fd := None)"
proof (cases rule: matched_fd_cases [of fd t])
  case none
  then have "conns t fd = None" using assms by (auto simp: conns_None_iff)
  then have "(conns t)(fd := None) = conns t" by (simp add: fun_upd_idem)
  with none assms(1) show ?thesis
    by (simp add: free_event_by_index_eq [OF assms(1)] in_range_def)
next
  case (found k)
  then have l: "live (t ! k)" using assms(2) by (simp add: live_def)
  let ?t = "t[k := clear_slot (t ! k)]"
  have inv': "conn_inv ?t" using assms(1) found(2) by (rule conn_inv_clear)
  have "conns ?t = (conns t)(fd := None)"
    using conns_update_free [OF assms(1) inv' found(2)] l found(3) by simp
  with inv' found assms(1) show ?thesis
    by (simp add: free_event_by_index_eq in_range_iff)
qed

interpretation reg: conn_registry conn_inv conns MAX_EVENTS get_epoll_connect_free_event_index
  arg_ok arg_peer ins_conn get_matched_event_index_by_fd free_event_by_index
proof
  show "get_epoll_connect_free_event_index t = -1 \<longleftrightarrow> card (dom (conns t)) = MAX_EVENTS"
    if "conn_inv t" for t
    using that by (simp add: free_index_none_iff card_dom_conns conn_inv_length)
next
  show "get_matched_event_index_by_fd fd t = -1 \<longleftrightarrow> conns t fd = None"
    if "conn_inv t" "fd \<noteq> -1" for t fd
    using that by (auto simp: conns_None_iff matched_fd_none live_def)
qed (simp_all add: ins_conn_correct free_event_correct)

end
