(* ===== verification/UserList.thy ===== *)
theory UserList
  imports ConnRegistry
begin

text \<open>
  Correctness of \<open>get_all_users\<close>: the writes of its second mode stay inside the buffer
  that the handler of \<open>CMD_GETALLUSER\<close> allocates from the count of the first mode, and
  the nodes read back as the live slots, in table order.
\<close>

section \<open>Slices of written buffers\<close>

lemma slice_agree:
  assumes "take k b = take k b'" "m + n \<le> k"
  shows "take n (drop m b) = take n (drop m b')"
proof -
  have "take n (drop m b) = take n (drop m (take k b))"
    using assms(2) by (simp add: drop_take min_def)
  also have "\<dots> = take n (drop m b')"
    using assms by (simp add: drop_take min_def)
  finally show ?thesis .
qed

lemma agree_trans: "take k b = take k b' \<Longrightarrow> j \<le> k \<Longrightarrow> take j b = take j b'"
  by (metis min.absorb1 take_take)

lemma strcpy_at_ok:
  assumes "terminated src" "length src \<le> cap" "off + cap \<le> length buf"
  shows "\<exists>b. strcpy_at off cap src buf = Inr b \<and> length b = length buf
           \<and> take off b = take off buf \<and> cstr (take cap (drop off b)) = cstr src"
proof -
  let ?s = "cstr src @ [NUL]"
  have l: "length ?s \<le> cap" using assms(1,2) length_cstr_less [of src] by simp
  then obtain b where b: "write_at off ?s buf = Inr b" using assms(3) by (simp add: write_at_def)
  have "strcpy_at off cap src buf = Inr b" using assms(1) l b by (simp add: strcpy_at_def)
  moreover have "cstr (take cap (drop off b)) = cstr src"
  proof -
    have "take cap (drop off b) = cstr src @ NUL # take (cap - length ?s) (drop (off + length ?s) buf)"
      using b l by (auto simp: write_at_Inr_iff take_Cons' Suc_diff_le)
    then show ?thesis by simp
  qed
  ultimately show ?thesis
    using write_at_length [OF b] write_at_take_before [OF b order_refl] by blast
qed

text \<open>A short buffer makes the copy fail, whatever the slot holds: nothing is cut silently.\<close>

lemma strcpy_at_overflow:
  "terminated src \<Longrightarrow> cap < Suc (length (cstr src)) \<Longrightarrow> strcpy_at off cap src buf = Inl OutOfBounds"
  by (simp add: strcpy_at_def)

section \<open>One node\<close>

definition node_of :: "EPOLL_CONNECT \<Rightarrow> JQUserNode" where
  "node_of c =
     \<lparr>jq_now = word_of_int (conn_now c), jq_ip = cstr (client_ip_addr c),
      jq_port = word_of_int (client_port c), jq_user = cstr (UsrhashId c),
      jq_passwd = cstr (conn_passwd c)\<rparr>"

definition strings_ok :: "EPOLL_CONNECT \<Rightarrow> bool" where
  "strings_ok c \<longleftrightarrow> conn_ok c \<and> terminated (UsrhashId c) \<and> terminated (conn_passwd c)"

lemma write_node_ok:
  assumes "strings_ok c" "off + node_extent \<le> length buf"
  obtains b where "write_node off c buf = Inr b" "length b = length buf"
    "take off b = take off buf" "get_node (drop off b) = node_of c"
proof -
  have ok: "terminated (client_ip_addr c)" "length (client_ip_addr c) \<le> 20"
    "terminated (UsrhashId c)" "length (UsrhashId c) \<le> 10"
    "terminated (conn_passwd c)" "length (conn_passwd c) \<le> 7"
    using assms(1) by (simp_all add: strings_ok_def conn_ok_def IP_ADDR_LENGTH_def layout_defs)
  have len: "off + 49 \<le> length buf" using assms(2) by (simp add: node_extent_def layout_defs)
  obtain b1 where b1: "write_at off (put64 (word_of_int (conn_now c))) buf = Inr b1"
    using len by (simp add: write_at_def)
  note f1 = write_at_length [OF b1] write_at_take_before [OF b1 order_refl] write_at_read_same [OF b1]
  obtain b2 where b2: "strcpy_at (off + 8) 20 (client_ip_addr c) b1 = Inr b2" "length b2 = length b1"
    "take (off + 8) b2 = take (off + 8) b1" "cstr (take 20 (drop (off + 8) b2)) = cstr (client_ip_addr c)"
    using strcpy_at_ok [OF ok(1,2), of "off + 8" b1] len f1(1) by auto
  obtain b3 where b3: "write_at (off + 28) (put32 (word_of_int (client_port c))) b2 = Inr b3"
    using len f1(1) b2(2) by (simp add: write_at_def)
  note f3 = write_at_length [OF b3] write_at_take_before [OF b3 order_refl] write_at_read_same [OF b3]
  obtain b4 where b4: "strcpy_at (off + 32) 10 (UsrhashId c) b3 = Inr b4" "length b4 = length b3"
    "take (off + 32) b4 = take (off + 32) b3" "cstr (take 10 (drop (off + 32) b4)) = cstr (UsrhashId c)"
    using strcpy_at_ok [OF ok(3,4), of "off + 32" b3] len f1(1) b2(2) f3(1) by auto
  obtain b5 where b5: "strcpy_at (off + 42) 7 (conn_passwd c) b4 = Inr b5" "length b5 = length b4"
    "take (off + 42) b5 = take (off + 42) b4" "cstr (take 7 (drop (off + 42) b5)) = cstr (conn_passwd c)"
    using strcpy_at_ok [OF ok(5,6), of "off + 42" b4] len f1(1) b2(2) f3(1) b4(2) by auto
  have t4: "take (off + 32) b5 = take (off + 32) b3"
    using agree_trans [OF b5(3), of "off + 32"] b4(3) by simp
  have t3: "take (off + 28) b5 = take (off + 28) b2"
    using agree_trans [OF t4, of "off + 28"] f3(2) by simp
  have t2: "take (off + 8) b5 = take (off + 8) b1"
    using agree_trans [OF t3, of "off + 8"] b2(3) by simp
  have r1: "take 8 (drop off b5) = put64 (word_of_int (conn_now c))"
    using slice_agree [OF t2, of off 8] f1(3) by simp
  have r2: "take 20 (drop (off + 8) b5) = take 20 (drop (off + 8) b2)"
    using slice_agree [OF t3, of "off + 8" 20] by simp
  have r3: "take 4 (drop (off + 28) b5) = put32 (word_of_int (client_port c))"
    using slice_agree [OF t4, of "off + 28" 4] f3(3) by simp
  have r4: "take 10 (drop (off + 32) b5) = take 10 (drop (off + 32) b4)"
    using slice_agree [OF b5(3), of "off + 32" 10] by simp
  have "get_node (drop off b5) = node_of c"
    using r1 r2 r3 r4 b2(4) b4(4) b5(4)
    by (simp add: get_node_def node_of_def layout_defs add.commute
        get64_take [of 8, symmetric] get32_take [of 4, symmetric])
  moreover have "write_node off c buf = Inr b5"
    using b1 b2(1) b3 b4(1) b5(1) by (simp add: write_node_def layout_defs IP_ADDR_LENGTH_def)
  moreover have "take off b5 = take off buf"
    using agree_trans [OF t2, of off] f1(2) by simp
  ultimately show thesis using that b5(2) b4(2) f3(1) b2(2) f1(1) by simp
qed


section \<open>The whole list\<close>

definition node_off :: "nat \<Rightarrow> nat" where
  "node_off i = off_nodes + i * sizeof_JQUserNode"

lemma node_off_less: "i < j \<Longrightarrow> node_off i + node_extent \<le> node_off j"
proof -
  assume "i < j"
  then have "Suc i * sizeof_JQUserNode \<le> j * sizeof_JQUserNode" by (intro mult_le_mono1) simp
  then show ?thesis by (simp add: node_off_def node_extent_def layout_defs)
qed

lemma node_off_mono: "i \<le> j \<Longrightarrow> node_off i \<le> node_off j"
  by (simp add: node_off_def)

lemma get_node_agree:
  assumes "take k b = take k b'" "m + node_extent \<le> k"
  shows "get_node (drop m b) = get_node (drop m b')"
  using slice_agree [OF assms] get_node_take [OF order_refl] by metis

text \<open>
  \<open>n\<close> nodes from number \<open>cnt\<close> on fit in \<open>node_off (cnt + n) - 7\<close> bytes: the last 7 bytes
  of a node are alignment padding that is never written.
\<close>

lemma fill_users_ok:
  assumes "list_all (\<lambda>c. live c \<longrightarrow> strings_ok c) t"
    "\<And>i. i < length (filter live t) \<Longrightarrow> node_off (cnt + i) + node_extent \<le> length buf"
  shows "\<exists>b. fill_users cnt t buf = Inr b \<and> length b = length buf
           \<and> take (node_off cnt) b = take (node_off cnt) buf
           \<and> (\<forall>i<length (filter live t).
                 get_node (drop (node_off (cnt + i)) b) = node_of (filter live t ! i))"
  using assms
proof (induction cnt t buf rule: fill_users.induct)
  case (1 cnt buf)
  then show ?case by simp
next
  case (2 cnt c t buf)
  show ?case
  proof (cases "live c")
    case False
    with 2 show ?thesis by simp
  next
    case True
    have ok: "strings_ok c" using 2(3) True by simp
    have "node_off cnt + node_extent \<le> length buf" using 2(4) [of 0] True by simp
    then obtain b1 where b1: "write_node (node_off cnt) c buf = Inr b1" "length b1 = length buf"
      "take (node_off cnt) b1 = take (node_off cnt) buf" "get_node (drop (node_off cnt) b1) = node_of c"
      using write_node_ok [OF ok] by metis
    have room: "\<And>i. i < length (filter live t) \<Longrightarrow> node_off (Suc cnt + i) + node_extent \<le> length b1"
      using 2(4) [of "Suc i" for i] True b1(2) by simp
    obtain b where b: "fill_users (Suc cnt) t b1 = Inr b" "length b = length b1"
      "take (node_off (Suc cnt)) b = take (node_off (Suc cnt)) b1"
      "\<forall>i<length (filter live t).
         get_node (drop (node_off (Suc cnt + i)) b) = node_of (filter live t ! i)"
      using 2(1) [OF True _ room] b1(1) 2(3) by (auto simp: node_off_def)
    have first: "get_node (drop (node_off cnt) b) = node_of c"
      using get_node_agree [OF b(3) node_off_less [OF lessI]] b1(4) by simp
    have "get_node (drop (node_off (cnt + i)) b) = node_of (filter live (c # t) ! i)"
      if "i < length (filter live (c # t))" for i
      using that first b(4) True by (cases i) auto
    moreover have "take (node_off cnt) b = take (node_off cnt) buf"
      using agree_trans [OF b(3) node_off_mono, of cnt] b1(3) by simp
    ultimately show ?thesis
      using True b1(1) b(1,2) b1(2) by (simp add: node_off_def [symmetric])
  qed
qed

text \<open>
  The handler's buffer: an \<open>int\<close> and \<open>cnt\<close> nodes after the header, where \<open>cnt\<close> is what
  the first call returned. It leaves out the 4 bytes of padding between \<open>cnt\<close> and
  \<open>node\<close>, but the nodes' own tail padding makes up for it.
\<close>

lemma reply_buffer_room:
  "i < n \<Longrightarrow> 4 + sizeof_JQUserNode * n \<le> len \<Longrightarrow> node_off i + node_extent \<le> len"
proof -
  assume a: "i < n" "4 + sizeof_JQUserNode * n \<le> len"
  then have "Suc i * sizeof_JQUserNode \<le> n * sizeof_JQUserNode" by (intro mult_le_mono1) simp
  with a show ?thesis by (simp add: node_off_def node_extent_def layout_defs)
qed

lemma live_strings_ok: "conn_inv t \<Longrightarrow> names_ok t \<Longrightarrow> list_all (\<lambda>c. live c \<longrightarrow> strings_ok c) t"
  by (simp add: conn_inv_def names_ok_def strings_ok_def list_all_iff)

lemma get_all_users_fills:
  assumes "conn_inv t" "names_ok t" "4 + sizeof_JQUserNode * count_users t \<le> length buf"
  shows "\<exists>b. get_all_users (Some buf) n t = Inr (Some b, n) \<and> length b = length buf
           \<and> take off_nodes b = take off_nodes buf
           \<and> (\<forall>i<count_users t. get_node (drop (node_off i) b) = node_of (filter live t ! i))"
proof -
  have "node_off (0 + i) + node_extent \<le> length buf" if "i < length (filter live t)" for i
    using reply_buffer_room [OF that] assms(3) by (simp add: count_users_def)
  from fill_users_ok [OF live_strings_ok [OF assms(1,2)] this]
  show ?thesis
    by (auto simp: get_all_users_def count_users_def node_off_def [of 0, simplified])
qed

text \<open>When one more user is live at the second call, its node does not fit.\<close>

lemma write_node_overflow:
  assumes "length buf < off + 8"
  shows "write_node off c buf = Inl OutOfBounds"
  using assms by (simp add: write_node_def write_at_def)

section \<open>The printed table\<close>

lemma str_at_0 [simp]: "terminated b \<Longrightarrow> str_at 0 b = Inr (cstr b)"
  by (simp add: str_at_def)

lemma user_lines_ok:
  "list_all strings_ok t \<Longrightarrow> \<exists>ls. user_lines t = Inr ls"
  by (induction t) (auto simp: user_line_def strings_ok_def conn_ok_def)

lemma print_all_users_ok: "conn_inv t \<Longrightarrow> names_ok t \<Longrightarrow> \<exists>out. print_all_users t = Inr out"
proof -
  assume "conn_inv t" "names_ok t"
  then have "list_all strings_ok (take 10 t)"
    by (auto simp: conn_inv_def names_ok_def strings_ok_def list_all_iff dest: in_set_takeD)
  then show ?thesis using user_lines_ok by (fastforce simp: print_all_users_def)
qed

end
