(* ===== verification/JobQueue.thy ===== *)
theory JobQueue
  imports Prelude
begin

text \<open>
  The job queue of \<open>src/server/thread_pool.c\<close>: a doubly linked list of \<open>malloc\<close>ed jobs,
  new jobs at the head and the next job to serve at the tail. Jobs live in an explicit
  heap (a map from addresses to jobs; \<open>None\<close> is free memory), a pointer is an
  \<open>option\<close> of an address (\<open>None\<close> is NULL), and an access to free memory is an error.
\<close>

section \<open>Data\<close>

definition BUFFER_SIZE :: nat where "BUFFER_SIZE = 1024"

record thpool_job_funcion_parameter =
  recv_buffer :: string
  arg_fd :: int

text \<open>\<open>'f\<close> is the type of the function pointer.\<close>

record 'f thpool_job_t =
  job_function :: 'f
  job_arg :: thpool_job_funcion_parameter
  job_create_time :: int
  job_prev :: "nat option"
  job_next :: "nat option"

type_synonym 'f heap = "nat \<Rightarrow> 'f thpool_job_t option"

text \<open>
  \<open>thpool_jobqueue\<close> with the heap its jobs live in. Every decrement of \<open>jobN\<close> in the
  code is guarded by a test for 0, so a \<open>nat\<close> models the \<open>int\<close>.
\<close>

record 'f thpool_jobqueue =
  job_heap :: "'f heap"
  q_head :: "nat option"
  q_tail :: "nat option"
  jobN :: nat
  queueSem :: nat

section \<open>Operations\<close>

definition deref :: "'f heap \<Rightarrow> nat option \<Rightarrow> (nat \<times> 'f thpool_job_t) result" where
  "deref h p =
     (case p of
        None \<Rightarrow> Inl NullDeref
      | Some a \<Rightarrow> (case h a of None \<Rightarrow> Inl UseAfterFree | Some j \<Rightarrow> Inr (a, j)))"

text \<open>\<open>mem\<close> is whether \<open>malloc\<close> of the queue succeeded; \<open>sem_init\<close> starts at 0.\<close>

definition thpool_jobqueue_init :: "bool \<Rightarrow> 'f heap \<Rightarrow> int \<times> 'f thpool_jobqueue option" where
  "thpool_jobqueue_init mem h =
     (if \<not> mem then (-1, None)
      else (0, Some \<lparr>job_heap = h, q_head = None, q_tail = None, jobN = 0, queueSem = 0\<rparr>))"

definition thpool_jobqueue_peek :: "'f thpool_jobqueue \<Rightarrow> nat option" where
  "thpool_jobqueue_peek q = q_tail q"

text \<open>
  \<open>thpool_jobqueue_removelast\<close>; its callers have dereferenced \<open>tp_p\<close> before, so the NULL
  test at its start never fires. \<open>sem_getvalue\<close> has no effect.
\<close>

definition thpool_jobqueue_removelast :: "'f thpool_jobqueue \<Rightarrow> (int \<times> 'f thpool_jobqueue) result" where
  "thpool_jobqueue_removelast q =
     (if jobN q = 0 then Inr (-1, q)
      else if jobN q = 1 then Inr (0, q\<lparr>q_head := None, q_tail := None, jobN := jobN q - 1\<rparr>)
      else and_then (deref (job_heap q) (q_tail q)) (\<lambda>(_, theLastJob).
           and_then (deref (job_heap q) (job_prev theLastJob)) (\<lambda>(p, prv).
           Inr (0, q\<lparr>job_heap := (job_heap q)(p \<mapsto> prv\<lparr>job_next := None\<rparr>),
                      q_tail := job_prev theLastJob, jobN := jobN q - 1\<rparr>))))"

definition thpool_job_enqueue :: "'f thpool_jobqueue \<Rightarrow> nat \<Rightarrow> 'f thpool_jobqueue result" where
  "thpool_job_enqueue q newjob_p =
     and_then (deref (job_heap q) (Some newjob_p)) (\<lambda>(n, j).
       let h = (job_heap q)(n \<mapsto> j\<lparr>job_next := None, job_prev := None\<rparr>) in
       and_then
         (if jobN q = 0 then Inr (q\<lparr>job_heap := h, q_head := Some n, q_tail := Some n\<rparr>)
          else and_then (deref h (q_head q)) (\<lambda>(o1, oldFirstJob).
                 let h1 = h(o1 \<mapsto> oldFirstJob\<lparr>job_prev := Some n\<rparr>) in
                 and_then (deref h1 (Some n)) (\<lambda>(n, j).
                   Inr (q\<lparr>job_heap := h1(n \<mapsto> j\<lparr>job_next := q_head q\<rparr>), q_head := Some n\<rparr>))))
         (\<lambda>q. Inr (q\<lparr>jobN := jobN q + 1, queueSem := queueSem q + 1\<rparr>)))"

text \<open>\<open>free(job)\<close>; freeing free memory is an error.\<close>

definition free_job :: "nat \<Rightarrow> 'f thpool_jobqueue \<Rightarrow> 'f thpool_jobqueue result" where
  "free_job a q =
     (case job_heap q a of None \<Rightarrow> Inl UseAfterFree
      | Some _ \<Rightarrow> Inr (q\<lparr>job_heap := (job_heap q)(a := None)\<rparr>))"

text \<open>The loop of \<open>thpool_jobqueue_empty\<close>.\<close>

function empty_loop :: "nat option \<Rightarrow> 'f thpool_jobqueue \<Rightarrow> 'f thpool_jobqueue result" where
  "empty_loop curjob q =
     (if jobN q = 0 then Inr q
      else case curjob of
             None \<Rightarrow> Inl NullDeref
           | Some a \<Rightarrow>
               (case job_heap q a of
                  None \<Rightarrow> Inl UseAfterFree
                | Some j \<Rightarrow>
                    empty_loop (job_prev j)
                      (q\<lparr>q_tail := job_prev j, job_heap := (job_heap q)(a := None),
                         jobN := jobN q - 1\<rparr>)))"
  by pat_completeness auto
termination by (relation "measure (\<lambda>(_, q). jobN q)") auto

declare empty_loop.simps [simp del]

definition thpool_jobqueue_empty :: "'f thpool_jobqueue \<Rightarrow> 'f thpool_jobqueue result" where
  "thpool_jobqueue_empty q =
     and_then (empty_loop (q_tail q) q) (\<lambda>q. Inr (q\<lparr>q_head := None, q_tail := None\<rparr>))"

definition get_jobqueue_number :: "'f thpool_jobqueue option \<Rightarrow> nat" where
  "get_jobqueue_number q = (case q of None \<Rightarrow> 0 | Some q \<Rightarrow> jobN q)"

text \<open>
  \<open>delete_timeout_job\<close>: \<open>curjob\<close> is read before the lock is taken, so the loop takes it
  as an argument of its own; \<open>tm\<close> is the current time.
\<close>

function timeout_loop ::
    "int \<Rightarrow> int \<Rightarrow> nat option \<Rightarrow> nat \<Rightarrow> 'f thpool_jobqueue \<Rightarrow> (nat \<times> 'f thpool_jobqueue) result" where
  "timeout_loop tm time_out curjob delete_number q =
     (if jobN q = 0 then Inr (delete_number, q)
      else case curjob of
             None \<Rightarrow> Inr (delete_number, q)
           | Some a \<Rightarrow>
               (case job_heap q a of
                  None \<Rightarrow> Inl UseAfterFree
                | Some j \<Rightarrow>
                    if tm - job_create_time j > time_out
                    then timeout_loop tm time_out (job_prev j) (delete_number + 1)
                           (q\<lparr>q_tail := job_prev j, job_heap := (job_heap q)(a := None),
                              jobN := jobN q - 1\<rparr>)
                    else Inr (delete_number, q)))"
  by pat_completeness auto
termination by (relation "measure (\<lambda>(_, _, _, _, q). jobN q)") auto

declare timeout_loop.simps [simp del]

definition delete_timeout_job ::
    "int \<Rightarrow> int \<Rightarrow> 'f thpool_jobqueue \<Rightarrow> (nat \<times> 'f thpool_jobqueue) result" where
  "delete_timeout_job tm time_out q = timeout_loop tm time_out (q_tail q) 0 q"

text \<open>
  The memory part of \<open>thpool_add_work\<close>: \<open>a\<close> is the address \<open>malloc\<close> returned (\<open>None\<close> when
  it failed); the links of the new job are set by \<open>thpool_job_enqueue\<close>.
\<close>

definition new_job :: "'f \<Rightarrow> int \<Rightarrow> string \<Rightarrow> int \<Rightarrow> 'f thpool_job_t" where
  "new_job f tm buf sock =
     \<lparr>job_function = f, job_arg = \<lparr>recv_buffer = take BUFFER_SIZE buf, arg_fd = sock\<rparr>,
      job_create_time = tm, job_prev = None, job_next = None\<rparr>"

definition add_job ::
    "nat option \<Rightarrow> 'f \<Rightarrow> int \<Rightarrow> string \<Rightarrow> int \<Rightarrow> 'f thpool_jobqueue \<Rightarrow> (int \<times> 'f thpool_jobqueue) result" where
  "add_job a f tm buf sock q =
     (case a of
        None \<Rightarrow> Inr (-1, q)
      | Some n \<Rightarrow>
          if length buf < BUFFER_SIZE then Inl OutOfBounds
          else and_then
                 (thpool_job_enqueue (q\<lparr>job_heap := (job_heap q)(n \<mapsto> new_job f tm buf sock)\<rparr>) n)
                 (\<lambda>q. Inr (0, q)))"

text \<open>
  The critical section of a worker (\<open>thpool_thread_do\<close>): the job it peeked at and
  whether \<open>thpool_jobqueue_removelast\<close> succeeded.
\<close>

definition take_job :: "'f thpool_jobqueue \<Rightarrow> (nat option \<times> int \<times> 'f thpool_jobqueue) result" where
  "take_job q =
     and_then (thpool_jobqueue_removelast q) (\<lambda>(r, q'). Inr (thpool_jobqueue_peek q, r, q'))"

end
