(* ===== verification/QueueRefinement.thy ===== *)
theory QueueRefinement
  imports JobQueue
begin

text \<open>
  The linked job queue implements a FIFO list: the representation invariant, the
  abstraction to the list of waiting jobs (oldest first), the refinement of every
  operation, and the interface of a job queue that the thread pool relies on.
\<close>

section \<open>The chain of \<open>prev\<close> pointers\<close>

text \<open>
  Only \<open>prev\<close> pointers are ever followed: the \<open>next\<close> pointers are written and never
  read, and the head pointer is read only when the queue is not empty. So the
  invariant constrains the \<open>prev\<close> chain from the tail, and the head when there is one.
\<close>

primrec chain :: "'f heap \<Rightarrow> nat option \<Rightarrow> nat list \<Rightarrow> bool" where
  "chain h p [] \<longleftrightarrow> p = None"
| "chain h p (a # as) \<longleftrightarrow> p = Some a \<and> (case h a of None \<Rightarrow> False | Some j \<Rightarrow> chain h (job_prev j) as)"

fun walk :: "'f heap \<Rightarrow> nat option \<Rightarrow> nat \<Rightarrow> nat list" where
  "walk h p 0 = []"
| "walk h None (Suc k) = []"
| "walk h (Some a) (Suc k) = a # (case h a of None \<Rightarrow> [] | Some j \<Rightarrow> walk h (job_prev j) k)"

lemma walk_chain: "chain h p as \<Longrightarrow> walk h p (length as) = as"
  by (induction as arbitrary: p) (auto split: option.splits)

lemma chain_unique: "chain h p as \<Longrightarrow> chain h p bs \<Longrightarrow> as = bs"
proof (induction as arbitrary: p bs)
  case Nil
  then show ?case by (cases bs) auto
next
  case (Cons a as)
  then show ?case by (cases bs) (auto split: option.splits)
qed

lemma chain_upd [simp]: "a \<notin> set as \<Longrightarrow> chain (h(a := x)) p as = chain h p as"
  by (induction as arbitrary: p) (auto split: option.splits)

lemma chain_append: "chain h p (as @ bs) \<Longrightarrow> \<exists>q. chain h q bs"
  by (induction as arbitrary: p) (auto split: option.splits)

lemma chain_in_heap: "chain h p as \<Longrightarrow> a \<in> set as \<Longrightarrow> h a \<noteq> None"
  by (induction as arbitrary: p) (auto split: option.splits)

lemma chain_head_notin: "chain h (Some a) (a # as) \<Longrightarrow> a \<notin> set as"
proof
  assume c: "chain h (Some a) (a # as)" and "a \<in> set as"
  then obtain bs cs where as: "as = bs @ a # cs" by (auto dest: split_list)
  obtain j where j: "h a = Some j" "chain h (job_prev j) (bs @ a # cs)"
    using c as by (auto split: option.splits)
  obtain q where "chain h q (a # cs)" using chain_append [OF j(2)] by blast
  with j(1) have "chain h (job_prev j) cs" by simp
  from chain_unique [OF this j(2)] show False by (auto dest: arg_cong [where f = length])
qed

lemma chain_distinct: "chain h p as \<Longrightarrow> distinct as"
proof (induction as arbitrary: p)
  case Nil
  then show ?case by simp
next
  case (Cons a as)
  then have "chain h (Some a) (a # as)" by auto
  from chain_head_notin [OF this] Cons show ?case by (auto split: option.splits)
qed

section \<open>Invariant and abstraction\<close>

definition addrs :: "'f thpool_jobqueue \<Rightarrow> nat list" where
  "addrs q = walk (job_heap q) (q_tail q) (jobN q)"

definition queue_rep :: "'f thpool_jobqueue \<Rightarrow> nat list \<Rightarrow> bool" where
  "queue_rep q as \<longleftrightarrow> chain (job_heap q) (q_tail q) as \<and> length as = jobN q
     \<and> (as \<noteq> [] \<longrightarrow> q_head q = Some (last as))"

definition queue_inv :: "'f thpool_jobqueue \<Rightarrow> bool" where
  "queue_inv q \<longleftrightarrow> queue_rep q (addrs q)"

text \<open>What the client submitted: the function, its argument and the time.\<close>

type_synonym 'f payload = "'f \<times> thpool_job_funcion_parameter \<times> int"

definition payload_of :: "'f thpool_job_t \<Rightarrow> 'f payload" where
  "payload_of j = (job_function j, job_arg j, job_create_time j)"

definition payloads :: "'f heap \<Rightarrow> nat list \<Rightarrow> 'f payload list" where
  "payloads h as = map (\<lambda>a. payload_of (the (h a))) as"

definition waiting :: "'f thpool_jobqueue \<Rightarrow> 'f payload list" where
  "waiting q = payloads (job_heap q) (addrs q)"

lemma queue_rep_addrs: "queue_rep q as \<Longrightarrow> addrs q = as"
  unfolding queue_rep_def addrs_def by (metis walk_chain)

lemma queue_inv_iff: "queue_inv q \<longleftrightarrow> (\<exists>as. queue_rep q as)"
  using queue_rep_addrs by (metis queue_inv_def)

lemma queue_rep_inv [intro]: "queue_rep q as \<Longrightarrow> queue_inv q"
  by (auto simp: queue_inv_iff)

lemma queue_rep_waiting: "queue_rep q as \<Longrightarrow> waiting q = payloads (job_heap q) as"
  by (simp add: waiting_def queue_rep_addrs)

lemma length_waiting: "queue_inv q \<Longrightarrow> length (waiting q) = jobN q"
  by (simp add: queue_inv_def waiting_def queue_rep_def payloads_def)

lemma payloads_upd [simp]: "a \<notin> set as \<Longrightarrow> payloads (h(a := x)) as = payloads h as"
  by (auto simp: payloads_def)

lemma payloads_links:
  "h a = Some j \<Longrightarrow> payload_of j' = payload_of j \<Longrightarrow> payloads (h(a \<mapsto> j')) as = payloads h as"
  by (auto simp: payloads_def)

lemma payload_of_links [simp]:
  "payload_of (j\<lparr>job_prev := p\<rparr>) = payload_of j"
  "payload_of (j\<lparr>job_next := p\<rparr>) = payload_of j"
  by (simp_all add: payload_of_def)

lemma payloads_simps [simp]:
  "payloads h [] = []"
  "payloads h (a # as) = payload_of (the (h a)) # payloads h as"
  "payloads h (as @ bs) = payloads h as @ payloads h bs"
  by (simp_all add: payloads_def)

text \<open>Setting a \<open>next\<close> pointer changes no chain; a \<open>prev\<close> pointer only beyond its node.\<close>

lemma chain_next_upd:
  "h a = Some j \<Longrightarrow> chain (h(a \<mapsto> j\<lparr>job_next := p\<rparr>)) r as = chain h r as"
  by (induction as arbitrary: r) (auto split: option.splits)

lemma chain_snoc:
  assumes "chain h p (as @ [l])" "h l = Some j" "n \<notin> set (as @ [l])"
    "h n = Some nj" "job_prev nj = None"
  shows "chain (h(l \<mapsto> j\<lparr>job_prev := Some n\<rparr>)) p (as @ [l, n])"
  using assms
proof (induction as arbitrary: p)
  case Nil
  then show ?case by auto
next
  case (Cons a as)
  have "a \<noteq> l"
    using chain_distinct [OF Cons.prems(1)] by auto
  with Cons show ?case by (auto split: option.splits)
qed


section \<open>Memory contents\<close>

text \<open>What the heap holds up to the links: allocation and payloads.\<close>

definition contents :: "'f heap \<Rightarrow> nat \<Rightarrow> 'f payload option" where
  "contents h a = map_option payload_of (h a)"

lemma contents_links:
  "h a = Some j \<Longrightarrow> payload_of j' = payload_of j \<Longrightarrow> contents (h(a \<mapsto> j')) = contents h"
  by (auto simp: contents_def)

lemma contents_free [simp]: "contents (h(a := None)) = (contents h)(a := None)"
  by (auto simp: contents_def)

lemma contents_None_iff [simp]: "contents h a = None \<longleftrightarrow> h a = None"
  by (simp add: contents_def)

lemma payloads_contents: "payloads h as = map (\<lambda>a. the (map_option payload_of (h a))) as"
  if "\<forall>a\<in>set as. h a \<noteq> None"
  using that by (auto simp: payloads_def)

lemma payloads_eq:
  assumes "\<And>a. a \<in> set as \<Longrightarrow> contents h' a = contents h a" "\<forall>a\<in>set as. h a \<noteq> None"
  shows "payloads h' as = payloads h as"
  using assms by (fastforce simp: payloads_def contents_def)

lemma queue_rep_distinct: "queue_rep q as \<Longrightarrow> distinct as"
  by (auto simp: queue_rep_def dest: chain_distinct)

lemma queue_rep_alloc: "queue_rep q as \<Longrightarrow> \<forall>a\<in>set as. job_heap q a \<noteq> None"
  using chain_in_heap by (fastforce simp: queue_rep_def)

section \<open>Refinement of the operations\<close>

lemma removelast_empty:
  "queue_rep q [] \<Longrightarrow> thpool_jobqueue_removelast q = Inr (-1, q)"
  by (simp add: thpool_jobqueue_removelast_def queue_rep_def)

lemma removelast_rep:
  assumes "queue_rep q (a # as)"
  shows "\<exists>q'. thpool_jobqueue_removelast q = Inr (0, q') \<and> queue_rep q' as
           \<and> contents (job_heap q') = contents (job_heap q) \<and> queueSem q' = queueSem q
           \<and> q_tail q = Some a"
proof (cases as)
  case Nil
  with assms show ?thesis
    by (auto simp: thpool_jobqueue_removelast_def queue_rep_def)
next
  case (Cons b bs)
  from assms obtain ja where ja: "q_tail q = Some a" "job_heap q a = Some ja"
    "chain (job_heap q) (job_prev ja) (b # bs)"
    by (auto simp: queue_rep_def Cons split: option.splits)
  from ja(3) obtain jb where jb: "job_prev ja = Some b" "job_heap q b = Some jb"
    by (auto split: option.splits)
  have n: "jobN q \<noteq> 0" "jobN q \<noteq> 1" using assms by (auto simp: queue_rep_def Cons)
  let ?q = "q\<lparr>job_heap := (job_heap q)(b \<mapsto> jb\<lparr>job_next := None\<rparr>), q_tail := Some b, jobN := jobN q - 1\<rparr>"
  have "thpool_jobqueue_removelast q = Inr (0, ?q)"
    using n ja(1,2) jb by (simp add: thpool_jobqueue_removelast_def deref_def)
  moreover have "queue_rep ?q as"
    using assms ja jb chain_next_upd [where h = "job_heap q", OF jb(2)] by (auto simp: queue_rep_def Cons)
  ultimately show ?thesis using ja(1) contents_links [where h = "job_heap q", OF jb(2)] by simp
qed

lemma enqueue_rep:
  assumes "queue_rep q as" "n \<notin> set as" "job_heap q n = Some j"
  shows "\<exists>q'. thpool_job_enqueue q n = Inr q' \<and> queue_rep q' (as @ [n])
           \<and> contents (job_heap q') = contents (job_heap q) \<and> queueSem q' = Suc (queueSem q)"
proof -
  let ?j = "j\<lparr>job_next := None, job_prev := None\<rparr>"
  let ?h = "(job_heap q)(n \<mapsto> ?j)"
  have c: "contents ?h = contents (job_heap q)" using contents_links [where h = "job_heap q", OF assms(3)] by simp
  have ch: "chain ?h (q_tail q) as" using assms by (simp add: queue_rep_def)
  show ?thesis
  proof (cases as rule: rev_cases)
    case Nil
    with assms c show ?thesis
      by (auto simp: thpool_job_enqueue_def deref_def queue_rep_def Let_def)
  next
    case (snoc bs l)
    then have hd: "q_head q = Some l" "jobN q \<noteq> 0" and ln: "l \<noteq> n"
      using assms by (auto simp: queue_rep_def)
    obtain jl where jl: "?h l = Some jl"
      using chain_in_heap [OF ch, of l] snoc by auto
    let ?h1 = "?h(l \<mapsto> jl\<lparr>job_prev := Some n\<rparr>)"
    have jn: "?h1 n = Some ?j" using ln by simp
    have "chain ?h1 (q_tail q) (bs @ [l, n])"
      using ch jl assms(2) snoc by (intro chain_snoc) auto
    then have "chain (?h1(n \<mapsto> ?j\<lparr>job_next := q_head q\<rparr>)) (q_tail q) (as @ [n])"
      using chain_next_upd [where h = ?h1, OF jn] snoc by simp
    moreover have "contents (?h1(n \<mapsto> ?j\<lparr>job_next := q_head q\<rparr>)) = contents (job_heap q)"
      using contents_links [where h = ?h1, OF jn] contents_links [where h = ?h, OF jl] c by simp
    ultimately show ?thesis
      using assms(1,3) hd ln jl
      by (simp add: thpool_job_enqueue_def deref_def queue_rep_def Let_def)
  qed
qed

lemma free_job_rep:
  assumes "queue_rep q as" "a \<notin> set as" "job_heap q a \<noteq> None"
  shows "\<exists>q'. free_job a q = Inr q' \<and> queue_rep q' as
           \<and> contents (job_heap q') = (contents (job_heap q))(a := None) \<and> queueSem q' = queueSem q"
  using assms by (auto simp: free_job_def queue_rep_def)

text \<open>A job is expired when it has waited longer than the time-out.\<close>

definition expired :: "int \<Rightarrow> int \<Rightarrow> 'f payload \<Rightarrow> bool" where
  "expired tm time_out p \<longleftrightarrow> (case p of (_, _, created) \<Rightarrow> tm - created > time_out)"

lemma expired_payload_of [simp]:
  "expired tm time_out (payload_of j) \<longleftrightarrow> tm - job_create_time j > time_out"
  by (simp add: expired_def payload_of_def)

lemma free_tail_rep:
  assumes "queue_rep q (a # as)" "job_heap q a = Some j"
  shows "queue_rep (q\<lparr>q_tail := job_prev j, job_heap := (job_heap q)(a := None), jobN := jobN q - 1\<rparr>) as"
proof -
  have "a \<notin> set as" using queue_rep_distinct [OF assms(1)] by simp
  with assms show ?thesis by (auto simp: queue_rep_def)
qed

lemma timeout_loop_rep:
  assumes "queue_rep q as"
  shows "\<exists>q'. timeout_loop tm time_out (q_tail q) m q
             = Inr (m + length (takeWhile (expired tm time_out) (payloads (job_heap q) as)), q')
           \<and> queue_inv q'
           \<and> waiting q' = dropWhile (expired tm time_out) (payloads (job_heap q) as)
           \<and> queueSem q' = queueSem q
           \<and> (\<forall>a. a \<notin> set as \<longrightarrow> contents (job_heap q') a = contents (job_heap q) a)"
  using assms
proof (induction as arbitrary: q m)
  case Nil
  then have "jobN q = 0" by (simp add: queue_rep_def)
  with Nil show ?case
    by (auto simp: timeout_loop.simps [of _ _ _ _ q] queue_rep_waiting)
next
  case (Cons a as)
  from Cons.prems obtain j where j: "q_tail q = Some a" "job_heap q a = Some j" "jobN q \<noteq> 0"
    by (fastforce simp: queue_rep_def split: option.splits)
  have fresh: "a \<notin> set as" using queue_rep_distinct [OF Cons.prems] by simp
  show ?case
  proof (cases "tm - job_create_time j > time_out")
    case False
    with Cons.prems j show ?thesis
      by (auto simp: timeout_loop.simps [of _ _ _ _ q] queue_rep_waiting)
  next
    case True
    let ?q = "q\<lparr>q_tail := job_prev j, job_heap := (job_heap q)(a := None), jobN := jobN q - 1\<rparr>"
    have p: "payloads (job_heap ?q) as = payloads (job_heap q) as" using fresh by simp
    have c: "contents (job_heap ?q) b = contents (job_heap q) b" if "b \<notin> set (a # as)" for b
      using that by simp
    have step: "timeout_loop tm time_out (q_tail q) m q = timeout_loop tm time_out (q_tail ?q) (m + 1) ?q"
      using j True by (simp add: timeout_loop.simps [of _ _ _ _ q])
    obtain q' where IH: "timeout_loop tm time_out (q_tail ?q) (m + 1) ?q
        = Inr (m + 1 + length (takeWhile (expired tm time_out) (payloads (job_heap q) as)), q')"
      "queue_inv q'" "waiting q' = dropWhile (expired tm time_out) (payloads (job_heap q) as)"
      "queueSem q' = queueSem ?q"
      "\<forall>b. b \<notin> set as \<longrightarrow> contents (job_heap q') b = contents (job_heap ?q) b"
      using Cons.IH [OF free_tail_rep [OF Cons.prems j(2)], of "m + 1"] unfolding p by blast
    have "\<forall>b. b \<notin> set (a # as) \<longrightarrow> contents (job_heap q') b = contents (job_heap q) b"
      using IH(5) c by (metis list.set_intros(2))
    with IH(1-4) j True show ?thesis
      unfolding step by simp
  qed
qed

lemma empty_loop_rep:
  "queue_rep q as \<Longrightarrow>
     \<exists>q'. empty_loop (q_tail q) q = Inr q' \<and> jobN q' = 0
       \<and> contents (job_heap q') = (\<lambda>a. if a \<in> set as then None else contents (job_heap q) a)"
proof (induction as arbitrary: q)
  case Nil
  then show ?case by (simp add: empty_loop.simps [of _ q] queue_rep_def)
next
  case (Cons a as)
  from Cons.prems obtain j where j: "q_tail q = Some a" "job_heap q a = Some j" "jobN q \<noteq> 0"
    by (fastforce simp: queue_rep_def split: option.splits)
  let ?q = "q\<lparr>q_tail := job_prev j, job_heap := (job_heap q)(a := None), jobN := jobN q - 1\<rparr>"
  have step: "empty_loop (q_tail q) q = empty_loop (q_tail ?q) ?q"
    using j by (simp add: empty_loop.simps [of _ q])
  have c: "contents (job_heap ?q) = (contents (job_heap q))(a := None)" by simp
  obtain q' where "empty_loop (q_tail ?q) ?q = Inr q'" "jobN q' = 0"
    "contents (job_heap q') = (\<lambda>b. if b \<in> set as then None else contents (job_heap ?q) b)"
    using Cons.IH [OF free_tail_rep [OF Cons.prems j(2)]] by blast
  then show ?case unfolding step c by (auto simp: fun_eq_iff)
qed

end
