(* ===== verification/QueueInterface.thy ===== *)
theory QueueInterface
  imports QueueRefinement "HOL-Library.Sublist"
begin

text \<open>
  The interface of a job queue: what the thread pool and the event loop may assume of
  submitting, serving and expiring jobs, the facts that follow for whole histories of
  operations, and the proof that the linked queue of \<open>thread_pool.c\<close> provides it.
\<close>

section \<open>Histories of operations\<close>

datatype 'x qop = Submit nat 'x | Serve | Prune int int

fun submitted :: "'x qop list \<Rightarrow> 'x list" where
  "submitted [] = []"
| "submitted (Submit a x # ops) = x # submitted ops"
| "submitted (Serve # ops) = submitted ops"
| "submitted (Prune _ _ # ops) = submitted ops"

fun no_prune :: "'x qop list \<Rightarrow> bool" where
  "no_prune [] = True"
| "no_prune (Prune _ _ # ops) = False"
| "no_prune (_ # ops) = no_prune ops"

text \<open>A history over the operations of a queue; the result lists the jobs served, in order.\<close>

fun run_queue ::
    "(nat \<Rightarrow> 'q \<Rightarrow> bool) \<Rightarrow> (nat \<Rightarrow> 'x \<Rightarrow> 'q \<Rightarrow> 'q result) \<Rightarrow> ('q \<Rightarrow> ('x option \<times> 'q) result)
     \<Rightarrow> (int \<Rightarrow> int \<Rightarrow> 'q \<Rightarrow> (nat \<times> 'q) result) \<Rightarrow> 'x qop list \<Rightarrow> 'q \<Rightarrow> ('x list \<times> 'q) result" where
  "run_queue fr sub srv prn [] q = Inr ([], q)"
| "run_queue fr sub srv prn (Submit a x # ops) q =
     (if fr a q then and_then (sub a x q) (run_queue fr sub srv prn ops) else Inl BadMalloc)"
| "run_queue fr sub srv prn (Serve # ops) q =
     and_then (srv q) (\<lambda>(y, q). and_then (run_queue fr sub srv prn ops q) (\<lambda>(ys, q).
       Inr ((case y of None \<Rightarrow> ys | Some y \<Rightarrow> y # ys), q)))"
| "run_queue fr sub srv prn (Prune tm time_out # ops) q =
     and_then (prn tm time_out q) (\<lambda>(_, q). run_queue fr sub srv prn ops q)"

text \<open>The contract of \<open>malloc\<close> along a history: each submission gets a block that is not in use.\<close>

fun mallocs_ok ::
    "(nat \<Rightarrow> 'q \<Rightarrow> bool) \<Rightarrow> (nat \<Rightarrow> 'x \<Rightarrow> 'q \<Rightarrow> 'q result) \<Rightarrow> ('q \<Rightarrow> ('x option \<times> 'q) result)
     \<Rightarrow> (int \<Rightarrow> int \<Rightarrow> 'q \<Rightarrow> (nat \<times> 'q) result) \<Rightarrow> 'x qop list \<Rightarrow> 'q \<Rightarrow> bool" where
  "mallocs_ok fr sub srv prn [] q = True"
| "mallocs_ok fr sub srv prn (Submit a x # ops) q =
     (fr a q \<and> (case sub a x q of Inl _ \<Rightarrow> True | Inr q \<Rightarrow> mallocs_ok fr sub srv prn ops q))"
| "mallocs_ok fr sub srv prn (Serve # ops) q =
     (case srv q of Inl _ \<Rightarrow> True | Inr (_, q) \<Rightarrow> mallocs_ok fr sub srv prn ops q)"
| "mallocs_ok fr sub srv prn (Prune tm time_out # ops) q =
     (case prn tm time_out q of Inl _ \<Rightarrow> True | Inr (_, q) \<Rightarrow> mallocs_ok fr sub srv prn ops q)"

text \<open>
  The same history on a list: jobs join at the end, are served from the front, and an expiry drops
  those at the front that are too old.
\<close>

fun list_queue :: "(int \<Rightarrow> int \<Rightarrow> 'x \<Rightarrow> bool) \<Rightarrow> 'x qop list \<Rightarrow> 'x list \<Rightarrow> 'x list \<times> 'x list" where
  "list_queue old [] xs = ([], xs)"
| "list_queue old (Submit a x # ops) xs = list_queue old ops (xs @ [x])"
| "list_queue old (Serve # ops) xs =
     (case xs of [] \<Rightarrow> list_queue old ops [] | x # xs \<Rightarrow> map_prod (Cons x) id (list_queue old ops xs))"
| "list_queue old (Prune tm time_out # ops) xs = list_queue old ops (dropWhile (old tm time_out) xs)"

lemma list_queue_fifo: "no_prune ops \<Longrightarrow> list_queue old ops xs = (ys, zs) \<Longrightarrow> ys @ zs = xs @ submitted ops"
proof (induction ops arbitrary: xs ys rule: submitted.induct)
  case (3 ops)
  then show ?case by (cases xs) (auto simp: map_prod_def split: prod.splits)
qed auto

text \<open>With expiry, jobs may be lost but never reordered, repeated or invented.\<close>

lemma list_queue_subseq: "list_queue old ops xs = (ys, zs) \<Longrightarrow> subseq (ys @ zs) (xs @ submitted ops)"
proof (induction ops arbitrary: xs ys rule: submitted.induct)
  case (2 a x ops)
  from "2.IH" [of "xs @ [x]" ys] "2.prems" show ?case by simp
next
  case (3 ops)
  then show ?case using "3.IH" [of "[]"] by (cases xs) (auto simp: map_prod_def split: prod.splits)
next
  case (4 tm time_out ops)
  have "subseq (ys @ zs) (dropWhile (old tm time_out) xs @ submitted ops)"
    using 4 by simp
  moreover have "subseq (dropWhile (old tm time_out) xs @ submitted ops) (xs @ submitted ops)"
    by (intro list_emb_append_mono) (auto simp: suffix_imp_subseq suffix_dropWhile)
  ultimately show ?case unfolding submitted.simps by (rule subseq_order.order_trans)
qed simp

section \<open>The interface\<close>

locale job_queue =
  fixes inv :: "'q \<Rightarrow> bool"
    and jobs :: "'q \<Rightarrow> 'x list"
    and fr :: "nat \<Rightarrow> 'q \<Rightarrow> bool"
    and ok :: "'x \<Rightarrow> bool"
    and sub :: "nat \<Rightarrow> 'x \<Rightarrow> 'q \<Rightarrow> 'q result"
    and srv :: "'q \<Rightarrow> ('x option \<times> 'q) result"
    and old :: "int \<Rightarrow> int \<Rightarrow> 'x \<Rightarrow> bool"
    and prn :: "int \<Rightarrow> int \<Rightarrow> 'q \<Rightarrow> (nat \<times> 'q) result"
  assumes sub_ok: "inv q \<Longrightarrow> fr a q \<Longrightarrow> ok x \<Longrightarrow>
      \<exists>q'. sub a x q = Inr q' \<and> inv q' \<and> jobs q' = jobs q @ [x]"
    and srv_empty: "inv q \<Longrightarrow> jobs q = [] \<Longrightarrow> srv q = Inr (None, q)"
    and srv_next: "inv q \<Longrightarrow> jobs q = x # xs \<Longrightarrow>
      \<exists>q'. srv q = Inr (Some x, q') \<and> inv q' \<and> jobs q' = xs"
    and prn_ok: "inv q \<Longrightarrow>
      \<exists>q'. prn tm time_out q = Inr (length (takeWhile (old tm time_out) (jobs q)), q') \<and> inv q'
         \<and> jobs q' = dropWhile (old tm time_out) (jobs q)"
begin

text \<open>Every history of valid submissions runs without a memory error and does what it does to a list.\<close>

lemma run_lists:
  "inv q \<Longrightarrow> list_all ok (submitted ops) \<Longrightarrow> mallocs_ok fr sub srv prn ops q \<Longrightarrow>
     \<exists>ys q'. run_queue fr sub srv prn ops q = Inr (ys, q') \<and> inv q' \<and> list_queue old ops (jobs q) = (ys, jobs q')"
proof (induction ops arbitrary: q rule: submitted.induct)
  case 1
  then show ?case by simp
next
  case (2 a x ops)
  then obtain q1 where q1: "sub a x q = Inr q1" "inv q1" "jobs q1 = jobs q @ [x]"
    using sub_ok [of q a x] by auto
  then show ?case using 2 by fastforce
next
  case (3 ops)
  show ?case
  proof (cases "jobs q")
    case Nil
    then show ?thesis using 3 srv_empty [of q] by fastforce
  next
    case (Cons x xs)
    then obtain q1 where q1: "srv q = Inr (Some x, q1)" "inv q1" "jobs q1 = xs"
      using srv_next "3.prems"(1) by blast
    then obtain ys q' where "run_queue fr sub srv prn ops q1 = Inr (ys, q')" "inv q'"
      "list_queue old ops xs = (ys, jobs q')"
      using "3.IH" [of q1] "3.prems" by auto
    with q1(1) Cons show ?thesis by simp
  qed
next
  case (4 tm time_out ops)
  then obtain n q1 where q1: "prn tm time_out q = Inr (n, q1)" "inv q1"
    "jobs q1 = dropWhile (old tm time_out) (jobs q)"
    using prn_ok by blast
  then show ?case using "4.IH" [of q1] "4.prems" by simp
qed

end

section \<open>The linked queue provides it\<close>

definition fresh_addr :: "nat \<Rightarrow> 'f thpool_jobqueue \<Rightarrow> bool" where
  "fresh_addr a q \<longleftrightarrow> job_heap q a = None"

definition payload_ok :: "'f payload \<Rightarrow> bool" where
  "payload_ok p \<longleftrightarrow> (case p of (_, par, _) \<Rightarrow> length (recv_buffer par) = BUFFER_SIZE)"

text \<open>\<open>thpool_add_work\<close> on a job the client describes.\<close>

definition submit_job :: "nat \<Rightarrow> 'f payload \<Rightarrow> 'f thpool_jobqueue \<Rightarrow> 'f thpool_jobqueue result" where
  "submit_job a p q =
     (case p of (f, par, tm) \<Rightarrow>
        and_then (add_job (Some a) f tm (recv_buffer par) (arg_fd par) q) (\<lambda>(_, q). Inr q))"

text \<open>
  One round of a worker (\<open>thpool_thread_do\<close>, lines 134 to 143): peek, remove, call the
  function with the argument, free. The payload returned is what the function is called
  with; \<open>None\<close> is the early return after a failed removal.
\<close>

definition serve_job :: "'f thpool_jobqueue \<Rightarrow> ('f payload option \<times> 'f thpool_jobqueue) result" where
  "serve_job q =
     and_then (take_job q) (\<lambda>(job_p, r, q).
       if r \<noteq> 0 then Inr (None, q)
       else and_then (deref (job_heap q) job_p) (\<lambda>(a, j).
            and_then (free_job a q) (\<lambda>q. Inr (Some (payload_of j), q))))"

lemma add_job_rep:
  assumes "queue_rep q as" "job_heap q n = None" "BUFFER_SIZE \<le> length buf"
  shows "\<exists>q'. add_job (Some n) f tm buf sock q = Inr (0, q') \<and> queue_rep q' (as @ [n])
           \<and> contents (job_heap q') = (contents (job_heap q))(n \<mapsto> payload_of (new_job f tm buf sock))
           \<and> queueSem q' = Suc (queueSem q)"
proof -
  let ?j = "new_job f tm buf sock"
  let ?q = "q\<lparr>job_heap := (job_heap q)(n \<mapsto> ?j)\<rparr>"
  have n: "n \<notin> set as" using queue_rep_alloc [OF assms(1)] assms(2) by auto
  then have "queue_rep ?q as" using assms(1) by (simp add: queue_rep_def)
  then obtain q' where "thpool_job_enqueue ?q n = Inr q'" "queue_rep q' (as @ [n])"
    "contents (job_heap q') = contents (job_heap ?q)" "queueSem q' = Suc (queueSem ?q)"
    using enqueue_rep [of ?q as n ?j] n by auto
  moreover have "contents (job_heap ?q) = (contents (job_heap q))(n \<mapsto> payload_of ?j)"
    by (auto simp: contents_def)
  ultimately show ?thesis using assms(3) by (simp add: add_job_def)
qed

lemma waiting_contents:
  "queue_rep q as \<Longrightarrow> waiting q = map (\<lambda>a. the (contents (job_heap q) a)) as"
  using queue_rep_alloc by (fastforce simp: queue_rep_waiting payloads_def contents_def)

lemma payload_of_new_job:
  "payload_ok (f, par, tm) \<Longrightarrow>
     payload_of (new_job f tm (recv_buffer par) (arg_fd par)) = (f, par, tm)"
  by (simp add: payload_ok_def payload_of_def new_job_def)

lemma submit_job_correct:
  assumes "queue_inv q" "fresh_addr a q" "payload_ok p"
  shows "\<exists>q'. submit_job a p q = Inr q' \<and> queue_inv q' \<and> waiting q' = waiting q @ [p]
           \<and> queueSem q' = Suc (queueSem q)"
proof -
  obtain f par tm where p: "p = (f, par, tm)" by (cases p)
  obtain as where as: "queue_rep q as" using assms(1) by (auto simp: queue_inv_iff)
  have len: "BUFFER_SIZE \<le> length (recv_buffer par)" using assms(3) p by (simp add: payload_ok_def)
  have a: "job_heap q a = None" using assms(2) by (simp add: fresh_addr_def)
  obtain q' where q': "add_job (Some a) f tm (recv_buffer par) (arg_fd par) q = Inr (0, q')"
    "queue_rep q' (as @ [a])" "contents (job_heap q') = (contents (job_heap q))(a \<mapsto> p)"
    "queueSem q' = Suc (queueSem q)"
    using add_job_rep [OF as a len] payload_of_new_job assms(3) unfolding p by metis
  have "a \<notin> set as" using queue_rep_alloc [OF as] a by auto
  then have "waiting q' = waiting q @ [p]"
    using waiting_contents [OF q'(2)] waiting_contents [OF as] q'(3) by auto
  with q' show ?thesis by (auto simp: submit_job_def p)
qed

lemma serve_job_empty: "queue_inv q \<Longrightarrow> waiting q = [] \<Longrightarrow> serve_job q = Inr (None, q)"
proof -
  assume "queue_inv q" "waiting q = []"
  then have "queue_rep q []"
    by (auto simp: queue_inv_def waiting_def payloads_def)
  then show ?thesis by (simp add: serve_job_def take_job_def removelast_empty)
qed

lemma serve_job_next:
  assumes "queue_inv q" "waiting q = x # xs"
  shows "\<exists>q'. serve_job q = Inr (Some x, q') \<and> queue_inv q' \<and> waiting q' = xs
           \<and> queueSem q' = queueSem q"
proof -
  obtain a as where as: "queue_rep q (a # as)"
    using assms by (cases "addrs q") (auto simp: queue_inv_def waiting_def payloads_def)
  obtain q1 where q1: "thpool_jobqueue_removelast q = Inr (0, q1)" "queue_rep q1 as"
    "contents (job_heap q1) = contents (job_heap q)" "queueSem q1 = queueSem q" "q_tail q = Some a"
    using removelast_rep [OF as] by blast
  have w: "x = the (contents (job_heap q) a)" "xs = map (\<lambda>a. the (contents (job_heap q) a)) as"
    using waiting_contents [OF as] assms(2) by auto
  have "contents (job_heap q1) a = Some x"
    unfolding q1(3) w(1) using queue_rep_alloc [OF as] by simp
  then obtain j where j: "job_heap q1 a = Some j" "payload_of j = x"
    by (auto simp: contents_def)
  have na: "a \<notin> set as" using queue_rep_distinct [OF as] by simp
  obtain q2 where q2: "free_job a q1 = Inr q2" "queue_rep q2 as"
    "contents (job_heap q2) = (contents (job_heap q1))(a := None)" "queueSem q2 = queueSem q1"
    using free_job_rep [OF q1(2) na] j(1) by auto
  have "waiting q2 = xs"
    unfolding waiting_contents [OF q2(2)] q2(3) q1(3) w(2) using na by auto
  moreover have "serve_job q = Inr (Some x, q2)"
    using q1(1,5) q2(1) j by (simp add: serve_job_def take_job_def thpool_jobqueue_peek_def deref_def)
  ultimately show ?thesis using queue_rep_inv [OF q2(2)] q2(4) q1(4) by simp
qed

text \<open>The job a worker takes is allocated until the worker frees it.\<close>

lemma take_job_next:
  assumes "queue_inv q" "waiting q = x # xs"
  shows "\<exists>a j q'. take_job q = Inr (Some a, 0, q') \<and> job_heap q' a = Some j \<and> payload_of j = x
           \<and> (\<exists>q''. free_job a q' = Inr q'' \<and> queue_inv q'' \<and> waiting q'' = xs)"
proof -
  obtain as where rep: "queue_rep q as" using assms(1) by (auto simp: queue_inv_iff)
  have w: "map (\<lambda>a. the (contents (job_heap q) a)) as = x # xs"
    using waiting_contents [OF rep] assms(2) by simp
  then obtain a bs where as: "as = a # bs" "the (contents (job_heap q) a) = x"
    "map (\<lambda>a. the (contents (job_heap q) a)) bs = xs"
    by (cases as) auto
  obtain q' where q': "thpool_jobqueue_removelast q = Inr (0, q')" "queue_rep q' bs"
    "contents (job_heap q') = contents (job_heap q)" "q_tail q = Some a"
    using removelast_rep [of q a bs] rep as(1) by blast
  have heap: "job_heap q a \<noteq> None" using queue_rep_alloc [OF rep] as(1) by simp
  then have "contents (job_heap q') a \<noteq> None" using q'(3) by simp
  then obtain j where j: "job_heap q' a = Some j" by auto
  have pj: "payload_of j = x" using j as(2) q'(3) by (metis contents_def option.map(2) option.sel)
  have nb: "a \<notin> set bs" using queue_rep_distinct [OF rep] as(1) by simp
  obtain q'' where q'': "free_job a q' = Inr q''" "queue_rep q'' bs"
    "contents (job_heap q'') = (contents (job_heap q'))(a := None)"
    using free_job_rep [OF q'(2) nb] j by auto
  have "waiting q'' = xs"
    using waiting_contents [OF q''(2)] q''(3) q'(3) nb as(3) by (auto intro: map_cong)
  moreover have "take_job q = Inr (Some a, 0, q')"
    using q'(1,4) by (simp add: take_job_def thpool_jobqueue_peek_def)
  ultimately show ?thesis using j pj q''(1,2) by blast
qed

lemma delete_timeout_correct:
  assumes "queue_inv q"
  shows "\<exists>q'. delete_timeout_job tm time_out q
              = Inr (length (takeWhile (expired tm time_out) (waiting q)), q')
           \<and> queue_inv q' \<and> waiting q' = dropWhile (expired tm time_out) (waiting q)
           \<and> queueSem q' = queueSem q"
proof -
  obtain as where as: "queue_rep q as" using assms by (auto simp: queue_inv_iff)
  show ?thesis
    using timeout_loop_rep [OF as, of tm time_out 0] queue_rep_waiting [OF as]
    by (auto simp: delete_timeout_job_def)
qed

interpretation jq: job_queue queue_inv waiting fresh_addr payload_ok submit_job serve_job
  expired delete_timeout_job
proof
  show "\<exists>q'. submit_job a x q = Inr q' \<and> queue_inv q' \<and> waiting q' = waiting q @ [x]"
    if "queue_inv q" "fresh_addr a q" "payload_ok x" for q :: "'a thpool_jobqueue" and a x
    using submit_job_correct [OF that] by blast
  show "\<exists>q'. serve_job q = Inr (Some x, q') \<and> queue_inv q' \<and> waiting q' = xs"
    if "queue_inv q" "waiting q = x # xs" for q :: "'a thpool_jobqueue" and x xs
    using serve_job_next [OF that] by blast
  show "\<exists>q'. delete_timeout_job tm time_out q
          = Inr (length (takeWhile (expired tm time_out) (waiting q)), q') \<and> queue_inv q'
          \<and> waiting q' = dropWhile (expired tm time_out) (waiting q)"
    if "queue_inv q" for q :: "'a thpool_jobqueue" and tm time_out
    using delete_timeout_correct [OF that, of tm time_out] by blast
qed (rule serve_job_empty)

end
