(* ===== verification/NetIO.thy ===== *)
theory NetIO
  imports Effects JobQueue
begin

text \<open>
  The socket and dump helpers of \<open>src/server/g_net_update.c\<close>. What the kernel answers to
  \<open>recv\<close>, \<open>write\<close> and \<open>fcntl\<close> is an argument.
\<close>

section \<open>Sockets\<close>

definition closesocket :: "int \<Rightarrow> effect list" where
  "closesocket sock = [Shutdown sock, Close sock]"

lemma closed_closesocket [simp]: "closed (closesocket s) = [s]"
  by (simp add: closesocket_def)

lemma sent_closesocket [simp]: "sent_to t (closesocket s) = []"
  by (simp add: closesocket_def)

text \<open>\<open>getfl\<close> and \<open>setfl\<close> are what the two \<open>fcntl\<close> calls return.\<close>

definition set_non_blocking :: "int \<Rightarrow> int \<Rightarrow> int \<Rightarrow> int \<times> effect list" where
  "set_non_blocking getfl setfl sock =
     (if getfl < 0 then
        (-1, [Log LOG_LEVEL_ERROR ''set_non_blocking'' 101 (''fcntl(sock='' @ show_int sock @ '',GETFL).'' @ nl)])
      else if setfl < 0 then
        (-1, [SetBlockOpt sock,
              Log LOG_LEVEL_ERROR ''set_non_blocking'' 107 (''fcntl(sock='' @ show_int sock @ '',GETFL).'' @ nl)])
      else (1, [SetBlockOpt sock]))"

section \<open>Receiving\<close>

definition BUFLEN :: nat where "BUFLEN = 1024"

datatype recv_res = RecvErr | Recvd string

text \<open>
  \<open>recv_buffer_from_fd\<close>. Each of the three branches clears \<open>read_continue\<close>, so the loop
  runs once. The result is the return value, the buffer and \<open>*recv_length\<close> where it is set.
\<close>

definition recv_buffer_from_fd :: "recv_res \<Rightarrow> string \<Rightarrow> (int \<times> string \<times> nat option) result" where
  "recv_buffer_from_fd r buf =
     (case r of
        RecvErr \<Rightarrow> Inr (-1, buf, None)
      | Recvd bs \<Rightarrow>
          and_then (write_at 0 bs buf) (\<lambda>buf.
            if length bs < BUFLEN then Inr (0, buf, Some (length bs)) else Inr (-1, buf, None)))"

section \<open>Sending\<close>

datatype write_res = Wrote nat | WouldBlock | WriteErr

text \<open>
  The loop of \<open>send_buffer_to_fd\<close>; \<open>n\<close> is what is left. The return value is \<open>None\<close> while
  the loop is still writing (the list of answers is used up). The call of \<open>write\<close>
  passes \<open>n\<close> bytes from \<open>pucBuf + iLen - n\<close>; after \<open>EAGAIN\<close> the code subtracts the
  return value -1 from \<open>n\<close>.
\<close>

fun send_loop :: "write_res list \<Rightarrow> int \<Rightarrow> string \<Rightarrow> int \<Rightarrow> int \<Rightarrow> (int option \<times> effect list) result" where
  "send_loop ws sock buf iLen n =
     (if n \<le> 0 then Inr (Some (iLen - n), [])
      else if iLen < n \<or> int (length buf) < iLen then Inl OutOfBounds
      else case ws of
             [] \<Rightarrow> Inr (None, [])
           | Wrote k # ws \<Rightarrow>
               and_then (send_loop ws sock buf iLen (n - int k)) (\<lambda>(r, es).
                 Inr (r, Send sock (take k (take (nat n) (drop (nat (iLen - n)) buf))) # es))
           | WriteErr # ws \<Rightarrow> Inr (Some 0, [Log LOG_LEVEL_ERROR ''send_buffer_to_fd'' 325 (''Write.'' @ nl)])
           | WouldBlock # ws \<Rightarrow>
               and_then (send_loop ws sock buf iLen (n + 1)) (\<lambda>(r, es).
                 Inr (r, Log LOG_LEVEL_INFO ''send_buffer_to_fd'' 330 (''Write EAGAIN.'' @ nl) # es)))"

declare send_loop.simps [simp del]

definition send_buffer_to_fd ::
    "write_res list \<Rightarrow> int \<Rightarrow> string \<Rightarrow> int \<Rightarrow> (int option \<times> effect list) result" where
  "send_buffer_to_fd ws sock buf iLen = send_loop ws sock buf iLen iLen"

text \<open>The answers of a kernel that accepts the whole message, at most what is left at a time.\<close>

fun accepts :: "nat \<Rightarrow> write_res list \<Rightarrow> bool" where
  "accepts 0 ws = True"
| "accepts n [] = False"
| "accepts n (Wrote k # ws) = (k \<le> n \<and> accepts (n - k) ws)"
| "accepts n (_ # ws) = False"

lemma send_loop_wrote:
  assumes "0 < n" "n \<le> iLen" "iLen \<le> length buf" "k \<le> n"
    "send_loop ws sock buf (int iLen) (int (n - k)) = Inr (r, es)"
  shows "send_loop (Wrote k # ws) sock buf (int iLen) (int n)
         = Inr (r, Send sock (take k (take n (drop (iLen - n) buf))) # es)"
proof -
  have k: "int n - int k = int (n - k)" and o: "nat (int iLen - int n) = iLen - n"
    using assms(2,4) by simp_all
  have "\<not> int n \<le> 0" "\<not> (int iLen < int n \<or> int (length buf) < int iLen)"
    using assms(1-3) by simp_all
  then show ?thesis
    unfolding send_loop.simps [of "Wrote k # ws"] k o assms(5) list.case write_res.case
      and_then_simps prod.case nat_int
    by simp
qed

lemma send_loop_accepts:
  assumes "accepts n ws" "n \<le> iLen" "iLen \<le> length buf"
  shows "\<exists>es. send_loop ws sock buf (int iLen) (int n) = Inr (Some (int iLen), es)
           \<and> sent_to sock es = take n (drop (iLen - n) buf) \<and> closed es = []
           \<and> (\<forall>s. s \<noteq> sock \<longrightarrow> sent_to s es = [])"
  using assms
proof (induction n ws rule: accepts.induct)
  case (1 ws)
  then show ?case by (simp add: send_loop.simps)
next
  case (2 v)
  then show ?case by simp
next
  case (3 m k ws)
  let ?n = "Suc m"
  have k: "k \<le> ?n" "accepts (?n - k) ws" using 3 by auto
  have le: "?n - k \<le> iLen" using "3.prems"(2) by simp
  obtain es where es: "send_loop ws sock buf (int iLen) (int (?n - k)) = Inr (Some (int iLen), es)"
    "sent_to sock es = take (?n - k) (drop (iLen - (?n - k)) buf)" "closed es = []"
    "\<forall>s. s \<noteq> sock \<longrightarrow> sent_to s es = []"
    using "3.IH" [OF k(2) le "3.prems"(3)] by auto
  have chunk: "take k (take ?n (drop (iLen - ?n) buf)) @ take (?n - k) (drop (iLen - (?n - k)) buf)
      = take ?n (drop (iLen - ?n) buf)"
  proof -
    let ?ys = "drop (iLen - ?n) buf"
    have "drop (iLen - (?n - k)) buf = drop k ?ys"
      using k(1) "3.prems" by (simp add: add.commute)
    moreover have "take k (take ?n ?ys) = take k ?ys" using k(1) by (simp add: min_def)
    moreover have "take ?n ?ys = take k ?ys @ take (?n - k) (drop k ?ys)"
      using take_add [of k "?n - k" ?ys] le_add_diff_inverse [OF k(1)] by (simp only:)
    ultimately show ?thesis by (simp only:)
  qed
  have "send_loop (Wrote k # ws) sock buf (int iLen) (int ?n)
      = Inr (Some (int iLen), Send sock (take k (take ?n (drop (iLen - ?n) buf))) # es)"
    using send_loop_wrote [OF _ "3.prems"(2,3) k(1) es(1)] by simp
  moreover have "sent_to sock (Send sock (take k (take ?n (drop (iLen - ?n) buf))) # es)
      = take ?n (drop (iLen - ?n) buf)"
    unfolding sent_to.simps es(2) using chunk by (simp only: if_True refl)
  moreover have "closed (Send sock (take k (take ?n (drop (iLen - ?n) buf))) # es) = []"
    using es(3) by simp
  moreover have "\<forall>s. s \<noteq> sock \<longrightarrow> sent_to s (Send sock (take k (take ?n (drop (iLen - ?n) buf))) # es) = []"
    using es(4) by simp
  ultimately show ?case by blast
qed simp_all

lemma send_buffer_accepts:
  assumes "accepts n ws" "n \<le> length buf"
  shows "\<exists>es. send_buffer_to_fd ws sock buf (int n) = Inr (Some (int n), es)
           \<and> sent_to sock es = take n buf \<and> closed es = [] \<and> (\<forall>s. s \<noteq> sock \<longrightarrow> sent_to s es = [])"
  using send_loop_accepts [OF assms(1) order_refl assms(2)] by (simp add: send_buffer_to_fd_def)

section \<open>Dumping a message\<close>

text \<open>
  \<open>dumpInfo\<close> prints each byte with \<open>sprintf(&buffer[j], "%02x", ...)\<close> into a buffer of
  128 characters: three bytes are written at \<open>j\<close>, \<open>j\<close> advances by 2.
\<close>

definition DUMP_BUFFER :: nat where "DUMP_BUFFER = 128"

fun dump_loop :: "string \<Rightarrow> nat \<Rightarrow> string \<Rightarrow> string result" where
  "dump_loop [] j buf = Inr buf"
| "dump_loop (c # cs) j buf = and_then (write_at j (hex2 c @ [NUL]) buf) (dump_loop cs (j + 2))"

definition dumpInfo :: "string \<Rightarrow> nat \<Rightarrow> (effect list) result" where
  "dumpInfo info len =
     and_then (read_at 0 len info) (\<lambda>bs.
     and_then (dump_loop bs 0 (replicate DUMP_BUFFER NUL)) (\<lambda>buf.
     and_then (str_at 0 buf) (\<lambda>s.
     Inr [Log LOG_LEVEL_INDISPENSABLE ''dumpInfo'' 351
            (''dump info length = '' @ show_int (int len) @ '', '' @ s @ nl)])))"

lemma hex_char_not_NUL: "d < 16 \<Longrightarrow> hex_char d \<noteq> NUL"
proof
  assume d: "d < 16" and "hex_char d = NUL"
  then have "of_char (hex_char d) = (0::nat)" by (simp add: NUL_def)
  with d show False by (simp add: hex_char_def split: if_splits)
qed

lemma of_char_div_16: "(of_char c :: nat) div 16 < 16"
  using nat_of_char_less_256 [of c] by (simp add: less_mult_imp_div_less)

lemma nulfree_hex2 [simp]: "nulfree (hex2 c)"
  using hex_char_not_NUL [OF of_char_div_16, of c] hex_char_not_NUL [of "of_char c mod 16"]
  by (auto simp: hex2_def)

text \<open>The dump succeeds exactly when the text and its NUL fit.\<close>

lemma dump_loop_ok:
  assumes "j + 2 * length cs + (if cs = [] then 0 else 1) \<le> length buf" "cs = [] \<Longrightarrow> buf ! j = NUL \<and> j < length buf"
  shows "\<exists>b. dump_loop cs j buf = Inr b \<and> length b = length buf \<and> take j b = take j buf
           \<and> cstr (drop j b) = concat (map hex2 cs) \<and> terminated (drop j b)"
  using assms
proof (induction cs arbitrary: j buf)
  case Nil
  then have "drop j buf = NUL # drop (Suc j) buf" by (metis Cons_nth_drop_Suc)
  then show ?case by (simp add: cstr_Cons)
next
  case (Cons c cs)
  let ?b1 = "take j buf @ (hex2 c @ [NUL]) @ drop (j + 3) buf"
  have w: "write_at j (hex2 c @ [NUL]) buf = Inr ?b1"
    using Cons.prems(1) by (simp add: write_at_def numeral_3_eq_3)
  have l: "length ?b1 = length buf" using write_at_length [OF w] .
  have j: "j + 2 < length buf" using Cons.prems(1) by simp
  have d: "drop (j + 2) ?b1 = NUL # drop (j + 3) buf" "take (j + 2) ?b1 = take j buf @ hex2 c"
    using j by (auto simp: min_def)
  have nth: "?b1 ! (j + 2) = NUL"
    using d(1) j l by (metis hd_drop_conv_nth list.sel(1))
  obtain b where b: "dump_loop cs (j + 2) ?b1 = Inr b" "length b = length ?b1"
    "take (j + 2) b = take (j + 2) ?b1" "cstr (drop (j + 2) b) = concat (map hex2 cs)"
    "terminated (drop (j + 2) b)"
    using Cons.IH [of "j + 2" ?b1] Cons.prems(1) l nth j by (cases "cs = []") auto
  have t: "take (j + 2) b = take j buf @ hex2 c" using b(3) d(2) by simp
  have lj: "length (take j buf) = j" using j by simp
  have b_eq: "b = take j buf @ hex2 c @ drop (j + 2) b"
    using append_take_drop_id [of "j + 2" b] unfolding t by simp
  have split: "drop j b = hex2 c @ drop (j + 2) b"
    using arg_cong [OF b_eq, of "drop j"] lj by simp
  have pre: "take j b = take j buf"
    using arg_cong [OF b_eq, of "take j"] lj by simp
  have "cstr (hex2 c @ r) = hex2 c @ cstr r" for r
    using nulfree_hex2 [of c] by (simp add: hex2_def cstr_Cons)
  then have "cstr (drop j b) = concat (map hex2 (c # cs))"
    unfolding split using b(4) by simp
  moreover have "terminated (drop j b)" unfolding split using b(5) by simp
  ultimately show ?case
    using w b(1,2) l pre by auto
qed



lemma dump_loop_overflow:
  "cs \<noteq> [] \<Longrightarrow> length buf < j + 2 * length cs + 1 \<Longrightarrow> dump_loop cs j buf = Inl OutOfBounds"
proof (induction cs arbitrary: j buf)
  case Nil
  then show ?case by simp
next
  case (Cons c cs)
  show ?case
  proof (cases "write_at j (hex2 c @ [NUL]) buf")
    case (Inl e)
    then show ?thesis by (auto simp: write_at_def split: if_splits)
  next
    case (Inr b)
    have b: "length b = length buf" using Inr by (rule write_at_length)
    have "j + 3 \<le> length buf" using Inr by (simp add: write_at_Inr_iff)
    then have "cs \<noteq> []" using Cons.prems(2) by auto
    then have "dump_loop cs (j + 2) b = Inl OutOfBounds"
      using Cons.prems(2) b by (intro Cons.IH) auto
    then show ?thesis using Inr by simp
  qed
qed

lemma dumpInfo_ok:
  assumes "len \<le> 63" "len \<le> length info"
  shows "dumpInfo info len = Inr [Log LOG_LEVEL_INDISPENSABLE ''dumpInfo'' 351
           (''dump info length = '' @ show_int (int len) @ '', ''
            @ concat (map hex2 (take len info)) @ nl)]"
proof -
  have room: "0 + 2 * length (take len info) + (if take len info = [] then 0 else 1)
      \<le> length (replicate DUMP_BUFFER NUL)"
    using assms by (simp add: DUMP_BUFFER_def)
  have first: "replicate DUMP_BUFFER NUL ! 0 = NUL \<and> 0 < length (replicate DUMP_BUFFER NUL)"
    by (simp add: DUMP_BUFFER_def)
  obtain b where "dump_loop (take len info) 0 (replicate DUMP_BUFFER NUL) = Inr b"
    "cstr b = concat (map hex2 (take len info))" "terminated b"
    using dump_loop_ok [OF room first] by auto
  with assms(2) show ?thesis by (simp add: dumpInfo_def read_at_def str_at_def)
qed

lemma dumpInfo_overflow:
  assumes "64 \<le> len" "len \<le> length info"
  shows "dumpInfo info len = Inl OutOfBounds"
proof -
  have "take len info \<noteq> []" "length (replicate DUMP_BUFFER NUL) < 0 + 2 * length (take len info) + 1"
    using assms by (auto simp: DUMP_BUFFER_def)
  from dump_loop_overflow [OF this] show ?thesis
    using assms(2) by (simp add: dumpInfo_def read_at_def)
qed

end
