(* ===== verification/ServerState.thy ===== *)
theory ServerState
  imports UserList QueueInterface NetIO
begin

text \<open>
  The state of the server process: the static variables of \<open>g_net_update.c\<close>, the
  connection table, the thread pool's queue and the record of the calls that left the
  process. The \<open>int\<close> counters are mathematical integers (they never get near 2^31).
\<close>

text \<open>The one function the server queues.\<close>

datatype func = Respons_stb_info

record server =
  epoll_connect_client :: conn_table
  current_connected_total :: int
  exit_accept_flag :: bool
  exit_flag :: bool
  listen_fd :: int
  epoll_fd :: int
  thpool :: "func thpool_jobqueue"
  io :: "effect list"

definition SERVER_TIMEOUT :: int where "SERVER_TIMEOUT = 60 * 1"

definition emit :: "effect list \<Rightarrow> server \<Rightarrow> server" where
  "emit es s = s\<lparr>io := io s @ es\<rparr>"

definition connect_total_count_add :: "int \<Rightarrow> server \<Rightarrow> server" where
  "connect_total_count_add v s = s\<lparr>current_connected_total := current_connected_total s + v\<rparr>"

definition connect_total_count_sub :: "int \<Rightarrow> server \<Rightarrow> server" where
  "connect_total_count_sub v s = s\<lparr>current_connected_total := current_connected_total s - v\<rparr>"

text \<open>Applying a fallible update of the connection table.\<close>

definition on_table :: "(conn_table \<Rightarrow> conn_table result) \<Rightarrow> server \<Rightarrow> server result" where
  "on_table f s = and_then (f (epoll_connect_client s)) (\<lambda>t. Inr (s\<lparr>epoll_connect_client := t\<rparr>))"

text \<open>
  \<open>thpool_add_work\<close>: \<open>tm\<close> is the current time, \<open>a\<close> what \<open>malloc\<close> returned. The
  connection's time is updated before the allocation is tested.
\<close>

definition thpool_add_work ::
    "int \<Rightarrow> nat option \<Rightarrow> func \<Rightarrow> int \<Rightarrow> int \<Rightarrow> string \<Rightarrow> server \<Rightarrow> (int \<times> server) result" where
  "thpool_add_work tm a f event_index socket_fd recev_buffer s =
     (let s = s\<lparr>epoll_connect_client := snd (update_time_by_index event_index tm (epoll_connect_client s))\<rparr>
      in and_then (add_job a f tm recev_buffer socket_fd (thpool s)) (\<lambda>(r, q). Inr (r, s\<lparr>thpool := q\<rparr>)))"

lemma emit_simps [simp]:
  "epoll_connect_client (emit es s) = epoll_connect_client s"
  "current_connected_total (emit es s) = current_connected_total s"
  "exit_accept_flag (emit es s) = exit_accept_flag s"
  "exit_flag (emit es s) = exit_flag s"
  "listen_fd (emit es s) = listen_fd s"
  "epoll_fd (emit es s) = epoll_fd s"
  "thpool (emit es s) = thpool s"
  "io (emit es s) = io s @ es"
  by (simp_all add: emit_def)

lemma count_simps [simp]:
  "epoll_connect_client (connect_total_count_add v s) = epoll_connect_client s"
  "current_connected_total (connect_total_count_add v s) = current_connected_total s + v"
  "thpool (connect_total_count_add v s) = thpool s"
  "io (connect_total_count_add v s) = io s"
  "exit_flag (connect_total_count_add v s) = exit_flag s"
  "listen_fd (connect_total_count_add v s) = listen_fd s"
  "epoll_connect_client (connect_total_count_sub v s) = epoll_connect_client s"
  "current_connected_total (connect_total_count_sub v s) = current_connected_total s - v"
  "thpool (connect_total_count_sub v s) = thpool s"
  "io (connect_total_count_sub v s) = io s"
  "exit_flag (connect_total_count_sub v s) = exit_flag s"
  "listen_fd (connect_total_count_sub v s) = listen_fd s"
  by (simp_all add: connect_total_count_add_def connect_total_count_sub_def)

text \<open>The invariant of the whole state: a sound table, a sound queue of well-formed jobs.\<close>

definition job_ok :: "func payload \<Rightarrow> bool" where
  "job_ok p \<longleftrightarrow> payload_ok p \<and> (case p of (_, par, _) \<Rightarrow> terminated (drop 8 (recv_buffer par)))"

definition server_inv :: "server \<Rightarrow> bool" where
  "server_inv s \<longleftrightarrow> conn_inv (epoll_connect_client s) \<and> queue_inv (thpool s)
     \<and> list_all job_ok (waiting (thpool s))"

end
