(* ===== verification/Respond.thy ===== *)
theory Respond
  imports ServerState
begin

text \<open>
  \<open>respons_stb_info\<close> of \<open>src/server/g_net_update.c\<close>: the function a worker calls on a
  received message. \<open>ws\<close> is how the kernel answers the \<open>write\<close> calls of the reply
  (a handler sends at most one), \<open>mem n\<close> what \<open>malloc(n)\<close> returns: the block's content,
  of length n, or NULL.
\<close>

section \<open>Building the replies\<close>

definition send_buffer0 :: string where
  "send_buffer0 = replicate 1024 NUL"

text \<open>The texts \<open>snprintf\<close> formats into the \<open>info\<close> fields.\<close>

definition handshake_info :: "string \<Rightarrow> int \<Rightarrow> string" where
  "handshake_info addr port = ''addr:'' @ addr @ '' port:'' @ show_int port @ '' ''"

definition remote_info :: "string \<Rightarrow> int \<Rightarrow> string" where
  "remote_info ip port = ''clientIp:'' @ ip @ '' clientPort:'' @ show_int port"

text \<open>\<open>case CMD_HANDSHAKE\<close>: the reply for the address and port of the matched event.\<close>

definition handshake_reply :: "string \<Rightarrow> int \<Rightarrow> (string \<times> nat) result" where
  "handshake_reply addr port =
     and_then (write_at 0 (put32 CMD_HANDSHAKE_ACK) send_buffer0) (\<lambda>b.
     and_then (snprintf_at sizeof_stJQMessage 256 (handshake_info addr port) b) (\<lambda>b.
     let len = sizeof_stJQMessage + sizeof_HandshakeAckMessage in
     and_then (write_at 4 (put32 (word_of_nat len)) b) (\<lambda>b. Inr (b, len))))"

definition not_found_info :: string where
  "not_found_info = ''Not Found client event index,  may be caused by the client being offline''"

definition getremote_not_found :: "(string \<times> nat) result" where
  "getremote_not_found =
     and_then (write_at 0 (put32 CMD_GETREMOTE_ACK) send_buffer0) (\<lambda>b.
     and_then (write_at 8 (put32 0) b) (\<lambda>b.
     and_then (snprintf_at 20 256 not_found_info b) (\<lambda>b.
     let len = sizeof_stJQMessage + sizeof_GetRemoteAckMessage in
     and_then (write_at 4 (put32 (word_of_nat len)) b) (\<lambda>b. Inr (b, len)))))"

definition getremote_found :: "string \<Rightarrow> int \<Rightarrow> (string \<times> nat) result" where
  "getremote_found ip port =
     and_then (write_at 0 (put32 CMD_GETREMOTE_ACK) send_buffer0) (\<lambda>b.
     and_then (write_at 8 (put32 1) b) (\<lambda>b.
     and_then (write_at 12 (put32 (inet_addr ip)) b) (\<lambda>b.
     and_then (write_at 16 (put32 (word_of_int port)) b) (\<lambda>b.
     and_then (snprintf_at 20 256 (remote_info ip port) b) (\<lambda>b.
     let len = sizeof_stJQMessage + sizeof_GetRemoteAckMessage in
     and_then (write_at 4 (put32 (word_of_nat len)) b) (\<lambda>b. Inr (b, len)))))))"

text \<open>
  \<open>case CMD_GETALLUSER\<close>. The table is read twice and no lock is held in between: \<open>t1\<close> is
  the table when the users are counted (and the buffer is allocated), \<open>t2\<close> when they are
  written.
\<close>

definition getalluser_reply ::
    "(nat \<Rightarrow> string option) \<Rightarrow> conn_table \<Rightarrow> conn_table \<Rightarrow> (string \<times> nat \<times> nat) result" where
  "getalluser_reply mem t1 t2 =
     and_then (get_all_users None 0 t1) (\<lambda>(_, cnt).
     (case mem (sizeof_stJQMessage + 4 + sizeof_JQUserNode * cnt) of
        None \<Rightarrow> Inl NullDeref
      | Some send_buf \<Rightarrow>
          and_then (write_at 0 (put32 CMD_GETALLUSER_ACK) send_buf) (\<lambda>b.
          and_then (write_at sizeof_stJQMessage (put32 (word_of_nat cnt)) b) (\<lambda>b.
          and_then (get_all_users (Some (drop sizeof_stJQMessage b)) cnt t2) (\<lambda>(gau, cnt).
          (case gau of
             None \<Rightarrow> Inl NullDeref
           | Some gau \<Rightarrow>
               let len = sizeof_stJQMessage + 4 + sizeof_JQUserNode * cnt in
               and_then (write_at 4 (put32 (word_of_nat len)) (take sizeof_stJQMessage b @ gau))
                 (\<lambda>b. Inr (b, len, cnt))))))))"

section \<open>The handler\<close>

text \<open>Sending a reply; \<open>k\<close> is what follows once \<open>send_buffer_to_fd\<close> has returned.\<close>

definition reply_to ::
    "write_res list \<Rightarrow> int \<Rightarrow> string \<Rightarrow> nat \<Rightarrow> effect list \<Rightarrow> server \<Rightarrow> server result" where
  "reply_to ws sock b len k s =
     and_then (send_buffer_to_fd ws sock b (int len)) (\<lambda>(r, es).
       Inr (emit (es @ (if r = None then [] else k)) s))"

definition handle_handshake :: "write_res list \<Rightarrow> int \<Rightarrow> string \<Rightarrow> server \<Rightarrow> server result" where
  "handle_handshake ws sockfd recv s =
     (let t = epoll_connect_client s; k = get_matched_event_index_by_fd sockfd t in
      and_then (str_at sizeof_stJQMessage recv) (\<lambda>greetings.
      and_then (get_client_addr_by_index k t) (\<lambda>addr.
      and_then (handshake_reply addr (get_client_port_by_index k t)) (\<lambda>(b, len).
      and_then (str_at sizeof_stJQMessage b) (\<lambda>info.
      reply_to ws sockfd b len []
        (emit [Print (''get handshake msg : '' @ greetings @ nl),
               Print (''handshake ack: '' @ info @ nl)] s))))))"

definition set_user :: "string \<Rightarrow> EPOLL_CONNECT \<Rightarrow> EPOLL_CONNECT result" where
  "set_user recv c =
     and_then (strncpy (UsrhashId c) (msg_userId recv) sizeof_userId) (\<lambda>u.
     and_then (strncpy (conn_passwd c) (msg_passwd recv) sizeof_passwd) (\<lambda>p.
     Inr (c\<lparr>UsrhashId := u, conn_passwd := p\<rparr>)))"

definition handle_sendui :: "int \<Rightarrow> string \<Rightarrow> server \<Rightarrow> server result" where
  "handle_sendui sockfd recv s =
     (let t = epoll_connect_client s in
      case get_connect_prv_by_index (get_matched_event_index_by_fd sockfd t) t of
        None \<Rightarrow> Inl NullDeref
      | Some k \<Rightarrow>
          and_then (set_user recv (t ! k)) (\<lambda>c.
          and_then (str_at sizeof_stJQMessage recv) (\<lambda>u.
          Inr (emit [Print (''[SENDUI] '' @ u @ ''  login'' @ nl)]
                 (s\<lparr>epoll_connect_client := t[k := c]\<rparr>)))))"

definition handle_getremote :: "write_res list \<Rightarrow> int \<Rightarrow> string \<Rightarrow> server \<Rightarrow> server result" where
  "handle_getremote ws sockfd recv s =
     (let t = epoll_connect_client s in
      and_then (print_all_users t) (\<lambda>users.
      and_then (strncpy (replicate 10 NUL) (msg_userId recv) sizeof_userId) (\<lambda>u.
      and_then (strncpy (replicate 7 NUL) (msg_passwd recv) sizeof_passwd) (\<lambda>p.
      let ev_idx = get_matched_event_index_by_UsrHashId u t in
      if ev_idx = -1 then
        and_then getremote_not_found (\<lambda>(b, len).
        and_then (str_at 20 b) (\<lambda>info.
        reply_to ws sockfd b len []
          (emit [Print users, Log LOG_LEVEL_WARNING ''respons_stb_info'' 434 not_found_info,
                 Print (''send remote ack: '' @ info @ nl)] s)))
      else
        (case get_connect_prv_by_index ev_idx t of
           None \<Rightarrow> Inl NullDeref
         | Some k \<Rightarrow>
             and_then (str_at 0 (client_ip_addr (t ! k))) (\<lambda>ip.
             and_then (getremote_found ip (client_port (t ! k))) (\<lambda>(b, len).
             reply_to ws sockfd b len [] (emit [Print users] s))))))))"

definition handle_getalluser ::
    "write_res list \<Rightarrow> (nat \<Rightarrow> string option) \<Rightarrow> int \<Rightarrow> server \<Rightarrow> server result" where
  "handle_getalluser ws mem sockfd s =
     (let t = epoll_connect_client s in
      and_then (getalluser_reply mem t t) (\<lambda>(b, len, cnt).
      reply_to ws sockfd b len
        [Print (''[CMD_GETALLUSER] send cnt '' @ show_int (int cnt) @ nl)]
        (emit [Print (''[CMD_GETALLUSER] ===>'' @ nl)] s)))"

definition respons_stb_info ::
    "write_res list \<Rightarrow> (nat \<Rightarrow> string option) \<Rightarrow> thpool_job_funcion_parameter \<Rightarrow> server \<Rightarrow> server result" where
  "respons_stb_info ws mem parameter s =
     (let recv = recv_buffer parameter;
          sockfd = arg_fd parameter;
          ty = iMessageType (get_header recv) in
      and_then
        (if ty \<noteq> CMD_HEARTBEAT then
           and_then (str_at 8 recv) (\<lambda>b.
             Inr (emit [Print (''[sockfd: '' @ show_int sockfd @ ''] get command: 0x'' @ show_hex (unat ty) @ '' '' @ nl),
                        Print (''[sockfd: '' @ show_int sockfd @ ''] get buffer: '' @ b @ '' '' @ nl)] s))
         else Inr s)
        (\<lambda>s.
          if sockfd \<noteq> -1 then
            (if ty = CMD_HANDSHAKE then handle_handshake ws sockfd recv s
             else if ty = CMD_SENDUI then handle_sendui sockfd recv s
             else if ty = CMD_GETREMOTE then handle_getremote ws sockfd recv s
             else if ty = CMD_GETALLUSER then handle_getalluser ws mem sockfd s
             else Inr s)
          else Inr (emit [Print (''2222 sockfd = '' @ show_int sockfd @ nl)] s)))"

end
