(* ===== verification/Replies.thy ===== *)
theory Replies
  imports Respond
begin

text \<open>
  The bytes of the replies: each reply buffer in closed form, and what a client that
  casts it to the structs of \<open>proto.h\<close> reads.
\<close>

section \<open>Overwriting a part of a buffer\<close>

lemma write_at_part:
  "length a = off \<Longrightarrow> length x = length s \<Longrightarrow> write_at off s (a @ x @ b) = Inr (a @ s @ b)"
  by (simp add: write_at_def)

lemma write_at_front: "length x = length s \<Longrightarrow> write_at 0 s (x @ b) = Inr (s @ b)"
  by (simp add: write_at_def)

abbreviation zeros :: "nat \<Rightarrow> string" where
  "zeros n \<equiv> replicate n NUL"

lemma zeros_split: "k \<le> n \<Longrightarrow> zeros n = zeros k @ zeros (n - k)"
  by (simp add: replicate_add [symmetric])

lemma write_zeros:
  assumes "length a = off" "length s \<le> n"
  shows "write_at off s (a @ zeros n) = Inr (a @ s @ zeros (n - length s))"
  unfolding zeros_split [OF assms(2)] using assms(1) by (intro write_at_part) simp_all

lemma snprintf_zeros:
  assumes "length a = off" "0 < m" "m \<le> n"
  shows "snprintf_at off m s (a @ zeros n)
         = Inr (a @ take (m - 1) s @ NUL # zeros (n - Suc (length (take (m - 1) s))))"
proof -
  have "length (take (m - 1) s @ [NUL]) \<le> n" using assms(2,3) by simp
  from write_zeros [OF assms(1) this] show ?thesis by (simp add: snprintf_at_def)
qed

section \<open>The handshake acknowledgement\<close>

lemma handshake_reply_eq:
  "handshake_reply addr port =
     Inr (put32 CMD_HANDSHAKE_ACK @ put32 264 @ take 255 (handshake_info addr port) @ NUL #
            zeros (1015 - length (take 255 (handshake_info addr port))), 264)"
proof -
  let ?i = "take 255 (handshake_info addr port)"
  have 1: "write_at 0 (put32 CMD_HANDSHAKE_ACK) send_buffer0 = Inr (put32 CMD_HANDSHAKE_ACK @ zeros 1020)"
    using write_zeros [of "[]" 0 "put32 CMD_HANDSHAKE_ACK" 1024] by (simp add: send_buffer0_def)
  have "put32 CMD_HANDSHAKE_ACK @ zeros 1020 = (put32 CMD_HANDSHAKE_ACK @ zeros 4) @ zeros 1016"
    using zeros_split [of 4 1020] by simp
  then have 2: "snprintf_at 8 256 (handshake_info addr port) (put32 CMD_HANDSHAKE_ACK @ zeros 1020)
      = Inr (put32 CMD_HANDSHAKE_ACK @ zeros 4 @ ?i @ NUL # zeros (1016 - Suc (length ?i)))"
    using snprintf_zeros [of "put32 CMD_HANDSHAKE_ACK @ zeros 4" 8 256 1016 "handshake_info addr port"]
    by simp
  have 3: "write_at 4 (put32 264) (put32 CMD_HANDSHAKE_ACK @ zeros 4 @ r)
      = Inr (put32 CMD_HANDSHAKE_ACK @ put32 264 @ r)" for r
    by (rule write_at_part) simp_all
  show ?thesis
    using 1 2 3 by (simp add: handshake_reply_def layout_defs Let_def)
qed

text \<open>The client reads the address and the port, when they fit (they always do, see below).\<close>

lemma handshake_reply_reads:
  assumes "handshake_reply addr port = Inr (b, len)" "nulfree addr"
  shows "len = 264" "length b = 1024" "get_header b = \<lparr>iMessageType = CMD_HANDSHAKE_ACK, iMessageLen = 264\<rparr>"
    "str_at 8 b = Inr (take 255 (handshake_info addr port))"
proof -
  have n: "nulfree (take 255 (handshake_info addr port))"
    using assms(2) by (intro nulfree_take) (simp add: handshake_info_def NUL_def)
  have b: "b = put32 CMD_HANDSHAKE_ACK @ put32 264 @ take 255 (handshake_info addr port) @ NUL #
            zeros (1015 - length (take 255 (handshake_info addr port)))"
    and l: "len = 264"
    using assms(1) by (simp_all add: handshake_reply_eq)
  show "len = 264" by (rule l)
  show "length b = 1024" unfolding b by simp
  show "get_header b = \<lparr>iMessageType = CMD_HANDSHAKE_ACK, iMessageLen = 264\<rparr>"
    unfolding b by (simp add: get_header_def)
  show "str_at 8 b = Inr (take 255 (handshake_info addr port))"
    unfolding b using n by (simp add: str_at_def)
qed

section \<open>The get-remote acknowledgement\<close>

definition remote_bytes :: "32 word \<Rightarrow> 32 word \<Rightarrow> 32 word \<Rightarrow> string \<Rightarrow> string" where
  "remote_bytes flag ip port info =
     put32 CMD_GETREMOTE_ACK @ put32 276 @ put32 flag @ put32 ip @ put32 port @ take 255 info @ NUL #
     zeros (1003 - length (take 255 info))"

lemma le_bytes_0: "le_bytes k 0 = zeros k"
  by (induction k) (simp_all add: NUL_def char_of_def)

lemma zeros_4 [simp]: "put32 0 = zeros 4"
  by (simp add: put32_def le_bytes_0)

lemma getremote_found_eq:
  "getremote_found ip port =
     Inr (remote_bytes 1 (inet_addr ip) (word_of_int port) (remote_info ip port), 276)"
proof -
  let ?T = "put32 CMD_GETREMOTE_ACK" and ?F = "put32 (1 :: 32 word)" and ?I = "put32 (inet_addr ip)"
  let ?P = "put32 (word_of_int port)" and ?i = "take 255 (remote_info ip port)"
  have 1: "write_at 0 ?T send_buffer0 = Inr (?T @ zeros 1020)"
    using write_zeros [of "[]" 0 ?T 1024] by (simp add: send_buffer0_def)
  have "?T @ zeros 1020 = (?T @ zeros 4) @ zeros 1016" using zeros_split [of 4 1020] by simp
  then have 2: "write_at 8 ?F (?T @ zeros 1020) = Inr (?T @ zeros 4 @ ?F @ zeros 1012)"
    using write_zeros [of "?T @ zeros 4" 8 ?F 1016] by simp
  have 3: "write_at 12 ?I (?T @ zeros 4 @ ?F @ zeros 1012) = Inr (?T @ zeros 4 @ ?F @ ?I @ zeros 1008)"
    using write_zeros [of "?T @ zeros 4 @ ?F" 12 ?I 1012] by simp
  have 4: "write_at 16 ?P (?T @ zeros 4 @ ?F @ ?I @ zeros 1008)
      = Inr (?T @ zeros 4 @ ?F @ ?I @ ?P @ zeros 1004)"
    using write_zeros [of "?T @ zeros 4 @ ?F @ ?I" 16 ?P 1008] by simp
  have 5: "snprintf_at 20 256 (remote_info ip port) (?T @ zeros 4 @ ?F @ ?I @ ?P @ zeros 1004)
      = Inr (?T @ zeros 4 @ ?F @ ?I @ ?P @ ?i @ NUL # zeros (1004 - Suc (length ?i)))"
    using snprintf_zeros [of "?T @ zeros 4 @ ?F @ ?I @ ?P" 20 256 1004 "remote_info ip port"] by simp
  have 6: "write_at 4 (put32 276) (?T @ zeros 4 @ r) = Inr (?T @ put32 276 @ r)" for r
    by (rule write_at_part) simp_all
  show ?thesis
    using 1 2 3 4 5 6
    by (simp add: getremote_found_def layout_defs Let_def remote_bytes_def)
qed

lemma getremote_not_found_eq:
  "getremote_not_found = Inr (remote_bytes 0 0 0 not_found_info, 276)"
proof -
  let ?T = "put32 CMD_GETREMOTE_ACK" and ?i = "take 255 not_found_info"
  have 1: "write_at 0 ?T send_buffer0 = Inr (?T @ zeros 1020)"
    using write_zeros [of "[]" 0 ?T 1024] by (simp add: send_buffer0_def)
  have "?T @ zeros 1020 = (?T @ zeros 4) @ zeros 1016" using zeros_split [of 4 1020] by simp
  then have 2: "write_at 8 (zeros 4) (?T @ zeros 1020) = Inr (?T @ zeros 1020)"
    using write_zeros [of "?T @ zeros 4" 8 "zeros 4" 1016] zeros_split [of 8 1020]
      zeros_split [of 4 1016] by simp
  have e: "?T @ zeros 1020 = (?T @ zeros 4 @ zeros 4 @ zeros 4 @ zeros 4) @ zeros 1004"
    using zeros_split [of 16 1020] by (simp add: replicate_add [symmetric])
  then have 3: "snprintf_at 20 256 not_found_info (?T @ zeros 1020)
      = Inr (?T @ zeros 4 @ zeros 4 @ zeros 4 @ zeros 4 @ ?i @ NUL # zeros (1004 - Suc (length ?i)))"
    using snprintf_zeros [of "?T @ zeros 4 @ zeros 4 @ zeros 4 @ zeros 4" 20 256 1004 not_found_info]
    by (simp only: e) simp
  have 4: "write_at 4 (put32 276) (?T @ zeros 4 @ r) = Inr (?T @ put32 276 @ r)" for r
    by (rule write_at_part) simp_all
  show ?thesis
    using 1 2 3 4 by (simp add: getremote_not_found_def layout_defs Let_def remote_bytes_def)
qed

lemma remote_bytes_reads:
  assumes "nulfree info"
  shows "length (remote_bytes flag ip port info) = 1024"
    "get_header (remote_bytes flag ip port info) = \<lparr>iMessageType = CMD_GETREMOTE_ACK, iMessageLen = 276\<rparr>"
    "get_remote_ack (remote_bytes flag ip port info) =
       \<lparr>ack_flag = flag, ack_ip = ip, ack_port = port, ack_info = take 255 info\<rparr>"
    "str_at 20 (remote_bytes flag ip port info) = Inr (take 255 info)"
  using nulfree_take [OF assms, of 255]
  by (simp_all add: remote_bytes_def get_header_def get_remote_ack_def str_at_def layout_defs take_Cons')

end
