(* ===== verification/RespondCorrect.thy ===== *)
theory RespondCorrect
  imports Replies
begin

text \<open>
  Correctness of the message handlers: what each sends, what it changes, and when it
  runs without undefined behaviour.
\<close>

section \<open>All users\<close>

lemma getalluser_reply_ok:
  assumes "conn_inv t" "names_ok t"
    and "mem (12 + 56 * count_users t) = Some blk" "length blk = 12 + 56 * count_users t"
  shows "\<exists>b. getalluser_reply mem t t = Inr (b, 12 + 56 * count_users t, count_users t)
           \<and> length b = 12 + 56 * count_users t
           \<and> get_header b = \<lparr>iMessageType = CMD_GETALLUSER_ACK,
                             iMessageLen = word_of_nat (12 + 56 * count_users t)\<rparr>
           \<and> reply_cnt b = word_of_nat (count_users t)
           \<and> (\<forall>i<count_users t. reply_node i b = node_of (filter live t ! i))"
proof -
  let ?n = "count_users t" and ?T = "put32 CMD_GETALLUSER_ACK"
  let ?C = "put32 (word_of_nat (count_users t))"
  let ?L = "put32 (word_of_nat (12 + 56 * count_users t))"
  obtain x y z w where blk: "blk = x @ y @ z @ w" "length x = 4" "length y = 4" "length z = 4"
  proof -
    obtain x r1 where 1: "blk = x @ r1" "length x = 4" "length r1 = length blk - 4"
      using split_off [of 4 blk] assms(4) by auto
    obtain y r2 where 2: "r1 = y @ r2" "length y = 4" "length r2 = length r1 - 4"
      using split_off [of 4 r1] assms(4) 1(3) by auto
    obtain z w where 3: "r2 = z @ w" "length z = 4"
      using split_off [of 4 r2] assms(4) 1(3) 2(3) by auto
    from 1 2 3 show thesis by (intro that [of x y z w]) simp_all
  qed
  have 1: "write_at 0 ?T blk = Inr (?T @ y @ z @ w)"
    unfolding blk(1) using blk(2) by (intro write_at_front) simp
  have 2: "write_at 8 ?C (?T @ y @ z @ w) = Inr (?T @ y @ ?C @ w)"
    using write_at_part [of "?T @ y" 8 z ?C w] blk(3,4) by simp
  have d: "drop 8 (?T @ y @ ?C @ w) = ?C @ w" "take 8 (?T @ y @ ?C @ w) = ?T @ y"
    using blk(3) by simp_all
  have lw: "4 + sizeof_JQUserNode * ?n \<le> length (?C @ w)"
    using assms(4) blk by (simp add: layout_defs)
  obtain g where g: "get_all_users (Some (?C @ w)) ?n t = Inr (Some g, ?n)" "length g = length (?C @ w)"
    "take off_nodes g = take off_nodes (?C @ w)"
    "\<forall>i<?n. get_node (drop (node_off i) g) = node_of (filter live t ! i)"
    using get_all_users_fills [OF assms(1,2) lw] by blast
  have 3: "write_at 4 ?L (?T @ y @ g) = Inr (?T @ ?L @ g)"
    using blk(3) by (intro write_at_part) simp_all
  have r: "getalluser_reply mem t t = Inr (?T @ ?L @ g, 12 + 56 * ?n, ?n)"
    using 1 2 3 g(1) assms(3) blk(3)
    by (simp add: getalluser_reply_def get_all_users_def [of None] layout_defs Let_def)
  have "get32 g = word_of_nat ?n"
  proof -
    have "get32 g = get32 (take 8 g)" by (simp add: get32_take)
    also have "\<dots> = get32 (?C @ take 4 w)" using g(3) by (simp add: layout_defs)
    finally show ?thesis by simp
  qed
  then show ?thesis
    using r g(2,4) lw assms(4) blk
    by (intro exI [of _ "?T @ ?L @ g"])
      (simp add: get_header_def reply_cnt_def reply_node_def node_off_def layout_defs)
qed

text \<open>The race: a user who connects between the two reads overflows the buffer.\<close>

lemma strcpy_at_length: "strcpy_at off cap src buf = Inr b \<Longrightarrow> length b = length buf"
  by (auto simp: strcpy_at_def dest: write_at_length split: if_splits)

lemma write_node_length: "write_node off c buf = Inr b \<Longrightarrow> length b = length buf"
  by (auto simp: write_node_def dest!: write_at_length strcpy_at_length)

lemma strcpy_at_error:
  "terminated src \<Longrightarrow> strcpy_at off cap src buf = Inl e \<Longrightarrow> e = OutOfBounds"
  by (auto simp: strcpy_at_def write_at_def split: if_splits)

lemma write_node_error: "strings_ok c \<Longrightarrow> write_node off c buf = Inl e \<Longrightarrow> e = OutOfBounds"
  by (auto simp: write_node_def and_then_def write_at_def strings_ok_def conn_ok_def
      split: sum.splits if_splits dest: strcpy_at_error)

lemma fill_users_overflow:
  assumes "list_all (\<lambda>c. live c \<longrightarrow> strings_ok c) t" "filter live t \<noteq> []"
    "length buf < node_off (cnt + length (filter live t) - 1) + 8"
  shows "fill_users cnt t buf = Inl OutOfBounds"
  using assms
proof (induction cnt t buf rule: fill_users.induct)
  case (1 cnt buf)
  then show ?case by simp
next
  case (2 cnt c t buf)
  show ?case
  proof (cases "live c")
    case False
    with 2 show ?thesis by simp
  next
    case True
    show ?thesis
    proof (cases "write_node (node_off cnt) c buf")
      case (Inl e)
      with 2 True have "e = OutOfBounds" using write_node_error by fastforce
      with Inl True show ?thesis by (simp add: node_off_def)
    next
      case (Inr b)
      have "filter live t \<noteq> []"
      proof
        assume "filter live t = []"
        with 2 True have "length buf < node_off cnt + 8" by simp
        from write_node_overflow [OF this] Inr show False by simp
      qed
      then have "fill_users (Suc cnt) t b = Inl OutOfBounds"
        using 2 True write_node_length [OF Inr] by (intro 2(1)) auto
      with Inr True show ?thesis by (simp add: node_off_def)
    qed
  qed
qed

lemma getalluser_reply_race:
  assumes "conn_inv t2" "names_ok t2" "count_users t1 < count_users t2"
    and "mem (12 + 56 * count_users t1) = Some blk" "length blk = 12 + 56 * count_users t1"
  shows "getalluser_reply mem t1 t2 = Inl OutOfBounds"
proof -
  obtain b1 where b1: "write_at 0 (put32 CMD_GETALLUSER_ACK) blk = Inr b1"
    using assms(5) write_at_succeeds [of 0 "put32 CMD_GETALLUSER_ACK" blk] by auto
  have l1: "length b1 = length blk" by (rule write_at_length [OF b1])
  obtain b2 where b2: "write_at 8 (put32 (word_of_nat (count_users t1))) b1 = Inr b2"
    using assms(5) l1 write_at_succeeds [of 8 "put32 (word_of_nat (count_users t1))" b1] by auto
  have l2: "length b2 = length blk" using write_at_length [OF b2] l1 by simp
  have "filter live t2 \<noteq> []" using assms(3) by (auto simp: count_users_def)
  moreover have "length (drop 8 b2) < node_off (0 + length (filter live t2) - 1) + 8"
  proof -
    have "count_users t1 \<le> length (filter live t2) - 1" using assms(3) by (simp add: count_users_def)
    then show ?thesis using l2 assms(5)
      by (simp add: node_off_def layout_defs)
  qed
  ultimately have "fill_users 0 t2 (drop 8 b2) = Inl OutOfBounds"
    using live_strings_ok [OF assms(1,2)] by (intro fill_users_overflow)
  then show ?thesis
    using b1 b2 assms(4)
    by (simp add: getalluser_reply_def get_all_users_def layout_defs)
qed


section \<open>Sending a reply\<close>

lemma reply_to_ok:
  assumes "accepts len ws" "len \<le> length b" "sent_to sock k = []" "closed k = []"
  shows "\<exists>es. reply_to ws sock b len k s = Inr (emit es s) \<and> sent_to sock es = take len b \<and> closed es = []"
proof -
  obtain es where "send_buffer_to_fd ws sock b (int len) = Inr (Some (int len), es)"
    "sent_to sock es = take len b" "closed es = []"
    using send_buffer_accepts [OF assms(1,2)] by blast
  with assms(3,4) show ?thesis by (auto simp: reply_to_def)
qed

lemma emit_emit [simp]: "emit a (emit b s) = emit (b @ a) s"
  by (simp add: emit_def)

text \<open>A message the event loop queues: a full receive buffer with a NUL after the header.\<close>

definition msg_ok :: "string \<Rightarrow> bool" where
  "msg_ok recv \<longleftrightarrow> length recv = BUFFER_SIZE \<and> terminated (drop 8 recv)"

section \<open>The handshake\<close>

lemma client_addr_ok:
  assumes "conn_inv t" "conns t sock = Some (tm, ip, port)"
  shows "get_client_addr_by_index (get_matched_event_index_by_fd sock t) t = Inr ip"
    "get_client_port_by_index (get_matched_event_index_by_fd sock t) t = port"
    "nulfree ip"
proof -
  obtain i where i: "i < length t" "live (t ! i)" "connect_fd (t ! i) = sock"
    "peer_of (t ! i) = (tm, ip, port)"
    using assms by (auto simp: conns_Some_iff)
  then have k: "get_matched_event_index_by_fd sock t = int i"
    using matched_fd_nth [OF assms(1) i(1,2)] by simp
  have "i < MAX_EVENTS" using i(1) assms(1) by (simp add: conn_inv_length)
  moreover have "terminated (client_ip_addr (t ! i))"
    using conn_inv_nth [OF assms(1) calculation] by (simp add: conn_ok_def)
  ultimately show "get_client_addr_by_index (get_matched_event_index_by_fd sock t) t = Inr ip"
    "get_client_port_by_index (get_matched_event_index_by_fd sock t) t = port" "nulfree ip"
    using i(4) k
    by (auto simp: get_client_addr_by_index_def get_client_port_by_index_def in_range_def peer_of_def)
qed

lemma str_at_take:
  "str_at m b = Inr s \<Longrightarrow> m + length s < n \<Longrightarrow> str_at m (take n b) = Inr s"
proof -
  assume "str_at m b = Inr s" and n: "m + length s < n"
  then have t: "terminated (drop m b)" "cstr (drop m b) = s"
    by (simp_all add: str_at_def split: if_splits)
  obtain r where r: "drop m b = s @ NUL # r"
    using t unfolding terminated_def cstr_def
    by (metis (mono_tags, lifting) dropWhile_eq_Cons_conv dropWhile_eq_Nil_conv list.exhaust
        takeWhile_dropWhile_id)
  have "nulfree s" using t(2) nulfree_cstr by metis
  moreover obtain k where "n - m - length s = Suc k" using n by (metis Suc_diff_Suc diff_diff_left)
  ultimately show ?thesis using r by (simp add: str_at_def drop_take)
qed

lemma handle_handshake_ok:
  assumes "conn_inv (epoll_connect_client s)" "msg_ok recv" "accepts 264 ws"
    and "conns (epoll_connect_client s) sock = Some (tm, ip, port)"
  shows "\<exists>es. handle_handshake ws sock recv s = Inr (emit es s) \<and> closed es = []
           \<and> length (sent_to sock es) = 264
           \<and> get_header (sent_to sock es) = \<lparr>iMessageType = CMD_HANDSHAKE_ACK, iMessageLen = 264\<rparr>
           \<and> str_at 8 (sent_to sock es) = Inr (take 255 (handshake_info ip port))"
proof -
  note addr = client_addr_ok [OF assms(1,4)]
  obtain b len where r: "handshake_reply ip port = Inr (b, len)"
    by (simp add: handshake_reply_eq)
  note rd = handshake_reply_reads [OF r addr(3)]
  let ?p = "[Print (''get handshake msg : '' @ cstr (drop 8 recv) @ nl),
             Print (''handshake ack: '' @ take 255 (handshake_info ip port) @ nl)]"
  obtain es where es: "reply_to ws sock b 264 [] (emit ?p s) = Inr (emit es (emit ?p s))"
    "sent_to sock es = take 264 b" "closed es = []"
    using reply_to_ok [OF assms(3), of b sock "[]" "emit ?p s"] rd(2) by auto
  have "handle_handshake ws sock recv s = Inr (emit (?p @ es) s)"
    using assms(2) addr r rd es(1)
    by (simp add: handle_handshake_def msg_ok_def str_at_def [of 8 recv] Let_def layout_defs)
  moreover have "get_header (take 264 b) = get_header b"
    by (simp add: get_header_def get32_take drop_take)
  moreover have "str_at 8 (take 264 b) = Inr (take 255 (handshake_info ip port))"
    using rd(4) by (rule str_at_take) simp
  ultimately show ?thesis using es(2,3) rd(2,3) by (intro exI [of _ "?p @ es"]) simp
qed

section \<open>Login: \<open>CMD_SENDUI\<close>\<close>

lemma drop_long: "length b = 1024 \<Longrightarrow> n + m \<le> 1024 \<Longrightarrow> n \<le> length (drop m b)"
  by simp

definition logged_in :: "string \<Rightarrow> EPOLL_CONNECT \<Rightarrow> EPOLL_CONNECT" where
  "logged_in recv c =
     c\<lparr>UsrhashId := strncpy_bytes sizeof_userId (msg_userId recv),
       conn_passwd := strncpy_bytes sizeof_passwd (msg_passwd recv)\<rparr>"

lemma set_user_ok:
  assumes "conn_ok c" "length recv = BUFFER_SIZE"
  shows "set_user recv c = Inr (logged_in recv c)"
  using assms
  by (simp add: set_user_def logged_in_def strncpy_whole conn_ok_def msg_userId_def msg_passwd_def
      BUFFER_SIZE_def layout_defs)

lemma logged_in_simps [simp]:
  "connect_fd (logged_in recv c) = connect_fd c"
  "client_ip_addr (logged_in recv c) = client_ip_addr c"
  "client_port (logged_in recv c) = client_port c"
  "conn_now (logged_in recv c) = conn_now c"
  "mutex (logged_in recv c) = mutex c"
  "live (logged_in recv c) = live c"
  "peer_of (logged_in recv c) = peer_of c"
  by (simp_all add: logged_in_def live_def peer_of_def)

lemma conn_ok_logged_in: "conn_ok c \<Longrightarrow> conn_ok (logged_in recv c)"
  by (simp add: conn_ok_def logged_in_def)

lemma handle_sendui_ok:
  assumes "conn_inv (epoll_connect_client s)" "msg_ok recv"
    and "get_matched_event_index_by_fd sock (epoll_connect_client s) = int k"
  shows "handle_sendui sock recv s =
           Inr (emit [Print (''[SENDUI] '' @ cstr (drop 8 recv) @ ''  login'' @ nl)]
                 (s\<lparr>epoll_connect_client :=
                     (epoll_connect_client s)[k := logged_in recv (epoll_connect_client s ! k)]\<rparr>))"
proof -
  have k: "k < length (epoll_connect_client s)"
    using assms(3) unfolding get_matched_event_index_by_fd_def by (simp add: scan_int_iff)
  then have km: "k < MAX_EVENTS" using assms(1) by (simp add: conn_inv_length)
  then have "set_user recv (epoll_connect_client s ! k) = Inr (logged_in recv (epoll_connect_client s ! k))"
    using conn_inv_nth [OF assms(1)] assms(2) by (simp add: set_user_ok msg_ok_def)
  with km assms(2,3) show ?thesis
    by (simp add: handle_sendui_def get_connect_prv_by_index_def in_range_def msg_ok_def str_at_def
        layout_defs Let_def)
qed

lemma handle_sendui_unknown:
  "get_matched_event_index_by_fd sock (epoll_connect_client s) = -1 \<Longrightarrow>
     handle_sendui sock recv s = Inl NullDeref"
  by (simp add: handle_sendui_def get_connect_prv_by_index_def in_range_def)

lemma logged_in_conns:
  assumes "conn_inv t" "k < length t"
  shows "conn_inv (t[k := logged_in recv (t ! k)])" "conns (t[k := logged_in recv (t ! k)]) = conns t"
proof -
  have ok: "conn_ok (logged_in recv (t ! k))"
    using conn_ok_logged_in conn_inv_nth assms by (simp add: conn_inv_length)
  show inv': "conn_inv (t[k := logged_in recv (t ! k)])"
    using assms ok by (intro conn_inv_same_fd) simp_all
  show "conns (t[k := logged_in recv (t ! k)]) = conns t"
  proof (cases "live (t ! k)")
    case True
    then have "conns t (connect_fd (t ! k)) = Some (peer_of (t ! k))"
      using assms by (auto simp: conns_Some_iff)
    with conns_update_live [OF assms(1) inv' assms(2)] True show ?thesis
      by (simp add: fun_upd_idem)
  next
    case False
    with conns_update_free [OF assms(1) inv' assms(2)] show ?thesis by simp
  qed
qed

text \<open>
  The names stay C strings exactly when both fields of the message are terminated within
  their arrays; a 10-character id or a 7-character password is stored without a NUL.
\<close>

lemma logged_in_names:
  assumes "names_ok t" "k < length t"
  shows "names_ok (t[k := logged_in recv (t ! k)]) \<longleftrightarrow>
           length (cstr (msg_userId recv)) < sizeof_userId
           \<and> length (cstr (msg_passwd recv)) < sizeof_passwd"
proof -
  have "terminated (UsrhashId (t[k := logged_in recv (t ! k)] ! i))
      \<and> terminated (conn_passwd (t[k := logged_in recv (t ! k)] ! i)) \<longleftrightarrow>
      (i = k \<longrightarrow> length (cstr (msg_userId recv)) < sizeof_userId
           \<and> length (cstr (msg_passwd recv)) < sizeof_passwd)" if "i < length t" for i
    using assms that
    by (cases "i = k") (auto simp: names_ok_def list_all_length logged_in_def terminated_strncpy_bytes)
  then show ?thesis
    using assms(2) by (auto simp: names_ok_def list_all_length)
qed


section \<open>Finding a peer: \<open>CMD_GETREMOTE\<close>\<close>

text \<open>The table's key of a name field: its first nine characters.\<close>

definition user_key :: "string \<Rightarrow> string" where
  "user_key b = take 9 (cstr b)"

lemma strncmp_user_key: "strncmp_eq 9 a b \<longleftrightarrow> user_key a = user_key b"
  by (simp add: strncmp_eq_def user_key_def)

lemma user_key_strncpy: "user_key (strncpy_bytes 10 b) = user_key b"
proof -
  have "nulfree (take 10 (cstr b))" by (rule nulfree_take) simp
  then show ?thesis by (simp add: user_key_def cstr_strncpy_bytes)
qed

lemma user_key_logged_in: "user_key (UsrhashId (logged_in recv c)) = user_key (msg_userId recv)"
  by (simp add: logged_in_def sizeof_userId_def user_key_strncpy)

lemma matched_user_iff:
  "get_matched_event_index_by_UsrHashId u t = int k \<longleftrightarrow>
     k < length t \<and> user_key (UsrhashId (t ! k)) = user_key u
     \<and> (\<forall>j<k. user_key (UsrhashId (t ! j)) \<noteq> user_key u)"
  by (simp add: get_matched_event_index_by_UsrHashId_def scan_int_iff strncmp_user_key)

lemma matched_user_none:
  "get_matched_event_index_by_UsrHashId u t = -1 \<longleftrightarrow>
     (\<forall>c\<in>set t. user_key (UsrhashId c) \<noteq> user_key u)"
  by (simp add: get_matched_event_index_by_UsrHashId_def scan_none_iff strncmp_user_key)

text \<open>The lookup depends on the nine characters only.\<close>

lemma matched_user_cong:
  "user_key u = user_key v \<Longrightarrow>
     get_matched_event_index_by_UsrHashId u t = get_matched_event_index_by_UsrHashId v t"
  by (simp add: get_matched_event_index_by_UsrHashId_def strncmp_user_key)

definition remote_reads :: "string \<Rightarrow> 32 word \<Rightarrow> 32 word \<Rightarrow> 32 word \<Rightarrow> string \<Rightarrow> bool" where
  "remote_reads m flag ip port info \<longleftrightarrow> length m = 276
     \<and> get_header m = \<lparr>iMessageType = CMD_GETREMOTE_ACK, iMessageLen = 276\<rparr>
     \<and> get_remote_ack m = \<lparr>ack_flag = flag, ack_ip = ip, ack_port = port, ack_info = take 255 info\<rparr>"

lemma remote_reads_take:
  assumes "nulfree info"
  shows "remote_reads (take 276 (remote_bytes flag ip port info)) flag ip port info"
proof -
  let ?b = "remote_bytes flag ip port info"
  have "get_header (take 276 ?b) = get_header ?b"
    by (simp add: get_header_def get32_take drop_take)
  moreover have "get_remote_ack (take 276 ?b) = get_remote_ack ?b"
    by (simp add: get_remote_ack_def get32_take drop_take layout_defs)
  ultimately show ?thesis
    using remote_bytes_reads [OF assms] by (simp add: remote_reads_def)
qed

lemma getremote_prefix:
  assumes "conn_inv (epoll_connect_client s)" "names_ok (epoll_connect_client s)" "msg_ok recv"
  obtains users where "print_all_users (epoll_connect_client s) = Inr users"
    "strncpy (zeros 10) (msg_userId recv) sizeof_userId = Inr (strncpy_bytes 10 (msg_userId recv))"
    "strncpy (zeros 7) (msg_passwd recv) sizeof_passwd = Inr (strncpy_bytes 7 (msg_passwd recv))"
    "get_matched_event_index_by_UsrHashId (strncpy_bytes 10 (msg_userId recv)) (epoll_connect_client s)
     = get_matched_event_index_by_UsrHashId (msg_userId recv) (epoll_connect_client s)"
proof -
  obtain users where "print_all_users (epoll_connect_client s) = Inr users"
    using print_all_users_ok [OF assms(1,2)] by blast
  then show thesis
    using assms(3) that matched_user_cong [OF user_key_strncpy]
    by (simp add: strncpy_whole msg_ok_def msg_userId_def msg_passwd_def BUFFER_SIZE_def layout_defs)
qed

lemma handle_getremote_found:
  assumes "conn_inv (epoll_connect_client s)" "names_ok (epoll_connect_client s)" "msg_ok recv"
    and "accepts 276 ws"
    and "get_matched_event_index_by_UsrHashId (msg_userId recv) (epoll_connect_client s) = int k"
    and "peer_of (epoll_connect_client s ! k) = (tm, ip, port)"
  shows "\<exists>es. handle_getremote ws sock recv s = Inr (emit es s) \<and> closed es = []
           \<and> remote_reads (sent_to sock es) 1 (inet_addr ip) (word_of_int port) (remote_info ip port)"
proof -
  let ?t = "epoll_connect_client s"
  obtain users where u: "print_all_users ?t = Inr users"
    "strncpy (zeros 10) (msg_userId recv) sizeof_userId = Inr (strncpy_bytes 10 (msg_userId recv))"
    "strncpy (zeros 7) (msg_passwd recv) sizeof_passwd = Inr (strncpy_bytes 7 (msg_passwd recv))"
    "get_matched_event_index_by_UsrHashId (strncpy_bytes 10 (msg_userId recv)) ?t
     = get_matched_event_index_by_UsrHashId (msg_userId recv) ?t"
    using getremote_prefix [OF assms(1-3)] by blast
  have k: "k < MAX_EVENTS"
    using assms(1,5) matched_user_iff by (simp add: conn_inv_length)
  have ip: "str_at 0 (client_ip_addr (?t ! k)) = Inr ip" "nulfree ip" "client_port (?t ! k) = port"
    using conn_inv_nth [OF assms(1) k] assms(6) by (auto simp: conn_ok_def peer_of_def)
  let ?b = "remote_bytes 1 (inet_addr ip) (word_of_int port) (remote_info ip port)"
  have n: "nulfree (remote_info ip port)" using ip(2) by (simp add: remote_info_def NUL_def)
  obtain es where es: "reply_to ws sock ?b 276 [] (emit [Print users] s) = Inr (emit es (emit [Print users] s))"
    "sent_to sock es = take 276 ?b" "closed es = []"
    using reply_to_ok [OF assms(4), of ?b sock "[]" "emit [Print users] s"]
      remote_bytes_reads(1) [OF n, of 1 "inet_addr ip" "word_of_int port"] by auto
  have "handle_getremote ws sock recv s = Inr (emit ([Print users] @ es) s)"
    using u assms(5) k ip es(1)
    by (simp add: handle_getremote_def getremote_found_eq get_connect_prv_by_index_def in_range_def Let_def)
  then show ?thesis
    using es(2,3) remote_reads_take [OF n] by (intro exI [of _ "[Print users] @ es"]) simp
qed

lemma handle_getremote_absent:
  assumes "conn_inv (epoll_connect_client s)" "names_ok (epoll_connect_client s)" "msg_ok recv"
    and "accepts 276 ws"
    and "get_matched_event_index_by_UsrHashId (msg_userId recv) (epoll_connect_client s) = -1"
  shows "\<exists>es. handle_getremote ws sock recv s = Inr (emit es s) \<and> closed es = []
           \<and> remote_reads (sent_to sock es) 0 0 0 not_found_info"
proof -
  let ?t = "epoll_connect_client s"
  obtain users where u: "print_all_users ?t = Inr users"
    "strncpy (zeros 10) (msg_userId recv) sizeof_userId = Inr (strncpy_bytes 10 (msg_userId recv))"
    "strncpy (zeros 7) (msg_passwd recv) sizeof_passwd = Inr (strncpy_bytes 7 (msg_passwd recv))"
    "get_matched_event_index_by_UsrHashId (strncpy_bytes 10 (msg_userId recv)) ?t
     = get_matched_event_index_by_UsrHashId (msg_userId recv) ?t"
    using getremote_prefix [OF assms(1-3)] by blast
  let ?b = "remote_bytes 0 0 0 not_found_info"
  have n: "nulfree not_found_info" by (simp add: not_found_info_def NUL_def)
  let ?p = "[Print users, Log LOG_LEVEL_WARNING ''respons_stb_info'' 434 not_found_info,
             Print (''send remote ack: '' @ take 255 not_found_info @ nl)]"
  obtain es where es: "reply_to ws sock ?b 276 [] (emit ?p s) = Inr (emit es (emit ?p s))"
    "sent_to sock es = take 276 ?b" "closed es = []"
    using reply_to_ok [OF assms(4), of ?b sock "[]" "emit ?p s"]
      remote_bytes_reads(1) [OF n, of 0 0 0] by auto
  have "handle_getremote ws sock recv s = Inr (emit (?p @ es) s)"
    using u assms(5) es(1) remote_bytes_reads(4) [OF n, of 0 0 0]
    by (simp add: handle_getremote_def getremote_not_found_eq Let_def)
  then show ?thesis
    using es(2,3) remote_reads_take [OF n] by (intro exI [of _ "?p @ es"]) simp
qed

lemma handle_getalluser_ok:
  assumes "conn_inv (epoll_connect_client s)" "names_ok (epoll_connect_client s)"
    and "n = count_users (epoll_connect_client s)" "accepts (12 + 56 * n) ws"
    and "mem (12 + 56 * n) = Some blk" "length blk = 12 + 56 * n"
  shows "\<exists>es. handle_getalluser ws mem sock s = Inr (emit es s) \<and> closed es = []
           \<and> length (sent_to sock es) = 12 + 56 * n
           \<and> get_header (sent_to sock es)
               = \<lparr>iMessageType = CMD_GETALLUSER_ACK, iMessageLen = word_of_nat (12 + 56 * n)\<rparr>
           \<and> reply_cnt (sent_to sock es) = word_of_nat n
           \<and> (\<forall>i<n. reply_node i (sent_to sock es) = node_of (filter live (epoll_connect_client s) ! i))"
proof -
  let ?t = "epoll_connect_client s"
  obtain b where b: "getalluser_reply mem ?t ?t = Inr (b, 12 + 56 * n, n)" "length b = 12 + 56 * n"
    "get_header b = \<lparr>iMessageType = CMD_GETALLUSER_ACK, iMessageLen = word_of_nat (12 + 56 * n)\<rparr>"
    "reply_cnt b = word_of_nat n" "\<forall>i<n. reply_node i b = node_of (filter live ?t ! i)"
    using getalluser_reply_ok [OF assms(1,2), of mem blk] assms(3,5,6) by blast
  let ?p = "[Print (''[CMD_GETALLUSER] ===>'' @ nl)]"
  let ?k = "[Print (''[CMD_GETALLUSER] send cnt '' @ show_int (int n) @ nl)]"
  obtain es where es: "reply_to ws sock b (12 + 56 * n) ?k (emit ?p s) = Inr (emit es (emit ?p s))"
    "sent_to sock es = take (12 + 56 * n) b" "closed es = []"
    using reply_to_ok [OF assms(4), of b sock ?k "emit ?p s"] b(2) by auto
  have "handle_getalluser ws mem sock s = Inr (emit (?p @ es) s)"
    using b(1) es(1) by (simp add: handle_getalluser_def Let_def)
  then show ?thesis
    using es(2,3) b(2-5) by (intro exI [of _ "?p @ es"]) simp
qed

end
