(* ===== verification/Dispatch.thy ===== *)
theory Dispatch
  imports RespondCorrect
begin

text \<open>
  The dispatch of \<open>respons_stb_info\<close>: which handler a message type selects, and the
  safety of the whole function on a connected socket.
\<close>

section \<open>Selection\<close>

definition command_prints :: "int \<Rightarrow> string \<Rightarrow> effect list" where
  "command_prints sockfd recv =
     [Print (''[sockfd: '' @ show_int sockfd @ ''] get command: 0x''
        @ show_hex (unat (iMessageType (get_header recv))) @ '' '' @ nl),
      Print (''[sockfd: '' @ show_int sockfd @ ''] get buffer: '' @ cstr (drop 8 recv) @ '' '' @ nl)]"

lemma closed_command_prints [simp]: "closed (command_prints k recv) = []"
  by (simp add: command_prints_def)

lemma sent_command_prints [simp]: "sent_to j (command_prints k recv) = []"
  by (simp add: command_prints_def)

definition msg_type :: "string \<Rightarrow> 32 word" where
  "msg_type recv = iMessageType (get_header recv)"

definition select_handler ::
    "write_res list \<Rightarrow> (nat \<Rightarrow> string option) \<Rightarrow> int \<Rightarrow> string \<Rightarrow> server \<Rightarrow> server result" where
  "select_handler ws mem sock recv s =
     (if msg_type recv = CMD_HANDSHAKE then handle_handshake ws sock recv s
      else if msg_type recv = CMD_SENDUI then handle_sendui sock recv s
      else if msg_type recv = CMD_GETREMOTE then handle_getremote ws sock recv s
      else if msg_type recv = CMD_GETALLUSER then handle_getalluser ws mem sock s
      else Inr s)"

lemma respons_select:
  assumes "msg_ok recv" "sock \<noteq> -1" "msg_type recv \<noteq> CMD_HEARTBEAT"
  shows "respons_stb_info ws mem \<lparr>recv_buffer = recv, arg_fd = sock\<rparr> s
         = select_handler ws mem sock recv (emit (command_prints sock recv) s)"
  using assms
  by (simp add: respons_stb_info_def select_handler_def msg_type_def msg_ok_def str_at_def
      command_prints_def Let_def)

lemma respons_heartbeat:
  "sock \<noteq> -1 \<Longrightarrow> msg_type recv = CMD_HEARTBEAT \<Longrightarrow>
     respons_stb_info ws mem \<lparr>recv_buffer = recv, arg_fd = sock\<rparr> s = Inr s"
  by (simp add: respons_stb_info_def msg_type_def cmd_defs Let_def)

section \<open>Safety\<close>

text \<open>The length of the reply to a message.\<close>

definition reply_len :: "32 word \<Rightarrow> conn_table \<Rightarrow> nat" where
  "reply_len ty t =
     (if ty = CMD_HANDSHAKE then 264
      else if ty = CMD_GETREMOTE then 276
      else if ty = CMD_GETALLUSER then 12 + 56 * count_users t
      else 0)"

text \<open>Both fields of a login are terminated within their arrays.\<close>

definition fields_ok :: "string \<Rightarrow> bool" where
  "fields_ok recv \<longleftrightarrow> length (cstr (msg_userId recv)) < sizeof_userId
     \<and> length (cstr (msg_passwd recv)) < sizeof_passwd"

definition malloc_works :: "(nat \<Rightarrow> string option) \<Rightarrow> bool" where
  "malloc_works mem \<longleftrightarrow> (\<forall>n. \<exists>blk. mem n = Some blk \<and> length blk = n)"

text \<open>
  What a served message leaves: the table keeps its invariants and its connections, no
  socket is closed, and the socket got as many bytes as the reply has.
\<close>

definition served :: "int \<Rightarrow> nat \<Rightarrow> server \<Rightarrow> server result \<Rightarrow> bool" where
  "served sock n s r \<longleftrightarrow>
     (\<exists>t' es. r = Inr (emit es (s\<lparr>epoll_connect_client := t'\<rparr>)) \<and> conn_inv t' \<and> names_ok t'
        \<and> conns t' = conns (epoll_connect_client s) \<and> closed es = []
        \<and> length (sent_to sock es) = n)"

lemma served_emit:
  assumes "conn_inv (epoll_connect_client s)" "names_ok (epoll_connect_client s)"
    and "\<exists>es. r = Inr (emit es s) \<and> closed es = [] \<and> length (sent_to sock es) = n"
  shows "served sock n s r"
proof -
  obtain es where "r = Inr (emit es s)" "closed es = []" "length (sent_to sock es) = n"
    using assms(3) by blast
  then show ?thesis
    using assms(1,2) unfolding served_def
    by (intro exI [of _ "epoll_connect_client s"] exI [of _ es]) simp
qed

lemma served_after_prints:
  assumes "served sock n (emit ps s) r" "closed ps = []" "sent_to sock ps = []"
  shows "served sock n s r"
proof -
  obtain t' es where "r = Inr (emit es ((emit ps s)\<lparr>epoll_connect_client := t'\<rparr>))"
    "conn_inv t'" "names_ok t'" "conns t' = conns (epoll_connect_client s)" "closed es = []"
    "length (sent_to sock es) = n"
    using assms(1) unfolding served_def by auto
  then show ?thesis
    using assms(2,3) unfolding served_def
    by (intro exI [of _ t'] exI [of _ "ps @ es"]) (simp add: emit_def)
qed

lemma connected_slot:
  assumes "conn_inv t" "conns t sock = Some p"
  obtains k where "get_matched_event_index_by_fd sock t = int k" "k < length t"
    "live (t ! k)" "connect_fd (t ! k) = sock" "peer_of (t ! k) = p" "sock \<noteq> -1"
proof -
  obtain k where "k < length t" "live (t ! k)" "connect_fd (t ! k) = sock" "peer_of (t ! k) = p"
    using assms by (auto simp: conns_Some_iff)
  then show thesis using that matched_fd_nth [OF assms(1)] by (auto simp: live_def)
qed

lemma getremote_served:
  assumes "conn_inv (epoll_connect_client s)" "names_ok (epoll_connect_client s)" "msg_ok recv"
    and "accepts 276 ws"
  shows "served sock 276 s (handle_getremote ws sock recv s)"
proof (cases "get_matched_event_index_by_UsrHashId (msg_userId recv) (epoll_connect_client s) = -1")
  case True
  then show ?thesis
    using handle_getremote_absent [OF assms True] assms(1,2)
    by (intro served_emit) (auto simp: remote_reads_def)
next
  case False
  then obtain k where k: "get_matched_event_index_by_UsrHashId (msg_userId recv) (epoll_connect_client s) = int k"
    by (metis get_matched_event_index_by_UsrHashId_def scan_cases)
  obtain tm ip port where "peer_of (epoll_connect_client s ! k) = (tm, ip, port)"
    using prod_cases3 by blast
  from handle_getremote_found [OF assms k this] show ?thesis
    using assms(1,2) by (intro served_emit) (auto simp: remote_reads_def)
qed

lemma select_served:
  assumes "conn_inv (epoll_connect_client s)" "names_ok (epoll_connect_client s)" "msg_ok recv"
    and "conns (epoll_connect_client s) sock = Some p"
    and "accepts (reply_len (msg_type recv) (epoll_connect_client s)) ws" "malloc_works mem"
    and "msg_type recv = CMD_SENDUI \<Longrightarrow> fields_ok recv"
  shows "served sock (reply_len (msg_type recv) (epoll_connect_client s)) s
           (select_handler ws mem sock recv s)"
proof -
  let ?t = "epoll_connect_client s"
  obtain tm ip port where p: "p = (tm, ip, port)" by (cases p) blast
  obtain k where k: "get_matched_event_index_by_fd sock ?t = int k" "k < length ?t"
    using connected_slot [OF assms(1,4)] by blast
  consider (hs) "msg_type recv = CMD_HANDSHAKE" | (ui) "msg_type recv = CMD_SENDUI"
    | (gr) "msg_type recv = CMD_GETREMOTE" | (gau) "msg_type recv = CMD_GETALLUSER"
    | (other) "msg_type recv \<notin> {CMD_HANDSHAKE, CMD_SENDUI, CMD_GETREMOTE, CMD_GETALLUSER}"
    by blast
  then show ?thesis
  proof cases
    case hs
    have a: "accepts 264 ws" using assms(5) hs by (simp add: reply_len_def)
    have "served sock 264 s (handle_handshake ws sock recv s)"
      using handle_handshake_ok [OF assms(1,3) a assms(4) [unfolded p]] assms(1,2)
      by (intro served_emit) auto
    then show ?thesis using hs by (simp add: select_handler_def reply_len_def)
  next
    case ui
    have n: "names_ok (?t[k := logged_in recv (?t ! k)])"
      using logged_in_names [OF assms(2) k(2)] assms(7) [OF ui] by (simp add: fields_ok_def)
    have "served sock 0 s (handle_sendui sock recv s)"
      unfolding served_def handle_sendui_ok [OF assms(1,3) k(1)]
      using n logged_in_conns [OF assms(1) k(2)]
      by (intro exI [of _ "?t[k := logged_in recv (?t ! k)]"]
          exI [of _ "[Print (''[SENDUI] '' @ cstr (drop 8 recv) @ ''  login'' @ nl)]"]) simp
    then show ?thesis using ui by (simp add: select_handler_def reply_len_def cmd_defs)
  next
    case gr
    have "accepts 276 ws" using assms(5) gr by (simp add: reply_len_def cmd_defs)
    from getremote_served [OF assms(1-3) this] show ?thesis
      using gr by (simp add: select_handler_def reply_len_def cmd_defs)
  next
    case gau
    have a: "accepts (12 + 56 * count_users ?t) ws" using assms(5) gau by (simp add: reply_len_def cmd_defs)
    obtain blk where "mem (12 + 56 * count_users ?t) = Some blk" "length blk = 12 + 56 * count_users ?t"
      using assms(6) by (auto simp: malloc_works_def)
    from handle_getalluser_ok [where s = s and n = "count_users ?t" and mem = mem, OF assms(1,2) refl a this]
    have "served sock (12 + 56 * count_users ?t) s (handle_getalluser ws mem sock s)"
      using assms(1,2) by (intro served_emit) auto
    then show ?thesis using gau by (simp add: select_handler_def reply_len_def cmd_defs)
  next
    case other
    have "served sock 0 s (Inr s)"
      using assms(1,2) by (intro served_emit) (auto simp: emit_def intro!: exI [of _ "[]"])
    then show ?thesis using other by (simp add: select_handler_def reply_len_def)
  qed
qed

lemma respons_served:
  assumes "conn_inv (epoll_connect_client s)" "names_ok (epoll_connect_client s)" "msg_ok recv"
    and "conns (epoll_connect_client s) sock = Some p"
    and "accepts (reply_len (msg_type recv) (epoll_connect_client s)) ws" "malloc_works mem"
    and "msg_type recv = CMD_SENDUI \<Longrightarrow> fields_ok recv"
  shows "served sock (reply_len (msg_type recv) (epoll_connect_client s)) s
           (respons_stb_info ws mem \<lparr>recv_buffer = recv, arg_fd = sock\<rparr> s)"
proof (cases "msg_type recv = CMD_HEARTBEAT")
  case True
  have "sock \<noteq> -1" using connected_slot [OF assms(1,4)] by blast
  with True have "respons_stb_info ws mem \<lparr>recv_buffer = recv, arg_fd = sock\<rparr> s = Inr s"
    by (intro respons_heartbeat)
  moreover have "served sock 0 s (Inr s)"
    using assms(1,2) by (intro served_emit) (auto simp: emit_def intro!: exI [of _ "[]"])
  ultimately show ?thesis using True by (simp add: reply_len_def cmd_defs)
next
  case False
  have "sock \<noteq> -1" using connected_slot [OF assms(1,4)] by blast
  let ?s = "emit (command_prints sock recv) s"
  have t: "epoll_connect_client ?s = epoll_connect_client s" by simp
  have "served sock (reply_len (msg_type recv) (epoll_connect_client s)) ?s
      (select_handler ws mem sock recv ?s)"
    using select_served [where s = ?s, unfolded t, OF assms] .
  then show ?thesis
    unfolding respons_select [OF assms(3) \<open>sock \<noteq> -1\<close> False]
    by (rule served_after_prints) simp_all
qed

end
