(* ===== verification/HandlerSafety.thy ===== *)
theory HandlerSafety
  imports Dispatch
begin

text \<open>
  The handlers without assumptions about the peer: whatever the kernel answers to the
  writes of a reply (short of \<open>EAGAIN\<close>), and whether or not the socket is still in the
  table, the function keeps the table sound. The one exception is a login on a socket
  that has left the table.
\<close>

section \<open>Answers of the kernel\<close>

text \<open>Writes that take a part, fail, or have not happened yet; never \<open>EAGAIN\<close>.\<close>

fun answers :: "nat \<Rightarrow> write_res list \<Rightarrow> bool" where
  "answers 0 ws = True"
| "answers n [] = True"
| "answers n (Wrote k # ws) = (k \<le> n \<and> answers (n - k) ws)"
| "answers n (WriteErr # ws) = True"
| "answers n (WouldBlock # ws) = False"

lemma accepts_answers: "accepts n ws \<Longrightarrow> answers n ws"
  by (induction n ws rule: accepts.induct) auto

lemma send_loop_safe:
  assumes "answers n ws" "n \<le> iLen" "iLen \<le> length buf"
  shows "\<exists>r es. send_loop ws sock buf (int iLen) (int n) = Inr (r, es) \<and> closed es = []"
  using assms
proof (induction n ws rule: answers.induct)
  case (3 m k ws)
  have k: "k \<le> Suc m" "answers (Suc m - k) ws" using "3.prems"(1) by simp_all
  have "Suc m - k \<le> iLen" using "3.prems"(2) by simp
  then obtain r es where "send_loop ws sock buf (int iLen) (int (Suc m - k)) = Inr (r, es)" "closed es = []"
    using "3.IH" [OF k(2) _ "3.prems"(3)] by blast
  then show ?case using send_loop_wrote [OF _ "3.prems"(2,3) k(1)] by auto
qed (simp_all add: send_loop.simps)

lemma reply_to_safe:
  assumes "answers len ws" "len \<le> length b" "closed k = []"
  shows "\<exists>es. reply_to ws sock b len k s = Inr (emit es s) \<and> closed es = []"
proof -
  obtain r es where "send_loop ws sock b (int len) (int len) = Inr (r, es)" "closed es = []"
    using send_loop_safe [OF assms(1) order_refl assms(2)] by blast
  then show ?thesis using assms(3) by (auto simp: reply_to_def send_buffer_to_fd_def)
qed

section \<open>Handlers\<close>

definition kept :: "server \<Rightarrow> server result \<Rightarrow> bool" where
  "kept s r \<longleftrightarrow>
     (\<exists>t' es. r = Inr (emit es (s\<lparr>epoll_connect_client := t'\<rparr>)) \<and> conn_inv t' \<and> names_ok t'
        \<and> conns t' = conns (epoll_connect_client s) \<and> closed es = [])"

lemma kept_reply:
  assumes "conn_inv (epoll_connect_client s)" "names_ok (epoll_connect_client s)"
    and "answers len ws" "len \<le> length b" "closed k = []" "closed p = []"
  shows "kept s (reply_to ws sock b len k (emit p s))"
proof -
  obtain es where "reply_to ws sock b len k (emit p s) = Inr (emit es (emit p s))" "closed es = []"
    using reply_to_safe [OF assms(3-5)] by blast
  then show ?thesis
    using assms(1,2,6) unfolding kept_def
    by (intro exI [of _ "epoll_connect_client s"] exI [of _ "p @ es"]) simp
qed

lemma kept_same:
  "conn_inv (epoll_connect_client s) \<Longrightarrow> names_ok (epoll_connect_client s) \<Longrightarrow> kept s (Inr s)"
  unfolding kept_def by (intro exI [of _ "epoll_connect_client s"] exI [of _ "[]"]) (simp add: emit_def)

lemma kept_prints:
  assumes "kept (emit ps s) r" "closed ps = []"
  shows "kept s r"
proof -
  obtain t' es where "r = Inr (emit es ((emit ps s)\<lparr>epoll_connect_client := t'\<rparr>))"
    "conn_inv t'" "names_ok t'" "conns t' = conns (epoll_connect_client s)" "closed es = []"
    using assms(1) unfolding kept_def by auto
  then show ?thesis
    using assms(2) unfolding kept_def
    by (intro exI [of _ t'] exI [of _ "ps @ es"]) (simp add: emit_def)
qed

lemma any_client_addr:
  assumes "conn_inv t"
  shows "\<exists>ip. get_client_addr_by_index k t = Inr ip \<and> nulfree ip"
proof (cases "in_range k")
  case True
  then have "nat k < MAX_EVENTS" by (auto simp: in_range_def nat_less_iff)
  then have "conn_ok (t ! nat k)" using conn_inv_nth [OF assms] by blast
  then show ?thesis using True by (simp add: get_client_addr_by_index_def conn_ok_def)
next
  case False
  then show ?thesis by (simp add: get_client_addr_by_index_def NUL_def)
qed

lemma handshake_kept:
  assumes "conn_inv (epoll_connect_client s)" "names_ok (epoll_connect_client s)" "msg_ok recv"
    and "answers 264 ws"
  shows "kept s (handle_handshake ws sock recv s)"
proof -
  let ?t = "epoll_connect_client s"
  let ?k = "get_matched_event_index_by_fd sock ?t"
  obtain ip where ip: "get_client_addr_by_index ?k ?t = Inr ip" "nulfree ip"
    using any_client_addr [OF assms(1)] by blast
  obtain b len where r: "handshake_reply ip (get_client_port_by_index ?k ?t) = Inr (b, len)"
    by (simp add: handshake_reply_eq)
  note rd = handshake_reply_reads [OF r ip(2)]
  let ?p = "[Print (''get handshake msg : '' @ cstr (drop 8 recv) @ nl),
             Print (''handshake ack: '' @ take 255 (handshake_info ip (get_client_port_by_index ?k ?t)) @ nl)]"
  have "handle_handshake ws sock recv s = reply_to ws sock b 264 [] (emit ?p s)"
    using assms(3) ip r rd
    by (simp add: handle_handshake_def msg_ok_def str_at_def [of 8 recv] Let_def layout_defs)
  then show ?thesis
    using kept_reply [OF assms(1,2,4), of b "[]" ?p sock] rd(2) by simp
qed

lemma getremote_kept:
  assumes "conn_inv (epoll_connect_client s)" "names_ok (epoll_connect_client s)" "msg_ok recv"
    and "answers 276 ws"
  shows "kept s (handle_getremote ws sock recv s)"
proof -
  let ?t = "epoll_connect_client s"
  let ?k = "get_matched_event_index_by_UsrHashId (msg_userId recv) ?t"
  obtain users where u: "print_all_users ?t = Inr users"
    "strncpy (zeros 10) (msg_userId recv) sizeof_userId = Inr (strncpy_bytes 10 (msg_userId recv))"
    "strncpy (zeros 7) (msg_passwd recv) sizeof_passwd = Inr (strncpy_bytes 7 (msg_passwd recv))"
    "get_matched_event_index_by_UsrHashId (strncpy_bytes 10 (msg_userId recv)) ?t = ?k"
    using getremote_prefix [OF assms(1-3)] by blast
  show ?thesis
  proof (cases "?k = -1")
    case True
    let ?b = "remote_bytes 0 0 0 not_found_info"
    have n: "nulfree not_found_info" by (simp add: not_found_info_def NUL_def)
    let ?p = "[Print users, Log LOG_LEVEL_WARNING ''respons_stb_info'' 434 not_found_info,
               Print (''send remote ack: '' @ take 255 not_found_info @ nl)]"
    have "handle_getremote ws sock recv s = reply_to ws sock ?b 276 [] (emit ?p s)"
      using u True remote_bytes_reads(4) [OF n, of 0 0 0]
      by (simp add: handle_getremote_def getremote_not_found_eq Let_def)
    then show ?thesis
      using kept_reply [OF assms(1,2,4), of ?b "[]" ?p sock] remote_bytes_reads(1) [OF n] by simp
  next
    case False
    then obtain k where kk: "?k = int k"
      by (metis get_matched_event_index_by_UsrHashId_def scan_cases)
    then have k: "k < MAX_EVENTS" using assms(1) matched_user_iff by (simp add: conn_inv_length)
    obtain tm ip port where p: "peer_of (?t ! k) = (tm, ip, port)" using prod_cases3 by blast
    have ip: "str_at 0 (client_ip_addr (?t ! k)) = Inr ip" "nulfree ip" "client_port (?t ! k) = port"
      using conn_inv_nth [OF assms(1) k] p by (auto simp: conn_ok_def peer_of_def)
    let ?b = "remote_bytes 1 (inet_addr ip) (word_of_int port) (remote_info ip port)"
    have n: "nulfree (remote_info ip port)" using ip(2) by (simp add: remote_info_def NUL_def)
    have "handle_getremote ws sock recv s = reply_to ws sock ?b 276 [] (emit [Print users] s)"
      using u kk k ip
      by (simp add: handle_getremote_def getremote_found_eq get_connect_prv_by_index_def in_range_def Let_def)
    then show ?thesis
      using kept_reply [OF assms(1,2,4), of ?b "[]" "[Print users]" sock] remote_bytes_reads(1) [OF n] by simp
  qed
qed

lemma getalluser_kept:
  assumes "conn_inv (epoll_connect_client s)" "names_ok (epoll_connect_client s)" "malloc_works mem"
    and "answers (12 + 56 * count_users (epoll_connect_client s)) ws"
  shows "kept s (handle_getalluser ws mem sock s)"
proof -
  let ?t = "epoll_connect_client s"
  let ?n = "count_users ?t"
  obtain blk where "mem (12 + 56 * ?n) = Some blk" "length blk = 12 + 56 * ?n"
    using assms(3) by (auto simp: malloc_works_def)
  then obtain b where b: "getalluser_reply mem ?t ?t = Inr (b, 12 + 56 * ?n, ?n)" "length b = 12 + 56 * ?n"
    using getalluser_reply_ok [OF assms(1,2), of mem blk] by blast
  let ?p = "[Print (''[CMD_GETALLUSER] ===>'' @ nl)]"
  let ?k = "[Print (''[CMD_GETALLUSER] send cnt '' @ show_int (int ?n) @ nl)]"
  have "handle_getalluser ws mem sock s = reply_to ws sock b (12 + 56 * ?n) ?k (emit ?p s)"
    using b(1) by (simp add: handle_getalluser_def Let_def)
  then show ?thesis
    using kept_reply [OF assms(1,2,4), of b ?k ?p sock] b(2) by simp
qed

lemma sendui_kept:
  assumes "conn_inv (epoll_connect_client s)" "names_ok (epoll_connect_client s)" "msg_ok recv"
    and "conns (epoll_connect_client s) sock \<noteq> None" "fields_ok recv"
  shows "kept s (handle_sendui sock recv s)"
proof -
  let ?t = "epoll_connect_client s"
  obtain p where "conns ?t sock = Some p" using assms(4) by blast
  then obtain k where k: "get_matched_event_index_by_fd sock ?t = int k" "k < length ?t"
    using connected_slot [OF assms(1)] by blast
  have "names_ok (?t[k := logged_in recv (?t ! k)])"
    using logged_in_names [OF assms(2) k(2)] assms(5) by (simp add: fields_ok_def)
  then show ?thesis
    unfolding kept_def handle_sendui_ok [OF assms(1,3) k(1)]
    using logged_in_conns [OF assms(1) k(2)]
    by (intro exI [of _ "?t[k := logged_in recv (?t ! k)]"]
        exI [of _ "[Print (''[SENDUI] '' @ cstr (drop 8 recv) @ ''  login'' @ nl)]"]) simp
qed

text \<open>The messages a worker can serve in the state: any but an over-long or a late login.\<close>

definition servable :: "string \<Rightarrow> int \<Rightarrow> conn_table \<Rightarrow> bool" where
  "servable recv sock t \<longleftrightarrow> sock \<noteq> -1 \<and>
     (msg_type recv = CMD_SENDUI \<longrightarrow> fields_ok recv \<and> conns t sock \<noteq> None)"

lemma respons_kept:
  assumes "conn_inv (epoll_connect_client s)" "names_ok (epoll_connect_client s)" "msg_ok recv"
    and "servable recv sock (epoll_connect_client s)" "malloc_works mem"
    and "answers (reply_len (msg_type recv) (epoll_connect_client s)) ws"
  shows "kept s (respons_stb_info ws mem \<lparr>recv_buffer = recv, arg_fd = sock\<rparr> s)"
proof (cases "msg_type recv = CMD_HEARTBEAT")
  case True
  then show ?thesis
    using kept_same [OF assms(1,2)] respons_heartbeat assms(4) by (simp add: servable_def)
next
  case False
  let ?s = "emit (command_prints sock recv) s"
  have inv: "conn_inv (epoll_connect_client ?s)" "names_ok (epoll_connect_client ?s)"
    using assms(1,2) by simp_all
  have "kept ?s (select_handler ws mem sock recv ?s)"
  proof -
    consider (hs) "msg_type recv = CMD_HANDSHAKE" | (ui) "msg_type recv = CMD_SENDUI"
      | (gr) "msg_type recv = CMD_GETREMOTE" | (gau) "msg_type recv = CMD_GETALLUSER"
      | (other) "msg_type recv \<notin> {CMD_HANDSHAKE, CMD_SENDUI, CMD_GETREMOTE, CMD_GETALLUSER}"
      by blast
    then show ?thesis
    proof cases
      case hs
      then have "answers 264 ws" using assms(6) by (simp add: reply_len_def)
      from handshake_kept [OF inv assms(3) this] show ?thesis using hs by (simp add: select_handler_def)
    next
      case ui
      then have "conns (epoll_connect_client ?s) sock \<noteq> None" "fields_ok recv"
        using assms(4) by (simp_all add: servable_def)
      from sendui_kept [OF inv assms(3) this] show ?thesis
        using ui by (simp add: select_handler_def cmd_defs)
    next
      case gr
      then have "answers 276 ws" using assms(6) by (simp add: reply_len_def cmd_defs)
      from getremote_kept [OF inv assms(3) this] show ?thesis
        using gr by (simp add: select_handler_def cmd_defs)
    next
      case gau
      then have "answers (12 + 56 * count_users (epoll_connect_client ?s)) ws"
        using assms(6) by (simp add: reply_len_def cmd_defs)
      from getalluser_kept [OF inv assms(5) this] show ?thesis
        using gau by (simp add: select_handler_def cmd_defs)
    next
      case other
      then show ?thesis using kept_same [OF inv] by (simp add: select_handler_def)
    qed
  qed
  then have k: "kept s (select_handler ws mem sock recv ?s)" by (rule kept_prints) simp
  have "sock \<noteq> -1" using assms(4) unfolding servable_def by (rule conjunct1)
  from respons_select [OF assms(3) this False] k show ?thesis by (simp only:)
qed

section \<open>Whatever clients, kernel and \<open>malloc\<close> do\<close>

text \<open>
  A call that returns has changed nothing but the names of one slot, and those keep their
  terminators unless the call stored a login that does not fit.
\<close>

definition leaves :: "string \<Rightarrow> server \<Rightarrow> server \<Rightarrow> bool" where
  "leaves recv s s' \<longleftrightarrow>
     (\<exists>t' es. s' = emit es (s\<lparr>epoll_connect_client := t'\<rparr>) \<and> conn_inv t'
        \<and> conns t' = conns (epoll_connect_client s) \<and> closed es = []
        \<and> (names_ok (epoll_connect_client s) \<and> (msg_type recv = CMD_SENDUI \<longrightarrow> fields_ok recv) \<longrightarrow> names_ok t'))"

lemma leaves_emit:
  assumes "conn_inv (epoll_connect_client s)" "closed es = []"
  shows "leaves recv s (emit es s)"
  unfolding leaves_def using assms
  by (intro exI [of _ "epoll_connect_client s"] exI [of _ es]) simp

lemma leaves_emitted: "leaves recv (emit ps s) s' \<Longrightarrow> closed ps = [] \<Longrightarrow> leaves recv s s'"
  unfolding leaves_def
proof (elim exE conjE)
  fix t' es
  assume "s' = emit es ((emit ps s)\<lparr>epoll_connect_client := t'\<rparr>)" "conn_inv t'"
    "conns t' = conns (epoll_connect_client (emit ps s))" "closed es = []" "closed ps = []"
    "names_ok (epoll_connect_client (emit ps s)) \<and> (msg_type recv = CMD_SENDUI \<longrightarrow> fields_ok recv) \<longrightarrow> names_ok t'"
  then show "\<exists>t' es. s' = emit es (s\<lparr>epoll_connect_client := t'\<rparr>) \<and> conn_inv t'
      \<and> conns t' = conns (epoll_connect_client s) \<and> closed es = []
      \<and> (names_ok (epoll_connect_client s) \<and> (msg_type recv = CMD_SENDUI \<longrightarrow> fields_ok recv) \<longrightarrow> names_ok t')"
    by (intro exI [of _ t'] exI [of _ "ps @ es"]) (simp add: emit_def)
qed

lemma send_loop_closes_none: "send_loop ws sock buf i n = Inr (r, es) \<Longrightarrow> closed es = []"
proof (induction ws sock buf i n arbitrary: r es rule: send_loop.induct)
  case (1 ws sock buf i n)
  show ?case
    using "1.prems" "1.IH"
    by (subst (asm) send_loop.simps) (auto split: if_splits list.splits write_res.splits)
qed

lemma reply_to_returns:
  assumes "reply_to ws sock b len k s = Inr s'" "closed k = []"
  shows "\<exists>es. s' = emit es s \<and> closed es = []"
  using assms send_loop_closes_none
  by (auto simp: reply_to_def send_buffer_to_fd_def split: prod.splits if_splits)

lemma replies_return:
  "handle_handshake ws sock recv s = Inr s' \<Longrightarrow> \<exists>es. s' = emit es s \<and> closed es = []"
  "handle_getremote ws sock recv s = Inr s' \<Longrightarrow> \<exists>es. s' = emit es s \<and> closed es = []"
  "handle_getalluser ws mem sock s = Inr s' \<Longrightarrow> \<exists>es. s' = emit es s \<and> closed es = []"
  by (fastforce simp: handle_handshake_def handle_getremote_def handle_getalluser_def Let_def
      dest!: reply_to_returns split: if_splits option.splits prod.splits)+

lemma sendui_returns:
  assumes "conn_inv (epoll_connect_client s)" "msg_ok recv" "handle_sendui sock recv s = Inr s'"
    "msg_type recv = CMD_SENDUI"
  shows "leaves recv s s'"
proof -
  let ?t = "epoll_connect_client s"
  obtain k where k: "get_matched_event_index_by_fd sock ?t = int k" "k < length ?t"
    using assms(3) by (cases rule: matched_fd_cases [of sock ?t])
      (auto simp: handle_sendui_def get_connect_prv_by_index_def in_range_def)
  have s': "s' = emit [Print (''[SENDUI] '' @ cstr (drop 8 recv) @ ''  login'' @ nl)]
      (s\<lparr>epoll_connect_client := ?t[k := logged_in recv (?t ! k)]\<rparr>)"
    using assms(3) handle_sendui_ok [OF assms(1,2) k(1)] by simp
  have "names_ok (?t[k := logged_in recv (?t ! k)])" if "names_ok ?t" "fields_ok recv"
    using logged_in_names [OF that(1) k(2)] that(2) by (simp add: fields_ok_def)
  then show ?thesis
    unfolding leaves_def s' using logged_in_conns [OF assms(1) k(2)] assms(4)
    by (intro exI [of _ "?t[k := logged_in recv (?t ! k)]"]
        exI [of _ "[Print (''[SENDUI] '' @ cstr (drop 8 recv) @ ''  login'' @ nl)]"]) simp
qed

lemma respons_returns:
  assumes "conn_inv (epoll_connect_client s)" "msg_ok recv"
    and "respons_stb_info ws mem \<lparr>recv_buffer = recv, arg_fd = sock\<rparr> s = Inr s'"
  shows "leaves recv s s'"
proof -
  let ?s = "emit (command_prints sock recv) s"
  consider (none) "sock = -1" | (hb) "sock \<noteq> -1" "msg_type recv = CMD_HEARTBEAT"
    | (cmd) "sock \<noteq> -1" "msg_type recv \<noteq> CMD_HEARTBEAT" by blast
  then show ?thesis
  proof cases
    case none
    then have "\<exists>es. s' = emit es s \<and> closed es = []"
      using assms(3) by (auto simp: respons_stb_info_def Let_def split: if_splits)
    then show ?thesis using leaves_emit [OF assms(1)] by blast
  next
    case hb
    then have "s' = emit [] s" using assms(3) respons_heartbeat [of sock recv] by (simp add: emit_def)
    then show ?thesis using leaves_emit [OF assms(1), of "[]"] by simp
  next
    case cmd
    then have h: "select_handler ws mem sock recv ?s = Inr s'"
      using assms(3) respons_select [OF assms(2)] by simp
    have inv: "conn_inv (epoll_connect_client ?s)" using assms(1) by simp
    have "leaves recv ?s s'"
    proof (cases "msg_type recv = CMD_SENDUI")
      case True
      then show ?thesis
        using sendui_returns [OF inv assms(2)] h by (simp add: select_handler_def cmd_defs)
    next
      case False
      have "\<exists>es. s' = emit es ?s \<and> closed es = []"
      proof (cases "msg_type recv \<in> {CMD_HANDSHAKE, CMD_GETREMOTE, CMD_GETALLUSER}")
        case True
        then show ?thesis
          using h False replies_return by (auto simp: select_handler_def simp del: emit_emit split: if_splits)
      next
        case other: False
        then have "s' = emit [] ?s" using h False by (simp add: select_handler_def emit_def)
        then show ?thesis by (intro exI [of _ "[]"]) simp
      qed
      then show ?thesis using leaves_emit [OF inv] by blast
    qed
    then show ?thesis by (rule leaves_emitted) simp
  qed
qed

section \<open>What goes wrong\<close>

text \<open>A login on a socket without a slot dereferences NULL.\<close>

lemma respons_late_login:
  assumes "conn_inv (epoll_connect_client s)" "msg_ok recv" "msg_type recv = CMD_SENDUI" "sock \<noteq> -1"
    and "conns (epoll_connect_client s) sock = None"
  shows "respons_stb_info ws mem \<lparr>recv_buffer = recv, arg_fd = sock\<rparr> s = Inl NullDeref"
proof -
  have hb: "msg_type recv \<noteq> CMD_HEARTBEAT" using assms(3) by (simp add: cmd_defs)
  have "get_matched_event_index_by_fd sock (epoll_connect_client s) = -1"
    using reg.find_iff [OF assms(1,4)] assms(5) by simp
  then have "handle_sendui sock recv (emit (command_prints sock recv) s) = Inl NullDeref"
    by (intro handle_sendui_unknown) simp
  moreover have "select_handler ws mem sock recv (emit (command_prints sock recv) s)
      = handle_sendui sock recv (emit (command_prints sock recv) s)"
    using assms(3) by (simp add: select_handler_def cmd_defs)
  ultimately show ?thesis using respons_select [OF assms(2,4) hb] by simp
qed

text \<open>\<open>EAGAIN\<close>: the next write starts one byte before where it should.\<close>

lemma send_again:
  assumes "0 < n" "n \<le> iLen" "iLen \<le> length buf"
  shows "send_loop (WouldBlock # ws) sock buf (int iLen) (int n)
         = and_then (send_loop ws sock buf (int iLen) (int (Suc n))) (\<lambda>(r, es).
             Inr (r, Log LOG_LEVEL_INFO ''send_buffer_to_fd'' 330 (''Write EAGAIN.'' @ nl) # es))"
  using assms by (subst send_loop.simps) (simp add: add.commute)

lemma send_first_again:
  assumes "0 < iLen" "iLen \<le> length buf"
  shows "send_buffer_to_fd (WouldBlock # ws) sock buf (int iLen) = Inl OutOfBounds"
  unfolding send_buffer_to_fd_def send_again [OF assms(1) order_refl assms(2)]
  by (subst send_loop.simps) simp

end
