(* ===== verification/EventLoop.thy ===== *)
theory EventLoop
  imports Respond
begin

text \<open>
  The server's own threads, \<open>src/server/g_net_update.c\<close>: the accept thread, the recycling
  of timed-out connections, the epoll loop of \<open>main\<close> and the signal handler. What the
  kernel answers in one iteration is a record, so an iteration is a function.
\<close>

section \<open>The accept thread\<close>

definition EINTR :: int where "EINTR = 4"
definition EAGAIN :: int where "EAGAIN = 11"
definition EPROTO :: int where "EPROTO = 71"
definition ECONNABORTED :: int where "ECONNABORTED = 103"

text \<open>The answers the set-up of the listening socket depends on.\<close>

record listen_env =
  le_socket :: int
  le_reuseaddr :: int
  le_rcvbuf :: int
  le_defer :: int
  le_bind :: int

definition LISTENQ :: int where "LISTENQ = 4096"

text \<open>
  The part of \<open>accept_thread\<close> before its loop, for the port \<open>port\<close>; the result says
  whether the loop is reached. On an error the socket stays open and in \<open>listen_fd\<close>.
\<close>

definition accept_setup :: "int \<Rightarrow> listen_env \<Rightarrow> server \<Rightarrow> bool \<times> server" where
  "accept_setup port e s =
     (let s = s\<lparr>listen_fd := le_socket e\<rparr>; fd = le_socket e;
          failed = (\<lambda>line m. (False, emit [Log LOG_LEVEL_ERROR ''accept_thread'' line m] s)) in
      if fd = -1 then failed 135 (''create socket error.'' @ nl)
      else if le_reuseaddr e \<noteq> 0 then failed 142 (''setsockopt SO_REUSEADDR error.'' @ nl)
      else if le_rcvbuf e \<noteq> 0 then failed 148 (''setsockopt SO_RCVBUF error.'' @ nl)
      else if le_defer e \<noteq> 0 then failed 156 (''setsockopt TCP_DEFER_ACCEPT error.'' @ nl)
      else if le_bind e = -1 then
        (False, emit [Log LOG_LEVEL_ERROR ''accept_thread'' 167 (''bind config port '' @ show_int port @ '' error.'' @ nl),
                      Print (''bind config port '' @ show_int port @ '' error.'' @ nl)] s)
      else
        (True, emit [SockOpt fd ''SO_REUSEADDR'' 1, SockOpt fd ''SO_RCVBUF'' 32768,
                     SockOpt fd ''TCP_DEFER_ACCEPT'' 2,
                     Print (''bind config port '' @ show_int port @ '' success.'' @ nl),
                     Listen fd LISTENQ] s))"

text \<open>
  One iteration: what \<open>accept\<close> returns (with \<open>errno\<close> and its \<open>strerror\<close> text for the
  iteration), the two \<open>fcntl\<close> results, \<open>setsockopt\<close>'s, the peer's address and port, the
  bytes of the process's memory behind the text that \<open>inet_ntoa\<close> returns, the time and
  \<open>epoll_ctl\<close>'s result.
\<close>

record accept_env =
  ae_fd :: int
  ae_errno :: int
  ae_strerror :: string
  ae_getfl :: int
  ae_setfl :: int
  ae_rcvbuf :: int
  ae_addr :: "32 word"
  ae_port :: "16 word"
  ae_mem :: "nat \<Rightarrow> char"
  ae_now :: int
  ae_ctl :: int

text \<open>
  The memory at the pointer that \<open>inet_ntoa\<close> returns, as far as a \<open>memcpy\<close> of \<open>IP_ADDR_LENGTH\<close>
  bytes can reach: the text, its NUL, and whatever stands behind it, in \<open>inet_ntoa\<close>'s own buffer and
  behind that. The copy is larger than the longest text, so it may pass the end of the buffer.
\<close>

definition client_ip :: "accept_env \<Rightarrow> string" where
  "client_ip e = inet_ntoa (ae_addr e) @ [NUL] @ map (ae_mem e) [0..<IP_ADDR_LENGTH]"

definition connected_msg :: "int \<Rightarrow> string \<Rightarrow> int \<Rightarrow> int \<Rightarrow> string" where
  "connected_msg k ip fd num =
     ''Epoll event['' @ show_int k @ ''] *****connected from '' @ ip @ ''*****, fd:'' @ show_int fd
     @ '', Total number of clients currently connected = '' @ show_int num @ ''.'' @ nl"

text \<open>Lines 195--248: a connection has been accepted.\<close>

definition accept_connection :: "accept_env \<Rightarrow> server \<Rightarrow> server result" where
  "accept_connection e s =
     (let fd = ae_fd e; k = get_epoll_connect_free_event_index (epoll_connect_client s) in
      if k = -1 then
        Inr (emit (Log LOG_LEVEL_ERROR ''accept_thread'' 199 (''Not find free connect.'' @ nl)
                   # closesocket fd) s)
      else
        let (r, es) = set_non_blocking (ae_getfl e) (ae_setfl e) fd; s = emit es s in
        if r < 0 then
          Inr (emit (Log LOG_LEVEL_ERROR ''accept_thread'' 210
                       (''set non-blocking socket = '' @ show_int fd @ '' error.'' @ nl)
                     # closesocket fd) s)
        else if ae_rcvbuf e \<noteq> 0 then
          Inr (emit (Log LOG_LEVEL_ERROR ''accept_thread'' 221
                       (''set socket('' @ show_int fd @ '') setsockopt SO_RCVBUF error.'' @ nl)
                     # closesocket fd) s)
        else
          and_then
            (on_table (init_epoll_connect_by_index (ae_now e) k fd (client_ip e) (uint (ae_port e)))
               (emit [SockOpt fd ''SO_RCVBUF'' 32768] s))
            (\<lambda>s.
              if ae_ctl e = -1 then
                Inr (emit (Log LOG_LEVEL_ERROR ''accept_thread'' 236
                             (''EPOLL_CTL_ADD '' @ show_int (ae_errno e) @ '','' @ ae_strerror e @ ''.'' @ nl)
                           # closesocket fd) s)
              else
                let s = connect_total_count_add 1 (emit [EpollAdd fd] s) in
                Inr (emit [Log LOG_LEVEL_INDISPENSABLE ''accept_thread'' 246
                             (connected_msg k (inet_ntoa (ae_addr e)) fd (current_connected_total s))] s)))"

text \<open>What \<open>accept\<close> has returned (lines 178--248).\<close>

definition accept_returned :: "accept_env \<Rightarrow> server \<Rightarrow> server result" where
  "accept_returned e s =
     (if ae_fd e < 0 then
        Inr (if ae_errno e \<noteq> EAGAIN \<and> ae_errno e \<noteq> ECONNABORTED \<and> ae_errno e \<noteq> EPROTO \<and> ae_errno e \<noteq> EINTR
             then emit [Log LOG_LEVEL_ERROR ''accept_thread'' 183
                          (''accept error '' @ show_int (ae_errno e) @ '','' @ ae_strerror e @ ''.'' @ nl)] s
             else s)
      else accept_connection e s)"

definition accept_full :: "server \<Rightarrow> server" where
  "accept_full s =
     emit [Sleep 1, Log LOG_LEVEL_INDISPENSABLE ''accept_thread'' 192
             (''current accept number achieve to maximum('' @ show_int (int MAX_EVENTS) @ '') .'' @ nl)] s"

definition accept_iteration :: "accept_env \<Rightarrow> server \<Rightarrow> server result" where
  "accept_iteration e s =
     (if current_connected_total s < int MAX_EVENTS then accept_returned e s else Inr (accept_full s))"

text \<open>After the loop (lines 251--255).\<close>

definition close_listen :: "server \<Rightarrow> server" where
  "close_listen s =
     (if listen_fd s \<noteq> -1 then (emit (closesocket (listen_fd s)) s)\<lparr>listen_fd := -1\<rparr> else s)"

text \<open>
  The loop, over the answers the kernel gives; the flag says whether the thread has ended
  (when the answers are used up it is still running).
\<close>

fun accept_loop :: "accept_env list \<Rightarrow> server \<Rightarrow> (bool \<times> server) result" where
  "accept_loop es s =
     (if exit_accept_flag s then Inr (True, close_listen s)
      else case es of
             [] \<Rightarrow> Inr (False, s)
           | e # es \<Rightarrow> and_then (accept_iteration e s) (accept_loop es))"

declare accept_loop.simps [simp del]

definition accept_thread :: "int \<Rightarrow> listen_env \<Rightarrow> accept_env list \<Rightarrow> server \<Rightarrow> (bool \<times> server) result" where
  "accept_thread port le es s =
     (case accept_setup port le s of (ok, s) \<Rightarrow> if ok then accept_loop es s else Inr (True, s))"

section \<open>Recycling\<close>

text \<open>
  One slot of \<open>recycle_timeout_confd\<close>: \<open>del fd\<close> is \<open>errno\<close> and its text when
  \<open>EPOLL_CTL_DEL\<close> of \<open>fd\<close> fails.
\<close>

definition timeout_msg :: "nat \<Rightarrow> int \<Rightarrow> string" where
  "timeout_msg i fd = ''Epoll event['' @ show_int (int i) @ ''] timeout closed and fd= '' @ show_int fd @ ''.'' @ nl"

definition recycle_slot ::
    "int \<Rightarrow> (int \<Rightarrow> (int \<times> string) option) \<Rightarrow> nat \<Rightarrow> server \<Rightarrow> server result" where
  "recycle_slot now del i s =
     (let t = epoll_connect_client s; fd = get_fd_by_event_index (int i) t in
      if fd \<noteq> -1 \<and> now - get_event_connect_time_by_index now (int i) t > SERVER_TIMEOUT then
        and_then
          (on_table (free_event_by_index (int i))
             (emit [Print (timeout_msg i fd),
                    Log LOG_LEVEL_INDISPENSABLE ''recycle_timeout_confd'' 513 (timeout_msg i fd)] s))
          (\<lambda>s. Inr (emit (closesocket fd) (connect_total_count_sub 1
                 (emit (case del fd of
                          None \<Rightarrow> [EpollDel fd]
                        | Some (errno, txt) \<Rightarrow>
                            [Log LOG_LEVEL_ERROR ''recycle_timeout_confd'' 518
                               (''EPOLL_CTL_DEL '' @ show_int errno @ '','' @ txt @ ''.'' @ nl)]) s))))
      else Inr s)"

fun recycle_slots ::
    "int \<Rightarrow> (int \<Rightarrow> (int \<times> string) option) \<Rightarrow> nat list \<Rightarrow> server \<Rightarrow> server result" where
  "recycle_slots now del [] s = Inr s"
| "recycle_slots now del (i # is) s = and_then (recycle_slot now del i s) (recycle_slots now del is)"

text \<open>\<open>tm\<close> is the time \<open>delete_timeout_job\<close> reads for itself.\<close>

definition recycle_timeout_confd ::
    "int \<Rightarrow> int \<Rightarrow> (int \<Rightarrow> (int \<times> string) option) \<Rightarrow> server \<Rightarrow> server result" where
  "recycle_timeout_confd now tm del s =
     and_then (recycle_slots now del [0..<MAX_EVENTS] s) (\<lambda>s.
     and_then (delete_timeout_job tm SERVER_TIMEOUT (thpool s)) (\<lambda>(n, q).
     Inr (emit [Log LOG_LEVEL_INDISPENSABLE ''recycle_timeout_confd'' 531
                  (''pool queque delete job number = '' @ show_int (int n) @ ''.'' @ nl)]
            (connect_total_count_sub (int n) (s\<lparr>thpool := q\<rparr>)))))"

section \<open>The epoll loop\<close>

text \<open>
  One event that \<open>epoll_wait\<close> reports: its socket, whether \<open>EPOLLIN\<close> is set, what \<open>recv\<close>
  returns, what \<open>malloc\<close> of the job returns and the time.
\<close>

record ep_event =
  ev_fd :: int
  ev_in :: bool
  ev_recv :: recv_res
  ev_malloc :: "nat option"
  ev_now :: int

definition main_log :: "nat \<Rightarrow> nat \<Rightarrow> string \<Rightarrow> effect" where
  "main_log lvl line m = Log lvl ''main'' line m"

text \<open>Freeing the slot of an event and closing its socket, the end of three branches.\<close>

definition drop_connection :: "int \<Rightarrow> int \<Rightarrow> server \<Rightarrow> server result" where
  "drop_connection k fd s =
     and_then (on_table (free_event_by_index k) s) (\<lambda>s.
       Inr (if fd \<noteq> -1 then emit (closesocket fd) s else s))"

definition read_event :: "ep_event \<Rightarrow> int \<Rightarrow> server \<Rightarrow> server result" where
  "read_event e k s =
     and_then (recv_buffer_from_fd (ev_recv e) (replicate BUFFER_SIZE NUL)) (\<lambda>(r, buf, len).
       if r = 0 then
         let n = (case len of None \<Rightarrow> 0 | Some n \<Rightarrow> n) in
         and_then (dumpInfo buf n) (\<lambda>es.
         and_then
           (thpool_add_work (ev_now e) (ev_malloc e) Respons_stb_info k (ev_fd e) buf
              (emit (main_log LOG_LEVEL_INDISPENSABLE 696
                       (''recv_length = '' @ show_int (int n) @ '', current fd = '' @ show_int (ev_fd e)
                        @ '', current job queue job number = ''
                        @ show_int (int (get_jobqueue_number (Some (thpool s)))) @ ''.'' @ nl)
                     # es) s))
           (\<lambda>(_, s). Inr s))
       else
         drop_connection k (ev_fd e)
           (emit [main_log LOG_LEVEL_INDISPENSABLE 705
                    (''Epoll event['' @ show_int k @ ''] not read data, and the socket fd = ''
                     @ show_int (ev_fd e) @ ''.'' @ nl)]
              (connect_total_count_sub 1 s)))"

definition handle_event :: "nat \<Rightarrow> ep_event \<Rightarrow> server \<Rightarrow> server result" where
  "handle_event index e s =
     (let fd = ev_fd e in
      if ev_in e then
        if fd < 0 then
          Inr (emit [main_log LOG_LEVEL_ERROR 673 (''Event['' @ show_int (int index) @ ''] read invalid handle.'' @ nl)]
                 (connect_total_count_sub 1 s))
        else
          let k = get_matched_event_index_by_fd fd (epoll_connect_client s);
              s = emit [main_log LOG_LEVEL_ERROR 677
                          (''Epoll get Event['' @ show_int k @ ''] fd = '' @ show_int fd @ ''.'' @ nl)] s in
          if k < 0 then
            drop_connection k fd
              (emit [main_log LOG_LEVEL_ERROR 683 (''not find matched fd = '' @ show_int fd @ ''.'' @ nl)]
                 (connect_total_count_sub 1 s))
          else read_event e k s
      else
        let s = connect_total_count_sub 1
                  (emit [main_log LOG_LEVEL_ERROR 720
                           (''Unknown error! event.data.fd = '' @ show_int fd @ ''.'' @ nl)] s) in
        if fd < 0 then Inr (emit [main_log LOG_LEVEL_ERROR 724 (''EPOLLOUT.'' @ nl)] s)
        else drop_connection (get_matched_event_index_by_fd fd (epoll_connect_client s)) fd s)"

fun handle_events :: "nat \<Rightarrow> ep_event list \<Rightarrow> server \<Rightarrow> server result" where
  "handle_events index [] s = Inr s"
| "handle_events index (e # es) s = and_then (handle_event index e s) (handle_events (Suc index) es)"

text \<open>
  An iteration of the loop: the time, the time \<open>delete_timeout_job\<close> reads, the failing
  \<open>EPOLL_CTL_DEL\<close>s and the events. \<open>abs\<close> takes an \<open>int\<close>, so the difference of the
  two times is truncated to 32 bits.
\<close>

record loop_env =
  lo_now :: int
  lo_tm :: int
  lo_del :: "int \<Rightarrow> (int \<times> string) option"
  lo_events :: "ep_event list"

definition c_int :: "int \<Rightarrow> int" where
  "c_int x = sint (word_of_int x :: 32 word)"

definition recycle_due :: "int \<Rightarrow> int \<Rightarrow> bool" where
  "recycle_due now eventTime \<longleftrightarrow> \<bar>c_int (now - eventTime)\<bar> \<ge> SERVER_TIMEOUT"

definition loop_iteration :: "loop_env \<Rightarrow> int \<times> server \<Rightarrow> (int \<times> server) result" where
  "loop_iteration e st =
     (case st of (eventTime, s) \<Rightarrow>
        and_then
          (if recycle_due (lo_now e) eventTime then
             and_then (recycle_timeout_confd (lo_now e) (lo_tm e) (lo_del e)
                         (emit [Print (''60s detect one time =====>'' @ nl)] s))
               (\<lambda>s. Inr (lo_now e, s))
           else Inr (eventTime, s))
          (\<lambda>(eventTime, s). and_then (handle_events 0 (lo_events e) s) (\<lambda>s. Inr (eventTime, s))))"

section \<open>Signals\<close>

definition SIGKILL :: int where "SIGKILL = 9"
definition SIGPIPE :: int where "SIGPIPE = 13"
definition SIGTERM :: int where "SIGTERM = 15"

text \<open>The sockets of the table, in the order the handler closes them.\<close>

fun close_all :: "nat list \<Rightarrow> conn_table \<Rightarrow> effect list" where
  "close_all [] t = []"
| "close_all (i # is) t =
     (let sockfd = get_fd_by_event_index (int i) t in
      (if sockfd \<noteq> -1 then closesocket sockfd else []) @ close_all is t)"

definition signal_handler_reboot :: "int \<Rightarrow> server \<Rightarrow> server" where
  "signal_handler_reboot theSignal s =
     (if theSignal = SIGKILL \<or> theSignal = SIGTERM then
        let s = close_listen (emit [Log LOG_LEVEL_FATAL ''signal_handler_reboot'' 61
                                      ''receive kill signal exit the server.''] s);
            s = s\<lparr>exit_flag := True, exit_accept_flag := True\<rparr>
        in emit (close_all [0..<MAX_EVENTS] (epoll_connect_client s)) s
      else if theSignal = SIGPIPE then
        emit [Log LOG_LEVEL_INFO ''signal_handler_reboot'' 83 (''SIGPIPE received.'' @ nl)] s
      else s)"

end
