(* ===== verification/Recycle.thy ===== *)
theory Recycle
  imports EventLoop
begin

text \<open>
  Correctness of \<open>recycle_timeout_confd\<close>: exactly the connections older than
  \<open>SERVER_TIMEOUT\<close> leave the table, and exactly their sockets are closed, in table order.
\<close>

definition stale :: "int \<Rightarrow> EPOLL_CONNECT \<Rightarrow> bool" where
  "stale now c \<longleftrightarrow> live c \<and> now - conn_now c > SERVER_TIMEOUT"

definition expire :: "int \<Rightarrow> EPOLL_CONNECT \<Rightarrow> EPOLL_CONNECT" where
  "expire now c = (if stale now c then clear_slot c else c)"

definition expire_first :: "int \<Rightarrow> nat \<Rightarrow> conn_table \<Rightarrow> conn_table" where
  "expire_first now n t = map (expire now) (take n t) @ drop n t"

definition stale_fds :: "int \<Rightarrow> conn_table \<Rightarrow> int list" where
  "stale_fds now t = map connect_fd (filter (stale now) t)"

lemma expire_first_0 [simp]: "expire_first now 0 t = t"
  by (simp add: expire_first_def)

lemma length_expire_first [simp]: "length (expire_first now n t) = length t"
  by (simp add: expire_first_def)

lemma expire_first_all: "length t \<le> n \<Longrightarrow> expire_first now n t = map (expire now) t"
  by (simp add: expire_first_def)

lemma expire_first_nth [simp]: "n < length t \<Longrightarrow> expire_first now n t ! n = t ! n"
  by (simp add: expire_first_def nth_append)

lemma expire_first_Suc:
  assumes "n < length t"
  shows "expire_first now (Suc n) t = (expire_first now n t)[n := expire now (t ! n)]"
proof (rule nth_equalityI)
  fix i assume "i < length (expire_first now (Suc n) t)"
  then show "expire_first now (Suc n) t ! i = (expire_first now n t)[n := expire now (t ! n)] ! i"
    using assms by (cases i n rule: linorder_cases) (auto simp: expire_first_def nth_append min_def)
qed simp

lemma conn_inv_expire_first:
  "conn_inv t \<Longrightarrow> n \<le> length t \<Longrightarrow> conn_inv (expire_first now n t)"
proof (induction n)
  case (Suc n)
  then have inv: "conn_inv (expire_first now n t)" by simp
  have n: "n < length (expire_first now n t)" using Suc.prems(2) by simp
  show ?case
    using conn_inv_clear [OF inv n] inv Suc.prems(2)
    by (simp add: expire_first_Suc expire_def) (metis Suc_le_lessD expire_first_nth list_update_id)
qed simp

lemma take_Suc_filter:
  "n < length t \<Longrightarrow> filter P (take (Suc n) t) = filter P (take n t) @ (if P (t ! n) then [t ! n] else [])"
  by (simp add: take_Suc_conv_app_nth)

section \<open>One slot\<close>

definition recycled :: "int \<Rightarrow> conn_table \<Rightarrow> effect list \<Rightarrow> server \<Rightarrow> server" where
  "recycled n t es s =
     emit es (s\<lparr>epoll_connect_client := t, current_connected_total := current_connected_total s - n\<rparr>)"

lemma recycled_simps [simp]:
  "epoll_connect_client (recycled n t es s) = t"
  "current_connected_total (recycled n t es s) = current_connected_total s - n"
  "thpool (recycled n t es s) = thpool s"
  "exit_flag (recycled n t es s) = exit_flag s"
  "listen_fd (recycled n t es s) = listen_fd s"
  "io (recycled n t es s) = io s @ es"
  by (simp_all add: recycled_def)

lemma recycled_recycled: "recycled m u fs (recycled n t es s) = recycled (n + m) u (es @ fs) s"
  by (simp add: recycled_def emit_def algebra_simps)

lemma recycle_slot_fresh:
  assumes "conn_inv (epoll_connect_client s)" "i < MAX_EVENTS" "\<not> stale now (epoll_connect_client s ! i)"
  shows "recycle_slot now del i s = Inr s"
  using assms
  by (auto simp: recycle_slot_def stale_def live_def get_fd_by_event_index_def
      get_event_connect_time_by_index_def in_range_def)

lemma recycle_slot_stale:
  assumes "conn_inv (epoll_connect_client s)" "i < MAX_EVENTS" "stale now (epoll_connect_client s ! i)"
  shows "\<exists>es. recycle_slot now del i s
           = Inr (recycled 1 ((epoll_connect_client s)[i := clear_slot (epoll_connect_client s ! i)]) es s)
           \<and> closed es = [connect_fd (epoll_connect_client s ! i)] \<and> (\<forall>k. sent_to k es = [])"
proof -
  let ?t = "epoll_connect_client s"
  let ?fd = "connect_fd (?t ! i)"
  let ?d = "case del ?fd of None \<Rightarrow> [EpollDel ?fd]
     | Some (errno, txt) \<Rightarrow> [Log LOG_LEVEL_ERROR ''recycle_timeout_confd'' 518
         (''EPOLL_CTL_DEL '' @ show_int errno @ '','' @ txt @ ''.'' @ nl)]"
  let ?es = "[Print (timeout_msg i ?fd), Log LOG_LEVEL_INDISPENSABLE ''recycle_timeout_confd'' 513 (timeout_msg i ?fd)]
     @ ?d @ closesocket ?fd"
  have g: "get_fd_by_event_index (int i) ?t = ?fd" "get_event_connect_time_by_index now (int i) ?t = conn_now (?t ! i)"
    using assms(2) by (simp_all add: get_fd_by_event_index_def get_event_connect_time_by_index_def in_range_def)
  have f: "free_event_by_index (int i) ?t = Inr (?t[i := clear_slot (?t ! i)])"
    using assms(1,2) by (simp add: free_event_by_index_eq in_range_def)
  have "recycle_slot now del i s = Inr (recycled 1 (?t[i := clear_slot (?t ! i)]) ?es s)"
    using assms(3) f unfolding recycle_slot_def Let_def g
    by (simp add: stale_def live_def on_table_def recycled_def emit_def connect_total_count_sub_def)
  moreover have "closed ?d = []" "\<And>k. sent_to k ?d = []"
    by (auto split: option.split)
  ultimately show ?thesis by (intro exI [of _ ?es]) simp
qed

section \<open>All slots\<close>

lemma recycle_slots_append:
  "recycle_slots now del (is @ js) s = and_then (recycle_slots now del is s) (recycle_slots now del js)"
  by (induction "is" arbitrary: s) (auto simp: and_then_def split: sum.split)

lemma recycle_slots_prefix:
  assumes "conn_inv (epoll_connect_client s)" "n \<le> MAX_EVENTS"
  shows "\<exists>es. recycle_slots now del [0..<n] s
           = Inr (recycled (int (length (stale_fds now (take n (epoll_connect_client s)))))
                    (expire_first now n (epoll_connect_client s)) es s)
           \<and> closed es = stale_fds now (take n (epoll_connect_client s)) \<and> (\<forall>k. sent_to k es = [])"
  using assms(2)
proof (induction n)
  case 0
  show ?case by (intro exI [of _ "[]"]) (simp add: recycled_def emit_def stale_fds_def)
next
  case (Suc n)
  let ?t = "epoll_connect_client s"
  obtain es where es: "recycle_slots now del [0..<n] s
      = Inr (recycled (int (length (stale_fds now (take n ?t)))) (expire_first now n ?t) es s)"
    "closed es = stale_fds now (take n ?t)" "\<forall>k. sent_to k es = []"
    using Suc by auto
  let ?s = "recycled (int (length (stale_fds now (take n ?t)))) (expire_first now n ?t) es s"
  have len: "length ?t = MAX_EVENTS" using assms(1) by (rule conn_inv_length)
  have n: "n < length ?t" "n < MAX_EVENTS" using Suc.prems len by simp_all
  have inv: "conn_inv (epoll_connect_client ?s)"
    using assms(1) n by (simp add: conn_inv_expire_first)
  have step: "recycle_slots now del [0..<Suc n] s = recycle_slot now del n ?s"
    using es(1) by (simp add: recycle_slots_append and_then_def split: sum.split)
  show ?case
  proof (cases "stale now (?t ! n)")
    case False
    then have "recycle_slot now del n ?s = Inr ?s"
      using recycle_slot_fresh [OF inv n(2)] n(1) by simp
    moreover have "expire_first now (Suc n) ?t = expire_first now n ?t"
      using False n(1) by (simp add: expire_first_Suc expire_def) (metis expire_first_nth list_update_id)
    ultimately show ?thesis
      using step es False n(1) by (intro exI [of _ es]) (simp add: stale_fds_def take_Suc_filter)
  next
    case True
    then obtain fs where fs: "recycle_slot now del n ?s
        = Inr (recycled 1 ((expire_first now n ?t)[n := clear_slot (?t ! n)]) fs ?s)"
      "closed fs = [connect_fd (?t ! n)]" "\<forall>k. sent_to k fs = []"
      using recycle_slot_stale [OF inv n(2), of now del] n(1) by auto
    have "expire_first now (Suc n) ?t = (expire_first now n ?t)[n := clear_slot (?t ! n)]"
      using True n(1) by (simp add: expire_first_Suc expire_def)
    then show ?thesis
      using step fs es(2,3) True n(1)
      by (intro exI [of _ "es @ fs"]) (simp add: recycled_recycled stale_fds_def take_Suc_filter add.commute)
  qed
qed

lemma recycle_slots_all:
  assumes "conn_inv (epoll_connect_client s)"
  shows "\<exists>es. recycle_slots now del [0..<MAX_EVENTS] s
           = Inr (recycled (int (length (stale_fds now (epoll_connect_client s))))
                    (map (expire now) (epoll_connect_client s)) es s)
           \<and> closed es = stale_fds now (epoll_connect_client s) \<and> (\<forall>k. sent_to k es = [])"
  using recycle_slots_prefix [OF assms order_refl, of now del] conn_inv_length [OF assms]
  by (simp add: expire_first_all)

section \<open>The connections that stay\<close>

lemma expire_live [simp]: "live (expire now c) \<longleftrightarrow> live c \<and> \<not> stale now c"
  by (simp add: expire_def)

lemma expire_not_stale: "\<not> stale now c \<Longrightarrow> expire now c = c"
  by (simp add: expire_def)

lemma conn_inv_expire: "conn_inv t \<Longrightarrow> conn_inv (map (expire now) t)"
  using conn_inv_expire_first [of t "length t" now] by (simp add: expire_first_all)

lemma names_ok_expire: "names_ok t \<Longrightarrow> names_ok (map (expire now) t)"
  by (auto simp: names_ok_def list_all_iff expire_def clear_slot_def)

text \<open>The connections after the recycling, in terms of the connections before it.\<close>

definition keep_fresh :: "int \<Rightarrow> (int \<Rightarrow> peer option) \<Rightarrow> int \<Rightarrow> peer option" where
  "keep_fresh now m fd =
     (case m fd of
        None \<Rightarrow> None
      | Some (tm, ip, port) \<Rightarrow> if now - tm > SERVER_TIMEOUT then None else Some (tm, ip, port))"

lemma conns_expire:
  assumes "conn_inv t"
  shows "conns (map (expire now) t) = keep_fresh now (conns t)"
proof (rule ext, rule option_eqI)
  fix fd and p :: peer
  have inv: "conn_inv (map (expire now) t)" using assms by (rule conn_inv_expire)
  obtain tm ip port where p: "p = (tm, ip, port)" by (cases p) blast
  have "keep_fresh now (conns t) fd = Some p \<longleftrightarrow> conns t fd = Some p \<and> \<not> now - tm > SERVER_TIMEOUT"
    by (auto simp: keep_fresh_def p split: option.splits if_splits)
  also have "\<dots> \<longleftrightarrow> (\<exists>c\<in>set t. live c \<and> connect_fd c = fd \<and> peer_of c = p \<and> \<not> now - conn_now c > SERVER_TIMEOUT)"
    unfolding conns_Some_set [OF assms] by (auto simp: p peer_of_def)
  also have "\<dots> \<longleftrightarrow> (\<exists>c\<in>set t. live (expire now c) \<and> connect_fd (expire now c) = fd \<and> peer_of (expire now c) = p)"
    by (auto simp: stale_def expire_def)
  also have "\<dots> \<longleftrightarrow> conns (map (expire now) t) fd = Some p"
    unfolding conns_Some_set [OF inv] by auto
  finally show "conns (map (expire now) t) fd = Some p \<longleftrightarrow> keep_fresh now (conns t) fd = Some p"
    by blast
qed

section \<open>The whole recycling\<close>

lemma list_all_dropWhile: "list_all P xs \<Longrightarrow> list_all P (dropWhile Q xs)"
  by (auto simp: list_all_iff dest: set_dropWhileD)

lemma recycle_correct:
  assumes "server_inv s"
  shows "\<exists>s' es. recycle_timeout_confd now tm del s = Inr s' \<and> server_inv s'
           \<and> conns (epoll_connect_client s') = keep_fresh now (conns (epoll_connect_client s))
           \<and> io s' = io s @ es \<and> closed es = stale_fds now (epoll_connect_client s)
           \<and> waiting (thpool s') = dropWhile (expired tm SERVER_TIMEOUT) (waiting (thpool s))
           \<and> current_connected_total s' = current_connected_total s
               - int (length (stale_fds now (epoll_connect_client s)))
               - int (length (takeWhile (expired tm SERVER_TIMEOUT) (waiting (thpool s))))
           \<and> (names_ok (epoll_connect_client s) \<longrightarrow> names_ok (epoll_connect_client s'))"
proof -
  let ?t = "epoll_connect_client s"
  have inv: "conn_inv ?t" "queue_inv (thpool s)" "list_all job_ok (waiting (thpool s))"
    using assms by (simp_all add: server_inv_def)
  obtain es where es: "recycle_slots now del [0..<MAX_EVENTS] s
      = Inr (recycled (int (length (stale_fds now ?t))) (map (expire now) ?t) es s)"
    "closed es = stale_fds now ?t"
    using recycle_slots_all [OF inv(1), of now del] by blast
  let ?n = "length (takeWhile (expired tm SERVER_TIMEOUT) (waiting (thpool s)))"
  obtain q where q: "delete_timeout_job tm SERVER_TIMEOUT (thpool s) = Inr (?n, q)" "queue_inv q"
    "waiting q = dropWhile (expired tm SERVER_TIMEOUT) (waiting (thpool s))"
    using delete_timeout_correct [OF inv(2), of tm SERVER_TIMEOUT] by blast
  let ?l = "Log LOG_LEVEL_INDISPENSABLE ''recycle_timeout_confd'' 531
              (''pool queque delete job number = '' @ show_int (int ?n) @ ''.'' @ nl)"
  let ?s1 = "recycled (int (length (stale_fds now ?t))) (map (expire now) ?t) es s"
  let ?s' = "emit [?l] (connect_total_count_sub (int ?n) (?s1\<lparr>thpool := q\<rparr>))"
  have "recycle_timeout_confd now tm del s = Inr ?s'"
    using es(1) q(1) by (simp add: recycle_timeout_confd_def)
  moreover have "server_inv ?s'"
    using inv q conn_inv_expire list_all_dropWhile by (simp add: server_inv_def)
  ultimately show ?thesis
    using es(2) q(3) conns_expire [OF inv(1)] names_ok_expire [of ?t now]
    by (intro exI [of _ ?s'] exI [of _ "es @ [?l]"]) simp
qed

end
