(* ===== verification/EventCorrect.thy ===== *)
theory EventCorrect
  imports Recycle Dispatch
begin

text \<open>
  Correctness of the accept iteration and of the handling of an epoll event, against an
  abstract server: the connected sockets with their peers, the jobs that wait, and the
  connection count.
\<close>

record abs_server =
  a_conns :: "int \<Rightarrow> peer option"
  a_jobs :: "func payload list"
  a_total :: int

definition abs_of :: "server \<Rightarrow> abs_server" where
  "abs_of s = \<lparr>a_conns = conns (epoll_connect_client s), a_jobs = waiting (thpool s),
     a_total = current_connected_total s\<rparr>"

lemma abs_of_emit [simp]: "abs_of (emit es s) = abs_of s"
  by (simp add: abs_of_def)

lemma server_inv_emit [simp]: "server_inv (emit es s) = server_inv s"
  by (simp add: server_inv_def)

lemma server_inv_count [simp]:
  "server_inv (connect_total_count_sub v s) = server_inv s"
  "server_inv (connect_total_count_add v s) = server_inv s"
  by (simp_all add: server_inv_def)

lemma abs_of_count [simp]:
  "abs_of (connect_total_count_sub v s) = (abs_of s)\<lparr>a_total := current_connected_total s - v\<rparr>"
  "abs_of (connect_total_count_add v s) = (abs_of s)\<lparr>a_total := current_connected_total s + v\<rparr>"
  by (simp_all add: abs_of_def)

text \<open>A step that leaves the queue alone and turns the table into one with connections \<open>m\<close>.\<close>

lemma table_update:
  assumes "server_inv s" "conn_inv t'"
  shows "server_inv (s\<lparr>epoll_connect_client := t'\<rparr>)"
    "abs_of (s\<lparr>epoll_connect_client := t'\<rparr>) = (abs_of s)\<lparr>a_conns := conns t'\<rparr>"
  using assms by (simp_all add: server_inv_def abs_of_def)

section \<open>Logins\<close>

text \<open>
  The names and passwords in the table, slot by slot: only a login message changes them.
\<close>

definition logins :: "conn_table \<Rightarrow> (string \<times> string) list" where
  "logins t = map (\<lambda>c. (UsrhashId c, conn_passwd c)) t"

lemma names_ok_logins: "names_ok t \<longleftrightarrow> list_all (\<lambda>(u, p). terminated u \<and> terminated p) (logins t)"
  by (simp add: names_ok_def logins_def list_all_iff)

lemma logins_update:
  "i < length t \<Longrightarrow> UsrhashId c = UsrhashId (t ! i) \<Longrightarrow> conn_passwd c = conn_passwd (t ! i) \<Longrightarrow>
     logins (t[i := c]) = logins t"
  by (simp add: logins_def map_update list_update_same_conv)

lemma logins_free:
  assumes "conn_inv t" "free_event_by_index k t = Inr t'"
  shows "logins t' = logins t"
proof -
  have "t' = (if in_range k then t[nat k := clear_slot (t ! nat k)] else t)"
    using assms free_event_by_index_eq [OF assms(1)] by simp
  then show ?thesis
    using in_range_iff [OF assms(1)] by (auto intro!: logins_update simp: clear_slot_def)
qed

lemma logins_init:
  assumes "conn_inv t" "IP_ADDR_LENGTH \<le> length ip"
    "init_epoll_connect_by_index tm (get_epoll_connect_free_event_index t) fd ip port t = Inr t'"
    "get_epoll_connect_free_event_index t \<noteq> -1"
  shows "logins t' = logins t"
proof -
  obtain k where k: "get_epoll_connect_free_event_index t = int k" "k < length t"
    using free_index_found [OF assms(4)] by blast
  then have km: "k < MAX_EVENTS" using assms(1) by (simp add: conn_inv_length)
  have "t' = t[k := fill_slot tm fd (take IP_ADDR_LENGTH ip) port (t ! k)]"
    using init_epoll_connect_by_index_eq [OF assms(1) km assms(2)] assms(3) k(1) by simp
  then show ?thesis using k(2) by (simp add: logins_update fill_slot_def)
qed

lemma logins_touch:
  "conn_inv t \<Longrightarrow> logins (snd (update_time_by_index k tm t)) = logins t"
  using in_range_iff [of t k] by (auto simp: update_time_by_index_def intro!: logins_update)

section \<open>Accepting\<close>

text \<open>
  What the kernel promises of a new connection: \<open>accept\<close> returns a descriptor that is not open. The
  signal handler shuts down and closes the listening socket before the sockets of the table; so a
  connection that \<open>accept\<close> returns after that was made before, with a descriptor that is none of theirs.
  That adding the new descriptor to epoll does not fail is an assumption: when it does, the code
  leaves the closed socket in the table (\<open>failed_add_keeps_slot\<close>).
\<close>

definition accept_env_ok :: "accept_env \<Rightarrow> server \<Rightarrow> bool" where
  "accept_env_ok e s \<longleftrightarrow>
     (0 \<le> ae_fd e \<longrightarrow> ae_ctl e \<noteq> -1 \<and>
        (if exit_accept_flag s then conns (epoll_connect_client s) (ae_fd e) = None
         else ae_fd e \<notin> open_fds (io s)))"

text \<open>
  Until the handler has run, every socket of the table is open; so what the kernel promises is
  that the new descriptor has no slot yet.
\<close>

definition fds_open :: "server \<Rightarrow> bool" where
  "fds_open s \<longleftrightarrow> exit_accept_flag s \<or> dom (conns (epoll_connect_client s)) \<subseteq> open_fds (io s)"

definition fd_unlisted :: "accept_env \<Rightarrow> server \<Rightarrow> bool" where
  "fd_unlisted e s \<longleftrightarrow> (0 \<le> ae_fd e \<longrightarrow> conns (epoll_connect_client s) (ae_fd e) = None)"

lemma accept_env_unlisted: "fds_open s \<Longrightarrow> accept_env_ok e s \<Longrightarrow> fd_unlisted e s"
  by (auto simp: fds_open_def accept_env_ok_def fd_unlisted_def split: if_splits)

text \<open>A step whose new connections are registered and whose closed sockets leave the table.\<close>

lemma fds_open_step:
  assumes "fds_open s" "io s' = io s @ es" "exit_accept_flag s' = exit_accept_flag s"
    "\<And>fd. conns (epoll_connect_client s') fd \<noteq> None \<Longrightarrow>
       fd \<in> opens (open_fds (io s)) es \<or> conns (epoll_connect_client s) fd \<noteq> None \<and> fd \<notin> set (closed es)"
  shows "fds_open s'"
proof (cases "exit_accept_flag s")
  case True
  with assms(3) show ?thesis by (simp add: fds_open_def)
next
  case False
  then have d: "dom (conns (epoll_connect_client s)) \<subseteq> open_fds (io s)" using assms(1) by (simp add: fds_open_def)
  have "fd \<in> open_fds (io s')" if "conns (epoll_connect_client s') fd \<noteq> None" for fd
    using assms(4) [OF that] d opens_keeps [of fd "open_fds (io s)" es] assms(2) by auto
  then show ?thesis by (auto simp: fds_open_def)
qed

lemma fds_open_same:
  "fds_open s \<Longrightarrow> io s' = io s @ es \<Longrightarrow> closed es = [] \<Longrightarrow> exit_accept_flag s' = exit_accept_flag s
     \<Longrightarrow> conns (epoll_connect_client s') = conns (epoll_connect_client s) \<Longrightarrow> fds_open s'"
  by (erule fds_open_step) auto

definition accept_arg :: "accept_env \<Rightarrow> conn_arg" where
  "accept_arg e = (ae_now e, client_ip e, uint (ae_port e))"

definition accept_peer :: "accept_env \<Rightarrow> peer" where
  "accept_peer e = (ae_now e, inet_ntoa (ae_addr e), uint (ae_port e))"

lemma cstr_client_ip [simp]: "cstr (client_ip e) = inet_ntoa (ae_addr e)"
  by (simp add: client_ip_def)

lemma length_client_ip [simp]: "IP_ADDR_LENGTH \<le> length (client_ip e)"
  by (simp add: client_ip_def)

lemma accept_arg_ok: "arg_ok (accept_arg e)"
proof -
  have "length (inet_ntoa (ae_addr e)) \<le> 15" by (rule inet_ntoa_length)
  then have "take IP_ADDR_LENGTH (client_ip e)
      = inet_ntoa (ae_addr e) @ NUL # take (IP_ADDR_LENGTH - Suc (length (inet_ntoa (ae_addr e)))) (map (ae_mem e) [0..<IP_ADDR_LENGTH])"
    by (simp add: client_ip_def IP_ADDR_LENGTH_def take_Cons' del: upt_rec_numeral)
  then show ?thesis by (simp add: arg_ok_def accept_arg_def)
qed

lemma arg_peer_accept [simp]: "arg_peer (accept_arg e) = accept_peer e"
  by (simp add: arg_peer_def accept_arg_def accept_peer_def)

text \<open>The three ways an accepted socket is turned away before it gets a slot.\<close>

definition accept_refused :: "accept_env \<Rightarrow> server \<Rightarrow> bool" where
  "accept_refused e s \<longleftrightarrow> count_users (epoll_connect_client s) = MAX_EVENTS
     \<or> ae_getfl e < 0 \<or> ae_setfl e < 0 \<or> ae_rcvbuf e \<noteq> 0"

lemma set_non_blocking_fails:
  "fst (set_non_blocking g f k) < 0 \<longleftrightarrow> g < 0 \<or> f < 0"
  "closed (snd (set_non_blocking g f k)) = []"
  by (simp_all add: set_non_blocking_def)

lemma alloc_none_iff:
  "conn_inv t \<Longrightarrow> get_epoll_connect_free_event_index t = -1 \<longleftrightarrow> count_users t = MAX_EVENTS"
  by (simp add: free_index_none_iff conn_inv_length)

lemma accept_refused_eq:
  assumes "conn_inv (epoll_connect_client s)" "accept_refused e s"
  shows "\<exists>es. accept_connection e s = Inr (emit es s) \<and> closed es = [ae_fd e]"
proof (cases "get_epoll_connect_free_event_index (epoll_connect_client s) = -1")
  case True
  then show ?thesis by (auto simp: accept_connection_def Let_def)
next
  case False
  then have why: "ae_getfl e < 0 \<or> ae_setfl e < 0 \<or> ae_rcvbuf e \<noteq> 0"
    using assms alloc_none_iff by (auto simp: accept_refused_def)
  obtain r es where r: "set_non_blocking (ae_getfl e) (ae_setfl e) (ae_fd e) = (r, es)"
    by (cases "set_non_blocking (ae_getfl e) (ae_setfl e) (ae_fd e)") blast
  have es: "closed es = []" and neg: "r < 0 \<longleftrightarrow> ae_getfl e < 0 \<or> ae_setfl e < 0"
    using set_non_blocking_fails [of "ae_getfl e" "ae_setfl e" "ae_fd e"] unfolding r by simp_all
  have "\<exists>l. accept_connection e s = Inr (emit (es @ l # closesocket (ae_fd e)) s) \<and> closed [l] = []"
    unfolding accept_connection_def Let_def r prod.case
    using False why neg
    by (cases "r < 0") (simp, rule exI, rule conjI, rule refl, simp)+
  then obtain l where "accept_connection e s = Inr (emit (es @ l # closesocket (ae_fd e)) s)"
    "closed [l] = []"
    by blast
  moreover have "closed (es @ l # closesocket (ae_fd e)) = [ae_fd e]"
    using closed_append [of "[l]" "closesocket (ae_fd e)"] es \<open>closed [l] = []\<close> by simp
  ultimately show ?thesis by blast
qed

text \<open>The slot is filled before \<open>epoll_ctl\<close>; when that fails the socket is closed, the slot is not freed.\<close>

lemma accept_admitted_eq:
  assumes "server_inv s" "fd_unlisted e s" "\<not> accept_refused e s" "0 \<le> ae_fd e"
  shows "\<exists>s' es. accept_connection e s = Inr s' \<and> server_inv s' \<and> io s' = io s @ es
           \<and> closed es = (if ae_ctl e = -1 then [ae_fd e] else [])
           \<and> (\<forall>A. ae_ctl e \<noteq> -1 \<longrightarrow> opens A es = insert (ae_fd e) A)
           \<and> logins (epoll_connect_client s') = logins (epoll_connect_client s)
           \<and> abs_of s' = (abs_of s)\<lparr>a_conns := (conns (epoll_connect_client s))(ae_fd e \<mapsto> accept_peer e),
               a_total := current_connected_total s + (if ae_ctl e = -1 then 0 else 1)\<rparr>"
proof -
  let ?t = "epoll_connect_client s" and ?fd = "ae_fd e"
  let ?k = "get_epoll_connect_free_event_index ?t"
  have inv: "conn_inv ?t" using assms(1) by (simp add: server_inv_def)
  have k: "?k \<noteq> -1" using assms(3) alloc_none_iff [OF inv] by (simp add: accept_refused_def)
  have fd: "?fd \<noteq> -1" "conns ?t ?fd = None" using assms(2,4) by (auto simp: fd_unlisted_def)
  obtain t' where t': "init_epoll_connect_by_index (ae_now e) ?k ?fd (client_ip e) (uint (ae_port e)) ?t = Inr t'"
    "conn_inv t'" "conns t' = (conns ?t)(?fd \<mapsto> accept_peer e)"
    using reg.ins_free [OF inv k accept_arg_ok fd]
    by (auto simp: ins_conn_def accept_arg_def arg_peer_def accept_peer_def)
  have lg: "logins t' = logins ?t"
    using logins_init [OF inv _ t'(1) k] by simp
  have nb: "set_non_blocking (ae_getfl e) (ae_setfl e) ?fd = (1, [SetBlockOpt ?fd])" "ae_rcvbuf e = 0"
    using assms(3) by (auto simp: accept_refused_def set_non_blocking_def)
  let ?s1 = "(emit [SetBlockOpt ?fd, SockOpt ?fd ''SO_RCVBUF'' 32768] s)\<lparr>epoll_connect_client := t'\<rparr>"
  have s1: "server_inv ?s1" "abs_of ?s1 = (abs_of s)\<lparr>a_conns := conns t'\<rparr>"
    using table_update [of "emit [SetBlockOpt ?fd, SockOpt ?fd ''SO_RCVBUF'' 32768] s" t'] assms(1) t'(2)
    by simp_all
  show ?thesis
  proof (cases "ae_ctl e = -1")
    case True
    let ?es = "Log LOG_LEVEL_ERROR ''accept_thread'' 236
                 (''EPOLL_CTL_ADD '' @ show_int (ae_errno e) @ '','' @ ae_strerror e @ ''.'' @ nl) # closesocket ?fd"
    have "accept_connection e s = Inr (emit ?es ?s1)"
      using k nb t'(1) True by (simp add: accept_connection_def on_table_def Let_def)
    then show ?thesis
      using s1 t'(3) True lg
      by (intro exI [of _ "emit ?es ?s1"] exI [of _ "[SetBlockOpt ?fd, SockOpt ?fd ''SO_RCVBUF'' 32768] @ ?es"])
        (simp add: abs_of_def)
  next
    case False
    let ?l = "Log LOG_LEVEL_INDISPENSABLE ''accept_thread'' 246
                (connected_msg ?k (inet_ntoa (ae_addr e)) ?fd (current_connected_total s + 1))"
    let ?s2 = "emit [?l] (connect_total_count_add 1 (emit [EpollAdd ?fd] ?s1))"
    have "accept_connection e s = Inr ?s2"
      using k nb t'(1) False by (simp add: accept_connection_def on_table_def Let_def)
    moreover have "server_inv ?s2" using s1(1) by simp
    ultimately show ?thesis
      using s1 t'(3) False lg
      by (intro exI [of _ ?s2] exI [of _ "[SetBlockOpt ?fd, SockOpt ?fd ''SO_RCVBUF'' 32768, EpollAdd ?fd, ?l]"])
        (simp add: abs_of_def)
  qed
qed

text \<open>What is entered in the table, and where.\<close>

lemma accept_fills:
  assumes "conn_inv (epoll_connect_client s)" "get_epoll_connect_free_event_index (epoll_connect_client s) = int k"
    "k < length (epoll_connect_client s)" "0 \<le> ae_getfl e" "0 \<le> ae_setfl e" "ae_rcvbuf e = 0"
  shows "\<exists>s'. accept_connection e s = Inr s' \<and> epoll_connect_client s' = (epoll_connect_client s)
    [k := fill_slot (ae_now e) (ae_fd e) (take IP_ADDR_LENGTH (client_ip e)) (uint (ae_port e)) (epoll_connect_client s ! k)]"
proof -
  have "k < MAX_EVENTS" using assms(1,3) by (simp add: conn_inv_length)
  from init_epoll_connect_by_index_eq [OF assms(1) this length_client_ip]
  have "init_epoll_connect_by_index (ae_now e) (int k) (ae_fd e) (client_ip e) (uint (ae_port e)) (epoll_connect_client s)
    = Inr ((epoll_connect_client s)
       [k := fill_slot (ae_now e) (ae_fd e) (take IP_ADDR_LENGTH (client_ip e)) (uint (ae_port e)) (epoll_connect_client s ! k)])" .
  moreover have "set_non_blocking (ae_getfl e) (ae_setfl e) (ae_fd e) = (1, [SetBlockOpt (ae_fd e)])"
    using assms(4,5) by (simp add: set_non_blocking_def)
  ultimately show ?thesis
    using assms(2,6) by (simp add: accept_connection_def on_table_def Let_def)
qed

lemma peer_of_filled:
  "peer_of (fill_slot tm fd (take IP_ADDR_LENGTH (client_ip e)) port c) = (tm, inet_ntoa (ae_addr e), port)"
proof -
  have "terminated (take IP_ADDR_LENGTH (client_ip e))"
    using accept_arg_ok [of e] by (simp add: arg_ok_def accept_arg_def)
  from cstr_take_terminated [OF this] show ?thesis by (simp add: peer_of_def fill_slot_def)
qed

text \<open>
  The text of an address, with its NUL, has at most 16 bytes, and \<open>memcpy\<close> takes \<open>IP_ADDR_LENGTH\<close>
  from where it stands: it reads behind every buffer that is shorter, and copies what follows.
\<close>

lemma short_address_overread:
  assumes "conn_inv t" "k < MAX_EVENTS" "length ip < IP_ADDR_LENGTH"
  shows "init_epoll_connect_by_index tm (int k) fd ip port t = Inl OutOfBounds"
proof -
  have "k < length t" "\<not> mutex (t ! k)"
    using assms conn_inv_nth [of t k] by (auto simp: conn_inv_length conn_ok_def)
  then show ?thesis
    using assms(3) by (simp add: init_epoll_connect_by_index_def event_state_lock_def read_at_def)
qed

text \<open>
  After a failing \<open>epoll_ctl\<close> the next connection that gets the descriptor has a slot of its own, but every
  look-up by the descriptor finds the slot that was left behind.
\<close>

lemma failed_add_keeps_slot:
  assumes "server_inv s" "fd_unlisted e s" "\<not> accept_refused e s" "0 \<le> ae_fd e" "ae_ctl e = -1"
    and "ae_fd e' = ae_fd e" "0 \<le> ae_getfl e'" "0 \<le> ae_setfl e'" "ae_rcvbuf e' = 0"
    and "Suc (count_users (epoll_connect_client s)) < MAX_EVENTS"
  shows "\<exists>s1 s2 i j. accept_connection e s = Inr s1 \<and> accept_connection e' s1 = Inr s2
    \<and> i \<noteq> j \<and> i < MAX_EVENTS \<and> j < MAX_EVENTS
    \<and> connect_fd (epoll_connect_client s2 ! i) = ae_fd e \<and> connect_fd (epoll_connect_client s2 ! j) = ae_fd e
    \<and> peer_of (epoll_connect_client s2 ! i) = accept_peer e \<and> peer_of (epoll_connect_client s2 ! j) = accept_peer e'
    \<and> get_matched_event_index_by_fd (ae_fd e) (epoll_connect_client s2) = int i"
proof -
  let ?t = "epoll_connect_client s"
  let ?slot = "\<lambda>e c. fill_slot (ae_now e) (ae_fd e) (take IP_ADDR_LENGTH (client_ip e)) (uint (ae_port e)) c"
  have inv: "conn_inv ?t" using assms(1) by (simp add: server_inv_def)
  have "get_epoll_connect_free_event_index ?t \<noteq> -1" using assms(3) alloc_none_iff [OF inv] by (simp add: accept_refused_def)
  then obtain i where i: "get_epoll_connect_free_event_index ?t = int i" "i < length ?t" "\<not> live (?t ! i)"
    "\<forall>n<i. live (?t ! n)"
    by (rule free_index_found)
  have g: "0 \<le> ae_getfl e" "0 \<le> ae_setfl e" "ae_rcvbuf e = 0" using assms(3) by (auto simp: accept_refused_def)
  obtain s1 where s1: "accept_connection e s = Inr s1" "epoll_connect_client s1 = ?t[i := ?slot e (?t ! i)]"
    using accept_fills [OF inv i(1,2) g] by blast
  have inv1: "conn_inv (epoll_connect_client s1)" "conns (epoll_connect_client s1) = (conns ?t)(ae_fd e \<mapsto> accept_peer e)"
    using accept_admitted_eq [OF assms(1-4)] s1(1) by (auto simp: server_inv_def abs_of_def)
  have "ae_fd e \<notin> dom (conns ?t)" using assms(2,4) by (auto simp: fd_unlisted_def)
  then have "count_users (epoll_connect_client s1) = Suc (count_users ?t)"
    using card_dom_conns [OF inv1(1)] card_dom_conns [OF inv] dom_conns [OF inv]
    unfolding inv1(2) by (simp add: card_insert_if)
  then have "get_epoll_connect_free_event_index (epoll_connect_client s1) \<noteq> -1"
    using alloc_none_iff [OF inv1(1)] assms(10) by auto
  then obtain j where j: "get_epoll_connect_free_event_index (epoll_connect_client s1) = int j"
    "j < length (epoll_connect_client s1)" "\<not> live (epoll_connect_client s1 ! j)"
    by (rule free_index_found)
  obtain s2 where s2: "accept_connection e' s1 = Inr s2"
    "epoll_connect_client s2 = (epoll_connect_client s1)[j := ?slot e' (epoll_connect_client s1 ! j)]"
    using accept_fills [OF inv1(1) j(1,2) assms(7-9)] by blast
  have fd: "ae_fd e \<noteq> -1" and none: "\<forall>n<length ?t. connect_fd (?t ! n) \<noteq> ae_fd e"
    using assms(2,4) conns_None_iff [OF inv] by (auto simp: fd_unlisted_def live_def)
  have ij: "i \<noteq> j" using j(3) i(2) fd unfolding s1(2) by (auto simp: live_def fill_slot_def)
  have "j < i \<Longrightarrow> False" using j(3) i(4) ij unfolding s1(2) by simp
  then have "i < j" using ij by (meson linorder_neqE_nat)
  let ?t2 = "epoll_connect_client s2"
  have l: "length ?t2 = length ?t" "j < length ?t" using j(2) by (simp_all add: s1(2) s2(2))
  have sl: "?t2 ! i = ?slot e (?t ! i)" "?t2 ! j = ?slot e' (?t ! j)"
    using ij i(2) l(2) by (simp_all add: s1(2) s2(2))
  have "get_matched_event_index_by_fd (ae_fd e) ?t2 = int i"
    unfolding get_matched_event_index_by_fd_def scan_int_iff
    using sl(1) i(2) l(1) none \<open>i < j\<close> by (simp add: fill_slot_def) (simp add: s1(2) s2(2))
  then show ?thesis
    using s1(1) s2(1) ij i(2) l sl assms(6) conn_inv_length [OF inv]
    by (intro exI conjI) (assumption | simp add: peer_of_filled accept_peer_def | simp add: fill_slot_def)+
qed

section \<open>Receiving an event\<close>

text \<open>What \<open>recv\<close> may return for the buffer of \<open>BUFLEN\<close> bytes, and an unused block from \<open>malloc\<close>.\<close>

definition event_env_ok :: "ep_event \<Rightarrow> server \<Rightarrow> bool" where
  "event_env_ok e s \<longleftrightarrow> (\<forall>bs. ev_recv e = Recvd bs \<longrightarrow> length bs \<le> BUFLEN)
     \<and> (\<forall>a. ev_malloc e = Some a \<longrightarrow> fresh_addr a (thpool s))"

text \<open>The messages the dump's buffer can hold.\<close>

definition dump_fits :: "ep_event \<Rightarrow> bool" where
  "dump_fits e \<longleftrightarrow> (\<forall>bs. ev_recv e = Recvd bs \<longrightarrow> length bs \<le> 63 \<or> BUFLEN \<le> length bs)"

text \<open>The job a received message becomes.\<close>

definition job_of :: "ep_event \<Rightarrow> string \<Rightarrow> func payload" where
  "job_of e bs = (Respons_stb_info,
     \<lparr>recv_buffer = bs @ replicate (BUFFER_SIZE - length bs) NUL, arg_fd = ev_fd e\<rparr>, ev_now e)"

definition touch :: "int \<Rightarrow> peer \<Rightarrow> peer" where
  "touch tm p = (case p of (_, ip, port) \<Rightarrow> (tm, ip, port))"

text \<open>What an event does to the abstract server.\<close>

definition abs_event :: "ep_event \<Rightarrow> abs_server \<Rightarrow> abs_server" where
  "abs_event e a =
     (let gone = a\<lparr>a_conns := (a_conns a)(ev_fd e := None), a_total := a_total a - 1\<rparr> in
      if ev_fd e < 0 then a\<lparr>a_total := a_total a - 1\<rparr>
      else if \<not> ev_in e then gone
      else case a_conns a (ev_fd e) of
             None \<Rightarrow> gone
           | Some p \<Rightarrow>
               (case ev_recv e of
                  RecvErr \<Rightarrow> gone
                | Recvd bs \<Rightarrow>
                    if length bs = BUFLEN then gone
                    else a\<lparr>a_conns := (a_conns a)(ev_fd e \<mapsto> touch (ev_now e) p),
                           a_jobs := a_jobs a @ (if ev_malloc e = None then [] else [job_of e bs])\<rparr>))"

lemma drop_connection_correct:
  assumes "server_inv s" "fd \<noteq> -1"
  shows "\<exists>s'. drop_connection (get_matched_event_index_by_fd fd (epoll_connect_client s)) fd s = Inr s'
           \<and> server_inv s' \<and> io s' = io s @ closesocket fd
           \<and> logins (epoll_connect_client s') = logins (epoll_connect_client s)
           \<and> abs_of s' = (abs_of s)\<lparr>a_conns := (conns (epoll_connect_client s))(fd := None)\<rparr>"
proof -
  obtain t' where t': "free_event_by_index (get_matched_event_index_by_fd fd (epoll_connect_client s)) (epoll_connect_client s) = Inr t'"
    "conn_inv t'" "conns t' = (conns (epoll_connect_client s))(fd := None)"
    using reg.del_find [of "epoll_connect_client s" fd] assms by (auto simp: server_inv_def)
  let ?s' = "emit (closesocket fd) (s\<lparr>epoll_connect_client := t'\<rparr>)"
  have "drop_connection (get_matched_event_index_by_fd fd (epoll_connect_client s)) fd s = Inr ?s'"
    using t'(1) assms(2) by (simp add: drop_connection_def on_table_def)
  then show ?thesis
    using table_update [OF assms(1) t'(2)] t'(3) logins_free [OF _ t'(1)] assms(1)
    by (intro exI [of _ ?s']) (simp add: server_inv_def)
qed

lemma matched_minus_one:
  "conn_inv t \<Longrightarrow> 0 \<le> fd \<Longrightarrow> get_matched_event_index_by_fd fd t < 0 \<longleftrightarrow> conns t fd = None"
  using reg.find_iff [of t fd] matched_fd_cases [of fd t] by fastforce

lemma add_work_correct:
  assumes "server_inv s" "conns (epoll_connect_client s) fd = Some p"
    and "\<forall>a. m = Some a \<longrightarrow> fresh_addr a (thpool s)"
    and "length buf = BUFFER_SIZE" "terminated (drop 8 buf)"
  shows "\<exists>r s'. thpool_add_work tm m Respons_stb_info
             (get_matched_event_index_by_fd fd (epoll_connect_client s)) fd buf s = Inr (r, s')
           \<and> server_inv s' \<and> io s' = io s
           \<and> logins (epoll_connect_client s') = logins (epoll_connect_client s)
           \<and> abs_of s' = (abs_of s)\<lparr>a_conns := (conns (epoll_connect_client s))(fd \<mapsto> touch tm p),
               a_jobs := waiting (thpool s) @
                 (if m = None then [] else [(Respons_stb_info, \<lparr>recv_buffer = buf, arg_fd = fd\<rparr>, tm)])\<rparr>"
proof -
  let ?t = "epoll_connect_client s"
  have inv: "conn_inv ?t" "queue_inv (thpool s)" "list_all job_ok (waiting (thpool s))"
    using assms(1) by (simp_all add: server_inv_def)
  obtain k where k: "get_matched_event_index_by_fd fd ?t = int k" "k < length ?t" "live (?t ! k)"
    "connect_fd (?t ! k) = fd" "peer_of (?t ! k) = p"
    using connected_slot [OF inv(1) assms(2)] by blast
  let ?c = "(?t ! k)\<lparr>conn_now := tm\<rparr>" and ?p = "(Respons_stb_info, \<lparr>recv_buffer = buf, arg_fd = fd\<rparr>, tm)"
  have km: "k < MAX_EVENTS" using k(2) inv(1) by (simp add: conn_inv_length)
  have u: "update_time_by_index (int k) tm ?t = (0, ?t[k := ?c])"
    using km by (simp add: update_time_by_index_def in_range_def)
  have inv': "conn_inv (?t[k := ?c])"
    using conn_inv_touch [OF inv(1), of "int k" tm] u by simp
  have c: "live ?c" "connect_fd ?c = fd" "peer_of ?c = touch tm p"
    using k(3-5) by (auto simp: live_def peer_of_def touch_def)
  have m: "conns (?t[k := ?c]) = (conns ?t)(fd \<mapsto> touch tm p)"
    using conns_update_live [OF inv(1) inv' k(2) c(1)] k(4) c by simp
  have lg: "logins (?t[k := ?c]) = logins ?t" using k(2) by (intro logins_update) simp_all
  let ?s1 = "s\<lparr>epoll_connect_client := ?t[k := ?c]\<rparr>"
  show ?thesis
  proof (cases m)
    case None
    then show ?thesis
      using k(1) u table_update [OF assms(1) inv'] m lg
      by (intro exI [of _ "-1"] exI [of _ ?s1])
        (simp add: thpool_add_work_def add_job_def Let_def abs_of_def)
  next
    case (Some a)
    have pok: "payload_ok ?p" "job_ok ?p" using assms(4,5) by (simp_all add: payload_ok_def job_ok_def)
    obtain q where "submit_job a ?p (thpool s) = Inr q" "queue_inv q" "waiting q = waiting (thpool s) @ [?p]"
      using submit_job_correct [OF inv(2) _ pok(1)] assms(3) Some by blast
    then obtain r where q: "add_job (Some a) Respons_stb_info tm buf fd (thpool s) = Inr (r, q)"
      "queue_inv q" "waiting q = waiting (thpool s) @ [?p]"
      by (auto simp: submit_job_def)
    have "server_inv (?s1\<lparr>thpool := q\<rparr>)"
      using inv(3) inv' q(2,3) pok(2) by (simp add: server_inv_def)
    then show ?thesis
      using Some k(1) u q m lg
      by (intro exI [of _ r] exI [of _ "?s1\<lparr>thpool := q\<rparr>"])
        (simp add: thpool_add_work_def Let_def abs_of_def)
  qed
qed

end
