(* ===== verification/EventRefine.thy ===== *)
theory EventRefine
  imports EventCorrect
begin

text \<open>
  The epoll loop refines the abstract server: every event does what \<open>abs_event\<close> says
  and closes the socket exactly when its connection ends.
\<close>

section \<open>One event\<close>

text \<open>What a handled event leaves behind.\<close>

definition event_done :: "ep_event \<Rightarrow> server \<Rightarrow> server \<Rightarrow> bool" where
  "event_done e s s' \<longleftrightarrow> server_inv s' \<and> abs_of s' = abs_event e (abs_of s)
     \<and> logins (epoll_connect_client s') = logins (epoll_connect_client s)
     \<and> (\<exists>es. io s' = io s @ es
          \<and> closed es = (if 0 \<le> ev_fd e \<and> a_conns (abs_event e (abs_of s)) (ev_fd e) = None
                         then [ev_fd e] else []))"

lemma closed_main_log [simp]: "closed (main_log a b c # es) = closed es"
  by (simp add: main_log_def)

lemma recv_buffer_eq:
  "length bs \<le> BUFLEN \<Longrightarrow>
     recv_buffer_from_fd (Recvd bs) (replicate BUFFER_SIZE NUL)
     = Inr (if length bs < BUFLEN then 0 else -1, bs @ replicate (BUFFER_SIZE - length bs) NUL,
            if length bs < BUFLEN then Some (length bs) else None)"
  by (simp add: recv_buffer_from_fd_def write_at_def BUFLEN_def BUFFER_SIZE_def)

lemma abs_of_sel [simp]:
  "a_conns (abs_of s) = conns (epoll_connect_client s)"
  "a_jobs (abs_of s) = waiting (thpool s)"
  "a_total (abs_of s) = current_connected_total s"
  by (simp_all add: abs_of_def)

lemma dropped_event:
  assumes "server_inv s" "fd \<noteq> -1" "epoll_connect_client s1 = epoll_connect_client s" "thpool s1 = thpool s"
    "io s1 = io s @ es" "closed es = []" "current_connected_total s1 = current_connected_total s - 1"
    "abs_event e (abs_of s) = (abs_of s)\<lparr>a_conns := (conns (epoll_connect_client s))(fd := None),
       a_total := current_connected_total s - 1\<rparr>" "ev_fd e = fd" "0 \<le> fd"
  shows "\<exists>s'. drop_connection (get_matched_event_index_by_fd fd (epoll_connect_client s1)) fd s1 = Inr s'
           \<and> event_done e s s'"
proof -
  have "server_inv s1" using assms(1,3,4) by (simp add: server_inv_def)
  then obtain s' where s': "drop_connection (get_matched_event_index_by_fd fd (epoll_connect_client s1)) fd s1 = Inr s'"
    "server_inv s'" "io s' = io s1 @ closesocket fd"
    "logins (epoll_connect_client s') = logins (epoll_connect_client s1)"
    "abs_of s' = (abs_of s1)\<lparr>a_conns := (conns (epoll_connect_client s1))(fd := None)\<rparr>"
    using drop_connection_correct [OF _ assms(2)] by blast
  have "abs_of s' = abs_event e (abs_of s)"
    using s'(5) assms(3,4,7,8) by (simp add: abs_of_def)
  then show ?thesis
    using s'(1-4) assms unfolding event_done_def
    by (intro exI [of _ s']) (auto intro!: exI [of _ "es @ closesocket fd"])
qed

text \<open>A message of an admissible length on a connected socket becomes a job.\<close>

lemma read_message:
  assumes "server_inv s" "event_env_ok e s" "dump_fits e" "ev_recv e = Recvd bs" "length bs < BUFLEN"
    and "conns (epoll_connect_client s) (ev_fd e) = Some p" "0 \<le> ev_fd e" "ev_in e"
    and "s1 = emit l s" "closed l = []"
  shows "\<exists>s'. read_event e (get_matched_event_index_by_fd (ev_fd e) (epoll_connect_client s)) s1 = Inr s'
           \<and> event_done e s s'"
proof -
  let ?buf = "bs @ replicate (BUFFER_SIZE - length bs) NUL"
  let ?k = "get_matched_event_index_by_fd (ev_fd e) (epoll_connect_client s)"
  have small: "length bs \<le> 63" using assms(3-5) by (auto simp: dump_fits_def)
  then have buf: "length ?buf = BUFFER_SIZE" "terminated (drop 8 ?buf)"
    by (simp_all add: BUFFER_SIZE_def) arith
  let ?d = "[Log LOG_LEVEL_INDISPENSABLE ''dumpInfo'' 351
      (''dump info length = '' @ show_int (int (length bs)) @ '', '' @ concat (map hex2 (take (length bs) ?buf)) @ nl)]"
  have d: "dumpInfo ?buf (length bs) = Inr ?d"
    by (rule dumpInfo_ok [OF small]) simp
  let ?l = "main_log LOG_LEVEL_INDISPENSABLE 696
      (''recv_length = '' @ show_int (int (length bs)) @ '', current fd = '' @ show_int (ev_fd e)
       @ '', current job queue job number = '' @ show_int (int (get_jobqueue_number (Some (thpool s1)))) @ ''.'' @ nl)"
  let ?s2 = "emit (?l # ?d) s1"
  have inv2: "server_inv ?s2" "conns (epoll_connect_client ?s2) (ev_fd e) = Some p"
    "\<forall>a. ev_malloc e = Some a \<longrightarrow> fresh_addr a (thpool ?s2)"
    using assms(1,2,6,9) by (simp_all add: event_env_ok_def)
  obtain r s' where s': "thpool_add_work (ev_now e) (ev_malloc e) Respons_stb_info
       (get_matched_event_index_by_fd (ev_fd e) (epoll_connect_client ?s2)) (ev_fd e) ?buf ?s2 = Inr (r, s')"
    "server_inv s'" "io s' = io ?s2" "logins (epoll_connect_client s') = logins (epoll_connect_client ?s2)"
    "abs_of s' = (abs_of ?s2)\<lparr>a_conns := (conns (epoll_connect_client ?s2))(ev_fd e \<mapsto> touch (ev_now e) p),
       a_jobs := waiting (thpool ?s2) @ (if ev_malloc e = None then []
         else [(Respons_stb_info, \<lparr>recv_buffer = ?buf, arg_fd = ev_fd e\<rparr>, ev_now e)])\<rparr>"
    using add_work_correct [OF inv2 buf] by blast
  have r0: "recv_buffer_from_fd (ev_recv e) (replicate BUFFER_SIZE NUL) = Inr (0, ?buf, Some (length bs))"
    using recv_buffer_eq [of bs] assms(4,5) by simp
  have w: "thpool_add_work (ev_now e) (ev_malloc e) Respons_stb_info ?k (ev_fd e) ?buf ?s2 = Inr (r, s')"
    using s'(1) assms(9) by simp
  have "read_event e ?k s1 = Inr s'"
    unfolding read_event_def r0 and_then_simps prod.case option.case Let_def d w by simp
  moreover have abs: "abs_of s' = abs_event e (abs_of s)"
    using s'(5) assms(4-9) by (simp add: abs_event_def Let_def abs_of_def job_of_def)
  moreover have "io s' = io s @ (l @ ?l # ?d)" using s'(3) assms(9) by simp
  moreover have "closed (l @ ?l # ?d) = []" using assms(10) by simp
  moreover have "a_conns (abs_event e (abs_of s)) (ev_fd e) \<noteq> None"
    using assms(4-8) by (simp add: abs_event_def Let_def)
  moreover have "logins (epoll_connect_client s') = logins (epoll_connect_client s)"
    using s'(4) assms(9) by simp
  ultimately show ?thesis
    using s'(2) unfolding event_done_def by (metis (no_types, lifting))
qed

lemma handle_event_correct:
  assumes "server_inv s" "event_env_ok e s" "dump_fits e"
  shows "\<exists>s'. handle_event index e s = Inr s' \<and> event_done e s s'"
proof -
  let ?fd = "ev_fd e" and ?t = "epoll_connect_client s"
  have inv: "conn_inv ?t" using assms(1) by (simp add: server_inv_def)
  consider (neg) "?fd < 0" | (hup) "0 \<le> ?fd" "\<not> ev_in e"
    | (unknown) "0 \<le> ?fd" "ev_in e" "conns ?t ?fd = None"
    | (msg) p bs where "0 \<le> ?fd" "ev_in e" "conns ?t ?fd = Some p" "ev_recv e = Recvd bs" "length bs < BUFLEN"
    | (bad) p where "0 \<le> ?fd" "ev_in e" "conns ?t ?fd = Some p"
        "ev_recv e = RecvErr \<or> (\<exists>bs. ev_recv e = Recvd bs \<and> length bs = BUFLEN)"
    using assms(2) unfolding event_env_ok_def
    by (metis le_neq_implies_less linorder_not_le option.exhaust recv_res.exhaust)
  then show ?thesis
  proof cases
    case neg
    show ?thesis
    proof (cases "ev_in e")
      case True
      let ?l = "main_log LOG_LEVEL_ERROR 673 (''Event['' @ show_int (int index) @ ''] read invalid handle.'' @ nl)"
      have "handle_event index e s = Inr (emit [?l] (connect_total_count_sub 1 s))"
        using neg True by (simp add: handle_event_def Let_def)
      then show ?thesis using neg assms(1) True
        by (intro exI [of _ "emit [?l] (connect_total_count_sub 1 s)"])
          (auto simp: event_done_def abs_event_def main_log_def Let_def)
    next
      case False
      let ?l = "main_log LOG_LEVEL_ERROR 720 (''Unknown error! event.data.fd = '' @ show_int ?fd @ ''.'' @ nl)"
      let ?m = "main_log LOG_LEVEL_ERROR 724 (''EPOLLOUT.'' @ nl)"
      have "handle_event index e s = Inr (emit [?m] (connect_total_count_sub 1 (emit [?l] s)))"
        using neg False by (simp add: handle_event_def Let_def)
      then show ?thesis using neg assms(1) False
        by (intro exI [of _ "emit [?m] (connect_total_count_sub 1 (emit [?l] s))"])
          (auto simp: event_done_def abs_event_def main_log_def Let_def)
    qed
  next
    case hup
    let ?l = "main_log LOG_LEVEL_ERROR 720 (''Unknown error! event.data.fd = '' @ show_int ?fd @ ''.'' @ nl)"
    let ?s1 = "connect_total_count_sub 1 (emit [?l] s)"
    have "handle_event index e s = drop_connection (get_matched_event_index_by_fd ?fd (epoll_connect_client ?s1)) ?fd ?s1"
      using hup by (simp add: handle_event_def Let_def)
    moreover have "abs_event e (abs_of s) = (abs_of s)\<lparr>a_conns := (conns ?t)(?fd := None),
        a_total := current_connected_total s - 1\<rparr>"
      using hup by (simp add: abs_event_def Let_def)
    ultimately show ?thesis
      using dropped_event [of s ?fd ?s1 "[?l]" e] assms(1) hup by (simp add: main_log_def)
  next
    case unknown
    let ?k = "get_matched_event_index_by_fd ?fd ?t"
    let ?l = "main_log LOG_LEVEL_ERROR 677 (''Epoll get Event['' @ show_int ?k @ ''] fd = '' @ show_int ?fd @ ''.'' @ nl)"
    let ?m = "main_log LOG_LEVEL_ERROR 683 (''not find matched fd = '' @ show_int ?fd @ ''.'' @ nl)"
    let ?s1 = "emit [?m] (connect_total_count_sub 1 (emit [?l] s))"
    have "?k < 0" using matched_minus_one [OF inv unknown(1)] unknown(3) by simp
    then have "handle_event index e s = drop_connection (get_matched_event_index_by_fd ?fd (epoll_connect_client ?s1)) ?fd ?s1"
      using unknown by (simp add: handle_event_def Let_def)
    moreover have "abs_event e (abs_of s) = (abs_of s)\<lparr>a_conns := (conns ?t)(?fd := None),
        a_total := current_connected_total s - 1\<rparr>"
      using unknown by (simp add: abs_event_def Let_def)
    ultimately show ?thesis
      using dropped_event [of s ?fd ?s1 "[?l, ?m]" e] assms(1) unknown by (simp add: main_log_def)
  next
    case msg
    let ?k = "get_matched_event_index_by_fd ?fd ?t"
    let ?l = "main_log LOG_LEVEL_ERROR 677 (''Epoll get Event['' @ show_int ?k @ ''] fd = '' @ show_int ?fd @ ''.'' @ nl)"
    have "\<not> ?k < 0" using matched_minus_one [OF inv msg(1)] msg(3) by simp
    then have "handle_event index e s = read_event e ?k (emit [?l] s)"
      using msg by (simp add: handle_event_def Let_def)
    moreover have "\<exists>s'. read_event e ?k (emit [?l] s) = Inr s' \<and> event_done e s s'"
      using read_message [OF assms msg(4,5,3,1,2) refl] by (simp add: main_log_def)
    ultimately show ?thesis by simp
  next
    case bad
    let ?k = "get_matched_event_index_by_fd ?fd ?t"
    let ?l = "main_log LOG_LEVEL_ERROR 677 (''Epoll get Event['' @ show_int ?k @ ''] fd = '' @ show_int ?fd @ ''.'' @ nl)"
    let ?m = "main_log LOG_LEVEL_INDISPENSABLE 705
                    (''Epoll event['' @ show_int ?k @ ''] not read data, and the socket fd = '' @ show_int ?fd @ ''.'' @ nl)"
    let ?s1 = "emit [?m] (connect_total_count_sub 1 (emit [?l] s))"
    have k: "\<not> ?k < 0" using matched_minus_one [OF inv bad(1)] bad(3) by simp
    obtain buf len where r: "recv_buffer_from_fd (ev_recv e) (replicate BUFFER_SIZE NUL) = Inr (-1, buf, len)"
      using bad(4) recv_buffer_eq by (auto simp: recv_buffer_from_fd_def [of RecvErr])
    have "read_event e ?k (emit [?l] s) = drop_connection ?k ?fd ?s1"
      unfolding read_event_def r by simp
    then have "handle_event index e s = drop_connection (get_matched_event_index_by_fd ?fd (epoll_connect_client ?s1)) ?fd ?s1"
      using bad k by (simp add: handle_event_def Let_def)
    moreover have "abs_event e (abs_of s) = (abs_of s)\<lparr>a_conns := (conns ?t)(?fd := None),
        a_total := current_connected_total s - 1\<rparr>"
      using bad by (auto simp: abs_event_def Let_def)
    ultimately show ?thesis
      using dropped_event [of s ?fd ?s1 "[?l, ?m]" e] assms(1) bad by (simp add: main_log_def)
  qed
qed

end
