(* ===== verification/ServerRun.thy ===== *)
theory ServerRun
  imports HandlerSafety EventRefine
begin

text \<open>
  The running server: its threads as one step relation on the state, each step a whole
  iteration of a thread, or its set-up or end. The reachable states keep the invariant of table and queue.
\<close>

section \<open>A worker's turn\<close>

text \<open>
  The body of \<open>thpool_thread_do\<close> (lines 134--144 of \<open>thread_pool.c\<close>) once the semaphore
  has let the worker in: peek, remove, call the function, free the job.
\<close>

definition worker_step :: "write_res list \<Rightarrow> (nat \<Rightarrow> string option) \<Rightarrow> server \<Rightarrow> server result" where
  "worker_step ws mem s =
     and_then (take_job (thpool s)) (\<lambda>(job_p, r, q).
       let s = s\<lparr>thpool := q\<rparr> in
       if r \<noteq> 0 then Inr s
       else and_then (deref (job_heap q) job_p) (\<lambda>(a, j).
            and_then (respons_stb_info ws mem (job_arg j) s) (\<lambda>s.
            and_then (free_job a (thpool s)) (\<lambda>q. Inr (s\<lparr>thpool := q\<rparr>)))))"

text \<open>The message of a job and the socket it came from.\<close>

definition job_msg :: "func payload \<Rightarrow> string" where
  "job_msg p = (case p of (_, par, _) \<Rightarrow> recv_buffer par)"

definition job_sock :: "func payload \<Rightarrow> int" where
  "job_sock p = (case p of (_, par, _) \<Rightarrow> arg_fd par)"

lemma job_ok_msg: "job_ok p \<Longrightarrow> msg_ok (job_msg p)"
  by (cases p) (simp add: job_ok_def payload_ok_def msg_ok_def job_msg_def)

lemma worker_step_unfold:
  assumes "queue_inv (thpool s)" "waiting (thpool s) = p # ps"
  shows "\<exists>q' a q''. free_job a q' = Inr q'' \<and> queue_inv q'' \<and> waiting q'' = ps
           \<and> worker_step ws mem s =
               and_then (respons_stb_info ws mem \<lparr>recv_buffer = job_msg p, arg_fd = job_sock p\<rparr> (s\<lparr>thpool := q'\<rparr>))
                 (\<lambda>s. and_then (free_job a (thpool s)) (\<lambda>q. Inr (s\<lparr>thpool := q\<rparr>)))"
proof -
  obtain a j q' q'' where q: "take_job (thpool s) = Inr (Some a, 0, q')" "job_heap q' a = Some j"
    "payload_of j = p" "free_job a q' = Inr q''" "queue_inv q''" "waiting q'' = ps"
    using take_job_next [OF assms] by blast
  have "job_arg j = \<lparr>recv_buffer = job_msg p, arg_fd = job_sock p\<rparr>"
    using q(3) by (auto simp: payload_of_def job_msg_def job_sock_def)
  then have "worker_step ws mem s =
      and_then (respons_stb_info ws mem \<lparr>recv_buffer = job_msg p, arg_fd = job_sock p\<rparr> (s\<lparr>thpool := q'\<rparr>))
        (\<lambda>s. and_then (free_job a (thpool s)) (\<lambda>q. Inr (s\<lparr>thpool := q\<rparr>)))"
    using q(1,2) by (simp add: worker_step_def deref_def)
  then show ?thesis using q(4-6) by blast
qed

text \<open>A served job leaves the queue and nothing else of the abstract server.\<close>

lemma worker_serves:
  assumes "server_inv s" "names_ok (epoll_connect_client s)" "waiting (thpool s) = p # ps"
    and "servable (job_msg p) (job_sock p) (epoll_connect_client s)" "malloc_works mem"
    and "answers (reply_len (msg_type (job_msg p)) (epoll_connect_client s)) ws"
  shows "\<exists>s' es. worker_step ws mem s = Inr s' \<and> server_inv s' \<and> names_ok (epoll_connect_client s')
           \<and> abs_of s' = (abs_of s)\<lparr>a_jobs := ps\<rparr> \<and> io s' = io s @ es \<and> closed es = []"
proof -
  have inv: "conn_inv (epoll_connect_client s)" "queue_inv (thpool s)" "list_all job_ok (p # ps)"
    using assms(1,3) by (simp_all add: server_inv_def)
  obtain q' a q'' where q: "free_job a q' = Inr q''" "queue_inv q''" "waiting q'' = ps"
    and w: "worker_step ws mem s =
       and_then (respons_stb_info ws mem \<lparr>recv_buffer = job_msg p, arg_fd = job_sock p\<rparr> (s\<lparr>thpool := q'\<rparr>))
         (\<lambda>s. and_then (free_job a (thpool s)) (\<lambda>q. Inr (s\<lparr>thpool := q\<rparr>)))"
    using worker_step_unfold [OF inv(2) assms(3)] by blast
  let ?s1 = "s\<lparr>thpool := q'\<rparr>"
  have t: "epoll_connect_client ?s1 = epoll_connect_client s" by simp
  have m: "msg_ok (job_msg p)" using job_ok_msg inv(3) by simp
  have "kept ?s1 (respons_stb_info ws mem \<lparr>recv_buffer = job_msg p, arg_fd = job_sock p\<rparr> ?s1)"
    using respons_kept [where s = ?s1, unfolded t, OF inv(1) assms(2) m assms(4-6)] .
  then obtain t' es where k: "respons_stb_info ws mem \<lparr>recv_buffer = job_msg p, arg_fd = job_sock p\<rparr> ?s1
      = Inr (emit es (?s1\<lparr>epoll_connect_client := t'\<rparr>))" "conn_inv t'" "names_ok t'"
    "conns t' = conns (epoll_connect_client s)" "closed es = []"
    unfolding kept_def t by blast
  let ?s' = "(emit es (?s1\<lparr>epoll_connect_client := t'\<rparr>))\<lparr>thpool := q''\<rparr>"
  have "worker_step ws mem s = Inr ?s'"
    unfolding w k(1) using q(1) by simp
  moreover have "server_inv ?s'" using q(2,3) k(2) inv(3) by (simp add: server_inv_def)
  ultimately show ?thesis
    using k(3-5) q(3) by (intro exI [of _ ?s'] exI [of _ es]) (simp add: abs_of_def)
qed

lemma worker_late_login:
  assumes "server_inv s" "waiting (thpool s) = p # ps" "msg_type (job_msg p) = CMD_SENDUI"
    and "job_sock p \<noteq> -1" "conns (epoll_connect_client s) (job_sock p) = None"
  shows "worker_step ws mem s = Inl NullDeref"
proof -
  have inv: "conn_inv (epoll_connect_client s)" "queue_inv (thpool s)" "job_ok p"
    using assms(1,2) by (simp_all add: server_inv_def)
  obtain q' a where w: "worker_step ws mem s =
       and_then (respons_stb_info ws mem \<lparr>recv_buffer = job_msg p, arg_fd = job_sock p\<rparr> (s\<lparr>thpool := q'\<rparr>))
         (\<lambda>s. and_then (free_job a (thpool s)) (\<lambda>q. Inr (s\<lparr>thpool := q\<rparr>)))"
    using worker_step_unfold [OF inv(2) assms(2)] by blast
  have "respons_stb_info ws mem \<lparr>recv_buffer = job_msg p, arg_fd = job_sock p\<rparr> (s\<lparr>thpool := q'\<rparr>)
      = Inl NullDeref"
    using respons_late_login [where s = "s\<lparr>thpool := q'\<rparr>"] inv(1) job_ok_msg [OF inv(3)] assms(3-5) by simp
  then show ?thesis unfolding w by simp
qed

section \<open>Signals\<close>

lemma close_all_eq:
  assumes "\<forall>i\<in>set is. i < MAX_EVENTS"
  shows "closed (close_all is t) = map (\<lambda>i. connect_fd (t ! i)) (filter (\<lambda>i. live (t ! i)) is)"
  using assms
  by (induction "is") (auto simp: get_fd_by_event_index_def in_range_def live_def Let_def)

lemma closed_close_all:
  assumes "conn_inv t"
  shows "closed (close_all [0..<MAX_EVENTS] t) = map connect_fd (filter live t)"
proof -
  have "t = map ((!) t) [0..<MAX_EVENTS]" using conn_inv_length [OF assms] by (metis map_nth)
  then have "map connect_fd (filter live t) = map connect_fd (filter live (map ((!) t) [0..<MAX_EVENTS]))"
    by simp
  also have "\<dots> = map (\<lambda>i. connect_fd (t ! i)) (filter (\<lambda>i. live (t ! i)) [0..<MAX_EVENTS])"
    by (simp add: filter_map o_def)
  finally show ?thesis using close_all_eq [of "[0..<MAX_EVENTS]" t] by simp
qed

lemma close_listen_simps [simp]:
  "epoll_connect_client (close_listen s) = epoll_connect_client s"
  "thpool (close_listen s) = thpool s"
  "current_connected_total (close_listen s) = current_connected_total s"
  "exit_flag (close_listen s) = exit_flag s"
  "listen_fd (close_listen s) = -1"
  by (simp_all add: close_listen_def)

lemma io_close_listen:
  "io (close_listen s) = io s @ (if listen_fd s \<noteq> -1 then closesocket (listen_fd s) else [])"
  by (simp add: close_listen_def)

lemma terminate_correct:
  assumes "conn_inv (epoll_connect_client s)" "sig = SIGTERM \<or> sig = SIGKILL"
  shows "exit_flag (signal_handler_reboot sig s)" "exit_accept_flag (signal_handler_reboot sig s)"
    "listen_fd (signal_handler_reboot sig s) = -1"
    "\<exists>es. io (signal_handler_reboot sig s) = io s @ es
       \<and> closed es = (if listen_fd s \<noteq> -1 then [listen_fd s] else [])
           @ map connect_fd (filter live (epoll_connect_client s))"
proof -
  let ?l = "Log LOG_LEVEL_FATAL ''signal_handler_reboot'' 61 ''receive kill signal exit the server.''"
  have e: "signal_handler_reboot sig s = emit (close_all [0..<MAX_EVENTS] (epoll_connect_client s))
      ((close_listen (emit [?l] s))\<lparr>exit_flag := True, exit_accept_flag := True\<rparr>)"
    using assms(2) by (auto simp: signal_handler_reboot_def Let_def)
  show "exit_flag (signal_handler_reboot sig s)" "exit_accept_flag (signal_handler_reboot sig s)"
    "listen_fd (signal_handler_reboot sig s) = -1"
    unfolding e by simp_all
  let ?es = "[?l] @ (if listen_fd s \<noteq> -1 then closesocket (listen_fd s) else [])
      @ close_all [0..<MAX_EVENTS] (epoll_connect_client s)"
  have "io (signal_handler_reboot sig s) = io s @ ?es"
    unfolding e by (simp add: io_close_listen)
  moreover have "closed ?es = (if listen_fd s \<noteq> -1 then [listen_fd s] else [])
      @ map connect_fd (filter live (epoll_connect_client s))"
    by (simp add: closed_close_all [OF assms(1)])
  ultimately show "\<exists>es. io (signal_handler_reboot sig s) = io s @ es
       \<and> closed es = (if listen_fd s \<noteq> -1 then [listen_fd s] else [])
           @ map connect_fd (filter live (epoll_connect_client s))"
    by blast
qed

lemma signal_keeps [simp]:
  "epoll_connect_client (signal_handler_reboot sig s) = epoll_connect_client s"
  "thpool (signal_handler_reboot sig s) = thpool s"
  "current_connected_total (signal_handler_reboot sig s) = current_connected_total s"
  by (simp_all add: signal_handler_reboot_def Let_def)

section \<open>The flags\<close>

text \<open>Only the signal handler (and the end of \<open>main\<close>) sets them.\<close>

definition flags :: "server \<Rightarrow> bool \<times> bool" where
  "flags s = (exit_flag s, exit_accept_flag s)"

lemma flags_simps [simp]:
  "flags (emit es s) = flags s"
  "flags (connect_total_count_add v s) = flags s"
  "flags (connect_total_count_sub v s) = flags s"
  "flags (s\<lparr>thpool := q\<rparr>) = flags s"
  "flags (s\<lparr>epoll_connect_client := t\<rparr>) = flags s"
  "flags (recycled n t es s) = flags s"
  "flags (close_listen s) = flags s"
  by (simp_all add: flags_def connect_total_count_add_def connect_total_count_sub_def emit_def recycled_def
      close_listen_def)

lemma on_table_flags: "on_table f s = Inr s' \<Longrightarrow> flags s' = flags s"
  by (auto simp: on_table_def)

lemma returned_flags: "accept_returned e s = Inr s' \<Longrightarrow> flags s' = flags s"
  by (auto simp: accept_returned_def accept_connection_def Let_def dest!: on_table_flags
      split: if_splits prod.splits)

lemma drop_flags: "drop_connection k fd s = Inr s' \<Longrightarrow> flags s' = flags s"
  by (auto simp: drop_connection_def dest!: on_table_flags split: if_splits)

lemma add_work_flags: "thpool_add_work tm a f k fd buf s = Inr (r, s') \<Longrightarrow> flags s' = flags s"
  by (auto simp: thpool_add_work_def Let_def)

lemma event_flags: "handle_event i e s = Inr s' \<Longrightarrow> flags s' = flags s"
  by (auto simp: handle_event_def read_event_def Let_def dest!: drop_flags add_work_flags split: if_splits)

lemma recycle_flags:
  assumes "conn_inv (epoll_connect_client s)" "recycle_timeout_confd now tm del s = Inr s'"
  shows "flags s' = flags s"
proof -
  obtain es where "recycle_slots now del [0..<MAX_EVENTS] s
      = Inr (recycled (int (length (stale_fds now (epoll_connect_client s)))) (map (expire now) (epoll_connect_client s)) es s)"
    using recycle_slots_all [OF assms(1), of now del] by blast
  with assms(2) show ?thesis by (auto simp: recycle_timeout_confd_def)
qed

lemma accept_full_simps [simp]:
  "thpool (accept_full s) = thpool s" "flags (accept_full s) = flags s" "abs_of (accept_full s) = abs_of s"
  by (simp_all add: accept_full_def abs_of_def)

lemma accept_flags: "accept_iteration e s = Inr s' \<Longrightarrow> flags s' = flags s"
  by (auto simp: accept_iteration_def dest: returned_flags split: if_splits)

lemma worker_empty:
  assumes "queue_inv (thpool s)" "waiting (thpool s) = []"
  shows "worker_step ws mem s = Inr s"
proof -
  obtain as where as: "queue_rep (thpool s) as" using assms(1) by (auto simp: queue_inv_iff)
  then have "as = []" using assms(2) waiting_contents [OF as] by simp
  then show ?thesis using as by (simp add: worker_step_def take_job_def removelast_empty)
qed

text \<open>Opening and closing the listening socket leaves the rest of the state.\<close>

lemma accept_setup_keeps [simp]:
  "epoll_connect_client (snd (accept_setup port le s)) = epoll_connect_client s"
  "thpool (snd (accept_setup port le s)) = thpool s"
  "current_connected_total (snd (accept_setup port le s)) = current_connected_total s"
  "exit_flag (snd (accept_setup port le s)) = exit_flag s"
  "exit_accept_flag (snd (accept_setup port le s)) = exit_accept_flag s"
  by (simp_all add: accept_setup_def Let_def emit_def)

lemma signal_flags: "flags (signal_handler_reboot sig s) = (if sig = SIGKILL \<or> sig = SIGTERM then (True, True) else flags s)"
  by (simp add: signal_handler_reboot_def Let_def) (simp add: flags_def)

lemma setup_flags: "flags (snd (accept_setup port le s)) = flags s"
  by (simp add: flags_def)

section \<open>The system\<close>

text \<open>
  What each step of a thread does to sockets and connections, whatever the clients send and the kernel
  answers to writes: no socket of the table is closed and stays in it.
\<close>

definition server_sound :: "server \<Rightarrow> bool" where
  "server_sound s \<longleftrightarrow> server_inv s \<and> fds_open s"

lemma returned_sound:
  assumes "server_sound s" "accept_env_ok e s" "accept_returned e s = Inr s'"
  shows "server_sound s'"
proof -
  have inv: "server_inv s" "fds_open s" "conn_inv (epoll_connect_client s)"
    using assms(1) by (simp_all add: server_sound_def server_inv_def)
  have fl: "exit_accept_flag s' = exit_accept_flag s" using returned_flags [OF assms(3)] by (simp add: flags_def)
  have new: "fd_unlisted e s" using accept_env_unlisted [OF inv(2) assms(2)] .
  consider (none) "ae_fd e < 0" | (refused) "0 \<le> ae_fd e" "accept_refused e s"
    | (admitted) "0 \<le> ae_fd e" "\<not> accept_refused e s" by fastforce
  then show ?thesis
  proof cases
    case none
    then obtain es where "s' = emit es s" "closed es = []"
      using assms(3) that [of "[]"] that by (auto simp: accept_returned_def emit_def split: if_splits)
    then show ?thesis using inv(1) fds_open_same [OF inv(2), of s' es] by (simp add: server_sound_def)
  next
    case refused
    then obtain es where "s' = emit es s" "closed es = [ae_fd e]"
      using accept_refused_eq [OF inv(3) refused(2)] assms(3) by (auto simp: accept_returned_def)
    moreover have "fds_open (emit es s)"
      using new refused(1) \<open>closed es = [ae_fd e]\<close>
      by (intro fds_open_step [OF inv(2), of "emit es s" es]) (auto simp: fd_unlisted_def)
    ultimately show ?thesis using inv(1) by (simp add: server_sound_def)
  next
    case admitted
    have c: "ae_ctl e \<noteq> -1" using assms(2) admitted(1) by (simp add: accept_env_ok_def)
    from admitted assms(3) have a: "accept_connection e s = Inr s'" by (simp add: accept_returned_def)
    obtain es where es: "server_inv s'" "io s' = io s @ es" "closed es = []" "opens (open_fds (io s)) es = insert (ae_fd e) (open_fds (io s))"
      "abs_of s' = (abs_of s)\<lparr>a_conns := (conns (epoll_connect_client s))(ae_fd e \<mapsto> accept_peer e),
         a_total := current_connected_total s + 1\<rparr>"
      using accept_admitted_eq [OF inv(1) new admitted(2,1)] a c by auto
    have "conns (epoll_connect_client s') = (conns (epoll_connect_client s))(ae_fd e \<mapsto> accept_peer e)"
      using es(5) by (simp add: abs_of_def)
    then show ?thesis
      using es(1) fds_open_step [OF inv(2) es(2) fl] es(3,4) by (auto simp: server_sound_def split: if_splits)
  qed
qed

lemma server_sound_quiet: "closed es = [] \<Longrightarrow> server_sound s \<Longrightarrow> server_sound (emit es s)"
  using fds_open_same [of s "emit es s" es] by (simp add: server_sound_def)

lemma accept_step_sound:
  "server_sound s \<Longrightarrow> accept_env_ok e s \<Longrightarrow> accept_iteration e s = Inr s' \<Longrightarrow> server_sound s'"
  using returned_sound server_sound_quiet by (auto simp: accept_iteration_def accept_full_def split: if_splits)

text \<open>An event whose message the dump cannot hold either fails or ends before the message is read.\<close>

lemma event_fits:
  assumes "handle_event i e s = Inr s'" "event_env_ok e s"
  shows "\<exists>e'. handle_event i e' s = Inr s' \<and> event_env_ok e' s \<and> dump_fits e' \<and> ev_fd e' = ev_fd e
    \<and> (e' = e \<or> ev_recv e' = RecvErr)"
proof (cases "dump_fits e")
  case True
  with assms show ?thesis by blast
next
  case False
  then obtain bs where bs: "ev_recv e = Recvd bs" "63 < length bs" "length bs < BUFLEN"
    by (auto simp: dump_fits_def)
  let ?e = "e\<lparr>ev_recv := RecvErr\<rparr>" and ?buf = "bs @ replicate (BUFFER_SIZE - length bs) NUL"
  have "recv_buffer_from_fd (ev_recv e) (replicate BUFFER_SIZE NUL) = Inr (0, ?buf, Some (length bs))"
    using recv_buffer_eq [of bs] bs by simp
  moreover have "dumpInfo ?buf (length bs) = Inl OutOfBounds" using dumpInfo_overflow [of "length bs" ?buf] bs(2) by simp
  ultimately have "read_event e k s1 = Inl OutOfBounds" for k s1
    by (simp add: read_event_def)
  then have "handle_event i ?e s = Inr s'"
    using assms(1) by (auto simp: handle_event_def Let_def split: if_splits)
  moreover have "event_env_ok ?e s" "dump_fits ?e" using assms(2) by (simp_all add: event_env_ok_def dump_fits_def)
  ultimately show ?thesis by (intro exI [of _ ?e]) simp
qed

lemma abs_event_conns: "a_conns (abs_event e a) fd \<noteq> None \<Longrightarrow> a_conns a fd \<noteq> None"
  by (auto simp: abs_event_def Let_def split: if_splits option.splits recv_res.splits)

lemma event_step_sound:
  assumes "server_sound s" "event_env_ok e s" "handle_event i e s = Inr s'"
  shows "server_sound s'"
proof -
  obtain e' where e': "handle_event i e' s = Inr s'" "event_env_ok e' s" "dump_fits e'"
    using event_fits [OF assms(3,2)] by blast
  have inv: "server_inv s" "fds_open s" using assms(1) by (simp_all add: server_sound_def)
  have d: "event_done e' s s'" using handle_event_correct [OF inv(1) e'(2,3), of i] e'(1) by auto
  then obtain es where es: "io s' = io s @ es"
    "closed es = (if 0 \<le> ev_fd e' \<and> a_conns (abs_event e' (abs_of s)) (ev_fd e') = None then [ev_fd e'] else [])"
    by (auto simp: event_done_def)
  have c: "conns (epoll_connect_client s') = a_conns (abs_event e' (abs_of s))"
    using d by (metis event_done_def abs_of_sel(1))
  have "fds_open s'"
  proof (rule fds_open_step [OF inv(2) es(1)])
    show "exit_accept_flag s' = exit_accept_flag s" using event_flags [OF assms(3)] by (simp add: flags_def)
  next
    fix fd assume "conns (epoll_connect_client s') fd \<noteq> None"
    then have "a_conns (abs_event e' (abs_of s)) fd \<noteq> None" unfolding c .
    then show "fd \<in> opens (open_fds (io s)) es \<or> conns (epoll_connect_client s) fd \<noteq> None \<and> fd \<notin> set (closed es)"
      using abs_event_conns [of e' "abs_of s" fd] es(2) by (auto split: if_splits)
  qed
  then show ?thesis using d by (simp add: event_done_def server_sound_def)
qed

lemma stale_not_kept:
  assumes "conn_inv t" "fd \<in> set (stale_fds now t)"
  shows "keep_fresh now (conns t) fd = None"
proof -
  obtain c where c: "c \<in> set t" "stale now c" "connect_fd c = fd" using assms(2) by (auto simp: stale_fds_def)
  then have "conns t fd = Some (peer_of c)" using conns_Some_set [OF assms(1)] by (auto simp: stale_def)
  then show ?thesis using c(2) by (simp add: keep_fresh_def peer_of_def stale_def)
qed

lemma keep_fresh_conns: "keep_fresh now m fd \<noteq> None \<Longrightarrow> m fd \<noteq> None"
  by (auto simp: keep_fresh_def split: option.splits)

lemma recycle_step_sound:
  assumes "server_sound s" "recycle_timeout_confd now tm del s = Inr s'"
  shows "server_sound s'"
proof -
  have inv: "server_inv s" "fds_open s" "conn_inv (epoll_connect_client s)"
    using assms(1) by (simp_all add: server_sound_def server_inv_def)
  obtain es where es: "server_inv s'" "conns (epoll_connect_client s') = keep_fresh now (conns (epoll_connect_client s))"
    "io s' = io s @ es" "closed es = stale_fds now (epoll_connect_client s)"
    using recycle_correct [OF inv(1), of now tm del] assms(2) by auto
  have "exit_accept_flag s' = exit_accept_flag s" using recycle_flags [OF inv(3) assms(2)] by (simp add: flags_def)
  then have "fds_open s'"
    using fds_open_step [OF inv(2) es(3)] es(2,4) stale_not_kept [OF inv(3)] keep_fresh_conns by metis
  then show ?thesis using es(1) by (simp add: server_sound_def)
qed

text \<open>A worker's turn, whatever the kernel and \<open>malloc\<close> answer.\<close>

lemma worker_step_leaves:
  assumes "server_inv s" "worker_step ws mem s = Inr s'"
  shows "\<exists>es. io s' = io s @ es \<and> closed es = [] \<and> server_inv s' \<and> flags s' = flags s
    \<and> conns (epoll_connect_client s') = conns (epoll_connect_client s)
    \<and> waiting (thpool s') = tl (waiting (thpool s))
    \<and> (names_ok (epoll_connect_client s)
        \<and> (\<forall>p\<in>set (waiting (thpool s)). msg_type (job_msg p) = CMD_SENDUI \<longrightarrow> fields_ok (job_msg p))
        \<longrightarrow> names_ok (epoll_connect_client s'))"
proof (cases "waiting (thpool s)")
  case Nil
  then have "s' = s" using worker_empty [of s ws mem] assms by (simp add: server_inv_def)
  then show ?thesis using Nil assms(1) by simp
next
  case (Cons p ps)
  have inv: "conn_inv (epoll_connect_client s)" "queue_inv (thpool s)" "job_ok p" "list_all job_ok ps"
    using assms(1) Cons by (simp_all add: server_inv_def)
  obtain q' a q'' where q: "free_job a q' = Inr q''" "queue_inv q''" "waiting q'' = ps"
    and w: "worker_step ws mem s =
       and_then (respons_stb_info ws mem \<lparr>recv_buffer = job_msg p, arg_fd = job_sock p\<rparr> (s\<lparr>thpool := q'\<rparr>))
         (\<lambda>s. and_then (free_job a (thpool s)) (\<lambda>q. Inr (s\<lparr>thpool := q\<rparr>)))"
    using worker_step_unfold [OF inv(2) Cons, of ws mem] by blast
  obtain s1 where s1: "respons_stb_info ws mem \<lparr>recv_buffer = job_msg p, arg_fd = job_sock p\<rparr> (s\<lparr>thpool := q'\<rparr>) = Inr s1"
    "and_then (free_job a (thpool s1)) (\<lambda>q. Inr (s1\<lparr>thpool := q\<rparr>)) = Inr s'"
    using assms(2) unfolding w by auto
  have "leaves (job_msg p) (s\<lparr>thpool := q'\<rparr>) s1"
    by (rule respons_returns [OF _ job_ok_msg [OF inv(3)] s1(1)]) (simp add: inv(1))
  then obtain t' es where l: "s1 = emit es ((s\<lparr>thpool := q'\<rparr>)\<lparr>epoll_connect_client := t'\<rparr>)" "conn_inv t'"
    "conns t' = conns (epoll_connect_client s)" "closed es = []"
    "names_ok (epoll_connect_client s) \<and> (msg_type (job_msg p) = CMD_SENDUI \<longrightarrow> fields_ok (job_msg p)) \<longrightarrow> names_ok t'"
    by (auto simp: leaves_def)
  have s': "s' = s1\<lparr>thpool := q''\<rparr>" using s1(2) q(1) l(1) by simp
  have "server_inv s'" using l(2) q(2,3) inv(4) by (simp add: s' l(1) server_inv_def)
  then show ?thesis
    using l q(3) Cons by (intro exI [of _ es]) (simp add: s')
qed

lemma work_step_sound: "server_sound s \<Longrightarrow> worker_step ws mem s = Inr s' \<Longrightarrow> server_sound s'"
  using worker_step_leaves [of s ws mem s'] fds_open_same [of s s'] by (auto simp: server_sound_def flags_def)

lemma signal_step_sound:
  assumes "server_sound s"
  shows "server_sound (signal_handler_reboot sig s)"
proof (cases "sig = SIGKILL \<or> sig = SIGTERM")
  case True
  then have "exit_accept_flag (signal_handler_reboot sig s)" using signal_flags [of sig s] by (simp add: flags_def)
  then show ?thesis using assms by (simp add: server_sound_def fds_open_def server_inv_def)
next
  case False
  then show ?thesis using assms server_sound_quiet by (auto simp: signal_handler_reboot_def)
qed

lemma opening_step_sound: "server_sound s \<Longrightarrow> server_sound (snd (accept_setup port le s))"
proof -
  assume s: "server_sound s"
  have "\<exists>es. io (snd (accept_setup port le s)) = io s @ es \<and> closed es = []"
    by (auto simp: accept_setup_def Let_def)
  then obtain es where "io (snd (accept_setup port le s)) = io s @ es" "closed es = []" by blast
  then show ?thesis
    using s fds_open_same [of s "snd (accept_setup port le s)" es] by (simp add: server_sound_def server_inv_def)
qed

lemma closing_step_sound: "server_sound s \<Longrightarrow> exit_accept_flag s \<Longrightarrow> server_sound (close_listen s)"
  by (simp add: server_sound_def server_inv_def fds_open_def close_listen_def)

text \<open>
  The steps. \<open>P\<close> says which events the clients may cause; of the kernel only what it documents is
  assumed, of the answers to a worker's writes and of its \<open>malloc\<close> nothing. A step that would be
  undefined behaviour is none.
\<close>

inductive server_step :: "(ep_event \<Rightarrow> bool) \<Rightarrow> server \<Rightarrow> server \<Rightarrow> bool" for P where
  accept: "\<not> exit_accept_flag s \<Longrightarrow> accept_env_ok e s \<Longrightarrow> accept_iteration e s = Inr s' \<Longrightarrow>
     server_step P s s'"
| event: "\<not> exit_flag s \<Longrightarrow> event_env_ok e s \<Longrightarrow> P e \<Longrightarrow> handle_event i e s = Inr s' \<Longrightarrow>
     server_step P s s'"
| recycle: "\<not> exit_flag s \<Longrightarrow>
     recycle_timeout_confd now tm del (emit [Print (''60s detect one time =====>'' @ nl)] s) = Inr s' \<Longrightarrow>
     server_step P s s'"
| work: "worker_step ws mem s = Inr s' \<Longrightarrow> server_step P s s'"
| signal: "server_step P s (signal_handler_reboot sig s)"
| open_listen: "server_step P s (snd (accept_setup port le s))"
| end_listen: "exit_accept_flag s \<Longrightarrow> server_step P s (close_listen s)"

inductive_cases server_stepE: "server_step P s s'"

lemma server_sound_print: "server_sound s \<Longrightarrow> server_sound (emit [Print m] s)"
  by (rule server_sound_quiet) simp_all

lemma step_keeps_sound: "server_step P s s' \<Longrightarrow> server_sound s \<Longrightarrow> server_sound s'"
  by (elim server_stepE)
    (auto intro: accept_step_sound event_step_sound recycle_step_sound [OF server_sound_print] work_step_sound
      signal_step_sound opening_step_sound closing_step_sound)

section \<open>Well-behaved clients\<close>

text \<open>Their part: no over-long login fields, and messages the dump can hold.\<close>

definition client_ok :: "ep_event \<Rightarrow> bool" where
  "client_ok e \<longleftrightarrow> dump_fits e \<and>
     (\<forall>bs. ev_recv e = Recvd bs \<longrightarrow> msg_type (job_msg (job_of e bs)) = CMD_SENDUI \<longrightarrow>
        fields_ok (job_msg (job_of e bs)))"

text \<open>Their jobs.\<close>

definition login_ok :: "func payload \<Rightarrow> bool" where
  "login_ok p \<longleftrightarrow> job_sock p \<noteq> -1 \<and> (msg_type (job_msg p) = CMD_SENDUI \<longrightarrow> fields_ok (job_msg p))"

definition server_ok :: "server \<Rightarrow> bool" where
  "server_ok s \<longleftrightarrow> server_inv s \<and> names_ok (epoll_connect_client s) \<and> list_all login_ok (waiting (thpool s))"

lemma server_ok_emit [simp]: "server_ok (emit es s) = server_ok s"
  by (simp add: server_ok_def)

lemma abs_jobs: "abs_of s' = (abs_of s)\<lparr>a_conns := m, a_total := n\<rparr> \<Longrightarrow> waiting (thpool s') = waiting (thpool s)"
  by (simp add: abs_of_def)

lemma returned_step_ok:
  assumes "server_ok s" "fd_unlisted e s" "accept_returned e s = Inr s'"
  shows "server_ok s'"
proof (cases "0 \<le> ae_fd e")
  case False
  then obtain es where "s' = emit es s"
    using assms(3) that [of "[]"] that by (auto simp: accept_returned_def emit_def split: if_splits)
  with assms(1) show ?thesis by simp
next
  case True
  then have a: "accept_connection e s = Inr s'" using assms(3) by (simp add: accept_returned_def)
  have inv: "server_inv s" "conn_inv (epoll_connect_client s)" "names_ok (epoll_connect_client s)"
    using assms(1) by (simp_all add: server_ok_def server_inv_def)
  show ?thesis
  proof (cases "accept_refused e s")
    case True
    then have "\<exists>es. accept_connection e s = Inr (emit es s) \<and> closed es = [ae_fd e]"
      using accept_refused_eq [OF inv(2)] by blast
    then obtain es where "s' = emit es s" using a by auto
    with assms(1) show ?thesis by simp
  next
    case False
    then obtain m n where s': "server_inv s'" "logins (epoll_connect_client s') = logins (epoll_connect_client s)"
      "abs_of s' = (abs_of s)\<lparr>a_conns := m, a_total := n\<rparr>"
      using accept_admitted_eq [OF inv(1) assms(2) False] True a by auto
    then show ?thesis
      using assms(1) abs_jobs [OF s'(3)] by (simp add: server_ok_def names_ok_logins)
  qed
qed

lemma accept_full_ok: "server_ok s \<Longrightarrow> server_ok (accept_full s)"
  by (simp add: accept_full_def)

lemma accept_step_ok:
  assumes "server_ok s" "fd_unlisted e s" "accept_iteration e s = Inr s'"
  shows "server_ok s'"
  using assms returned_step_ok accept_full_ok by (auto simp: accept_iteration_def split: if_splits)

lemma abs_event_jobs:
  "\<exists>ps. a_jobs (abs_event e a) = a_jobs a @ ps
     \<and> (\<forall>p\<in>set ps. 0 \<le> ev_fd e \<and> (\<exists>bs. ev_recv e = Recvd bs \<and> p = job_of e bs))"
  by (auto simp: abs_event_def Let_def split: option.splits recv_res.splits)

lemma event_step_ok:
  assumes "server_ok s" "event_env_ok e s" "client_ok e" "handle_event i e s = Inr s'"
  shows "server_ok s'"
proof -
  have d: "event_done e s s'"
    using handle_event_correct [of s e i] assms by (auto simp: server_ok_def client_ok_def)
  obtain ps where ps: "a_jobs (abs_event e (abs_of s)) = a_jobs (abs_of s) @ ps"
    "\<forall>p\<in>set ps. 0 \<le> ev_fd e \<and> (\<exists>bs. ev_recv e = Recvd bs \<and> p = job_of e bs)"
    using abs_event_jobs by blast
  have "list_all login_ok ps"
    using ps(2) assms(3)
    by (auto simp: list_all_iff login_ok_def client_ok_def job_sock_def job_of_def)
  moreover have "waiting (thpool s') = waiting (thpool s) @ ps"
    using d ps(1) unfolding event_done_def by (metis abs_of_sel(2))
  ultimately show ?thesis
    using assms(1) d by (simp add: server_ok_def event_done_def names_ok_logins)
qed

lemma recycle_step_ok:
  assumes "server_ok s" "recycle_timeout_confd now tm del s = Inr s'"
  shows "server_ok s'"
proof -
  have inv: "server_inv s" using assms(1) by (simp add: server_ok_def)
  have "server_inv s'" "waiting (thpool s') = dropWhile (expired tm SERVER_TIMEOUT) (waiting (thpool s))"
    "names_ok (epoll_connect_client s')"
    using recycle_correct [OF inv, of now tm del] assms by (auto simp: server_ok_def)
  then show ?thesis using assms(1) list_all_dropWhile by (auto simp: server_ok_def)
qed

lemma work_step_ok:
  assumes "server_ok s" "worker_step ws mem s = Inr s'"
  shows "server_ok s'"
proof -
  have "server_inv s" "names_ok (epoll_connect_client s)"
    "\<forall>p\<in>set (waiting (thpool s)). msg_type (job_msg p) = CMD_SENDUI \<longrightarrow> fields_ok (job_msg p)"
    "list_all login_ok (tl (waiting (thpool s)))"
    using assms(1) by (auto simp: server_ok_def list_all_iff login_ok_def dest: list.set_sel(2) [rotated])
      (metis list.sel(2) list.set_sel(2))+
  then show ?thesis using worker_step_leaves [OF _ assms(2)] by (auto simp: server_ok_def)
qed

lemma signal_step_ok: "server_ok s \<Longrightarrow> server_ok (signal_handler_reboot sig s)"
  by (simp add: server_ok_def server_inv_def)

lemma opening_step_ok: "server_ok s \<Longrightarrow> server_ok (snd (accept_setup port le s))"
  by (simp add: server_ok_def server_inv_def)

lemma closing_step_ok: "server_ok s \<Longrightarrow> server_ok (close_listen s)"
  by (simp add: server_ok_def server_inv_def)

lemma step_keeps_ok: "server_step P s s' \<Longrightarrow> (\<And>e. P e \<Longrightarrow> client_ok e) \<Longrightarrow> server_sound s \<Longrightarrow> server_ok s \<Longrightarrow> server_ok s'"
  by (elim server_stepE)
    (auto intro: accept_step_ok accept_env_unlisted event_step_ok recycle_step_ok [OF iffD2 [OF server_ok_emit]] work_step_ok
      signal_step_ok opening_step_ok closing_step_ok simp: server_sound_def)

section \<open>The reachable states\<close>

text \<open>The state \<open>main\<close> enters its loop with.\<close>

definition start_state :: "int \<Rightarrow> func heap \<Rightarrow> server" where
  "start_state epfd h =
     \<lparr>epoll_connect_client = init_epoll_connect, current_connected_total = 0,
      exit_accept_flag = False, exit_flag = False, listen_fd = -1, epoll_fd = epfd,
      thpool = \<lparr>job_heap = h, q_head = None, q_tail = None, jobN = 0, queueSem = 0\<rparr>, io = []\<rparr>"

lemma empty_queue:
  "queue_inv \<lparr>job_heap = h, q_head = None, q_tail = None, jobN = 0, queueSem = n\<rparr>"
  "waiting \<lparr>job_heap = h, q_head = None, q_tail = None, jobN = 0, queueSem = n\<rparr> = []"
  by (simp_all add: queue_inv_def queue_rep_def waiting_def addrs_def)

lemma start_state_ok: "server_ok (start_state epfd h)"
  by (simp add: start_state_def server_ok_def server_inv_def conn_inv_init names_ok_init empty_queue)

lemma start_state_sound: "server_sound (start_state epfd h)"
  using start_state_ok [of epfd h]
  by (auto simp: server_sound_def server_ok_def fds_open_def start_state_def conns_init)

inductive reachable :: "(ep_event \<Rightarrow> bool) \<Rightarrow> server \<Rightarrow> bool" for P where
  start: "reachable P (start_state epfd h)"
| step: "reachable P s \<Longrightarrow> server_step P s s' \<Longrightarrow> reachable P s'"

lemma reachable_is_sound: "reachable P s \<Longrightarrow> server_sound s"
  by (induction rule: reachable.induct) (auto intro: start_state_sound step_keeps_sound)

lemma reachable_names:
  assumes "\<And>e. P e \<Longrightarrow> client_ok e"
  shows "reachable P s \<Longrightarrow> server_ok s"
  by (induction rule: reachable.induct) (auto intro: start_state_ok step_keeps_ok [OF _ assms] reachable_is_sound)

lemma reachable_ok: "reachable client_ok s \<Longrightarrow> server_ok s"
  by (rule reachable_names)

text \<open>The two flags are set together.\<close>

lemma step_flags:
  assumes "server_step P s s'" "server_inv s"
  shows "flags s' = flags s \<or> flags s' = (True, True)"
  using assms(1)
proof cases
  case (recycle now tm del)
  have "conn_inv (epoll_connect_client s)" using assms(2) by (simp add: server_inv_def)
  then show ?thesis using recycle_flags [OF _ recycle(2)] by simp
next
  case (work ws mem)
  then show ?thesis using worker_step_leaves [OF assms(2)] by blast
qed (auto dest: accept_flags event_flags simp: signal_flags setup_flags)

lemma reachable_flags: "reachable P s \<Longrightarrow> exit_accept_flag s = exit_flag s"
proof (induction rule: reachable.induct)
  case (start epfd h)
  then show ?case by (simp add: start_state_def)
next
  case (step s s')
  have "server_inv s" using reachable_is_sound [OF step(1)] by (simp add: server_sound_def)
  then show ?case using step_flags [OF step(2)] step(3) by (auto simp: flags_def)
qed

end
