(* ===== verification/ThreadPool.thy ===== *)
theory ThreadPool
  imports QueueInterface
begin

text \<open>
  The threads of \<open>src/server/thread_pool.c\<close>: the workers (\<open>thpool_thread_do\<close>) and the
  main thread's calls of \<open>thpool_add_work\<close>, \<open>delete_timeout_job\<close> and \<open>thpool_destroy\<close>,
  interleaved. A scheduler picks the thread that moves; a move is the code between two
  accesses to the shared mutex, semaphore or flag, and is \<open>None\<close> while it blocks.
\<close>

section \<open>State\<close>

text \<open>Where a worker is; the numbers are lines of \<open>thread_pool.c\<close>.\<close>

datatype worker =
    Test                 \<comment> \<open>121: the test of \<open>thpool_keepalive\<close>\<close>
  | Wait                 \<comment> \<open>123: \<open>sem_wait\<close>\<close>
  | Woken                \<comment> \<open>128: the second test\<close>
  | Lock                 \<comment> \<open>133: \<open>pthread_mutex_lock\<close>\<close>
  | Take                 \<comment> \<open>134--140: peek and remove\<close>
  | Unlock "nat option"  \<comment> \<open>141: \<open>pthread_mutex_unlock\<close>, with \<open>job_p\<close>\<close>
  | Run "nat option"     \<comment> \<open>142--143: the call and \<open>free(job_p)\<close>\<close>
  | Done                 \<comment> \<open>returned\<close>

datatype main_pc =
    Idle
  | AddLock nat | Add nat | AddUnlock
  | DelLock "nat option" int int | Del "nat option" int int | DelUnlock
  | Post nat | Join nat | Empty | Destroyed

datatype thread = Main | Worker nat

text \<open>\<open>calls\<close> records the calls of the jobs' functions, in the order they are made.\<close>

record 'f pool =
  workers :: "worker list"
  main :: main_pc
  pool_mutex :: "thread option"
  thpool_keepalive :: bool
  jobqueue :: "'f thpool_jobqueue"
  calls :: "'f payload list"

section \<open>Creation\<close>

text \<open>
  \<open>thpool_init\<close>: the three flags say whether the \<open>malloc\<close>s of the pool, the thread array
  and the queue succeed.
\<close>

definition thpool_init :: "int \<Rightarrow> bool \<Rightarrow> bool \<Rightarrow> bool \<Rightarrow> 'f heap \<Rightarrow> 'f pool option" where
  "thpool_init thread_pool_numbers m1 m2 m3 h =
     (let n = (if thread_pool_numbers = 0 \<or> thread_pool_numbers < 1 then 1 else thread_pool_numbers) in
      if \<not> m1 \<or> \<not> m2 then None
      else case thpool_jobqueue_init m3 h of
             (_, None) \<Rightarrow> None
           | (_, Some q) \<Rightarrow>
               Some \<lparr>workers = replicate (nat n) Test, main = Idle, pool_mutex = None,
                     thpool_keepalive = True, jobqueue = q, calls = []\<rparr>)"

section \<open>A worker\<close>

definition goto :: "nat \<Rightarrow> worker \<Rightarrow> 'f pool \<Rightarrow> 'f pool" where
  "goto i w p = p\<lparr>workers := (workers p)[i := w]\<rparr>"

definition worker_move :: "nat \<Rightarrow> 'f pool \<Rightarrow> 'f pool result option" where
  "worker_move i p =
     (let q = jobqueue p in
      case workers p ! i of
        Test \<Rightarrow> Some (Inr (goto i (if thpool_keepalive p then Wait else Done) p))
      | Wait \<Rightarrow>
          if queueSem q = 0 then None
          else Some (Inr (goto i Woken (p\<lparr>jobqueue := q\<lparr>queueSem := queueSem q - 1\<rparr>\<rparr>)))
      | Woken \<Rightarrow> Some (Inr (goto i (if thpool_keepalive p then Lock else Done) p))
      | Lock \<Rightarrow>
          if pool_mutex p = None then Some (Inr (goto i Take (p\<lparr>pool_mutex := Some (Worker i)\<rparr>)))
          else None
      | Take \<Rightarrow>
          Some (and_then (take_job q) (\<lambda>(job_p, r, q).
            Inr (goto i (if r \<noteq> 0 then Done else Unlock job_p) (p\<lparr>jobqueue := q\<rparr>))))
      | Unlock job_p \<Rightarrow> Some (Inr (goto i (Run job_p) (p\<lparr>pool_mutex := None\<rparr>)))
      | Run job_p \<Rightarrow>
          Some (and_then (deref (job_heap q) job_p) (\<lambda>(a, j).
                and_then (free_job a q) (\<lambda>q.
                  Inr (goto i Test (p\<lparr>jobqueue := q, calls := calls p @ [payload_of j]\<rparr>)))))
      | Done \<Rightarrow> None)"

section \<open>The main thread\<close>

text \<open>The calls the main thread makes; \<open>Submit_work\<close> carries what \<open>malloc\<close> returns.\<close>

datatype 'f command =
    Submit_work "nat option" 'f int string int
  | Delete_timeout int int
  | Destroy

definition main_move :: "'f command \<Rightarrow> 'f pool \<Rightarrow> 'f pool result option" where
  "main_move c p =
     (let q = jobqueue p in
      case main p of
        Idle \<Rightarrow>
          (case c of
             Submit_work None f tm buf sock \<Rightarrow> Some (Inr p)
           | Submit_work (Some n) f tm buf sock \<Rightarrow>
               if length buf < BUFFER_SIZE then Some (Inl OutOfBounds)
               else Some (Inr (p\<lparr>main := AddLock n,
                      jobqueue := q\<lparr>job_heap := (job_heap q)(n \<mapsto> new_job f tm buf sock)\<rparr>\<rparr>))
           | Delete_timeout tm time_out \<Rightarrow> Some (Inr (p\<lparr>main := DelLock (q_tail q) tm time_out\<rparr>))
           | Destroy \<Rightarrow> Some (Inr (p\<lparr>main := Post (length (workers p) + 1), thpool_keepalive := False\<rparr>)))
      | AddLock n \<Rightarrow>
          if pool_mutex p = None then Some (Inr (p\<lparr>main := Add n, pool_mutex := Some Main\<rparr>)) else None
      | Add n \<Rightarrow>
          Some (and_then (thpool_job_enqueue q n) (\<lambda>q. Inr (p\<lparr>main := AddUnlock, jobqueue := q\<rparr>)))
      | AddUnlock \<Rightarrow> Some (Inr (p\<lparr>main := Idle, pool_mutex := None\<rparr>))
      | DelLock cur tm time_out \<Rightarrow>
          if pool_mutex p = None
          then Some (Inr (p\<lparr>main := Del cur tm time_out, pool_mutex := Some Main\<rparr>)) else None
      | Del cur tm time_out \<Rightarrow>
          Some (and_then (timeout_loop tm time_out cur 0 q) (\<lambda>(_, q).
            Inr (p\<lparr>main := DelUnlock, jobqueue := q\<rparr>)))
      | DelUnlock \<Rightarrow> Some (Inr (p\<lparr>main := Idle, pool_mutex := None\<rparr>))
      | Post k \<Rightarrow>
          Some (Inr (if k = 0 then p\<lparr>main := Join 0\<rparr>
                     else p\<lparr>main := Post (k - 1), jobqueue := q\<lparr>queueSem := queueSem q + 1\<rparr>\<rparr>))
      | Join i \<Rightarrow>
          if length (workers p) \<le> i then Some (Inr (p\<lparr>main := Empty\<rparr>))
          else if workers p ! i = Done then Some (Inr (p\<lparr>main := Join (i + 1)\<rparr>))
          else None
      | Empty \<Rightarrow>
          Some (and_then (thpool_jobqueue_empty q) (\<lambda>q. Inr (p\<lparr>main := Destroyed, jobqueue := q\<rparr>)))
      | Destroyed \<Rightarrow> None)"

section \<open>Schedules\<close>

datatype 'f choice = By_main "'f command" | By_worker nat

definition pool_move :: "'f choice \<Rightarrow> 'f pool \<Rightarrow> 'f pool result option" where
  "pool_move c p =
     (case c of
        By_main cmd \<Rightarrow> main_move cmd p
      | By_worker i \<Rightarrow> if i < length (workers p) then worker_move i p else None)"

text \<open>A schedule; a choice of a blocked thread is skipped.\<close>

fun run_pool :: "'f choice list \<Rightarrow> 'f pool \<Rightarrow> 'f pool result" where
  "run_pool [] p = Inr p"
| "run_pool (c # cs) p =
     (case pool_move c p of None \<Rightarrow> run_pool cs p | Some r \<Rightarrow> and_then r (run_pool cs))"

end
