(* ===== verification/PoolCorrect.thy ===== *)
theory PoolCorrect
  imports ThreadPool
begin

text \<open>
  The pool while no job is deleted by time-out: mutual exclusion, sole ownership of
  the jobs, and an exact account of the semaphore, kept by every move.
\<close>

section \<open>Invariants\<close>

fun in_crit :: "worker \<Rightarrow> bool" where
  "in_crit Take = True"
| "in_crit (Unlock a) = True"
| "in_crit _ = False"

fun main_crit :: "main_pc \<Rightarrow> bool" where
  "main_crit (Add n) = True"
| "main_crit AddUnlock = True"
| "main_crit (Del c t u) = True"
| "main_crit DelUnlock = True"
| "main_crit _ = False"

text \<open>The mutex is owned by exactly the thread that is inside a critical section.\<close>

definition mutex_inv :: "'f pool \<Rightarrow> bool" where
  "mutex_inv p \<longleftrightarrow> (\<forall>i<length (workers p). in_crit (workers p ! i) \<longleftrightarrow> pool_mutex p = Some (Worker i))
     \<and> (\<forall>i. pool_mutex p = Some (Worker i) \<longrightarrow> i < length (workers p))
     \<and> (main_crit (main p) \<longleftrightarrow> pool_mutex p = Some Main)"

fun holds :: "worker \<Rightarrow> nat option option" where
  "holds (Unlock a) = Some a"
| "holds (Run a) = Some a"
| "holds _ = None"

fun main_holds :: "main_pc \<Rightarrow> nat option" where
  "main_holds (AddLock n) = Some n"
| "main_holds (Add n) = Some n"
| "main_holds _ = None"

text \<open>A job is waiting in the queue, held by one worker, or being added; all are allocated.\<close>

definition owner_inv :: "'f pool \<Rightarrow> bool" where
  "owner_inv p \<longleftrightarrow> queue_inv (jobqueue p)
     \<and> (\<forall>i<length (workers p). \<forall>x. holds (workers p ! i) = Some x \<longrightarrow>
          (\<exists>a. x = Some a \<and> job_heap (jobqueue p) a \<noteq> None \<and> a \<notin> set (addrs (jobqueue p))
             \<and> main_holds (main p) \<noteq> Some a
             \<and> (\<forall>j<length (workers p). holds (workers p ! j) = Some (Some a) \<longrightarrow> j = i)))
     \<and> (\<forall>a. main_holds (main p) = Some a \<longrightarrow>
          job_heap (jobqueue p) a \<noteq> None \<and> a \<notin> set (addrs (jobqueue p)))"

definition cnt :: "(worker \<Rightarrow> bool) \<Rightarrow> 'f pool \<Rightarrow> nat" where
  "cnt P p = length (filter P (workers p))"

definition at_work :: "worker \<Rightarrow> bool" where
  "at_work w \<longleftrightarrow> w = Lock \<or> w = Take"

definition has_token :: "worker \<Rightarrow> bool" where
  "has_token w \<longleftrightarrow> w = Woken \<or> w = Lock \<or> w = Take"

text \<open>The phases in which no work is submitted any more.\<close>

fun closing :: "main_pc \<Rightarrow> bool" where
  "closing (Post k) = True"
| "closing (Join i) = True"
| "closing Empty = True"
| "closing Destroyed = True"
| "closing _ = False"

fun deleting :: "main_pc \<Rightarrow> bool" where
  "deleting (DelLock c t u) = True"
| "deleting (Del c t u) = True"
| "deleting DelUnlock = True"
| "deleting _ = False"

text \<open>
  Every waiting job has a token: in the semaphore, or with a worker that has passed
  \<open>sem_wait\<close> and not yet taken a job. After \<open>thpool_destroy\<close> has cleared the flag there
  are at least as many tokens as workers that may still wait, once they are all posted.
\<close>

definition token_inv :: "'f pool \<Rightarrow> bool" where
  "token_inv p \<longleftrightarrow> cnt at_work p \<le> jobN (jobqueue p) \<and> \<not> deleting (main p)
     \<and> (thpool_keepalive p \<longleftrightarrow> \<not> closing (main p))
     \<and> (thpool_keepalive p \<longrightarrow> queueSem (jobqueue p) + cnt has_token p = jobN (jobqueue p)
          \<and> cnt (\<lambda>w. w = Done) p = 0)
     \<and> (case main p of
          Post k \<Rightarrow> k \<le> length (workers p) + 1
            \<and> jobN (jobqueue p) + (length (workers p) + 1)
                \<le> queueSem (jobqueue p) + cnt has_token p + cnt (\<lambda>w. w = Done) p + k
        | Join i \<Rightarrow> jobN (jobqueue p) + (length (workers p) + 1)
                \<le> queueSem (jobqueue p) + cnt has_token p + cnt (\<lambda>w. w = Done) p
            \<and> (\<forall>j<i. j < length (workers p) \<longrightarrow> workers p ! j = Done)
        | Empty \<Rightarrow> \<forall>j<length (workers p). workers p ! j = Done
        | Destroyed \<Rightarrow> \<forall>j<length (workers p). workers p ! j = Done
        | _ \<Rightarrow> True)"

definition pool_inv :: "'f pool \<Rightarrow> bool" where
  "pool_inv p \<longleftrightarrow> mutex_inv p \<and> owner_inv p \<and> token_inv p"

section \<open>Moving a worker\<close>

lemma goto_simps [simp]:
  "workers (goto i w p) = (workers p)[i := w]"
  "main (goto i w p) = main p"
  "pool_mutex (goto i w p) = pool_mutex p"
  "thpool_keepalive (goto i w p) = thpool_keepalive p"
  "jobqueue (goto i w p) = jobqueue p"
  "calls (goto i w p) = calls p"
  by (simp_all add: goto_def)

lemma cnt_goto:
  "i < length (workers p) \<Longrightarrow>
     cnt P (goto i w p) + (if P (workers p ! i) then 1 else 0) = cnt P p + (if P w then 1 else 0)"
  by (simp add: cnt_def length_filter_update)

lemma cnt_pos: "i < length (workers p) \<Longrightarrow> P (workers p ! i) \<Longrightarrow> 0 < cnt P p"
  by (auto simp: cnt_def filter_empty_conv intro: nth_mem)

lemma cnt_cong [simp]:
  "cnt P (p\<lparr>jobqueue := q\<rparr>) = cnt P p" "cnt P (p\<lparr>pool_mutex := m\<rparr>) = cnt P p"
  "cnt P (p\<lparr>main := c\<rparr>) = cnt P p" "cnt P (p\<lparr>calls := l\<rparr>) = cnt P p"
  "cnt P (p\<lparr>thpool_keepalive := b\<rparr>) = cnt P p"
  by (simp_all add: cnt_def)

lemma mutex_inv_goto:
  "mutex_inv p \<Longrightarrow> i < length (workers p) \<Longrightarrow> in_crit w = in_crit (workers p ! i) \<Longrightarrow>
     mutex_inv (goto i w p)"
  by (auto simp: mutex_inv_def nth_list_update)

lemma mutex_inv_enter:
  "mutex_inv p \<Longrightarrow> i < length (workers p) \<Longrightarrow> pool_mutex p = None \<Longrightarrow> in_crit w \<Longrightarrow>
     mutex_inv (goto i w (p\<lparr>pool_mutex := Some (Worker i)\<rparr>))"
  by (auto simp: mutex_inv_def nth_list_update)

lemma mutex_inv_leave:
  "mutex_inv p \<Longrightarrow> i < length (workers p) \<Longrightarrow> in_crit (workers p ! i) \<Longrightarrow> \<not> in_crit w \<Longrightarrow>
     mutex_inv (goto i w (p\<lparr>pool_mutex := None\<rparr>))"
  by (auto simp: mutex_inv_def nth_list_update)

lemma mutex_inv_cong:
  "workers p' = workers p \<Longrightarrow> main p' = main p \<Longrightarrow> pool_mutex p' = pool_mutex p \<Longrightarrow>
     mutex_inv p' = mutex_inv p"
  by (simp add: mutex_inv_def)

lemma owner_inv_goto:
  "owner_inv p \<Longrightarrow> i < length (workers p) \<Longrightarrow> holds w = None \<or> holds w = holds (workers p ! i) \<Longrightarrow>
     owner_inv (goto i w p)"
  unfolding owner_inv_def goto_simps length_list_update
  by (auto simp: nth_list_update) (metis option.distinct(1))+

lemma owner_inv_cong:
  assumes "workers p' = workers p" "main_holds (main p') = main_holds (main p)"
    "job_heap (jobqueue p') = job_heap (jobqueue p)" "q_tail (jobqueue p') = q_tail (jobqueue p)"
    "q_head (jobqueue p') = q_head (jobqueue p)" "jobN (jobqueue p') = jobN (jobqueue p)"
  shows "owner_inv p' = owner_inv p"
proof -
  have "addrs (jobqueue p') = addrs (jobqueue p)" "queue_inv (jobqueue p') = queue_inv (jobqueue p)"
    using assms by (simp_all add: addrs_def queue_inv_def queue_rep_def)
  with assms show ?thesis by (simp add: owner_inv_def)
qed

lemma queue_inv_addrs: "queue_inv q \<Longrightarrow> length (addrs q) = jobN q"
  by (simp add: queue_inv_def queue_rep_def)

lemma owner_invD:
  assumes "owner_inv p" "j < length (workers p)" "holds (workers p ! j) = Some x"
  shows "\<exists>a. x = Some a \<and> job_heap (jobqueue p) a \<noteq> None \<and> a \<notin> set (addrs (jobqueue p))
           \<and> main_holds (main p) \<noteq> Some a
           \<and> (\<forall>k<length (workers p). holds (workers p ! k) = Some (Some a) \<longrightarrow> k = j)"
proof -
  have "\<forall>x. holds (workers p ! j) = Some x \<longrightarrow>
          (\<exists>a. x = Some a \<and> job_heap (jobqueue p) a \<noteq> None \<and> a \<notin> set (addrs (jobqueue p))
             \<and> main_holds (main p) \<noteq> Some a
             \<and> (\<forall>k<length (workers p). holds (workers p ! k) = Some (Some a) \<longrightarrow> k = j))"
    using assms(1,2) unfolding owner_inv_def by blast
  then show ?thesis using assms(3) by blast
qed

lemma contents_the: "h a \<noteq> None \<Longrightarrow> the (contents h a) = payload_of (the (h a))"
  by (auto simp: contents_def)

text \<open>Taking a job: it moves from the queue to the worker.\<close>

lemma take_job_owner:
  assumes "owner_inv p" "i < length (workers p)" "0 < jobN (jobqueue p)" "holds (workers p ! i) = None"
  shows "\<exists>a q'. take_job (jobqueue p) = Inr (Some a, 0, q') \<and> jobN q' = jobN (jobqueue p) - 1
           \<and> queueSem q' = queueSem (jobqueue p) \<and> waiting (jobqueue p) = payload_of (the (job_heap q' a)) # waiting q'
           \<and> contents (job_heap q') = contents (job_heap (jobqueue p))
           \<and> owner_inv (goto i (Unlock (Some a)) (p\<lparr>jobqueue := q'\<rparr>))"
proof -
  let ?q = "jobqueue p"
  have rep: "queue_rep ?q (addrs ?q)" using assms(1) by (simp add: owner_inv_def queue_inv_def)
  obtain a as where as: "addrs ?q = a # as"
    using assms(3) rep by (cases "addrs ?q") (auto simp: queue_rep_def)
  obtain q' where q': "thpool_jobqueue_removelast ?q = Inr (0, q')" "queue_rep q' as"
    "contents (job_heap q') = contents (job_heap ?q)" "queueSem q' = queueSem ?q" "q_tail ?q = Some a"
    using removelast_rep [of ?q a as] rep as by auto
  have adr: "addrs q' = as" by (rule queue_rep_addrs [OF q'(2)])
  have alloc: "job_heap q' b \<noteq> None \<longleftrightarrow> job_heap ?q b \<noteq> None" for b
    using q'(3) contents_None_iff by metis
  have an: "a \<notin> set as" "job_heap ?q a \<noteq> None"
    using queue_rep_distinct [OF rep] queue_rep_alloc [OF rep] as by simp_all
  have notheld: "holds (workers p ! j) \<noteq> Some (Some a)" if "j < length (workers p)" for j
    using assms(1) that as by (auto simp: owner_inv_def)
  have notmain: "main_holds (main p) \<noteq> Some a"
    using assms(1) as by (auto simp: owner_inv_def)
  have n: "jobN q' = jobN ?q - 1" using q'(2) rep as by (auto simp: queue_rep_def)
  have w: "waiting ?q = payload_of (the (job_heap q' a)) # waiting q'"
    using waiting_contents [OF rep] waiting_contents [OF q'(2)] as q'(3) contents_the [of "job_heap q'" a] alloc an(2)
    by simp
  have "owner_inv (goto i (Unlock (Some a)) (p\<lparr>jobqueue := q'\<rparr>))"
  proof -
    have "queue_inv q'" using q'(2) by blast
    moreover have "\<exists>b. x = Some b \<and> job_heap q' b \<noteq> None \<and> b \<notin> set as \<and> main_holds (main p) \<noteq> Some b
        \<and> (\<forall>k<length (workers p). holds ((workers p)[i := Unlock (Some a)] ! k) = Some (Some b) \<longrightarrow> k = j)"
      if j: "j < length (workers p)" "holds ((workers p)[i := Unlock (Some a)] ! j) = Some x" for j x
    proof (cases "j = i")
      case True
      with j assms(2) have "x = Some a" by simp
      then show ?thesis using an alloc notmain notheld True assms(2)
        by (auto simp: nth_list_update split: if_splits)
    next
      case False
      with j have "holds (workers p ! j) = Some x" by simp
      then obtain b where b: "x = Some b" "job_heap ?q b \<noteq> None" "b \<notin> set (a # as)" "main_holds (main p) \<noteq> Some b"
        "\<forall>k<length (workers p). holds (workers p ! k) = Some (Some b) \<longrightarrow> k = j"
        using owner_invD [OF assms(1) j(1)] as by auto
      then show ?thesis using alloc assms(2) by (auto simp: nth_list_update split: if_splits)
    qed
    moreover have "job_heap q' b \<noteq> None \<and> b \<notin> set as" if "main_holds (main p) = Some b" for b
      using assms(1) that as alloc by (auto simp: owner_inv_def)
    ultimately show ?thesis by (simp add: owner_inv_def adr)
  qed
  then show ?thesis
    using q'(1,3,4,5) n w by (intro exI [of _ a] exI [of _ q']) (simp add: take_job_def thpool_jobqueue_peek_def)
qed

text \<open>Running a job frees it.\<close>

lemma run_job_owner:
  assumes "owner_inv p" "i < length (workers p)" "workers p ! i = Run x"
  shows "\<exists>a j q'. x = Some a \<and> deref (job_heap (jobqueue p)) x = Inr (a, j)
           \<and> free_job a (jobqueue p) = Inr q' \<and> jobN q' = jobN (jobqueue p)
           \<and> queueSem q' = queueSem (jobqueue p) \<and> waiting q' = waiting (jobqueue p)
           \<and> owner_inv (goto i Test (p\<lparr>jobqueue := q'\<rparr>))"
proof -
  let ?q = "jobqueue p"
  have "holds (workers p ! i) = Some x" using assms(3) by simp
  then obtain a where a: "x = Some a" "job_heap ?q a \<noteq> None" "a \<notin> set (addrs ?q)" "main_holds (main p) \<noteq> Some a"
    "\<forall>j<length (workers p). holds (workers p ! j) = Some (Some a) \<longrightarrow> j = i"
    using owner_invD [OF assms(1,2)] by blast
  have rep: "queue_rep ?q (addrs ?q)" using assms(1) by (simp add: owner_inv_def queue_inv_def)
  obtain q' where q': "free_job a ?q = Inr q'" "queue_rep q' (addrs ?q)"
    "contents (job_heap q') = (contents (job_heap ?q))(a := None)" "queueSem q' = queueSem ?q"
    using free_job_rep [OF rep a(3,2)] by blast
  have adr: "addrs q' = addrs ?q" by (rule queue_rep_addrs [OF q'(2)])
  have alloc: "job_heap q' b \<noteq> None \<longleftrightarrow> b \<noteq> a \<and> job_heap ?q b \<noteq> None" for b
    by (metis q'(3) contents_None_iff fun_upd_apply)
  have n: "jobN q' = jobN ?q" using q'(2) rep by (simp add: queue_rep_def)
  have w: "waiting q' = waiting ?q"
    using waiting_contents [OF rep] waiting_contents [OF q'(2)] q'(3) a(3) by auto
  have "owner_inv (goto i Test (p\<lparr>jobqueue := q'\<rparr>))"
  proof -
    have "queue_inv q'" using q'(2) by blast
    moreover have "\<exists>b. y = Some b \<and> job_heap q' b \<noteq> None \<and> b \<notin> set (addrs ?q) \<and> main_holds (main p) \<noteq> Some b
        \<and> (\<forall>k<length (workers p). holds ((workers p)[i := Test] ! k) = Some (Some b) \<longrightarrow> k = j)"
      if j: "j < length (workers p)" "holds ((workers p)[i := Test] ! j) = Some y" for j y
    proof -
      have "j \<noteq> i" using j assms(2) by auto
      with j have "holds (workers p ! j) = Some y" by simp
      then obtain b where b: "y = Some b" "job_heap ?q b \<noteq> None" "b \<notin> set (addrs ?q)" "main_holds (main p) \<noteq> Some b"
        "\<forall>k<length (workers p). holds (workers p ! k) = Some (Some b) \<longrightarrow> k = j"
        using owner_invD [OF assms(1) j(1)] by blast
      have "b \<noteq> a" using \<open>holds (workers p ! j) = Some y\<close> b(1) a(5) j(1) \<open>j \<noteq> i\<close> by blast
      then show ?thesis using b alloc assms(2) by (auto simp: nth_list_update split: if_splits)
    qed
    moreover have "job_heap q' b \<noteq> None \<and> b \<notin> set (addrs ?q)" if "main_holds (main p) = Some b" for b
      using assms(1) that a(4) alloc by (auto simp: owner_inv_def)
    ultimately show ?thesis by (simp add: owner_inv_def adr)
  qed
  then show ?thesis using a(1,2) q'(1,4) n w by (auto simp: deref_def)
qed

section \<open>Every move\<close>

lemma has_token_cases [simp]:
  "has_token Woken" "has_token Lock" "has_token Take" "\<not> has_token Test" "\<not> has_token Wait"
  "\<not> has_token (Unlock a)" "\<not> has_token (Run a)" "\<not> has_token Done"
  by (simp_all add: has_token_def)

lemma at_work_cases [simp]:
  "at_work Lock" "at_work Take" "\<not> at_work Woken" "\<not> at_work Test" "\<not> at_work Wait"
  "\<not> at_work (Unlock a)" "\<not> at_work (Run a)" "\<not> at_work Done"
  by (simp_all add: at_work_def)

text \<open>
  The account of the tokens, for a worker that goes from \<open>v\<close> to \<open>w\<close> while the counters
  change to those of \<open>q\<close>.
\<close>

lemma token_inv_move:
  assumes "token_inv p" "i < length (workers p)" "workers p ! i = v" "v \<noteq> Done" "jobqueue p' = q"
    "workers p' = (workers p)[i := w]" "main p' = main p" "thpool_keepalive p' = thpool_keepalive p"
    and "jobN q + of_bool (at_work v) \<ge> jobN (jobqueue p) + of_bool (at_work w)"
    and "thpool_keepalive p \<Longrightarrow> queueSem q + of_bool (has_token w) + jobN (jobqueue p)
           = queueSem (jobqueue p) + of_bool (has_token v) + jobN q"
    and "thpool_keepalive p \<Longrightarrow> w \<noteq> Done"
    and "queueSem q + of_bool (has_token w) + of_bool (w = Done) + jobN (jobqueue p)
           \<ge> queueSem (jobqueue p) + of_bool (has_token v) + jobN q"
  shows "token_inv p'"
proof -
  have c: "cnt P p' + of_bool (P v) = cnt P p + of_bool (P w)" for P
    using cnt_goto [OF assms(2), of P w] assms(3,6) by (simp add: cnt_def of_bool_def)
  have d: "j \<noteq> i" if "workers p ! j = Done" for j using that assms(3,4) by auto
  have dd: "(workers p)[i := w] ! j = Done" if "workers p ! j = Done" for j using d [OF that] that by simp
  note cs = c [of at_work] c [of has_token] c [of "\<lambda>w. w = Done"]
  show ?thesis
  proof (cases "main p")
    case (Post k)
    then show ?thesis using assms(1,4,9-12) cs unfolding token_inv_def assms(5-8) by auto
  next
    case (Join n)
    then show ?thesis using assms(1,4,9-12) cs dd unfolding token_inv_def assms(5-8) by auto
  qed (use assms(1,4,9-12) cs dd in \<open>auto simp: token_inv_def assms(5-8)\<close>)
qed

lemma cnt_has_token: "cnt has_token p = cnt at_work p + cnt (\<lambda>w. w = Woken) p"
proof -
  have "length (filter has_token ws) = length (filter at_work ws) + length (filter (\<lambda>w. w = Woken) ws)" for ws
    by (induction ws) (auto simp: has_token_def at_work_def)
  then show ?thesis by (simp add: cnt_def)
qed

text \<open>
  A woken worker that goes on to the mutex: its token now stands for a job of its own.
\<close>

lemma token_inv_enter:
  assumes "token_inv p" "i < length (workers p)" "workers p ! i = Woken" "thpool_keepalive p"
    "cnt at_work p < jobN (jobqueue p)"
  shows "token_inv (goto i Lock p)"
proof -
  have c: "cnt P (goto i Lock p) + of_bool (P Woken) = cnt P p + of_bool (P Lock)" for P
    using cnt_goto [OF assms(2), of P Lock] assms(3) by (simp add: of_bool_def)
  have "\<not> closing (main p)" using assms(1,4) by (simp add: token_inv_def)
  then show ?thesis
    using assms(1,4,5) c [of at_work] c [of has_token] c [of "\<lambda>w. w = Done"]
    by (cases "main p") (auto simp: token_inv_def)
qed

end
