(* ===== verification/PoolRun.thy ===== *)
theory PoolRun
  imports PoolCorrect
begin

text \<open>
  The pool's runs: every move of every thread keeps the invariant as long as no time-out
  deletion is made, jobs are called in the order of their submission, and
  \<open>thpool_destroy\<close> always gets to its end.
\<close>

section \<open>Workers\<close>

lemma worker_in_critI:
  "mutex_inv p \<Longrightarrow> i < length (workers p) \<Longrightarrow> in_crit (workers p ! i) \<Longrightarrow> pool_mutex p = Some (Worker i)"
  by (simp add: mutex_inv_def)

text \<open>
  The calls and the waiting jobs: a worker's move either leaves the queue's contents
  alone or takes its first job.
\<close>

definition in_hand :: "worker \<Rightarrow> nat option" where
  "in_hand w = (case w of Unlock x \<Rightarrow> x | Run x \<Rightarrow> x | _ \<Rightarrow> None)"

lemma worker_move_inv:
  assumes "pool_inv p" "i < length (workers p)" "worker_move i p = Some r"
  shows "\<exists>p'. r = Inr p' \<and> pool_inv p' \<and> length (workers p') = length (workers p) \<and> main p' = main p
           \<and> thpool_keepalive p' = thpool_keepalive p
           \<and> (waiting (jobqueue p') = waiting (jobqueue p)
              \<or> waiting (jobqueue p') = tl (waiting (jobqueue p)))"
proof -
  have inv: "mutex_inv p" "owner_inv p" "token_inv p" using assms(1) by (simp_all add: pool_inv_def)
  let ?q = "jobqueue p"
  show ?thesis
  proof (cases "workers p ! i")
    case Test
    let ?w = "if thpool_keepalive p then Wait else Done"
    have "r = Inr (goto i ?w p)" using assms(3) Test by (simp add: worker_move_def Let_def)
    moreover have "mutex_inv (goto i ?w p)" using mutex_inv_goto [OF inv(1) assms(2)] Test by simp
    moreover have "owner_inv (goto i ?w p)" using owner_inv_goto [OF inv(2) assms(2)] by simp
    moreover have "token_inv (goto i ?w p)"
      by (rule token_inv_move [OF inv(3) assms(2) Test, where q = ?q and w = ?w]) simp_all
    ultimately show ?thesis by (simp add: pool_inv_def)
  next
    case Wait
    let ?q' = "?q\<lparr>queueSem := queueSem ?q - 1\<rparr>"
    let ?p = "p\<lparr>jobqueue := ?q'\<rparr>"
    have sem: "queueSem ?q \<noteq> 0" and r: "r = Inr (goto i Woken ?p)"
      using assms(3) Wait by (auto simp: worker_move_def Let_def split: if_splits)
    have "mutex_inv ?p" using inv(1) mutex_inv_cong [of ?p p] by simp
    then have "mutex_inv (goto i Woken ?p)" using mutex_inv_goto [of ?p i Woken] assms(2) Wait by simp
    moreover have "owner_inv ?p" using inv(2) owner_inv_cong [of ?p p] by simp
    then have "owner_inv (goto i Woken ?p)" using owner_inv_goto [of ?p i Woken] assms(2) by simp
    moreover have "token_inv (goto i Woken ?p)"
      using sem by (intro token_inv_move [OF inv(3) assms(2) Wait, where q = ?q' and w = Woken]) simp_all
    moreover have "waiting ?q' = waiting ?q" by (simp add: waiting_def addrs_def)
    ultimately show ?thesis using r by (simp add: pool_inv_def)
  next
    case Woken
    let ?w = "if thpool_keepalive p then Lock else Done"
    have "r = Inr (goto i ?w p)" using assms(3) Woken by (simp add: worker_move_def Let_def)
    moreover have "mutex_inv (goto i ?w p)" using mutex_inv_goto [OF inv(1) assms(2)] Woken by simp
    moreover have "owner_inv (goto i ?w p)" using owner_inv_goto [OF inv(2) assms(2)] by simp
    moreover have "token_inv (goto i ?w p)"
    proof (cases "thpool_keepalive p")
      case True
      have "0 < cnt (\<lambda>w. w = Woken) p" using cnt_pos [OF assms(2)] Woken by simp
      then have "cnt at_work p < jobN ?q"
        using inv(3) True cnt_has_token [of p] by (simp add: token_inv_def)
      then show ?thesis using token_inv_enter [OF inv(3) assms(2) Woken True] True by simp
    next
      case False
      then show ?thesis
        by (intro token_inv_move [OF inv(3) assms(2) Woken, where q = ?q and w = Done]) simp_all
    qed
    ultimately show ?thesis by (simp add: pool_inv_def)
  next
    case Lock
    let ?p = "p\<lparr>pool_mutex := Some (Worker i)\<rparr>"
    have free: "pool_mutex p = None" and r: "r = Inr (goto i Take ?p)"
      using assms(3) Lock by (auto simp: worker_move_def Let_def split: if_splits)
    have "mutex_inv (goto i Take ?p)" using mutex_inv_enter [OF inv(1) assms(2) free] by simp
    moreover have "owner_inv ?p" using inv(2) owner_inv_cong [of ?p p] by simp
    then have "owner_inv (goto i Take ?p)" using owner_inv_goto [of ?p i Take] assms(2) by simp
    moreover have "token_inv (goto i Take ?p)"
      by (intro token_inv_move [OF inv(3) assms(2) Lock, where q = ?q and w = Take]) simp_all
    ultimately show ?thesis using r by (simp add: pool_inv_def)
  next
    case Take
    have "0 < cnt at_work p" using cnt_pos [OF assms(2)] Take by simp
    then have n: "0 < jobN ?q" using inv(3) by (simp add: token_inv_def)
    obtain a q' where q': "take_job ?q = Inr (Some a, 0, q')" "jobN q' = jobN ?q - 1"
      "queueSem q' = queueSem ?q" "waiting ?q = payload_of (the (job_heap q' a)) # waiting q'"
      "owner_inv (goto i (Unlock (Some a)) (p\<lparr>jobqueue := q'\<rparr>))"
      using take_job_owner [OF inv(2) assms(2) n] Take by auto
    let ?p = "p\<lparr>jobqueue := q'\<rparr>"
    have "r = Inr (goto i (Unlock (Some a)) ?p)"
      using assms(3) Take q'(1) by (simp add: worker_move_def Let_def)
    moreover have "mutex_inv ?p" using inv(1) mutex_inv_cong [of ?p p] by simp
    then have "mutex_inv (goto i (Unlock (Some a)) ?p)"
      using mutex_inv_goto [of ?p i "Unlock (Some a)"] assms(2) Take by simp
    moreover have "token_inv (goto i (Unlock (Some a)) ?p)"
      using q'(2,3) n
      by (intro token_inv_move [OF inv(3) assms(2) Take, where q = q' and w = "Unlock (Some a)"]) simp_all
    ultimately show ?thesis using q'(4,5) by (simp add: pool_inv_def)
  next
    case (Unlock x)
    let ?p = "p\<lparr>pool_mutex := None\<rparr>"
    have "r = Inr (goto i (Run x) ?p)" using assms(3) Unlock by (simp add: worker_move_def Let_def)
    moreover have "mutex_inv (goto i (Run x) ?p)" using mutex_inv_leave [OF inv(1) assms(2)] Unlock by simp
    moreover have "owner_inv ?p" using inv(2) owner_inv_cong [of ?p p] by simp
    then have "owner_inv (goto i (Run x) ?p)" using owner_inv_goto [of ?p i "Run x"] assms(2) Unlock by simp
    moreover have "token_inv (goto i (Run x) ?p)"
      by (intro token_inv_move [OF inv(3) assms(2) Unlock, where q = ?q and w = "Run x"]) simp_all
    ultimately show ?thesis by (simp add: pool_inv_def)
  next
    case (Run x)
    obtain a j q' where q': "x = Some a" "deref (job_heap ?q) x = Inr (a, j)" "free_job a ?q = Inr q'"
      "jobN q' = jobN ?q" "queueSem q' = queueSem ?q" "waiting q' = waiting ?q"
      "owner_inv (goto i Test (p\<lparr>jobqueue := q'\<rparr>))"
      using run_job_owner [OF inv(2) assms(2) Run] by blast
    let ?p = "p\<lparr>jobqueue := q', calls := calls p @ [payload_of j]\<rparr>"
    have "r = Inr (goto i Test ?p)"
      using assms(3) Run q'(2,3) by (simp add: worker_move_def Let_def)
    moreover have "mutex_inv ?p" using inv(1) mutex_inv_cong [of ?p p] by simp
    then have "mutex_inv (goto i Test ?p)" using mutex_inv_goto [of ?p i Test] assms(2) Run by simp
    moreover have "owner_inv (goto i Test ?p)"
      using q'(7) owner_inv_cong [of "goto i Test ?p" "goto i Test (p\<lparr>jobqueue := q'\<rparr>)"] by simp
    moreover have "token_inv (goto i Test ?p)"
      using q'(4,5) by (intro token_inv_move [OF inv(3) assms(2) Run, where q = q' and w = Test]) simp_all
    ultimately show ?thesis using q'(6) by (simp add: pool_inv_def)
  next
    case Done
    with assms(3) show ?thesis by (simp add: worker_move_def Let_def)
  qed
qed

section \<open>The main thread\<close>

text \<open>A command the pool's contract allows: a fresh block, a full buffer, no deletion.\<close>

definition command_ok :: "'f command \<Rightarrow> 'f pool \<Rightarrow> bool" where
  "command_ok c p =
     (case c of
        Submit_work None f tm buf sock \<Rightarrow> True
      | Submit_work (Some n) f tm buf sock \<Rightarrow> length buf = BUFFER_SIZE \<and> job_heap (jobqueue p) n = None
      | Delete_timeout tm time_out \<Rightarrow> False
      | Destroy \<Rightarrow> True)"

lemma heap_extend_owner:
  assumes "owner_inv p" "job_heap (jobqueue p) n = None" "main p = Idle"
  shows "owner_inv (p\<lparr>main := AddLock n, jobqueue := (jobqueue p)\<lparr>job_heap := (job_heap (jobqueue p))(n \<mapsto> j)\<rparr>\<rparr>)"
    "waiting ((jobqueue p)\<lparr>job_heap := (job_heap (jobqueue p))(n \<mapsto> j)\<rparr>) = waiting (jobqueue p)"
proof -
  let ?q = "jobqueue p"
  let ?q' = "?q\<lparr>job_heap := (job_heap ?q)(n \<mapsto> j)\<rparr>"
  have rep: "queue_rep ?q (addrs ?q)" using assms(1) by (simp add: owner_inv_def queue_inv_def)
  have fresh: "n \<notin> set (addrs ?q)" using queue_rep_alloc [OF rep] assms(2) by blast
  have rep': "queue_rep ?q' (addrs ?q)" using rep fresh by (simp add: queue_rep_def)
  have adr: "addrs ?q' = addrs ?q" by (rule queue_rep_addrs [OF rep'])
  show "waiting ?q' = waiting ?q"
    using queue_rep_waiting [OF rep'] queue_rep_waiting [OF rep] fresh by simp
  have "\<exists>a. x = Some a \<and> job_heap ?q' a \<noteq> None \<and> a \<notin> set (addrs ?q') \<and> main_holds (AddLock n) \<noteq> Some a
      \<and> (\<forall>k<length (workers p). holds (workers p ! k) = Some (Some a) \<longrightarrow> k = i)"
    if i: "i < length (workers p)" "holds (workers p ! i) = Some x" for i x
  proof -
    obtain a where a: "x = Some a" "job_heap ?q a \<noteq> None" "a \<notin> set (addrs ?q)"
      "\<forall>k<length (workers p). holds (workers p ! k) = Some (Some a) \<longrightarrow> k = i"
      using owner_invD [OF assms(1) i] by blast
    then have "a \<noteq> n" using assms(2) by auto
    with a adr show ?thesis by (intro exI [of _ a]) simp
  qed
  moreover have "queue_inv ?q'" using rep' by blast
  ultimately show "owner_inv (p\<lparr>main := AddLock n, jobqueue := ?q'\<rparr>)"
    using fresh adr by (simp add: owner_inv_def)
qed

lemma enqueue_owner:
  assumes "owner_inv p" "main p = Add n"
  shows "\<exists>q' j. thpool_job_enqueue (jobqueue p) n = Inr q' \<and> jobN q' = jobN (jobqueue p) + 1
           \<and> queueSem q' = queueSem (jobqueue p) + 1
           \<and> job_heap (jobqueue p) n = Some j \<and> waiting q' = waiting (jobqueue p) @ [payload_of j]
           \<and> owner_inv (p\<lparr>main := AddUnlock, jobqueue := q'\<rparr>)"
proof -
  let ?q = "jobqueue p"
  have rep: "queue_rep ?q (addrs ?q)" using assms(1) by (simp add: owner_inv_def queue_inv_def)
  obtain j where n: "job_heap ?q n = Some j" "n \<notin> set (addrs ?q)"
    using assms by (auto simp: owner_inv_def)
  obtain q' where q': "thpool_job_enqueue ?q n = Inr q'" "queue_rep q' (addrs ?q @ [n])"
    "contents (job_heap q') = contents (job_heap ?q)" "queueSem q' = Suc (queueSem ?q)"
    using enqueue_rep [OF rep n(2,1)] by blast
  have adr: "addrs q' = addrs ?q @ [n]" by (rule queue_rep_addrs [OF q'(2)])
  have alloc: "job_heap q' b \<noteq> None \<longleftrightarrow> job_heap ?q b \<noteq> None" for b
    using q'(3) contents_None_iff by metis
  have w: "waiting q' = waiting ?q @ [payload_of j]"
    using waiting_contents [OF rep] waiting_contents [OF q'(2)] q'(3) n(1) by (simp add: contents_def)
  have "\<exists>a. x = Some a \<and> job_heap q' a \<noteq> None \<and> a \<notin> set (addrs q')
      \<and> (\<forall>k<length (workers p). holds (workers p ! k) = Some (Some a) \<longrightarrow> k = i)"
    if i: "i < length (workers p)" "holds (workers p ! i) = Some x" for i x
    using owner_invD [OF assms(1) i] assms(2) alloc adr by auto
  moreover have "queue_inv q'" using q'(2) by blast
  ultimately have "owner_inv (p\<lparr>main := AddUnlock, jobqueue := q'\<rparr>)"
    by (simp add: owner_inv_def)
  moreover have "jobN q' = jobN ?q + 1" using q'(2) rep by (simp add: queue_rep_def)
  ultimately show ?thesis using q'(1,4) n(1) w by auto
qed

lemma mutex_inv_main:
  "mutex_inv p \<Longrightarrow> main_crit m = main_crit (main p) \<Longrightarrow> mutex_inv (p\<lparr>main := m\<rparr>)"
  "mutex_inv p \<Longrightarrow> pool_mutex p = None \<Longrightarrow> main_crit m \<Longrightarrow> mutex_inv (p\<lparr>main := m, pool_mutex := Some Main\<rparr>)"
  "mutex_inv p \<Longrightarrow> main_crit (main p) \<Longrightarrow> \<not> main_crit m \<Longrightarrow> mutex_inv (p\<lparr>main := m, pool_mutex := None\<rparr>)"
  by (auto simp: mutex_inv_def)

lemma owner_inv_main:
  assumes "owner_inv p" "main_holds m = main_holds (main p) \<or> main_holds m = None"
  shows "owner_inv (p\<lparr>main := m\<rparr>)"
proof -
  have "\<exists>a. x = Some a \<and> job_heap (jobqueue p) a \<noteq> None \<and> a \<notin> set (addrs (jobqueue p))
      \<and> main_holds m \<noteq> Some a \<and> (\<forall>k<length (workers p). holds (workers p ! k) = Some (Some a) \<longrightarrow> k = i)"
    if i: "i < length (workers p)" "holds (workers p ! i) = Some x" for i x
  proof -
    obtain a where "x = Some a" "job_heap (jobqueue p) a \<noteq> None" "a \<notin> set (addrs (jobqueue p))"
      "main_holds (main p) \<noteq> Some a" "\<forall>k<length (workers p). holds (workers p ! k) = Some (Some a) \<longrightarrow> k = i"
      using owner_invD [OF assms(1) i] by blast
    then show ?thesis using assms(2) by (intro exI [of _ a]) auto
  qed
  moreover have "job_heap (jobqueue p) a \<noteq> None \<and> a \<notin> set (addrs (jobqueue p))" if "main_holds m = Some a" for a
    using that assms unfolding owner_inv_def by auto
  moreover have "queue_inv (jobqueue p)" using assms(1) by (simp add: owner_inv_def)
  ultimately show ?thesis by (simp add: owner_inv_def)
qed

lemma all_done: "(\<forall>j<length (workers p). workers p ! j = Done) \<Longrightarrow> cnt at_work p = 0"
  by (auto simp: cnt_def in_set_conv_nth filter_empty_conv)

lemma cnt_done_le: "cnt has_token p + cnt (\<lambda>w. w = Done) p \<le> length (workers p)"
proof -
  have "length (filter has_token ws) + length (filter (\<lambda>w. w = Done) ws) \<le> length ws" for ws
    by (induction ws) (auto simp: has_token_def)
  then show ?thesis by (simp add: cnt_def)
qed

lemma jobqueue_empty_owner:
  assumes "owner_inv p" "\<forall>j<length (workers p). workers p ! j = Done"
  shows "\<exists>q'. thpool_jobqueue_empty (jobqueue p) = Inr q' \<and> jobN q' = 0 \<and> waiting q' = []
           \<and> owner_inv (p\<lparr>main := Destroyed, jobqueue := q'\<rparr>)"
proof -
  have rep: "queue_rep (jobqueue p) (addrs (jobqueue p))" using assms(1) by (simp add: owner_inv_def queue_inv_def)
  obtain q' where "empty_loop (q_tail (jobqueue p)) (jobqueue p) = Inr q'" "jobN q' = 0"
    using empty_loop_rep [OF rep] by blast
  then show ?thesis
    using assms(2)
    by (intro exI [of _ "q'\<lparr>q_head := None, q_tail := None\<rparr>"])
      (auto simp: thpool_jobqueue_empty_def owner_inv_def queue_inv_def queue_rep_def addrs_def waiting_def)
qed

lemma main_move_inv:
  assumes "pool_inv p" "command_ok c p" "main_move c p = Some r"
  shows "\<exists>p'. r = Inr p' \<and> pool_inv p' \<and> workers p' = workers p \<and> calls p' = calls p"
proof -
  have inv: "mutex_inv p" "owner_inv p" "token_inv p" using assms(1) by (simp_all add: pool_inv_def)
  let ?q = "jobqueue p"
  show ?thesis
  proof (cases "main p")
    case Idle
    show ?thesis
    proof (cases c)
      case (Submit_work m f tm buf sock)
      show ?thesis
      proof (cases m)
        case None
        then have "r = Inr p" using assms(3) Idle Submit_work by (simp add: main_move_def Let_def)
        then show ?thesis using assms(1) by simp
      next
        case (Some n)
        have ok: "length buf = BUFFER_SIZE" "job_heap ?q n = None"
          using assms(2) Submit_work Some by (simp_all add: command_ok_def)
        let ?q' = "?q\<lparr>job_heap := (job_heap ?q)(n \<mapsto> new_job f tm buf sock)\<rparr>"
        let ?p = "p\<lparr>main := AddLock n, jobqueue := ?q'\<rparr>"
        have "r = Inr ?p" using assms(3) Idle Submit_work Some ok by (simp add: main_move_def Let_def)
        moreover have "mutex_inv ?p"
          using mutex_inv_main(1) [OF inv(1), of "AddLock n"] Idle mutex_inv_cong [of ?p "p\<lparr>main := AddLock n\<rparr>"] by simp
        moreover have "owner_inv ?p" by (rule heap_extend_owner(1) [OF inv(2) ok(2) Idle])
        moreover have "token_inv ?p" using inv(3) Idle by (simp add: token_inv_def)
        ultimately show ?thesis by (simp add: pool_inv_def)
      qed
    next
      case (Delete_timeout tm time_out)
      with assms(2) show ?thesis by (simp add: command_ok_def)
    next
      case Destroy
      let ?p = "p\<lparr>main := Post (length (workers p) + 1), thpool_keepalive := False\<rparr>"
      have "r = Inr ?p" using assms(3) Idle Destroy by (simp add: main_move_def Let_def)
      moreover have "mutex_inv ?p"
        using mutex_inv_main(1) [OF inv(1), of "Post (length (workers p) + 1)"] Idle
          mutex_inv_cong [of ?p "p\<lparr>main := Post (length (workers p) + 1)\<rparr>"] by simp
      moreover have "owner_inv ?p"
        using owner_inv_main [OF inv(2), of "Post (length (workers p) + 1)"]
          owner_inv_cong [of ?p "p\<lparr>main := Post (length (workers p) + 1)\<rparr>"] by simp
      moreover have "token_inv ?p" using inv(3) Idle by (simp add: token_inv_def)
      ultimately show ?thesis by (simp add: pool_inv_def)
    qed
  next
    case (AddLock n)
    let ?p = "p\<lparr>main := Add n, pool_mutex := Some Main\<rparr>"
    have free: "pool_mutex p = None" and r: "r = Inr ?p"
      using assms(3) AddLock by (auto simp: main_move_def Let_def split: if_splits)
    have "mutex_inv ?p" using mutex_inv_main(2) [OF inv(1) free] by simp
    moreover have "owner_inv ?p"
      using owner_inv_main [OF inv(2), of "Add n"] AddLock owner_inv_cong [of ?p "p\<lparr>main := Add n\<rparr>"] by simp
    moreover have "token_inv ?p" using inv(3) AddLock by (simp add: token_inv_def)
    ultimately show ?thesis using r by (simp add: pool_inv_def)
  next
    case (Add n)
    obtain q' j where q': "thpool_job_enqueue ?q n = Inr q'" "jobN q' = jobN ?q + 1"
      "queueSem q' = queueSem ?q + 1" "owner_inv (p\<lparr>main := AddUnlock, jobqueue := q'\<rparr>)"
      using enqueue_owner [OF inv(2) Add] by blast
    let ?p = "p\<lparr>main := AddUnlock, jobqueue := q'\<rparr>"
    have "r = Inr ?p" using assms(3) Add q'(1) by (simp add: main_move_def Let_def)
    moreover have "mutex_inv ?p"
      using mutex_inv_main(1) [OF inv(1), of AddUnlock] Add mutex_inv_cong [of ?p "p\<lparr>main := AddUnlock\<rparr>"] by simp
    moreover have "token_inv ?p" using inv(3) Add q'(2,3) by (simp add: token_inv_def)
    ultimately show ?thesis using q'(4) by (simp add: pool_inv_def)
  next
    case AddUnlock
    let ?p = "p\<lparr>main := Idle, pool_mutex := None\<rparr>"
    have "r = Inr ?p" using assms(3) AddUnlock by (simp add: main_move_def Let_def)
    moreover have "mutex_inv ?p" using mutex_inv_main(3) [OF inv(1)] AddUnlock by simp
    moreover have "owner_inv ?p"
      using owner_inv_main [OF inv(2), of Idle] owner_inv_cong [of ?p "p\<lparr>main := Idle\<rparr>"] by simp
    moreover have "token_inv ?p" using inv(3) AddUnlock by (simp add: token_inv_def)
    ultimately show ?thesis by (simp add: pool_inv_def)
  next
    case (Post k)
    show ?thesis
    proof (cases k)
      case 0
      let ?p = "p\<lparr>main := Join 0\<rparr>"
      have "r = Inr ?p" using assms(3) Post 0 by (simp add: main_move_def Let_def)
      moreover have "mutex_inv ?p" using mutex_inv_main(1) [OF inv(1)] Post by simp
      moreover have "owner_inv ?p" using owner_inv_main [OF inv(2)] by simp
      moreover have "token_inv ?p" using inv(3) Post 0 by (simp add: token_inv_def)
      ultimately show ?thesis by (simp add: pool_inv_def)
    next
      case (Suc l)
      let ?p = "p\<lparr>main := Post l, jobqueue := ?q\<lparr>queueSem := queueSem ?q + 1\<rparr>\<rparr>"
      have "r = Inr ?p" using assms(3) Post Suc by (simp add: main_move_def Let_def)
      moreover have "mutex_inv ?p"
        using mutex_inv_main(1) [OF inv(1), of "Post l"] Post mutex_inv_cong [of ?p "p\<lparr>main := Post l\<rparr>"] by simp
      moreover have "owner_inv ?p"
        using owner_inv_main [OF inv(2), of "Post l"] owner_inv_cong [of ?p "p\<lparr>main := Post l\<rparr>"] by simp
      moreover have "token_inv ?p" using inv(3) Post Suc by (simp add: token_inv_def)
      ultimately show ?thesis by (simp add: pool_inv_def)
    qed
  next
    case (Join i)
    let ?m = "if length (workers p) \<le> i then Empty else Join (i + 1)"
    let ?p = "p\<lparr>main := ?m\<rparr>"
    have d: "length (workers p) \<le> i \<or> workers p ! i = Done" and r: "r = Inr ?p"
      using assms(3) Join by (auto simp: main_move_def Let_def split: if_splits)
    have "mutex_inv ?p" using mutex_inv_main(1) [OF inv(1)] Join by simp
    moreover have "owner_inv ?p" using owner_inv_main [OF inv(2)] by simp
    moreover have "token_inv ?p" using inv(3) Join d by (auto simp: token_inv_def less_Suc_eq)
    ultimately show ?thesis using r by (simp add: pool_inv_def)
  next
    case Empty
    have d: "\<forall>j<length (workers p). workers p ! j = Done" using inv(3) Empty by (simp add: token_inv_def)
    obtain q' where q': "thpool_jobqueue_empty ?q = Inr q'" "jobN q' = 0"
      "owner_inv (p\<lparr>main := Destroyed, jobqueue := q'\<rparr>)"
      using jobqueue_empty_owner [OF inv(2) d] by blast
    let ?p = "p\<lparr>main := Destroyed, jobqueue := q'\<rparr>"
    have "r = Inr ?p" using assms(3) Empty q'(1) by (simp add: main_move_def Let_def)
    moreover have "mutex_inv ?p"
      using mutex_inv_main(1) [OF inv(1), of Destroyed] Empty mutex_inv_cong [of ?p "p\<lparr>main := Destroyed\<rparr>"] by simp
    moreover have "token_inv ?p" using inv(3) Empty d all_done [OF d] by (simp add: token_inv_def)
    ultimately show ?thesis using q'(3) by (simp add: pool_inv_def)
  next
    case Destroyed
    with assms(3) show ?thesis by (simp add: main_move_def Let_def)
  qed (use inv(3) in \<open>simp_all add: token_inv_def\<close>)
qed

section \<open>Runs\<close>

definition choice_ok :: "'f choice \<Rightarrow> 'f pool \<Rightarrow> bool" where
  "choice_ok c p = (case c of By_main cmd \<Rightarrow> command_ok cmd p | By_worker i \<Rightarrow> True)"

lemma pool_move_inv:
  assumes "pool_inv p" "choice_ok c p" "pool_move c p = Some r"
  shows "\<exists>p'. r = Inr p' \<and> pool_inv p' \<and> length (workers p') = length (workers p)"
proof (cases c)
  case (By_main cmd)
  then show ?thesis
    using main_move_inv [OF assms(1), of cmd r] assms(2,3) by (auto simp: choice_ok_def pool_move_def)
next
  case (By_worker i)
  then show ?thesis
    using worker_move_inv [OF assms(1), of i r] assms(3) by (auto simp: pool_move_def split: if_splits)
qed

inductive pool_reaches :: "'f pool \<Rightarrow> 'f pool \<Rightarrow> bool" where
  stay: "pool_reaches p p"
| move: "pool_reaches p p' \<Longrightarrow> choice_ok c p' \<Longrightarrow> pool_move c p' = Some (Inr p'') \<Longrightarrow> pool_reaches p p''"

lemma pool_init_inv:
  assumes "thpool_init n m1 m2 m3 h = Some p"
  shows "pool_inv p" "workers p = replicate (nat (max 1 n)) Test" "main p = Idle" "calls p = []"
    "waiting (jobqueue p) = []"
proof -
  have p: "p = \<lparr>workers = replicate (nat (max 1 n)) Test, main = Idle, pool_mutex = None,
       thpool_keepalive = True,
       jobqueue = \<lparr>job_heap = h, q_head = None, q_tail = None, jobN = 0, queueSem = 0\<rparr>, calls = []\<rparr>"
    using assms
    by (auto simp: thpool_init_def thpool_jobqueue_init_def Let_def max_def split: if_splits)
  have q: "queue_inv (jobqueue p)" "addrs (jobqueue p) = []"
    unfolding p by (simp_all add: queue_inv_def queue_rep_def addrs_def)
  have "mutex_inv p" unfolding p by (simp add: mutex_inv_def)
  moreover have "owner_inv p" using q unfolding owner_inv_def by (simp add: p)
  moreover have "token_inv p"
    unfolding p token_inv_def by (simp add: cnt_def filter_replicate)
  ultimately show "pool_inv p" by (simp add: pool_inv_def)
  show "workers p = replicate (nat (max 1 n)) Test" "main p = Idle" "calls p = []"
    "waiting (jobqueue p) = []"
    unfolding p by (simp_all add: waiting_def addrs_def)
qed

lemma reaches_inv: "pool_reaches p p' \<Longrightarrow> pool_inv p \<Longrightarrow> pool_inv p'"
  by (induction rule: pool_reaches.induct) (use pool_move_inv in fastforce)+

end
