(* ===== verification/PoolLiveness.thy ===== *)
theory PoolLiveness
  imports PoolRun
begin

text \<open>
  Liveness of the pool without time-out deletions: every move lowers a measure, a pool
  with work to do is never stuck, so waiting jobs are called and \<open>thpool_destroy\<close> returns,
  whatever the order in which the threads move.
\<close>

section \<open>The measure\<close>

fun weight :: "worker \<Rightarrow> nat" where
  "weight Woken = 6"
| "weight Lock = 5"
| "weight Take = 4"
| "weight (Unlock x) = 3"
| "weight (Run x) = 2"
| "weight Test = 1"
| "weight Wait = 0"
| "weight Done = 0"

fun main_weight :: "nat \<Rightarrow> main_pc \<Rightarrow> nat" where
  "main_weight n (Post k) = 8 * k + n + 3"
| "main_weight n (Join i) = (n - i) + 2"
| "main_weight n Empty = 1"
| "main_weight n _ = 0"

definition pool_measure :: "'f pool \<Rightarrow> nat" where
  "pool_measure p = 7 * queueSem (jobqueue p) + sum_list (map weight (workers p))
     + main_weight (length (workers p)) (main p)"

lemma weights_update:
  "i < length ws \<Longrightarrow> sum_list (map weight (ws[i := w])) + weight (ws ! i) = sum_list (map weight ws) + weight w"
  by (induction ws arbitrary: i) (auto split: nat.split)

lemma measure_goto:
  assumes "i < length (workers p)" "7 * queueSem (jobqueue p') + weight w < 7 * queueSem (jobqueue p) + weight (workers p ! i)"
    "workers p' = workers p" "main p' = main p"
  shows "pool_measure (goto i w p') < pool_measure p"
  using assms weights_update [OF assms(1), of w] by (simp add: pool_measure_def)

lemma removelast_sem:
  "thpool_jobqueue_removelast q = Inr (r, q') \<Longrightarrow> queueSem q' = queueSem q"
  by (auto simp: thpool_jobqueue_removelast_def split: if_splits)

lemma free_job_sem: "free_job a q = Inr q' \<Longrightarrow> queueSem q' = queueSem q"
  by (auto simp: free_job_def split: option.splits)

lemma worker_move_measure:
  assumes "i < length (workers p)" "worker_move i p = Some (Inr p')"
  shows "pool_measure p' < pool_measure p"
proof (cases "workers p ! i")
  case Take
  then obtain w q' where "p' = goto i w (p\<lparr>jobqueue := q'\<rparr>)" "weight w < 4" "queueSem q' = queueSem (jobqueue p)"
    using assms(2) removelast_sem
    by (fastforce simp: worker_move_def Let_def take_job_def)
  then show ?thesis using measure_goto [OF assms(1), of "p\<lparr>jobqueue := q'\<rparr>" w] Take by simp
next
  case (Run x)
  then obtain q' l where "p' = goto i Test (p\<lparr>jobqueue := q', calls := l\<rparr>)" "queueSem q' = queueSem (jobqueue p)"
    using assms(2) free_job_sem by (fastforce simp: worker_move_def Let_def)
  then show ?thesis using measure_goto [OF assms(1), of "p\<lparr>jobqueue := q', calls := l\<rparr>" Test] Run by simp
next
  case Wait
  then show ?thesis
    using assms measure_goto [OF assms(1), of "p\<lparr>jobqueue := (jobqueue p)\<lparr>queueSem := queueSem (jobqueue p) - 1\<rparr>\<rparr>" Woken]
    by (auto simp: worker_move_def Let_def split: if_splits)
next
  case Lock
  then show ?thesis
    using assms measure_goto [OF assms(1), of "p\<lparr>pool_mutex := Some (Worker i)\<rparr>" Take]
    by (auto simp: worker_move_def Let_def split: if_splits)
next
  case (Unlock x)
  then show ?thesis
    using assms measure_goto [OF assms(1), of "p\<lparr>pool_mutex := None\<rparr>" "Run x"]
    by (auto simp: worker_move_def Let_def)
next
  case Test
  then show ?thesis
    using assms measure_goto [OF assms(1), of p Wait] measure_goto [OF assms(1), of p Done]
    by (auto simp: worker_move_def Let_def split: if_splits)
next
  case Woken
  then show ?thesis
    using assms measure_goto [OF assms(1), of p Lock] measure_goto [OF assms(1), of p Done]
    by (auto simp: worker_move_def Let_def split: if_splits)
next
  case Done
  then show ?thesis using assms(2) by (simp add: worker_move_def Let_def)
qed

lemma empty_loop_sem: "empty_loop c q = Inr q' \<Longrightarrow> queueSem q' = queueSem q"
proof (induction c q rule: empty_loop.induct)
  case (1 c q)
  show ?case
  proof (cases "jobN q = 0")
    case True
    with "1.prems" show ?thesis by (simp add: empty_loop.simps)
  next
    case False
    then obtain a j where a: "c = Some a" "job_heap q a = Some j"
      using "1.prems" by (subst (asm) empty_loop.simps) (auto split: option.splits)
    have "empty_loop (job_prev j)
        (q\<lparr>q_tail := job_prev j, job_heap := (job_heap q)(a := None), jobN := jobN q - 1\<rparr>) = Inr q'"
      using "1.prems" False a by (subst (asm) empty_loop.simps) simp
    from "1.IH" [OF False a this] show ?thesis by simp
  qed
qed

lemma main_move_measure:
  assumes "closing (main p)" "main_move c p = Some (Inr p')"
  shows "pool_measure p' < pool_measure p" "closing (main p')"
proof -
  have "pool_measure p' < pool_measure p \<and> closing (main p')"
  proof (cases "main p")
    case (Post k)
    then show ?thesis
      using assms(2) by (cases k) (auto simp: main_move_def Let_def pool_measure_def)
  next
    case (Join i)
    then show ?thesis
      using assms(2) by (auto simp: main_move_def Let_def pool_measure_def split: if_splits)
  next
    case Empty
    then show ?thesis
      using assms(2)
      by (auto simp: main_move_def Let_def pool_measure_def thpool_jobqueue_empty_def
          dest: empty_loop_sem)
  qed (use assms in \<open>simp_all add: main_move_def Let_def\<close>)
  then show "pool_measure p' < pool_measure p" "closing (main p')" by simp_all
qed

section \<open>No deadlock\<close>

lemma worker_blocked:
  assumes "worker_move i p = None"
  shows "workers p ! i = Done \<or> workers p ! i = Wait \<and> queueSem (jobqueue p) = 0
         \<or> workers p ! i = Lock \<and> pool_mutex p \<noteq> None"
  using assms by (cases "workers p ! i") (auto simp: worker_move_def Let_def split: if_splits)

text \<open>When all workers are blocked and the main thread is outside its critical sections, none is at the mutex.\<close>

lemma blocked_workers:
  assumes "pool_inv p" "\<not> main_crit (main p)" "\<forall>i<length (workers p). worker_move i p = None"
    "i < length (workers p)"
  shows "workers p ! i = Done \<or> workers p ! i = Wait \<and> queueSem (jobqueue p) = 0"
proof (rule ccontr)
  assume "\<not> ?thesis"
  then have held: "pool_mutex p \<noteq> None" using worker_blocked assms(3,4) by blast
  have m: "mutex_inv p" using assms(1) by (simp add: pool_inv_def)
  have "pool_mutex p \<noteq> Some Main" using m assms(2) by (simp add: mutex_inv_def)
  then obtain j where j: "pool_mutex p = Some (Worker j)" using held by (metis option.exhaust thread.exhaust)
  then have jl: "j < length (workers p)" "in_crit (workers p ! j)"
    using m unfolding mutex_inv_def by blast+
  have "worker_move j p = None" using assms(3) jl(1) by blast
  from worker_blocked [OF this] jl(2) show False by auto
qed

lemma cnt_zero: "(\<And>i. i < length (workers p) \<Longrightarrow> \<not> P (workers p ! i)) \<Longrightarrow> cnt P p = 0"
  by (auto simp: cnt_def in_set_conv_nth filter_empty_conv)

lemma blocked_no_token:
  assumes "\<And>i. i < length (workers p) \<Longrightarrow> workers p ! i = Done \<or> workers p ! i = Wait \<and> queueSem (jobqueue p) = 0"
  shows "cnt has_token p = 0"
  by (rule cnt_zero) (use assms in fastforce)

lemma cnt_lt:
  assumes "i < length (workers p)" "\<not> P (workers p ! i)"
  shows "cnt P p < length (workers p)"
  using length_filter_less [of "workers p ! i" "workers p" P] assms by (simp add: cnt_def)

text \<open>During \<open>thpool_destroy\<close> some thread can always move.\<close>

lemma closing_not_stuck:
  assumes "pool_inv p" "closing (main p)" "main p \<noteq> Destroyed"
  shows "main_move c p \<noteq> None \<or> (\<exists>i<length (workers p). worker_move i p \<noteq> None)"
proof (rule ccontr)
  assume "\<not> ?thesis"
  then have main: "main_move c p = None" and w: "\<forall>i<length (workers p). worker_move i p = None"
    by auto
  obtain i where i: "main p = Join i" "i < length (workers p)" "workers p ! i \<noteq> Done"
    using main assms(2,3) by (cases "main p") (auto simp: main_move_def Let_def split: if_splits)
  have "\<not> main_crit (main p)" using i(1) by simp
  note b = blocked_workers [OF assms(1) this w]
  have sem: "queueSem (jobqueue p) = 0" using b [OF i(2)] i(3) by auto
  have tok: "cnt has_token p = 0" using b by (rule blocked_no_token)
  have "cnt (\<lambda>w. w = Done) p < length (workers p)" using cnt_lt [OF i(2), of "\<lambda>w. w = Done"] i(3) by simp
  then show False
    using assms(1) i(1) sem tok by (simp add: pool_inv_def token_inv_def)
qed

text \<open>While the pool runs, waiting jobs are taken: only an idle pool blocks all its workers.\<close>

lemma running_not_stuck:
  assumes "pool_inv p" "main p = Idle" "0 < length (workers p)" "\<forall>i<length (workers p). worker_move i p = None"
  shows "jobN (jobqueue p) = 0" "\<And>i. i < length (workers p) \<Longrightarrow> workers p ! i = Wait"
proof -
  have "\<not> main_crit (main p)" using assms(2) by simp
  note b = blocked_workers [OF assms(1) this assms(4)]
  have t: "queueSem (jobqueue p) + cnt has_token p = jobN (jobqueue p)" "cnt (\<lambda>w. w = Done) p = 0"
    using assms(1,2) by (simp_all add: pool_inv_def token_inv_def)
  have nd: "workers p ! i \<noteq> Done" if "i < length (workers p)" for i
    using cnt_pos [of i p "\<lambda>w. w = Done"] that t(2) by auto
  show "workers p ! i = Wait" if "i < length (workers p)" for i using b [OF that] nd [OF that] by blast
  have "queueSem (jobqueue p) = 0" using b [OF assms(3)] nd [OF assms(3)] by blast
  then show "jobN (jobqueue p) = 0" using t(1) blocked_no_token [OF b] by simp
qed

end
