(* ===== verification/PoolSchedules.thy ===== *)
theory PoolSchedules
  imports PoolLiveness "HOL-Library.Multiset"
begin

text \<open>
  Fair schedules: rounds in which every thread gets a turn. Enough rounds finish
  \<open>thpool_destroy\<close>, and enough rounds of the workers call every waiting job once.
\<close>

section \<open>Conservation of jobs\<close>

lemma sum_list_update_gen:
  fixes f :: "'a \<Rightarrow> 'b :: comm_monoid_add"
  assumes "i < length ws"
  shows "sum_list (map f (ws[i := w])) + f (ws ! i) = sum_list (map f ws) + f w"
proof -
  obtain a x b where "ws = a @ x # b" "ws ! i = x" "ws[i := w] = a @ w # b"
    using update_split [OF assms, of w] by metis
  then show ?thesis by (simp add: ac_simps)
qed

text \<open>The job a worker holds.\<close>

definition hand :: "'f heap \<Rightarrow> worker \<Rightarrow> 'f payload multiset" where
  "hand h w = (case holds w of Some (Some a) \<Rightarrow> (case contents h a of None \<Rightarrow> {#} | Some x \<Rightarrow> {#x#}) | _ \<Rightarrow> {#})"

lemma hand_free: "holds w = None \<Longrightarrow> hand h w = {#}"
  by (simp add: hand_def)

lemma hand_cong: "contents h' = contents h \<Longrightarrow> hand h' = hand h"
  by (rule ext) (simp add: hand_def split: option.split)

text \<open>All jobs: called, held by a worker, or waiting.\<close>

definition account :: "'f pool \<Rightarrow> 'f payload multiset" where
  "account p = mset (calls p) + sum_list (map (hand (job_heap (jobqueue p))) (workers p))
     + mset (waiting (jobqueue p))"

lemma account_goto:
  assumes "i < length (workers p)" "calls p' = calls p" "workers p' = workers p"
    "contents (job_heap (jobqueue p')) = contents (job_heap (jobqueue p))"
    "hand (job_heap (jobqueue p)) w + mset (waiting (jobqueue p'))
       = hand (job_heap (jobqueue p)) (workers p ! i) + mset (waiting (jobqueue p))"
  shows "account (goto i w p') = account p"
proof -
  let ?f = "hand (job_heap (jobqueue p))"
  have "sum_list (map ?f ((workers p)[i := w])) + ?f (workers p ! i) = sum_list (map ?f (workers p)) + ?f w"
    by (rule sum_list_update_gen [OF assms(1)])
  then have "sum_list (map ?f ((workers p)[i := w])) + mset (waiting (jobqueue p')) + ?f (workers p ! i)
      = sum_list (map ?f (workers p)) + (?f w + mset (waiting (jobqueue p')))"
    by (simp add: ac_simps)
  also have "\<dots> = sum_list (map ?f (workers p)) + mset (waiting (jobqueue p)) + ?f (workers p ! i)"
    unfolding assms(5) by (simp add: ac_simps)
  finally have "sum_list (map ?f ((workers p)[i := w])) + mset (waiting (jobqueue p'))
      = sum_list (map ?f (workers p)) + mset (waiting (jobqueue p))"
    by simp
  then show ?thesis
    using assms(2,3) hand_cong [OF assms(4)] by (simp add: account_def ac_simps)
qed

lemma account_run:
  assumes "owner_inv p" "i < length (workers p)" "workers p ! i = Run (Some a)"
    "job_heap (jobqueue p) a = Some j" "contents (job_heap q') = (contents (job_heap (jobqueue p)))(a := None)"
    "waiting q' = waiting (jobqueue p)"
  shows "account (goto i Test (p\<lparr>jobqueue := q', calls := calls p @ [payload_of j]\<rparr>)) = account p"
proof -
  let ?h = "job_heap (jobqueue p)"
  have own: "j = i" if "j < length (workers p)" "holds (workers p ! j) = Some (Some a)" for j
    using owner_invD [OF assms(1,2), of "Some a"] assms(3) that by auto
  have m: "map (hand (job_heap q')) ((workers p)[i := Test]) = map (hand ?h) ((workers p)[i := Test])"
  proof (rule nth_equalityI)
    fix k assume "k < length (map (hand (job_heap q')) ((workers p)[i := Test]))"
    then have k: "k < length (workers p)" by simp
    have "holds ((workers p)[i := Test] ! k) \<noteq> Some (Some a)"
      using own [OF k] k assms(2) by (cases "k = i") auto
    then have "hand (job_heap q') ((workers p)[i := Test] ! k) = hand ?h ((workers p)[i := Test] ! k)"
      using assms(5) by (auto simp: hand_def split: option.split)
    with k show "map (hand (job_heap q')) ((workers p)[i := Test]) ! k = map (hand ?h) ((workers p)[i := Test]) ! k"
      by simp
  qed simp
  have s: "sum_list (map (hand ?h) ((workers p)[i := Test])) + {#payload_of j#} = sum_list (map (hand ?h) (workers p))"
    using sum_list_update_gen [OF assms(2), of "hand ?h" Test] assms(3,4)
    by (simp add: hand_def contents_def)
  have "account (goto i Test (p\<lparr>jobqueue := q', calls := calls p @ [payload_of j]\<rparr>))
      = mset (calls p @ [payload_of j]) + sum_list (map (hand (job_heap q')) ((workers p)[i := Test]))
        + mset (waiting q')"
    by (simp add: account_def)
  also have "\<dots> = mset (calls p) + (sum_list (map (hand ?h) ((workers p)[i := Test])) + {#payload_of j#})
        + mset (waiting (jobqueue p))"
    unfolding m assms(6) by simp
  finally show ?thesis unfolding s by (simp add: account_def)
qed

lemma worker_move_account:
  assumes "pool_inv p" "i < length (workers p)" "worker_move i p = Some (Inr p')"
  shows "account p' = account p"
proof -
  have inv: "owner_inv p" "token_inv p" using assms(1) by (simp_all add: pool_inv_def)
  let ?q = "jobqueue p"
  show ?thesis
  proof (cases "workers p ! i")
    case Take
    have "0 < cnt at_work p" using cnt_pos [OF assms(2)] Take by simp
    then have n: "0 < jobN ?q" using inv(2) by (simp add: token_inv_def)
    obtain a q' where q': "take_job ?q = Inr (Some a, 0, q')"
      "waiting ?q = payload_of (the (job_heap q' a)) # waiting q'" "contents (job_heap q') = contents (job_heap ?q)"
      "owner_inv (goto i (Unlock (Some a)) (p\<lparr>jobqueue := q'\<rparr>))"
      using take_job_owner [OF inv(1) assms(2) n] Take by auto
    have p': "p' = goto i (Unlock (Some a)) (p\<lparr>jobqueue := q'\<rparr>)"
      using assms(3) Take q'(1) by (simp add: worker_move_def Let_def)
    have "job_heap q' a \<noteq> None"
      using owner_invD [OF q'(4), of i "Some a"] assms(2) by simp
    then have "hand (job_heap ?q) (Unlock (Some a)) = {#payload_of (the (job_heap q' a))#}"
      unfolding hand_cong [OF q'(3), symmetric] by (auto simp: hand_def contents_def)
    then show ?thesis
      unfolding p' using q'(2,3) Take by (intro account_goto [OF assms(2)]) (simp_all add: hand_free)
  next
    case (Run x)
    obtain a j q' where q': "x = Some a" "deref (job_heap ?q) x = Inr (a, j)" "free_job a ?q = Inr q'"
      "waiting q' = waiting ?q"
      using run_job_owner [OF inv(1) assms(2) Run] by blast
    have "job_heap ?q a = Some j" using q'(1,2) by (auto simp: deref_def split: option.splits)
    moreover have "contents (job_heap q') = (contents (job_heap ?q))(a := None)"
      using q'(3) by (auto simp: free_job_def split: option.splits)
    moreover have "p' = goto i Test (p\<lparr>jobqueue := q', calls := calls p @ [payload_of j]\<rparr>)"
      using assms(3) Run q'(2,3) by (simp add: worker_move_def Let_def)
    ultimately show ?thesis using account_run [OF inv(1) assms(2)] Run q'(1,4) by simp
  next
    case Wait
    then have "p' = goto i Woken (p\<lparr>jobqueue := ?q\<lparr>queueSem := queueSem ?q - 1\<rparr>\<rparr>)"
      using assms(3) by (auto simp: worker_move_def Let_def split: if_splits)
    then show ?thesis using Wait
      by (simp add: account_goto [OF assms(2)] hand_free waiting_def addrs_def)
  next
    case Lock
    then have "p' = goto i Take (p\<lparr>pool_mutex := Some (Worker i)\<rparr>)"
      using assms(3) by (auto simp: worker_move_def Let_def split: if_splits)
    then show ?thesis using Lock by (simp add: account_goto [OF assms(2)] hand_free)
  next
    case (Unlock x)
    then have "p' = goto i (Run x) (p\<lparr>pool_mutex := None\<rparr>)"
      using assms(3) by (auto simp: worker_move_def Let_def)
    then show ?thesis using Unlock by (simp add: account_goto [OF assms(2)] hand_def)
  next
    case Test
    then have "p' = goto i (if thpool_keepalive p then Wait else Done) p"
      using assms(3) by (auto simp: worker_move_def Let_def)
    then show ?thesis using Test by (simp add: account_goto [OF assms(2)] hand_free)
  next
    case Woken
    then have "p' = goto i (if thpool_keepalive p then Lock else Done) p"
      using assms(3) by (auto simp: worker_move_def Let_def)
    then show ?thesis using Woken by (simp add: account_goto [OF assms(2)] hand_free)
  next
    case Done
    with assms(3) show ?thesis by (simp add: worker_move_def Let_def)
  qed
qed

section \<open>Rounds of the workers\<close>

definition worker_round :: "nat \<Rightarrow> 'f choice list" where
  "worker_round n = map By_worker [0..<n]"

lemma run_pool_append: "run_pool (cs @ ds) p = and_then (run_pool cs p) (run_pool ds)"
  by (induction cs arbitrary: p) (auto simp: and_then_def split: option.split sum.split)

lemma run_workers:
  assumes "pool_inv p" "\<forall>c\<in>set cs. \<exists>i. c = By_worker i"
  shows "\<exists>p'. run_pool cs p = Inr p' \<and> pool_inv p' \<and> length (workers p') = length (workers p)
           \<and> main p' = main p \<and> account p' = account p
           \<and> (pool_measure p' < pool_measure p \<or> p' = p \<and> (\<forall>c\<in>set cs. pool_move c p = None))"
  using assms
proof (induction cs arbitrary: p)
  case (Cons c cs)
  obtain i where c: "c = By_worker i" using Cons.prems(2) by auto
  show ?case
  proof (cases "pool_move c p")
    case None
    then show ?thesis using Cons by auto
  next
    case (Some r)
    then have i: "i < length (workers p)" "worker_move i p = Some r"
      by (auto simp: c pool_move_def split: if_splits)
    obtain p1 where p1: "r = Inr p1" "pool_inv p1" "length (workers p1) = length (workers p)" "main p1 = main p"
      using worker_move_inv [OF Cons.prems(1) i] by blast
    have m: "pool_measure p1 < pool_measure p" "account p1 = account p"
      using worker_move_measure [OF i(1)] worker_move_account [OF Cons.prems(1) i(1)] i(2) p1(1) by auto
    obtain p' where "run_pool cs p1 = Inr p'" "pool_inv p'" "length (workers p') = length (workers p1)"
      "main p' = main p1" "account p' = account p1" "pool_measure p' \<le> pool_measure p1"
      using Cons.IH [OF p1(2)] Cons.prems(2) by auto
    then show ?thesis using Some p1 m by auto
  qed
qed simp

lemma drained:
  assumes "pool_inv p" "main p = Idle" "0 < length (workers p)" "\<forall>i<length (workers p). worker_move i p = None"
  shows "waiting (jobqueue p) = []" "mset (calls p) = account p" "\<forall>w\<in>set (workers p). w = Wait"
proof -
  have n: "jobN (jobqueue p) = 0" and w: "\<And>i. i < length (workers p) \<Longrightarrow> workers p ! i = Wait"
    using running_not_stuck [OF assms] by blast+
  show all: "\<forall>w\<in>set (workers p). w = Wait" using w by (auto simp: in_set_conv_nth)
  show wait: "waiting (jobqueue p) = []"
    using n length_waiting [of "jobqueue p"] assms(1) by (simp add: pool_inv_def owner_inv_def)
  have "sum_list (map (hand h) ws) = {#}" if "\<forall>w\<in>set ws. w = Wait" for h :: "'a heap" and ws
    using that by (induction ws) (simp_all add: hand_free)
  with all wait show "mset (calls p) = account p" by (simp add: account_def)
qed

lemma worker_rounds:
  assumes "pool_inv p" "main p = Idle" "0 < length (workers p)" "pool_measure p \<le> n"
  shows "\<exists>p'. run_pool (concat (replicate n (worker_round (length (workers p))))) p = Inr p'
           \<and> pool_inv p' \<and> main p' = Idle \<and> waiting (jobqueue p') = [] \<and> mset (calls p') = account p
           \<and> (\<forall>w\<in>set (workers p'). w = Wait)"
  using assms
proof (induction n arbitrary: p)
  case 0
  have blocked: "worker_move i p = None" if i: "i < length (workers p)" for i
  proof (cases "worker_move i p")
    case (Some r)
    then show ?thesis
      using worker_move_inv [OF "0.prems"(1) i] worker_move_measure [OF i] "0.prems"(4) by fastforce
  qed simp
  then show ?case using drained [OF "0.prems"(1-3)] "0.prems"(1,2) by simp
next
  case (Suc n)
  let ?r = "worker_round (length (workers p))"
  obtain p1 where p1: "run_pool ?r p = Inr p1" "pool_inv p1" "length (workers p1) = length (workers p)"
    "main p1 = main p" "account p1 = account p"
    "pool_measure p1 < pool_measure p \<or> p1 = p \<and> (\<forall>c\<in>set ?r. pool_move c p = None)"
    using run_workers [OF Suc.prems(1), of ?r] by (auto simp: worker_round_def)
  show ?case
  proof (cases "pool_measure p1 < pool_measure p")
    case True
    then have "pool_measure p1 \<le> n" using Suc.prems(4) by simp
    from Suc.IH [OF p1(2) _ _ this] show ?thesis
      using Suc.prems(2,3) p1(1,3,4,5) by (simp add: run_pool_append)
  next
    case False
    with p1(6) have same: "p1 = p" "\<forall>c\<in>set ?r. pool_move c p = None" by auto
    then have blocked: "worker_move i p = None" if "i < length (workers p)" for i
      using that by (auto simp: worker_round_def pool_move_def)
    have "run_pool (concat (replicate m ?r)) p = Inr p" for m
      using p1(1) same(1) by (induction m) (simp_all add: run_pool_append)
    then show ?thesis
      using drained [OF Suc.prems(1-3)] blocked Suc.prems(1,2) p1(1) same(1) by (simp add: run_pool_append)
  qed
qed

end
