(* ===== verification/PoolShutdown.thy ===== *)
theory PoolShutdown
  imports PoolSchedules
begin

text \<open>
  \<open>thpool_destroy\<close> returns under every fair schedule; and what goes wrong once
  \<open>delete_timeout_job\<close> has been called: a worker that returns holding the mutex, and a
  deletion that reads a job which a worker has freed.
\<close>

section \<open>Shutting down\<close>

text \<open>A round of \<open>n\<close> workers and \<open>main\<close>: each has a turn at least once, in any order.\<close>

definition fair_pool_round :: "nat \<Rightarrow> 'f choice list \<Rightarrow> bool" where
  "fair_pool_round n r \<longleftrightarrow> By_main Destroy \<in> set r \<and> (\<forall>i<n. By_worker i \<in> set r)
     \<and> (\<forall>c\<in>set r. c = By_main Destroy \<or> (\<exists>i. c = By_worker i))"

text \<open>The round in which each has one turn.\<close>

definition all_round :: "nat \<Rightarrow> 'f choice list" where
  "all_round n = By_main Destroy # worker_round n"

lemma fair_all_round: "fair_pool_round n (all_round n)"
  by (auto simp: fair_pool_round_def all_round_def worker_round_def)

lemma run_closing:
  assumes "pool_inv p" "closing (main p)" "\<forall>c\<in>set cs. c = By_main Destroy \<or> (\<exists>i. c = By_worker i)"
  shows "\<exists>p'. run_pool cs p = Inr p' \<and> pool_inv p' \<and> closing (main p') \<and> length (workers p') = length (workers p)
           \<and> (pool_measure p' < pool_measure p \<or> p' = p \<and> (\<forall>c\<in>set cs. pool_move c p = None))"
  using assms
proof (induction cs arbitrary: p)
  case (Cons c cs)
  have ok: "choice_ok c p" using Cons.prems(3) by (auto simp: choice_ok_def command_ok_def)
  show ?case
  proof (cases "pool_move c p")
    case None
    then show ?thesis using Cons by auto
  next
    case (Some r)
    obtain p1 where p1: "r = Inr p1" "pool_inv p1" "length (workers p1) = length (workers p)"
      using pool_move_inv [OF Cons.prems(1) ok Some] by blast
    have m: "pool_measure p1 < pool_measure p \<and> closing (main p1)"
    proof (cases c)
      case (By_main cmd)
      then show ?thesis
        using main_move_measure [OF Cons.prems(2), of cmd p1] Some p1(1) by (simp add: pool_move_def)
    next
      case (By_worker i)
      then have i: "i < length (workers p)" "worker_move i p = Some (Inr p1)"
        using Some p1(1) by (auto simp: pool_move_def split: if_splits)
      then show ?thesis
        using worker_move_measure [OF i] worker_move_inv [OF Cons.prems(1) i] Cons.prems(2) by auto
    qed
    then have cl: "closing (main p1)" by simp
    obtain p' where "run_pool cs p1 = Inr p'" "pool_inv p'" "closing (main p')"
      "length (workers p') = length (workers p1)" "pool_measure p' \<le> pool_measure p1"
      using Cons.IH [OF p1(2) cl] Cons.prems(3) by auto
    then show ?thesis using Some p1 m by auto
  qed
qed simp

lemma stuck_destroyed:
  assumes "pool_inv p" "closing (main p)" "fair_pool_round (length (workers p)) r" "\<forall>c\<in>set r. pool_move c p = None"
  shows "main p = Destroyed" "\<forall>w\<in>set (workers p). w = Done"
proof -
  have "pool_move (By_main Destroy) p = None" using assms(3,4) by (simp add: fair_pool_round_def)
  then have m: "main_move Destroy p = None" by (simp add: pool_move_def)
  have "pool_move (By_worker i) p = None" if "i < length (workers p)" for i
    using assms(3,4) that by (simp add: fair_pool_round_def)
  then have w: "worker_move i p = None" if "i < length (workers p)" for i
    using that by (simp add: pool_move_def)
  show d: "main p = Destroyed"
  proof (rule ccontr)
    assume "main p \<noteq> Destroyed"
    from closing_not_stuck [OF assms(1,2) this, of Destroy] m w show False by auto
  qed
  have "\<forall>j<length (workers p). workers p ! j = Done"
    using assms(1) d by (simp add: pool_inv_def token_inv_def)
  then show "\<forall>w\<in>set (workers p). w = Done" by (metis in_set_conv_nth)
qed

text \<open>A pool that has been destroyed stays as it is.\<close>

lemma destroyed_stays:
  assumes "main p = Destroyed" "\<forall>w\<in>set (workers p). w = Done"
    "\<forall>c\<in>set cs. c = By_main Destroy \<or> (\<exists>i. c = By_worker i)"
  shows "run_pool cs p = Inr p"
proof -
  have "workers p ! i = Done" if "i < length (workers p)" for i using assms(2) that by simp
  then have "pool_move c p = None" if "c = By_main Destroy \<or> (\<exists>i. c = By_worker i)" for c
    using that assms(1) by (auto simp: pool_move_def main_move_def worker_move_def Let_def)
  with assms(3) show ?thesis by (induction cs) simp_all
qed

lemma closing_rounds:
  assumes "pool_inv p" "closing (main p)" "\<forall>r\<in>set rounds. fair_pool_round (length (workers p)) r"
    "pool_measure p < length rounds"
  shows "\<exists>p'. run_pool (concat rounds) p = Inr p' \<and> main p' = Destroyed \<and> (\<forall>w\<in>set (workers p'). w = Done)"
  using assms
proof (induction rounds arbitrary: p)
  case (Cons r rounds)
  have r: "fair_pool_round (length (workers p)) r"
    "\<forall>c\<in>set (concat rounds). c = By_main Destroy \<or> (\<exists>i. c = By_worker i)"
    using Cons.prems(3) by (auto simp: fair_pool_round_def)
  then have "\<forall>c\<in>set r. c = By_main Destroy \<or> (\<exists>i. c = By_worker i)" by (simp add: fair_pool_round_def)
  then obtain p1 where p1: "run_pool r p = Inr p1" "pool_inv p1" "closing (main p1)"
    "length (workers p1) = length (workers p)"
    "pool_measure p1 < pool_measure p \<or> p1 = p \<and> (\<forall>c\<in>set r. pool_move c p = None)"
    using run_closing [OF Cons.prems(1,2), of r] by blast
  show ?case
  proof (cases "pool_measure p1 < pool_measure p")
    case True
    then have "pool_measure p1 < length rounds" using Cons.prems(4) by simp
    from Cons.IH [OF p1(2,3) _ this] show ?thesis using p1(1,4) Cons.prems(3) by (simp add: run_pool_append)
  next
    case False
    with p1(5) have same: "p1 = p" "\<forall>c\<in>set r. pool_move c p = None" by auto
    note d = stuck_destroyed [OF Cons.prems(1,2) r(1) same(2)]
    show ?thesis using destroyed_stays [OF d r(2)] d p1(1) same(1) by (simp add: run_pool_append)
  qed
qed simp

section \<open>A worker that returns with the mutex\<close>

text \<open>The state the pool cannot leave: the mutex is owned by a thread that has returned.\<close>

definition dead_mutex :: "'f pool \<Rightarrow> bool" where
  "dead_mutex p \<longleftrightarrow> (\<exists>i<length (workers p). pool_mutex p = Some (Worker i) \<and> workers p ! i = Done)
     \<and> (\<forall>i<length (workers p). \<not> in_crit (workers p ! i)) \<and> \<not> main_crit (main p)"

lemma dead_mutex_move:
  assumes "dead_mutex p" "pool_move c p = Some (Inr p')"
  shows "dead_mutex p'"
proof (cases c)
  case (By_main cmd)
  have "workers p' = workers p \<and> pool_mutex p' = pool_mutex p \<and> \<not> main_crit (main p')"
    using assms By_main
    by (cases "main p"; cases cmd)
      (auto simp: pool_move_def main_move_def Let_def dead_mutex_def split: if_splits option.splits)
  then show ?thesis using assms(1) by (simp add: dead_mutex_def)
next
  case (By_worker i)
  then have i: "i < length (workers p)" "worker_move i p = Some (Inr p')"
    using assms(2) by (auto simp: pool_move_def split: if_splits)
  have held: "pool_mutex p \<noteq> None" "\<not> in_crit (workers p ! i)" using assms(1) i(1) by (auto simp: dead_mutex_def)
  have "\<not> in_crit (workers p' ! i) \<and> workers p' = (workers p)[i := workers p' ! i] \<and> workers p ! i \<noteq> Done
      \<and> pool_mutex p' = pool_mutex p \<and> main p' = main p"
    using i held by (cases "workers p ! i") (auto simp: worker_move_def Let_def split: if_splits)
  then obtain w where w: "\<not> in_crit w" "workers p' = (workers p)[i := w]"
    and nd: "workers p ! i \<noteq> Done" and same: "pool_mutex p' = pool_mutex p" "main p' = main p"
    by blast
  obtain j where j: "j < length (workers p)" "pool_mutex p = Some (Worker j)" "workers p ! j = Done"
    using assms(1) by (auto simp: dead_mutex_def)
  have "j \<noteq> i" using j(3) nd by auto
  then have "\<exists>j<length (workers p'). pool_mutex p' = Some (Worker j) \<and> workers p' ! j = Done"
    using j w(2) same(1) by auto
  moreover have "\<forall>k<length (workers p'). \<not> in_crit (workers p' ! k)"
    using assms(1) w i(1) by (auto simp: dead_mutex_def nth_list_update)
  ultimately show ?thesis using assms(1) same(2) by (simp add: dead_mutex_def)
qed

lemma dead_mutex_run: "dead_mutex p \<Longrightarrow> run_pool cs p = Inr p' \<Longrightarrow> dead_mutex p'"
  by (induction cs arbitrary: p) (auto split: option.splits dest: dead_mutex_move)

text \<open>From then on no job is added and no worker gets past the mutex.\<close>

lemma dead_mutex_blocks:
  assumes "dead_mutex p"
  shows "main p = AddLock n \<Longrightarrow> pool_move (By_main cmd) p = None"
    "i < length (workers p) \<Longrightarrow> workers p ! i = Lock \<Longrightarrow> pool_move (By_worker i) p = None"
  using assms by (auto simp: dead_mutex_def pool_move_def main_move_def worker_move_def Let_def)

text \<open>
  How it comes about: a job expires before a worker wakes up, the deletion removes it but
  not its token, and the worker that gets the token finds an empty queue.
\<close>

definition submit_turns :: "nat \<Rightarrow> 'f \<Rightarrow> int \<Rightarrow> string \<Rightarrow> int \<Rightarrow> 'f choice list" where
  "submit_turns a f tm buf sock =
     By_main (Submit_work (Some a) f tm buf sock) # replicate 3 (By_main Destroy)"

definition expiry_schedule :: "'f \<Rightarrow> int \<Rightarrow> string \<Rightarrow> int \<Rightarrow> int \<Rightarrow> int \<Rightarrow> 'f choice list" where
  "expiry_schedule f tm buf sock now time_out =
     submit_turns 1 f tm buf sock
     @ By_main (Delete_timeout now time_out) # replicate 3 (By_main Destroy)
     @ replicate 5 (By_worker 0)"

definition two_workers :: "'f pool option" where
  "two_workers = thpool_init 2 True True True (\<lambda>_. None)"

lemma two_workers_eq:
  "two_workers = Some \<lparr>workers = [Test, Test], main = Idle, pool_mutex = None, thpool_keepalive = True,
     jobqueue = \<lparr>job_heap = \<lambda>_. None, q_head = None, q_tail = None, jobN = 0, queueSem = 0\<rparr>, calls = []\<rparr>"
  by (simp add: two_workers_def thpool_init_def thpool_jobqueue_init_def Let_def numeral_2_eq_2)

lemma two_workers_sel:
  "two_workers = Some p \<Longrightarrow> p = \<lparr>workers = [Test, Test], main = Idle, pool_mutex = None, thpool_keepalive = True,
     jobqueue = \<lparr>job_heap = \<lambda>_. None, q_head = None, q_tail = None, jobN = 0, queueSem = 0\<rparr>, calls = []\<rparr>"
  using two_workers_eq by (metis option.inject)

lemmas move_defs = pool_move_def main_move_def worker_move_def goto_def Let_def take_job_def
  thpool_jobqueue_removelast_def thpool_jobqueue_peek_def thpool_job_enqueue_def deref_def
  free_job_def new_job_def

lemma expiry_run:
  assumes "length buf = BUFFER_SIZE" "now - tm > time_out" "two_workers = Some p"
  shows "\<exists>p'. run_pool (expiry_schedule f tm buf sock now time_out) p = Inr p' \<and> dead_mutex p'"
  using assms(1,2) unfolding two_workers_sel [OF assms(3)]
  by (simp add: expiry_schedule_def submit_turns_def eval_nat_numeral
      move_defs timeout_loop.simps dead_mutex_def All_less_Suc)

section \<open>A deletion that reads freed memory\<close>

text \<open>
  \<open>delete_timeout_job\<close> reads the tail before it locks the mutex. A worker that takes, runs and
  frees that job in between leaves it with a dangling pointer. The six moves of the worker, from
  \<open>sem_wait\<close> to the end of its job:
\<close>

lemma worker_moves_pool:
  assumes "i < length (workers p)" "workers p ! i = Wait" "queueSem (jobqueue p) \<noteq> 0" "thpool_keepalive p"
    "pool_mutex p = None" "take_job (jobqueue p) = Inr (Some a, 0, q)" "job_heap q a = Some j" "free_job a q = Inr q'"
  shows "run_pool (replicate 6 (By_worker i)) p = Inr (p\<lparr>workers := (workers p)[i := Test],
    jobqueue := q'\<lparr>queueSem := queueSem q' - 1\<rparr>, calls := calls p @ [payload_of j]\<rparr>)"
proof -
  let ?q0 = "(jobqueue p)\<lparr>queueSem := queueSem (jobqueue p) - 1\<rparr>" and ?q1 = "q\<lparr>queueSem := queueSem q - 1\<rparr>"
  have sem: "queueSem q = queueSem (jobqueue p)" "queueSem q' = queueSem q"
    using assms(6,8) removelast_sem free_job_sem by (auto simp: take_job_def)
  have take: "take_job ?q0 = Inr (Some a, 0, ?q1)"
    using assms(6) sem(1)
    by (auto simp: take_job_def thpool_jobqueue_removelast_def thpool_jobqueue_peek_def split: if_splits)
  have free: "free_job a ?q1 = Inr (q'\<lparr>queueSem := queueSem q' - 1\<rparr>)"
    using assms(7,8) by (auto simp: free_job_def)
  show ?thesis
    using assms(1-5,7) take free
    by (simp add: eval_nat_numeral pool_move_def worker_move_def goto_def Let_def deref_def)
qed

text \<open>The schedule: the deletion up to the mutex, the worker's moves, the deletion.\<close>

definition race_schedule :: "int \<Rightarrow> int \<Rightarrow> nat \<Rightarrow> 'f choice list" where
  "race_schedule now time_out i =
     By_main (Delete_timeout now time_out) # replicate 6 (By_worker i) @ replicate 2 (By_main Destroy)"

lemma race_run:
  assumes "pool_inv p" "main p = Idle" "pool_mutex p = None" "i < length (workers p)" "workers p ! i = Wait"
    "queueSem (jobqueue p) \<noteq> 0" "waiting (jobqueue p) = x # y # ys"
  shows "run_pool (race_schedule now time_out i) p = Inl UseAfterFree"
proof -
  let ?q = "jobqueue p"
  have inv: "queue_inv ?q" "thpool_keepalive p"
    using assms(1,2) by (simp_all add: pool_inv_def owner_inv_def token_inv_def)
  obtain a j q q' where q: "take_job ?q = Inr (Some a, 0, q)" "job_heap q a = Some j" "free_job a q = Inr q'"
    "queue_inv q'" "waiting q' = y # ys"
    using take_job_next [OF inv(1) assms(7)] by blast
  have tail: "q_tail ?q = Some a" using q(1) by (auto simp: take_job_def thpool_jobqueue_peek_def)
  have gone: "job_heap q' a = None" "jobN q' \<noteq> 0"
    using q(2,3) length_waiting [OF q(4)] q(5) by (auto simp: free_job_def split: option.splits)
  let ?p1 = "p\<lparr>main := DelLock (Some a) now time_out\<rparr>" and ?q2 = "q'\<lparr>queueSem := queueSem q' - 1\<rparr>"
  let ?p2 = "?p1\<lparr>workers := (workers p)[i := Test], jobqueue := ?q2, calls := calls p @ [payload_of j]\<rparr>"
  have "pool_move (By_main (Delete_timeout now time_out)) p = Some (Inr ?p1)"
    using assms(2) tail by (simp add: pool_move_def main_move_def Let_def)
  moreover have "run_pool (replicate 6 (By_worker i)) ?p1 = Inr ?p2"
    using worker_moves_pool [of i ?p1 a q j q'] assms(3-6) inv(2) q(1-3) by simp
  moreover have "run_pool (replicate 2 (By_main Destroy)) ?p2 = Inl UseAfterFree"
    using assms(3) gone
    by (simp add: eval_nat_numeral pool_move_def main_move_def Let_def timeout_loop.simps)
  ultimately show ?thesis by (simp add: race_schedule_def run_pool_append)
qed

text \<open>A schedule in which every choice is in order at the state it meets keeps the invariant.\<close>

fun choices_ok :: "'f choice list \<Rightarrow> 'f pool \<Rightarrow> bool" where
  "choices_ok [] p = True"
| "choices_ok (c # cs) p = (choice_ok c p
     \<and> (case pool_move c p of
          None \<Rightarrow> choices_ok cs p
        | Some r \<Rightarrow> (case r of Inl e \<Rightarrow> True | Inr p \<Rightarrow> choices_ok cs p)))"

lemma choices_inv:
  "pool_inv p \<Longrightarrow> choices_ok cs p \<Longrightarrow> \<exists>p'. run_pool cs p = Inr p' \<and> pool_inv p'"
proof (induction cs arbitrary: p)
  case (Cons c cs)
  show ?case
  proof (cases "pool_move c p")
    case None
    then show ?thesis using Cons by simp
  next
    case (Some r)
    then show ?thesis using pool_move_inv [OF Cons.prems(1) _ Some] Cons by fastforce
  qed
qed simp

text \<open>Two submissions and one move of the first of two workers lead to a state in which the deletion can race.\<close>

definition race_start :: "'f \<Rightarrow> int \<Rightarrow> string \<Rightarrow> int \<Rightarrow> 'f choice list" where
  "race_start f tm buf sock = submit_turns 1 f tm buf sock @ submit_turns 2 f tm buf sock @ [By_worker 0]"

lemma race_state:
  assumes "two_workers = Some p" "length buf = BUFFER_SIZE"
  shows "\<exists>p'. run_pool (race_start f tm buf sock) p = Inr p' \<and> pool_inv p' \<and> main p' = Idle \<and> pool_mutex p' = None
     \<and> 0 < length (workers p') \<and> workers p' ! 0 = Wait \<and> queueSem (jobqueue p') \<noteq> 0 \<and> 2 \<le> length (waiting (jobqueue p'))"
proof -
  have "pool_inv p" using pool_init_inv [of 2 True True True "\<lambda>_. None" p] assms(1) by (simp add: two_workers_def)
  moreover have "choices_ok (race_start f tm buf sock) p"
    using assms(2) unfolding two_workers_sel [OF assms(1)]
    by (simp add: race_start_def submit_turns_def eval_nat_numeral move_defs choice_ok_def command_ok_def)
  ultimately obtain p' where p': "run_pool (race_start f tm buf sock) p = Inr p'" "pool_inv p'"
    using choices_inv by blast
  have c: "main p' = Idle" "pool_mutex p' = None" "0 < length (workers p')" "workers p' ! 0 = Wait"
    "queueSem (jobqueue p') \<noteq> 0" "jobN (jobqueue p') = 2"
    using p'(1) assms(2) unfolding two_workers_sel [OF assms(1)]
    by (auto simp: race_start_def submit_turns_def eval_nat_numeral move_defs)
  have "queue_inv (jobqueue p')" using p'(2) by (simp add: pool_inv_def owner_inv_def)
  then show ?thesis using length_waiting p' c by force
qed

end
