(* ===== verification/Samples.thy ===== *)
theory Samples
  imports ServerRun PoolShutdown
begin

text \<open>
  Concrete states and messages: a server with one connection, and the messages a client
  sends it. The witnesses of the properties are stated on them.
\<close>

section \<open>A server with one connection\<close>

definition sample_start :: server where
  "sample_start = start_state 4 (\<lambda>_. None)"

text \<open>192.168.0.7:5000 connects at time 100 and gets descriptor 5.\<close>

definition sample_accept :: accept_env where
  "sample_accept = \<lparr>ae_fd = 5, ae_errno = 0, ae_strerror = [], ae_getfl = 2, ae_setfl = 0, ae_rcvbuf = 0,
     ae_addr = 0x0700A8C0, ae_port = 5000, ae_mem = \<lambda>_. NUL, ae_now = 100, ae_ctl = 0\<rparr>"

definition sample_server :: server where
  "sample_server = projr (accept_iteration sample_accept sample_start)"

lemma count_users_init: "count_users init_epoll_connect = 0"
proof -
  have "\<not> live c" if "c \<in> set init_epoll_connect" for c
    using that by (auto simp: init_epoll_connect_eq live_def init_slot_def)
  then have "filter live init_epoll_connect = []" by (simp add: filter_empty_conv)
  then show ?thesis by (simp add: count_users_def)
qed

lemma sample_start_simps [simp]:
  "epoll_connect_client sample_start = init_epoll_connect" "current_connected_total sample_start = 0"
  "exit_flag sample_start = False" "exit_accept_flag sample_start = False"
  "listen_fd sample_start = -1" "io sample_start = []" "job_heap (thpool sample_start) = (\<lambda>_. None)"
  "waiting (thpool sample_start) = []"
  by (simp_all add: sample_start_def start_state_def empty_queue)

lemma sample_start_reachable: "reachable client_ok sample_start"
  unfolding sample_start_def by (rule reachable.start)

lemma sample_start_ok: "server_ok sample_start"
  unfolding sample_start_def by (rule start_state_ok)

lemma sample_accept_ok: "accept_env_ok sample_accept sample_start" "fd_unlisted sample_accept sample_start"
  by (simp_all add: accept_env_ok_def fd_unlisted_def conns_init sample_accept_def)

lemma sample_not_refused: "\<not> accept_refused sample_accept sample_start"
  by (simp add: accept_refused_def count_users_init sample_accept_def MAX_EVENTS_def)

lemma sample_peer: "accept_peer sample_accept = (100, inet_ntoa 0x0700A8C0, 5000)"
  by (simp add: accept_peer_def sample_accept_def)

lemma sample_server_facts:
  "accept_iteration sample_accept sample_start = Inr sample_server"
  "conns (epoll_connect_client sample_server) = [5 \<mapsto> accept_peer sample_accept]"
  "current_connected_total sample_server = 1" "waiting (thpool sample_server) = []"
proof -
  have inv: "server_inv sample_start" using sample_start_ok by (simp add: server_ok_def)
  have fd: "0 \<le> ae_fd sample_accept" "ae_fd sample_accept = 5" "ae_ctl sample_accept \<noteq> -1"
    by (simp_all add: sample_accept_def)
  have it: "accept_iteration sample_accept sample_start = accept_connection sample_accept sample_start"
    using fd(1) by (simp add: accept_iteration_def accept_returned_def accept_full_def MAX_EVENTS_def)
  obtain s' where s': "accept_connection sample_accept sample_start = Inr s'"
    "abs_of s' = (abs_of sample_start)\<lparr>a_conns := (conns init_epoll_connect)(5 \<mapsto> accept_peer sample_accept), a_total := 1\<rparr>"
    using accept_admitted_eq [OF inv sample_accept_ok(2) sample_not_refused fd(1)] fd by auto
  have e: "sample_server = s'" using s'(1) it by (simp add: sample_server_def)
  show "accept_iteration sample_accept sample_start = Inr sample_server" using it s'(1) e by simp
  have m: "(conns init_epoll_connect)(5 \<mapsto> accept_peer sample_accept) = [5 \<mapsto> accept_peer sample_accept]"
    by (rule ext) (simp add: conns_init)
  show "conns (epoll_connect_client sample_server) = [5 \<mapsto> accept_peer sample_accept]"
    "current_connected_total sample_server = 1" "waiting (thpool sample_server) = []"
    using s'(2) unfolding e m by (simp_all add: abs_of_def)
qed

lemma sample_server_reachable: "reachable client_ok sample_server"
  using reachable.step [OF sample_start_reachable] server_step.accept [OF _ sample_accept_ok(1) sample_server_facts(1)]
  by simp

lemma sample_server_ok: "server_ok sample_server"
  using sample_server_reachable by (rule reachable_ok)

lemma sample_inv [simp]:
  "server_inv sample_server" "conn_inv (epoll_connect_client sample_server)"
  "names_ok (epoll_connect_client sample_server)"
  using sample_server_ok by (simp_all add: server_ok_def server_inv_def)

text \<open>The connection is in slot 0.\<close>

lemma free_index_init: "get_epoll_connect_free_event_index init_epoll_connect = int 0"
proof -
  have "0 < length init_epoll_connect" "connect_fd (init_epoll_connect ! 0) = -1"
    by (simp_all add: init_epoll_connect_eq init_slot_def MAX_EVENTS_def)
  then show ?thesis unfolding get_epoll_connect_free_event_index_def scan_int_iff by simp
qed

lemma sample_table:
  "epoll_connect_client sample_server
   = init_epoll_connect[0 := fill_slot 100 5 (take 20 (client_ip sample_accept)) 5000 (init_slot zero_slot)]"
proof -
  have a: "accept_connection sample_accept sample_start = Inr sample_server"
    using sample_server_facts(1) by (simp add: accept_iteration_def accept_returned_def accept_full_def MAX_EVENTS_def sample_accept_def)
  have ip: "IP_ADDR_LENGTH \<le> length (client_ip sample_accept)"
    by (rule length_client_ip)
  have "(0::nat) < MAX_EVENTS" by (simp add: MAX_EVENTS_def)
  from init_epoll_connect_by_index_eq [OF conn_inv_init this ip, of 100 5 5000]
  have i: "init_epoll_connect_by_index 100 0 5 (client_ip sample_accept) 5000 init_epoll_connect
      = Inr (init_epoll_connect[0 := fill_slot 100 5 (take 20 (client_ip sample_accept)) 5000 (init_slot zero_slot)])"
    by (simp add: IP_ADDR_LENGTH_def init_epoll_connect_eq MAX_EVENTS_def)
  have nb: "set_non_blocking 2 0 5 = (1, [SetBlockOpt 5])" by (simp add: set_non_blocking_def)
  have e: "ae_fd sample_accept = 5" "ae_getfl sample_accept = 2" "ae_setfl sample_accept = 0"
    "ae_rcvbuf sample_accept = 0" "ae_port sample_accept = 5000" "ae_now sample_accept = 100" "ae_ctl sample_accept = 0"
    by (simp_all add: sample_accept_def)
  have p: "uint (5000 :: 16 word) = 5000" by simp
  have "accept_connection sample_accept sample_start = Inr s' \<Longrightarrow> epoll_connect_client s'
      = init_epoll_connect[0 := fill_slot 100 5 (take 20 (client_ip sample_accept)) 5000 (init_slot zero_slot)]" for s'
    unfolding accept_connection_def Let_def e nb p prod.case sample_start_simps emit_simps free_index_init on_table_def
    by (auto simp: i)
  then show ?thesis using a by blast
qed

lemma sample_slot:
  "0 < length (epoll_connect_client sample_server)"
  "user_key (UsrhashId (epoll_connect_client sample_server ! 0)) = []"
  "get_matched_event_index_by_fd 5 (epoll_connect_client sample_server) = int 0"
  "peer_of (epoll_connect_client sample_server ! 0) = (100, inet_ntoa 0x0700A8C0, 5000)"
proof -
  let ?t = "epoll_connect_client sample_server"
  show l: "0 < length ?t" unfolding sample_table by (simp add: init_epoll_connect_eq MAX_EVENTS_def)
  then have c: "?t ! 0 = fill_slot 100 5 (take 20 (client_ip sample_accept)) 5000 (init_slot zero_slot)"
    unfolding sample_table by simp
  show "user_key (UsrhashId (?t ! 0)) = []"
    unfolding c by (simp add: fill_slot_def init_slot_def zero_slot_def user_key_def)
  show "get_matched_event_index_by_fd 5 ?t = int 0"
    unfolding get_matched_event_index_by_fd_def scan_int_iff using l c by (simp add: fill_slot_def)
  have "arg_ok (accept_arg sample_accept)" by (rule accept_arg_ok)
  then have "cstr (take 20 (client_ip sample_accept)) = cstr (client_ip sample_accept)"
    by (intro cstr_take_terminated) (simp add: arg_ok_def accept_arg_def IP_ADDR_LENGTH_def)
  then show "peer_of (?t ! 0) = (100, inet_ntoa 0x0700A8C0, 5000)"
    unfolding c by (simp add: peer_of_def fill_slot_def) (simp add: sample_accept_def)
qed

lemma sample_count: "count_users (epoll_connect_client sample_server) = 1"
  using card_dom_conns [OF sample_inv(2)] by (simp add: sample_server_facts(2))

section \<open>Messages\<close>

text \<open>A message of a type, with its fields, in a receive buffer.\<close>

definition message :: "32 word \<Rightarrow> string \<Rightarrow> string" where
  "message ty body = put_header \<lparr>iMessageType = ty, iMessageLen = word_of_nat (8 + length body)\<rparr> @ body"

definition in_buffer :: "string \<Rightarrow> string" where
  "in_buffer m = m @ replicate (BUFFER_SIZE - length m) NUL"

lemma message_length [simp]: "length (message ty body) = 8 + length body"
  by (simp add: message_def)

lemma in_buffer_ok: "length m < BUFFER_SIZE \<Longrightarrow> 8 \<le> length m \<Longrightarrow> msg_ok (in_buffer m)"
  by (simp add: msg_ok_def in_buffer_def)

lemma msg_type_message: "msg_type (in_buffer (message ty body)) = ty"
  using hdr.dec_enc [of "\<lparr>iMessageType = ty, iMessageLen = word_of_nat (8 + length body)\<rparr>"]
  by (simp add: msg_type_def in_buffer_def message_def)

text \<open>A login body: an id of 10 bytes and a password of 7.\<close>

definition credentials :: "string \<Rightarrow> string \<Rightarrow> string" where
  "credentials u p = strncpy_bytes 10 u @ strncpy_bytes 7 p"

lemma login_fields:
  assumes "nulfree u" "nulfree p" "length u < 10" "length p < 7"
  shows "cstr (msg_userId (in_buffer (message ty (credentials u p)))) = u"
    "cstr (msg_passwd (in_buffer (message ty (credentials u p)))) = p"
    "fields_ok (in_buffer (message ty (credentials u p)))"
proof -
  have b: "in_buffer (message ty (credentials u p))
      = put_header \<lparr>iMessageType = ty, iMessageLen = word_of_nat (8 + 17)\<rparr>
        @ strncpy_bytes 10 u @ strncpy_bytes 7 p @ replicate (BUFFER_SIZE - 25) NUL"
    by (simp add: in_buffer_def message_def credentials_def)
  have t: "terminated (strncpy_bytes 10 u)" "terminated (strncpy_bytes 7 p)"
    using assms by (simp_all add: terminated_strncpy_bytes)
  have c: "cstr (strncpy_bytes 10 u) = u" "cstr (strncpy_bytes 7 p) = p"
    using assms by (simp_all add: cstr_strncpy_bytes)
  show u: "cstr (msg_userId (in_buffer (message ty (credentials u p)))) = u"
    unfolding b using t(1) c(1) by (simp add: msg_userId_def layout_defs cstr_append_terminated)
  show p: "cstr (msg_passwd (in_buffer (message ty (credentials u p)))) = p"
    unfolding b using t(2) c(2) by (simp add: msg_passwd_def layout_defs cstr_append_terminated)
  show "fields_ok (in_buffer (message ty (credentials u p)))"
    unfolding fields_ok_def u p using assms(3,4) by (simp add: layout_defs)
qed

definition sample_login :: string where
  "sample_login = message CMD_SENDUI (credentials ''alice'' ''secret'')"

lemma sample_login_facts:
  "length sample_login = 25" "msg_ok (in_buffer sample_login)" "msg_type (in_buffer sample_login) = CMD_SENDUI"
  "fields_ok (in_buffer sample_login)" "cstr (msg_userId (in_buffer sample_login)) = ''alice''"
proof -
  show l: "length sample_login = 25" by (simp add: sample_login_def credentials_def)
  show "msg_ok (in_buffer sample_login)" by (rule in_buffer_ok) (simp_all add: l BUFFER_SIZE_def)
  show "msg_type (in_buffer sample_login) = CMD_SENDUI" by (simp add: sample_login_def msg_type_message)
  show "fields_ok (in_buffer sample_login)" "cstr (msg_userId (in_buffer sample_login)) = ''alice''"
    using login_fields [of "''alice''" "''secret''" CMD_SENDUI] by (simp_all add: sample_login_def NUL_def)
qed

definition full_malloc :: "nat \<Rightarrow> string option" where
  "full_malloc n = Some (replicate n NUL)"

lemma full_malloc_works: "malloc_works full_malloc"
  by (simp add: malloc_works_def full_malloc_def)

text \<open>The login arrives on descriptor 5 at time 110.\<close>

definition sample_event :: ep_event where
  "sample_event = \<lparr>ev_fd = 5, ev_in = True, ev_recv = Recvd sample_login, ev_malloc = Some 1, ev_now = 110\<rparr>"

lemma thpool_accepts:
  "accept_connection e s = Inr s' \<Longrightarrow> thpool s' = thpool s"
  by (auto simp: accept_connection_def Let_def on_table_def split: if_splits prod.splits)

lemma sample_heap: "job_heap (thpool sample_server) = (\<lambda>_. None)"
proof -
  have "accept_connection sample_accept sample_start = Inr sample_server"
    using sample_server_facts(1) by (simp add: accept_iteration_def accept_returned_def accept_full_def MAX_EVENTS_def sample_accept_def)
  from thpool_accepts [OF this] show ?thesis by simp
qed

lemma sample_event_ok: "event_env_ok sample_event sample_server" "dump_fits sample_event" "client_ok sample_event"
proof -
  show "event_env_ok sample_event sample_server" "dump_fits sample_event"
    using sample_login_facts(1)
    by (simp_all add: event_env_ok_def dump_fits_def sample_event_def fresh_addr_def sample_heap BUFLEN_def)
  moreover have "job_msg (job_of sample_event sample_login) = in_buffer sample_login"
    by (simp add: job_msg_def job_of_def in_buffer_def)
  ultimately show "client_ok sample_event"
    using sample_login_facts(4) by (simp add: client_ok_def sample_event_def)
qed

section \<open>A server with a job\<close>

definition sample_job :: "func payload" where
  "sample_job = job_of sample_event sample_login"

definition sample_busy :: server where
  "sample_busy = projr (handle_event 0 sample_event sample_server)"

lemma sample_busy_facts:
  "handle_event 0 sample_event sample_server = Inr sample_busy" "server_inv sample_busy"
  "names_ok (epoll_connect_client sample_busy)"
  "waiting (thpool sample_busy) = [sample_job]"
  "conns (epoll_connect_client sample_busy) 5 = Some (110, inet_ntoa 0x0700A8C0, 5000)"
proof -
  obtain s' where s': "handle_event 0 sample_event sample_server = Inr s'" "event_done sample_event sample_server s'"
    using handle_event_correct [OF sample_inv(1) sample_event_ok(1,2)] by blast
  have e: "sample_busy = s'" using s'(1) by (simp add: sample_busy_def)
  show "handle_event 0 sample_event sample_server = Inr sample_busy" using s'(1) e by simp
  show "server_inv sample_busy" using s'(2) e by (simp add: event_done_def)
  show "names_ok (epoll_connect_client sample_busy)"
    using s'(2) e sample_inv(3) by (simp add: event_done_def names_ok_logins)
  have "length sample_login \<noteq> BUFLEN" by (simp add: sample_login_facts(1) BUFLEN_def)
  then have a: "abs_of sample_busy = (abs_of sample_server)
      \<lparr>a_conns := (a_conns (abs_of sample_server))(5 \<mapsto> touch 110 (accept_peer sample_accept)),
       a_jobs := [sample_job]\<rparr>"
    using s'(2) unfolding e event_done_def
    by (simp add: abs_event_def sample_event_def sample_server_facts(2,4) sample_job_def)
  show "waiting (thpool sample_busy) = [sample_job]"
    using arg_cong [OF a, of a_jobs] by simp
  show "conns (epoll_connect_client sample_busy) 5 = Some (110, inet_ntoa 0x0700A8C0, 5000)"
    using arg_cong [OF a, of "\<lambda>a. a_conns a 5"] by (simp add: touch_def sample_peer)
qed

lemma sample_job_facts:
  "job_msg sample_job = in_buffer sample_login" "job_sock sample_job = 5"
  by (simp_all add: sample_job_def job_msg_def job_sock_def job_of_def in_buffer_def sample_event_def)

text \<open>The same connection is dropped before a worker takes the job.\<close>

definition sample_gone :: server where
  "sample_gone = projr (handle_event 0 (sample_event\<lparr>ev_in := False, ev_malloc := None\<rparr>) sample_busy)"

lemma sample_gone_facts:
  "server_inv sample_gone" "waiting (thpool sample_gone) = [sample_job]"
  "conns (epoll_connect_client sample_gone) 5 = None"
proof -
  let ?e = "sample_event\<lparr>ev_in := False, ev_malloc := None\<rparr>"
  have "event_env_ok ?e sample_busy" "dump_fits ?e"
    using sample_event_ok by (simp_all add: event_env_ok_def dump_fits_def)
  then obtain s' where s': "handle_event 0 ?e sample_busy = Inr s'" "event_done ?e sample_busy s'"
    using handle_event_correct [OF sample_busy_facts(2)] by blast
  have e: "sample_gone = s'" using s'(1) by (simp add: sample_gone_def)
  show "server_inv sample_gone" using s'(2) e by (simp add: event_done_def)
  have a: "abs_of sample_gone = (abs_of sample_busy)
      \<lparr>a_conns := (a_conns (abs_of sample_busy))(5 := None), a_total := current_connected_total sample_busy - 1\<rparr>"
    using s'(2) unfolding e event_done_def by (simp add: abs_event_def sample_event_def)
  show "waiting (thpool sample_gone) = [sample_job]" "conns (epoll_connect_client sample_gone) 5 = None"
    using arg_cong [OF a, of a_jobs] arg_cong [OF a, of "\<lambda>a. a_conns a 5"] sample_busy_facts(4) by simp_all
qed

end
