(* ===== verification/Findings.thy ===== *)
theory Findings
  imports Samples
begin

text \<open>
  Lemmas about behaviours the source's own comments and texts do not lead one to expect:
  a user who has gone offline is still found, a new connection takes over the login of
  its slot, and a descriptor whose registration failed keeps its slot.
\<close>

section \<open>Users who have left\<close>

lemma user_lookup_logins:
  assumes "logins t' = logins t"
  shows "get_matched_event_index_by_UsrHashId u t' = get_matched_event_index_by_UsrHashId u t"
proof -
  have m: "map UsrhashId t' = map UsrhashId t"
    using arg_cong [OF assms, of "map fst"] by (simp add: logins_def o_def)
  have s: "scan_from (\<lambda>c. strncmp_eq 9 (UsrhashId c) u) i x = scan_from (\<lambda>v. strncmp_eq 9 v u) i (map UsrhashId x)" for i x
    by (induction x arbitrary: i) simp_all
  show ?thesis unfolding get_matched_event_index_by_UsrHashId_def scan_def s m by (simp only:)
qed

lemma freed_peer:
  assumes "conn_inv t" "k < length t" "free_event_by_index (int k) t = Inr t'"
  shows "conn_inv t'" "peer_of (t' ! k) = peer_of (t ! k)" "logins t' = logins t"
    "live (t ! k) \<Longrightarrow> conns t' (connect_fd (t ! k)) = None" "names_ok t \<Longrightarrow> names_ok t'"
proof -
  have k: "in_range (int k)" using assms(1,2) by (simp add: in_range_iff)
  have t': "t' = t[k := clear_slot (t ! k)]"
    using free_event_by_index_eq [OF assms(1), of "int k"] assms(3) k by simp
  show inv: "conn_inv t'" unfolding t' by (rule conn_inv_clear [OF assms(1,2)])
  show "peer_of (t' ! k) = peer_of (t ! k)" using assms(2) by (simp add: t' peer_of_def clear_slot_def)
  show l: "logins t' = logins t" by (rule logins_free [OF assms(1,3)])
  show "names_ok t \<Longrightarrow> names_ok t'" using l by (simp add: names_ok_logins)
  show "conns t' (connect_fd (t ! k)) = None" if "live (t ! k)"
    using conns_update_free [OF assms(1) inv [unfolded t'] assms(2)] that unfolding t' by simp
qed

lemma offline_found:
  assumes "conn_inv (epoll_connect_client s)" "names_ok (epoll_connect_client s)" "msg_ok recv" "accepts 276 ws"
    and "get_matched_event_index_by_UsrHashId (msg_userId recv) (epoll_connect_client s) = int k"
    and "peer_of (epoll_connect_client s ! k) = (tm, ip, port)"
    and "free_event_by_index (int k) (epoll_connect_client s) = Inr t'"
  shows "\<exists>es. handle_getremote ws sock recv (s\<lparr>epoll_connect_client := t'\<rparr>) = Inr (emit es (s\<lparr>epoll_connect_client := t'\<rparr>))
           \<and> remote_reads (sent_to sock es) 1 (inet_addr ip) (word_of_int port) (remote_info ip port)"
proof -
  let ?t = "epoll_connect_client s" and ?s = "s\<lparr>epoll_connect_client := t'\<rparr>"
  have k: "k < length ?t" using assms(5) by (simp add: matched_user_iff)
  note f = freed_peer [OF assms(1) k assms(7)]
  have "get_matched_event_index_by_UsrHashId (msg_userId recv) (epoll_connect_client ?s) = int k"
    using user_lookup_logins [OF f(3)] assms(5) by simp
  from handle_getremote_found [of ?s recv ws k tm ip port sock] this show ?thesis
    using f(1,2,5) assms(2,3,4,6) by auto
qed

section \<open>Slots taken over\<close>

lemma slot_taken_over:
  assumes "conn_inv t" "get_epoll_connect_free_event_index t = int k" "arg_ok a" "fd \<noteq> -1" "conns t fd = None"
    and "ins_conn (int k) fd a t = Inr t'"
  shows "live (t' ! k)" "connect_fd (t' ! k) = fd" "UsrhashId (t' ! k) = UsrhashId (t ! k)"
    "conn_passwd (t' ! k) = conn_passwd (t ! k)"
proof -
  obtain tm ip port where a: "a = (tm, ip, port)" by (cases a) blast
  have ne: "get_epoll_connect_free_event_index t \<noteq> -1" using assms(2) by simp
  obtain j where "get_epoll_connect_free_event_index t = int j" "j < length t"
    using free_index_found [OF ne] by blast
  with assms(2) have k: "k < length t" by simp
  then have "k < MAX_EVENTS" using assms(1) by (simp add: conn_inv_length)
  moreover have "IP_ADDR_LENGTH \<le> length ip" using assms(3) by (simp add: a arg_ok_def)
  ultimately have "t' = t[k := fill_slot tm fd (take IP_ADDR_LENGTH ip) port (t ! k)]"
    using init_epoll_connect_by_index_eq [OF assms(1)] assms(6) by (simp add: ins_conn_def a)
  then show "live (t' ! k)" "connect_fd (t' ! k) = fd" "UsrhashId (t' ! k) = UsrhashId (t ! k)"
    "conn_passwd (t' ! k) = conn_passwd (t ! k)"
    using k assms(4) by (simp_all add: fill_slot_def live_def)
qed

section \<open>Over-long logins\<close>

text \<open>A user list that shows an unterminated name cannot be printed.\<close>

lemma user_lines_unterminated:
  "c \<in> set t \<Longrightarrow> \<not> terminated (UsrhashId c) \<Longrightarrow> \<exists>e. user_lines t = Inl e"
proof (induction t)
  case (Cons d t)
  show ?case
  proof (cases "user_line d")
    case (Inr l)
    then have "d \<noteq> c" using Cons.prems(2) by (auto simp: user_line_def str_at_def split: if_splits)
    then show ?thesis using Cons Inr by auto
  qed simp
qed simp

lemma getremote_unterminated:
  assumes "c \<in> set (take 10 (epoll_connect_client s))" "\<not> terminated (UsrhashId c)"
  shows "\<exists>e. handle_getremote ws sock recv s = Inl e"
  using user_lines_unterminated [OF assms] by (auto simp: handle_getremote_def print_all_users_def Let_def)

lemma long_login:
  assumes "conn_inv (epoll_connect_client s)" "msg_ok recv" "length (cstr (msg_userId recv)) \<ge> 10"
    and "get_matched_event_index_by_fd sock (epoll_connect_client s) = int k" "k < 10"
  shows "\<exists>s'. handle_sendui sock recv s = Inr s'
           \<and> (\<forall>ws sock' recv'. \<exists>e. handle_getremote ws sock' recv' s' = Inl e)"
proof -
  let ?t = "epoll_connect_client s"
  let ?c = "logged_in recv (?t ! k)"
  have k: "k < length ?t"
    using assms(4) unfolding get_matched_event_index_by_fd_def by (simp add: scan_int_iff)
  have "\<not> terminated (UsrhashId ?c)"
    using assms(3) by (simp add: logged_in_def terminated_strncpy_bytes layout_defs)
  moreover have "?c \<in> set (take 10 (?t[k := ?c]))"
  proof -
    have "take 10 (?t[k := ?c]) ! k = ?c" "k < length (take 10 (?t[k := ?c]))" using k assms(5) by simp_all
    then show ?thesis by (metis nth_mem)
  qed
  ultimately show ?thesis
    using handle_sendui_ok [OF assms(1,2,4)] getremote_unterminated by auto
qed

end
