(* ===== verification/ClientCorrect.thy ===== *)
theory ClientCorrect
  imports Clients Findings
begin

text \<open>
  The clients against the server: what the Windows client sends is what the server's handlers
  read, its login can be looked up by another client, its receive buffer is too small for the
  server's first reply; and the Linux client speaks an older protocol.
\<close>

section \<open>The packets\<close>

text \<open>A string copied into a cleared field is the field \<open>strncpy\<close> would fill.\<close>

lemma strcpy_field:
  assumes "nulfree u" "length u < n" "length a = off"
  shows "strcpy_at off n (u @ [NUL]) (a @ replicate n NUL @ r) = Inr (a @ strncpy_bytes n u @ r)"
proof -
  have n: "n - length u = Suc (n - Suc (length u))" using assms(2) by simp
  have "take (length u + 1) (replicate n NUL @ r) = replicate (length u + 1) NUL"
    using assms(2) by simp
  moreover have "drop (off + length (u @ [NUL])) (a @ replicate n NUL @ r)
      = replicate (n - Suc (length u)) NUL @ r"
    using assms(2,3) by simp
  ultimately have "write_at off (u @ [NUL]) (a @ replicate n NUL @ r)
      = Inr (a @ (u @ [NUL]) @ replicate (n - Suc (length u)) NUL @ r)"
    using assms(2,3) by (simp add: write_at_def)
  moreover have "strncpy_bytes n u = (u @ [NUL]) @ replicate (n - Suc (length u)) NUL"
    using assms(1,2) n by (simp add: strncpy_bytes_def)
  ultimately show ?thesis using assms(1,2) by (simp add: strcpy_at_def)
qed

lemma clear_packet:
  assumes "512 \<le> length buf"
  shows "write_at 0 (replicate 512 NUL) buf = Inr (replicate 4 NUL @ replicate 4 NUL @ replicate 10 NUL
    @ replicate 7 NUL @ replicate 487 NUL @ drop 512 buf)"
  using assms by (simp add: write_at_def flip: append_assoc replicate_add)

lemma credentials_packet:
  assumes "512 \<le> length buf" "nulfree u" "length u < 10" "nulfree p" "length p < 7"
  shows "\<exists>b. ConstructSendUIPkt buf (u @ [NUL]) (p @ [NUL]) = Inr (b, 25) \<and> length b = length buf
      \<and> take 25 b = message CMD_SENDUI (credentials u p)"
    and "\<exists>b. ConstructGetRemotePkt buf (u @ [NUL]) (p @ [NUL]) = Inr (b, 25) \<and> length b = length buf
      \<and> take 25 b = message CMD_GETREMOTE (credentials u p)"
proof -
  have steps: "and_then (write_at 0 (replicate 512 NUL) buf) (\<lambda>b.
     and_then (write_at 0 (put32 ty) b) (\<lambda>b.
     and_then (strcpy_at 8 10 (u @ [NUL]) b) (\<lambda>b.
     and_then (strcpy_at 18 7 (p @ [NUL]) b) (\<lambda>b.
     and_then (write_at 4 (put32 25) b) (\<lambda>b. Inr (b, 25::nat))))))
     = Inr (put32 ty @ put32 25 @ strncpy_bytes 10 u @ strncpy_bytes 7 p @ replicate 487 NUL @ drop 512 buf, 25)"
    for ty
  proof -
    have a: "strcpy_at 8 10 (u @ [NUL]) (put32 ty @ replicate 4 NUL @ replicate 10 NUL @ replicate 7 NUL @ r)
        = Inr (put32 ty @ replicate 4 NUL @ strncpy_bytes 10 u @ replicate 7 NUL @ r)" for r
      using strcpy_field [OF assms(2,3), of "put32 ty @ replicate 4 NUL" 8 "replicate 7 NUL @ r"] by simp
    have b: "strcpy_at 18 7 (p @ [NUL]) (put32 ty @ replicate 4 NUL @ strncpy_bytes 10 u @ replicate 7 NUL @ r)
        = Inr (put32 ty @ replicate 4 NUL @ strncpy_bytes 10 u @ strncpy_bytes 7 p @ r)" for r
      using strcpy_field [OF assms(4,5), of "put32 ty @ replicate 4 NUL @ strncpy_bytes 10 u" 18 r] by simp
    show ?thesis
      by (simp only: clear_packet [OF assms(1)] and_then_simps write_at_front length_put32 length_replicate a b
          write_at_part)
  qed
  have m: "put32 ty @ put32 25 @ strncpy_bytes 10 u @ strncpy_bytes 7 p = message ty (credentials u p)" for ty
    by (simp add: message_def credentials_def put_header_def)
  have t: "take 25 (put32 ty @ put32 25 @ strncpy_bytes 10 u @ strncpy_bytes 7 p @ r) = message ty (credentials u p)"
    for ty r
    by (simp add: m [symmetric])
  show "\<exists>b. ConstructSendUIPkt buf (u @ [NUL]) (p @ [NUL]) = Inr (b, 25) \<and> length b = length buf
      \<and> take 25 b = message CMD_SENDUI (credentials u p)"
    using steps [of CMD_SENDUI] t assms(1)
    by (simp add: ConstructSendUIPkt_def layout_defs Let_def)
  show "\<exists>b. ConstructGetRemotePkt buf (u @ [NUL]) (p @ [NUL]) = Inr (b, 25) \<and> length b = length buf
      \<and> take 25 b = message CMD_GETREMOTE (credentials u p)"
    using steps [of CMD_GETREMOTE] t assms(1)
    by (simp add: ConstructGetRemotePkt_def layout_defs Let_def)
qed

section \<open>Serving a packet\<close>

lemma packet_in_buffer:
  assumes "nulfree u" "length u < 10" "nulfree p" "length p < 7"
  shows "msg_ok (in_buffer (message ty (credentials u p)))"
    "msg_type (in_buffer (message ty (credentials u p))) = ty"
    "user_key (msg_userId (in_buffer (message ty (credentials u p)))) = u"
proof -
  have "length (message ty (credentials u p)) = 25" by (simp add: credentials_def)
  then show "msg_ok (in_buffer (message ty (credentials u p)))"
    by (intro in_buffer_ok) (simp_all add: BUFFER_SIZE_def)
  show "msg_type (in_buffer (message ty (credentials u p))) = ty" by (rule msg_type_message)
  show "user_key (msg_userId (in_buffer (message ty (credentials u p)))) = u"
    using login_fields(1) [OF assms(1,3,2,4)] assms(2) by (simp add: user_key_def)
qed

lemma login_served:
  assumes "conn_inv (epoll_connect_client s)" "names_ok (epoll_connect_client s)" "sock \<noteq> -1"
    and "get_matched_event_index_by_fd sock (epoll_connect_client s) = int k"
    and "nulfree u" "length u < 10" "nulfree p" "length p < 7"
  obtains s' t' where
    "respons_stb_info ws mem \<lparr>recv_buffer = in_buffer (message CMD_SENDUI (credentials u p)), arg_fd = sock\<rparr> s = Inr s'"
    "epoll_connect_client s' = t'" "t' = (epoll_connect_client s)
        [k := logged_in (in_buffer (message CMD_SENDUI (credentials u p))) (epoll_connect_client s ! k)]"
    "conn_inv t'" "names_ok t'" "k < length t'"
    "cstr (UsrhashId (t' ! k)) = u" "cstr (conn_passwd (t' ! k)) = p"
    "peer_of (t' ! k) = peer_of (epoll_connect_client s ! k)"
proof -
  let ?m = "in_buffer (message CMD_SENDUI (credentials u p))"
  let ?t = "epoll_connect_client s"
  let ?t' = "?t[k := logged_in ?m (?t ! k)]"
  let ?s = "emit (command_prints sock ?m) s"
  note m = packet_in_buffer [OF assms(5-8), of CMD_SENDUI]
  note f = login_fields [OF assms(5,7,6,8), of CMD_SENDUI]
  have k: "k < length ?t"
    using assms(4) unfolding get_matched_event_index_by_fd_def by (simp add: scan_int_iff)
  have "respons_stb_info ws mem \<lparr>recv_buffer = ?m, arg_fd = sock\<rparr> s = handle_sendui sock ?m ?s"
    using respons_select [OF m(1) assms(3)] m(2) by (simp add: select_handler_def cmd_defs)
  moreover have "handle_sendui sock ?m ?s = Inr (emit [Print (''[SENDUI] '' @ cstr (drop 8 ?m) @ ''  login'' @ nl)]
      (?s\<lparr>epoll_connect_client := ?t'\<rparr>))"
    using handle_sendui_ok [of ?s ?m sock k] assms(1,4) m(1) by (simp add: emit_def)
  ultimately have r: "respons_stb_info ws mem \<lparr>recv_buffer = ?m, arg_fd = sock\<rparr> s
      = Inr (emit [Print (''[SENDUI] '' @ cstr (drop 8 ?m) @ ''  login'' @ nl)] (?s\<lparr>epoll_connect_client := ?t'\<rparr>))"
    by simp
  have names: "names_ok ?t'" using logged_in_names [OF assms(2) k] f(3) by (simp add: fields_ok_def)
  have "cstr (UsrhashId (?t' ! k)) = u" "cstr (conn_passwd (?t' ! k)) = p"
    using k f(1,2) assms(6,8) by (simp_all add: logged_in_def cstr_strncpy_bytes layout_defs)
  moreover have "peer_of (?t' ! k) = peer_of (?t ! k)"
    using k by (simp add: logged_in_def peer_of_def)
  ultimately show ?thesis
    using that [OF r _ HOL.refl logged_in_conns(1) [OF assms(1) k] names] k by (simp add: emit_def)
qed

lemma lookup_served:
  assumes "conn_inv (epoll_connect_client s)" "names_ok (epoll_connect_client s)" "sock \<noteq> -1" "accepts 276 ws"
    and "k < length (epoll_connect_client s)" "user_key (UsrhashId (epoll_connect_client s ! k)) = u"
    and "\<forall>j<k. user_key (UsrhashId (epoll_connect_client s ! j)) \<noteq> u"
    and "peer_of (epoll_connect_client s ! k) = (tm, inet_ntoa addr, port)"
    and "nulfree u" "length u < 10" "nulfree p" "length p < 7"
  shows "\<exists>es. respons_stb_info ws mem
        \<lparr>recv_buffer = in_buffer (message CMD_GETREMOTE (credentials u p)), arg_fd = sock\<rparr> s = Inr (emit es s)
    \<and> ack_flag (get_remote_ack (sent_to sock es)) = 1
    \<and> ack_ip (get_remote_ack (sent_to sock es)) = addr
    \<and> ack_port (get_remote_ack (sent_to sock es)) = word_of_int port"
proof -
  let ?m = "in_buffer (message CMD_GETREMOTE (credentials u p))"
  let ?s = "emit (command_prints sock ?m) s"
  note m = packet_in_buffer [OF assms(9-12), of CMD_GETREMOTE]
  have "respons_stb_info ws mem \<lparr>recv_buffer = ?m, arg_fd = sock\<rparr> s = handle_getremote ws sock ?m ?s"
    using respons_select [OF m(1) assms(3)] m(2) by (simp add: select_handler_def cmd_defs)
  moreover have "get_matched_event_index_by_UsrHashId (msg_userId ?m) (epoll_connect_client ?s) = int k"
    using assms(5-7) m(3) by (simp add: matched_user_iff emit_def)
  then obtain es where "handle_getremote ws sock ?m ?s = Inr (emit es ?s)"
    "remote_reads (sent_to sock es) 1 (inet_addr (inet_ntoa addr)) (word_of_int port) (remote_info (inet_ntoa addr) port)"
    using handle_getremote_found [of ?s ?m ws k tm "inet_ntoa addr" port sock] assms(1,2,4,8) m(1)
    by (auto simp: emit_def)
  ultimately show ?thesis
    by (intro exI [of _ "command_prints sock ?m @ es"]) (simp add: emit_def remote_reads_def inet_addr_ntoa)
qed

section \<open>The Linux client's messages\<close>

definition linux_login_bytes :: string where
  "linux_login_bytes = put32 0xfffe @ ''123456798WiGeWd'' @ [NUL]"

definition linux_handshake_bytes :: string where
  "linux_handshake_bytes = put32 0xfffc @ linux_greets @ [NUL]"

lemma length_linux_greets: "length linux_greets = 32"
  by (simp add: linux_greets_def)

lemma write_tail: "length a = off \<Longrightarrow> length s \<le> n \<Longrightarrow>
    write_at off s (a @ replicate n NUL) = Inr (a @ s @ replicate (n - length s) NUL)"
  by (simp add: write_at_def)

lemma linux_handshake_eq:
  "linux_handshake (replicate 1024 NUL) = Inr (linux_handshake_bytes @ replicate 987 NUL, 36)"
proof -
  have 1: "write_at 0 (put32 linux_CMD_HANDSHAKE) (replicate 1024 NUL) = Inr (put32 0xfffc @ replicate 1020 NUL)"
    using write_tail [of "[]" 0 "put32 0xfffc" 1024] by (simp add: linux_CMD_HANDSHAKE_def)
  have 2: "write_at 4 linux_greets (put32 0xfffc @ replicate 1020 NUL)
      = Inr (put32 0xfffc @ linux_greets @ replicate 988 NUL)"
    using write_tail [of "put32 0xfffc" 4 linux_greets 1020] by (simp add: length_linux_greets)
  have 3: "write_at 36 [NUL] (put32 0xfffc @ linux_greets @ replicate 988 NUL)
      = Inr (linux_handshake_bytes @ replicate 987 NUL)"
    using write_tail [of "put32 0xfffc @ linux_greets" 36 "[NUL]" 988]
    by (simp add: length_linux_greets linux_handshake_bytes_def)
  show ?thesis by (simp add: linux_handshake_def 1 2 3 length_linux_greets Let_def)
qed

lemma linux_login_eq:
  assumes "length b = 1024"
  shows "\<exists>b'. linux_login b = Inr (b', 19) \<and> take 20 b' = linux_login_bytes \<and> length b' = 1024"
proof -
  have 0: "write_at 0 (replicate 1024 NUL) b = Inr (replicate 1024 NUL)"
    using assms by (simp add: write_at_def)
  have 1: "write_at 0 (put32 linux_CMD_SENDUI) (replicate 1024 NUL) = Inr (put32 0xfffe @ replicate 1020 NUL)"
    using write_tail [of "[]" 0 "put32 0xfffe" 1024] by (simp add: linux_CMD_SENDUI_def)
  have 2: "write_at 4 (''123456798'' @ [NUL]) (put32 0xfffe @ replicate 1020 NUL)
      = Inr ((put32 0xfffe @ ''123456798'') @ replicate 1011 NUL)"
    using write_tail [of "put32 0xfffe" 4 "''123456798'' @ [NUL]" 1020]
    by (simp add: replicate_Suc [symmetric] del: replicate_Suc)
  have 3: "write_at 13 (''WiGeWd'' @ [NUL]) ((put32 0xfffe @ ''123456798'') @ replicate 1011 NUL)
      = Inr ((put32 0xfffe @ ''123456798WiGeWd'') @ replicate 1005 NUL)"
    using write_tail [of "put32 0xfffe @ ''123456798''" 13 "''WiGeWd'' @ [NUL]" 1011]
    by (simp add: replicate_Suc [symmetric] del: replicate_Suc)
  have 4: "write_at 19 [NUL] ((put32 0xfffe @ ''123456798WiGeWd'') @ replicate 1005 NUL)
      = Inr (linux_login_bytes @ replicate 1004 NUL)"
    using write_tail [of "put32 0xfffe @ ''123456798WiGeWd''" 19 "[NUL]" 1005]
    by (simp add: linux_login_bytes_def)
  have "linux_login b = Inr (linux_login_bytes @ replicate 1004 NUL, 19)"
    unfolding linux_login_def linux_credentials_def 0 and_then_simps 1 2 Let_def
    by (simp only: numeral_plus_numeral num.simps arith_simps 3 4 and_then_simps)
  then show ?thesis by (simp add: linux_login_bytes_def)
qed

text \<open>The session until the user quits, when nothing fails: two messages.\<close>

definition linux_quits :: "int \<Rightarrow> linux_env" where
  "linux_quits fd = \<lparr>lx_fd = fd, lx_connect = 0, lx_write1 = 37, lx_write2 = 20, lx_keys = [(CHR ''q'', 0)]\<rparr>"

lemma linux_session_eq:
  "\<exists>pr. connect_to_g_net port (linux_quits fd)
    = Inr (Some 0, [Connect fd G_NET_UPDATE_SERVER_ADDR port, Print pr, Send fd linux_handshake_bytes,
        Thread ''recv_thread'', Send fd linux_login_bytes])"
proof -
  let ?b = "linux_handshake_bytes @ replicate 987 NUL"
  have b: "length ?b = 1024" "take 37 ?b = linux_handshake_bytes" "take 37 linux_handshake_bytes = linux_handshake_bytes"
    by (simp_all add: linux_handshake_bytes_def length_linux_greets)
  obtain b' where l: "linux_login ?b = Inr (b', 19)" "take 20 b' = linux_login_bytes"
    using linux_login_eq [OF b(1)] by blast
  have l2: "take 20 linux_login_bytes = linux_login_bytes" by (simp add: linux_login_bytes_def)
  obtain x where x: "str_at 4 ?b = Inr x"
    by (simp add: str_at_def linux_handshake_bytes_def)
  obtain y where y: "str_at 0 ?b = Inr y"
    by (simp add: str_at_def linux_handshake_bytes_def)
  show ?thesis
    unfolding connect_to_g_net_def linux_quits_def linux_env.simps Let_def linux_handshake_eq
      and_then_simps prod.case x y l(1)
    using b(2,3) l(2) l2 by (simp add: sends_def)
qed

lemma linux_as_read:
  "msg_ok (in_buffer linux_handshake_bytes)" "msg_type (in_buffer linux_handshake_bytes) = CMD_GETREMOTE_ACK"
  "msg_ok (in_buffer linux_login_bytes)" "msg_type (in_buffer linux_login_bytes) = CMD_SENDUI"
  "cstr (msg_userId (in_buffer linux_login_bytes)) = ''56798WiGeWd''"
proof -
  show "msg_ok (in_buffer linux_handshake_bytes)" "msg_ok (in_buffer linux_login_bytes)"
    by (rule in_buffer_ok; simp add: linux_handshake_bytes_def linux_login_bytes_def length_linux_greets
        BUFFER_SIZE_def)+
  show "msg_type (in_buffer linux_handshake_bytes) = CMD_GETREMOTE_ACK"
    "msg_type (in_buffer linux_login_bytes) = CMD_SENDUI"
    by (simp_all add: msg_type_def get_header_def in_buffer_def linux_handshake_bytes_def linux_login_bytes_def
        cmd_defs)
  show "cstr (msg_userId (in_buffer linux_login_bytes)) = ''56798WiGeWd''"
    by (simp add: msg_userId_def layout_defs in_buffer_def linux_login_bytes_def BUFFER_SIZE_def cstr_Cons)
      (simp add: NUL_def)
qed

section \<open>The receive buffer of the Windows client\<close>

lemma cstr_take: "cstr (take n b) = take n (cstr b)"
proof (induction b arbitrary: n)
  case (Cons c b)
  then show ?case by (cases n) (simp_all add: cstr_Cons)
qed simp

lemma terminated_take:
  assumes "terminated b" "length (cstr b) < n"
  shows "terminated (take n b)"
proof (rule ccontr)
  assume "\<not> terminated (take n b)"
  then have "cstr (take n b) = take n b" by (simp add: nulfree_not_terminated [symmetric])
  then have "take n (cstr b) = take n b" by (simp add: cstr_take)
  moreover have "length (take n (cstr b)) = length (cstr b)" using assms(2) by simp
  moreover have "length (cstr b) < length b" using length_cstr_less [OF assms(1)] .
  ultimately show False using assms(2) by (metis length_take min_less_iff_conj nat_less_le)
qed

lemma recv_turn_overflow: "length recvBuf < length bytes \<Longrightarrow> recv_turn bytes recvBuf = Inl OutOfBounds"
  by (simp add: recv_turn_def write_at_def)

lemma recv_turn_handshake:
  assumes "length m = 264" "length recvBuf = 256" "iMessageType (get_header m) = CMD_HANDSHAKE_ACK"
    "str_at 8 m = Inr i" "length i < 248"
  shows "recv_turn (take 256 m) recvBuf = Inr (''[HANDSHAKE ACK] '' @ i @ nl, take 256 m)"
proof -
  have t: "terminated (drop 8 m)" "cstr (drop 8 m) = i" using assms(4) by (auto simp: str_at_def split: if_splits)
  have "write_at 0 (take 256 m) recvBuf = Inr (take 256 m)"
    using assms(1,2) by (simp add: write_at_def)
  moreover have "get_header (take 256 m) = get_header m"
    by (simp add: get_header_def get32_take drop_take)
  moreover have "str_at 8 (take 256 m) = Inr i"
    using t assms(5) terminated_take [of "drop 8 m" 248] by (simp add: str_at_def drop_take cstr_take)
  ultimately show ?thesis
    using assms(3) by (simp add: recv_turn_def show_reply_def layout_defs Let_def)
qed

section \<open>Properties\<close>

text \<open>C37. From client to client through the server: the login the Windows client sends is stored
  under the id and password it was built from, with every name of the table still terminated; and
  the request another client builds for that id is answered with the address and port the first
  one is connected from, provided no earlier slot has the same id.\<close>

theorem windows_login_and_lookup:
  assumes "conn_inv (epoll_connect_client s)" "names_ok (epoll_connect_client s)" "sock \<noteq> -1" "sock2 \<noteq> -1"
    and "get_matched_event_index_by_fd sock (epoll_connect_client s) = int k"
    and "peer_of (epoll_connect_client s ! k) = (tm, inet_ntoa addr, port)"
    and "\<forall>j<k. user_key (UsrhashId (epoll_connect_client s ! j)) \<noteq> u"
    and "nulfree u" "length u < 10" "nulfree p" "length p < 7" "nulfree p2" "length p2 < 7"
    and "512 \<le> length buf" "512 \<le> length buf2" "accepts 276 ws2"
  shows "\<exists>b b2 s' es. ConstructSendUIPkt buf (u @ [NUL]) (p @ [NUL]) = Inr (b, 25)
    \<and> respons_stb_info ws mem \<lparr>recv_buffer = in_buffer (take 25 b), arg_fd = sock\<rparr> s = Inr s'
    \<and> names_ok (epoll_connect_client s') \<and> cstr (UsrhashId (epoll_connect_client s' ! k)) = u
    \<and> cstr (conn_passwd (epoll_connect_client s' ! k)) = p
    \<and> ConstructGetRemotePkt buf2 (u @ [NUL]) (p2 @ [NUL]) = Inr (b2, 25)
    \<and> respons_stb_info ws2 mem \<lparr>recv_buffer = in_buffer (take 25 b2), arg_fd = sock2\<rparr> s' = Inr (emit es s')
    \<and> ack_flag (get_remote_ack (sent_to sock2 es)) = 1
    \<and> ack_ip (get_remote_ack (sent_to sock2 es)) = addr
    \<and> ack_port (get_remote_ack (sent_to sock2 es)) = word_of_int port"
proof -
  obtain b where b: "ConstructSendUIPkt buf (u @ [NUL]) (p @ [NUL]) = Inr (b, 25)"
    "take 25 b = message CMD_SENDUI (credentials u p)"
    using credentials_packet(1) [OF assms(14,8-11)] by blast
  obtain b2 where b2: "ConstructGetRemotePkt buf2 (u @ [NUL]) (p2 @ [NUL]) = Inr (b2, 25)"
    "take 25 b2 = message CMD_GETREMOTE (credentials u p2)"
    using credentials_packet(2) [OF assms(15,8,9,12,13)] by blast
  obtain s' t' where s': "respons_stb_info ws mem
      \<lparr>recv_buffer = in_buffer (message CMD_SENDUI (credentials u p)), arg_fd = sock\<rparr> s = Inr s'"
    "epoll_connect_client s' = t'" "t' = (epoll_connect_client s)
        [k := logged_in (in_buffer (message CMD_SENDUI (credentials u p))) (epoll_connect_client s ! k)]"
    "conn_inv t'" "names_ok t'" "k < length t'"
    "cstr (UsrhashId (t' ! k)) = u" "cstr (conn_passwd (t' ! k)) = p"
    "peer_of (t' ! k) = peer_of (epoll_connect_client s ! k)"
    by (rule login_served [OF assms(1,2,3,5,8-11)])
  have key: "user_key (UsrhashId (t' ! k)) = u" using s'(7) assms(9) by (simp add: user_key_def)
  have "\<forall>j<k. user_key (UsrhashId (t' ! j)) \<noteq> u" using assms(7) s'(3) by simp
  then obtain es where "respons_stb_info ws2 mem
      \<lparr>recv_buffer = in_buffer (message CMD_GETREMOTE (credentials u p2)), arg_fd = sock2\<rparr> s' = Inr (emit es s')"
    "ack_flag (get_remote_ack (sent_to sock2 es)) = 1" "ack_ip (get_remote_ack (sent_to sock2 es)) = addr"
    "ack_port (get_remote_ack (sent_to sock2 es)) = word_of_int port"
    using lookup_served [of s' sock2 ws2 k u tm addr port p2 mem] s' key assms(4,6,8,9,12,13,16) by auto
  then show ?thesis using b b2 s' by metis
qed

theorem windows_login_and_lookup_witness:
  "\<exists>b b2 s' es. ConstructSendUIPkt (replicate 1024 NUL) (''123456798'' @ [NUL]) (''WiGeWd'' @ [NUL]) = Inr (b, 25)
    \<and> respons_stb_info [] full_malloc \<lparr>recv_buffer = in_buffer (take 25 b), arg_fd = 5\<rparr> sample_server = Inr s'
    \<and> ConstructGetRemotePkt (replicate 1024 NUL) (''123456798'' @ [NUL]) (''CiGeWK'' @ [NUL]) = Inr (b2, 25)
    \<and> respons_stb_info [Wrote 276] full_malloc \<lparr>recv_buffer = in_buffer (take 25 b2), arg_fd = 6\<rparr> s' = Inr (emit es s')
    \<and> ack_ip (get_remote_ack (sent_to 6 es)) = 0x0700A8C0"
proof -
  have "accepts 276 [Wrote 276]" by (simp add: eval_nat_numeral)
  from windows_login_and_lookup [OF sample_inv(2,3) _ _ sample_slot(3,4) _ _ _ _ _ _ _ _ _ this,
      of 6 "''123456798''" "''WiGeWd''" "''CiGeWK''" "replicate 1024 NUL" "replicate 1024 NUL" "[]" full_malloc]
  show ?thesis by (simp add: NUL_def) blast
qed

text \<open>C38. The Linux client speaks an older protocol, with a header of four bytes and another code for
  the handshake: the server does not answer its handshake, and stores its login under an id without
  a terminator; when its connection has one of the first ten slots, every later request for a peer's
  address reads past that field.\<close>

theorem linux_client_breaks_server:
  assumes "conn_inv (epoll_connect_client s)" "sock \<noteq> -1"
    and "get_matched_event_index_by_fd sock (epoll_connect_client s) = int k" "k < 10"
  shows "\<exists>pr hs lg. connect_to_g_net port (linux_quits fd) = Inr (Some 0,
        [Connect fd G_NET_UPDATE_SERVER_ADDR port, Print pr, Send fd hs, Thread ''recv_thread'', Send fd lg])
    \<and> (\<exists>es. respons_stb_info ws mem \<lparr>recv_buffer = in_buffer hs, arg_fd = sock\<rparr> s = Inr (emit es s)
         \<and> sent_to sock es = [])
    \<and> (\<exists>s'. respons_stb_info ws mem \<lparr>recv_buffer = in_buffer lg, arg_fd = sock\<rparr> s = Inr s'
         \<and> (\<forall>ws' sock' recv'. \<exists>e. handle_getremote ws' sock' recv' s' = Inl e))"
proof -
  let ?lg = "in_buffer linux_login_bytes"
  let ?s = "emit (command_prints sock ?lg) s"
  obtain pr where pr: "connect_to_g_net port (linux_quits fd)
      = Inr (Some 0, [Connect fd G_NET_UPDATE_SERVER_ADDR port, Print pr, Send fd linux_handshake_bytes,
          Thread ''recv_thread'', Send fd linux_login_bytes])"
    using linux_session_eq by blast
  have hs: "respons_stb_info ws mem \<lparr>recv_buffer = in_buffer linux_handshake_bytes, arg_fd = sock\<rparr> s
      = Inr (emit (command_prints sock (in_buffer linux_handshake_bytes)) s)"
    using respons_select [OF linux_as_read(1) assms(2)] linux_as_read(2)
    by (simp add: select_handler_def cmd_defs)
  have "respons_stb_info ws mem \<lparr>recv_buffer = ?lg, arg_fd = sock\<rparr> s = handle_sendui sock ?lg ?s"
    using respons_select [OF linux_as_read(3) assms(2)] linux_as_read(4)
    by (simp add: select_handler_def cmd_defs)
  moreover obtain s' where "handle_sendui sock ?lg ?s = Inr s'"
    "\<forall>ws' sock' recv'. \<exists>e. handle_getremote ws' sock' recv' s' = Inl e"
    using long_login [of ?s ?lg sock k] assms(1,3,4) linux_as_read(3,5) by auto
  ultimately have "\<exists>s'. respons_stb_info ws mem \<lparr>recv_buffer = ?lg, arg_fd = sock\<rparr> s = Inr s'
      \<and> (\<forall>ws' sock' recv'. \<exists>e. handle_getremote ws' sock' recv' s' = Inl e)" by simp
  with pr hs show ?thesis
    by (intro exI [of _ pr] exI [of _ linux_handshake_bytes] exI [of _ linux_login_bytes] conjI) auto
qed

theorem linux_client_breaks_server_witness:
  "\<exists>pr hs lg s'. connect_to_g_net 8812 (linux_quits 3) = Inr (Some 0,
        [Connect 3 G_NET_UPDATE_SERVER_ADDR 8812, Print pr, Send 3 hs, Thread ''recv_thread'', Send 3 lg])
    \<and> respons_stb_info [] full_malloc \<lparr>recv_buffer = in_buffer lg, arg_fd = 5\<rparr> sample_server = Inr s'
    \<and> (\<forall>ws' sock' recv'. \<exists>e. handle_getremote ws' sock' recv' s' = Inl e)"
  using linux_client_breaks_server [OF sample_inv(2) _ sample_slot(3), of 8812 3 "[]" full_malloc] by auto

text \<open>C39. The reply to a handshake is longer than the Windows client's receive buffer: received in one
  piece it overflows \<open>recvBuf[256]\<close>, since \<open>recv\<close> is given the length 1024. When the network delivers
  its first 256 bytes alone, the client prints the address and port the server sees.\<close>

theorem handshake_reply_overflows_client:
  assumes "conn_inv (epoll_connect_client s)" "msg_ok recv" "accepts 264 ws" "length recvBuf = 256"
    and "conns (epoll_connect_client s) sock = Some (tm, ip, port)" "length (handshake_info ip port) < 248"
  shows "\<exists>es. handle_handshake ws sock recv s = Inr (emit es s)
    \<and> recv_turn (sent_to sock es) recvBuf = Inl OutOfBounds
    \<and> recv_turn (take 256 (sent_to sock es)) recvBuf
        = Inr (''[HANDSHAKE ACK] '' @ handshake_info ip port @ nl, take 256 (sent_to sock es))"
proof -
  obtain es where es: "handle_handshake ws sock recv s = Inr (emit es s)" "length (sent_to sock es) = 264"
    "get_header (sent_to sock es) = \<lparr>iMessageType = CMD_HANDSHAKE_ACK, iMessageLen = 264\<rparr>"
    "str_at 8 (sent_to sock es) = Inr (take 255 (handshake_info ip port))"
    using handle_handshake_ok [OF assms(1-3,5)] by blast
  have "take 255 (handshake_info ip port) = handshake_info ip port" using assms(6) by simp
  with es assms(4,6) show ?thesis
    by (intro exI [of _ es]) (simp add: recv_turn_overflow recv_turn_handshake)
qed

theorem handshake_reply_overflows_client_witness:
  "\<exists>es. handle_handshake [Wrote 264] 5 (in_buffer sample_login) sample_busy = Inr (emit es sample_busy)
    \<and> recv_turn (sent_to 5 es) (replicate 256 NUL) = Inl OutOfBounds"
proof -
  have "conn_inv (epoll_connect_client sample_busy)" using sample_busy_facts(2) by (simp add: server_inv_def)
  moreover have "accepts 264 [Wrote 264]" by (simp add: eval_nat_numeral)
  moreover have "length (handshake_info (inet_ntoa 0x0700A8C0) 5000) < 248"
    using inet_ntoa_length [of "0x0700A8C0"]
    by (simp add: handshake_info_def show_int_def show_nat.simps [of 5000] show_nat.simps [of 500]
        show_nat.simps [of 50] show_nat.simps [of 5])
  ultimately show ?thesis
    using handshake_reply_overflows_client [OF _ sample_login_facts(2) _ _ sample_busy_facts(5),
        of "[Wrote 264]" "replicate 256 NUL"] by auto
qed

end
