(* ===== verification/ClientSessions.thy ===== *)
theory ClientSessions
  imports Clients NetIO
begin

text \<open>
  The two test clients as programs: \<open>main\<close>, the receiving thread and the heartbeat thread of the
  Windows client (\<open>Win32ClientTest.cpp\<close>), and \<open>recv_thread\<close>, \<open>con_thread\<close> and \<open>main\<close> of the Linux
  client (\<open>JQClient.c\<close>). The answers of the system are arguments; a thread that is started is an
  effect of the one that starts it, and a definition of its own.
\<close>

section \<open>The threads of the Windows client\<close>

text \<open>
  \<open>recv_func\<close>, over what \<open>recv\<close> returns; it never ends, so the result is what it has printed and
  its buffer. Where \<open>recv\<close> fails or the server has closed the connection the buffer is cleared and
  \<open>recv\<close> called again.
\<close>

fun recv_func :: "recv_res list \<Rightarrow> string \<Rightarrow> (effect list \<times> string) result" where
  "recv_func [] recvBuf = Inr ([], recvBuf)"
| "recv_func (r # rs) recvBuf =
     (case r of
        Recvd (c # cs) \<Rightarrow>
          and_then (recv_turn (c # cs) recvBuf) (\<lambda>(p, b).
          and_then (recv_func rs b) (\<lambda>(es, b). Inr (Print p # es, b)))
      | _ \<Rightarrow> and_then (write_at 0 (replicate 256 NUL) recvBuf) (recv_func rs))"

text \<open>
  \<open>heartbeat_proc\<close>, over the answers of \<open>GetMessage\<close>: its return value and whether the message is
  \<open>WM_TIMER\<close>, which \<open>DispatchMessage\<close> hands to \<open>TimeProc\<close>. The loop ends at the return value 0.
\<close>

fun heartbeat_loop :: "int \<Rightarrow> (int \<times> bool) list \<Rightarrow> int option \<times> effect list" where
  "heartbeat_loop sock [] = (None, [])"
| "heartbeat_loop sock ((ret, timer) # msgs) =
     (if ret = 0 then (Some 0, [Kill_timer 10, Print (''Heartbeat thread end here'' @ nl)])
      else (case heartbeat_loop sock msgs of
              (r, es) \<Rightarrow> (r, (if timer then TimeProc sock else []) @ es)))"

definition heartbeat_proc :: "int \<Rightarrow> (int \<times> bool) list \<Rightarrow> int option \<times> effect list" where
  "heartbeat_proc sock msgs =
     (case heartbeat_loop sock msgs of (r, es) \<Rightarrow> (r, Set_timer 10 500 # es))"

section \<open>\<open>main\<close> of the Windows client\<close>

definition SRV_IPADDR :: string where "SRV_IPADDR = ''192.168.0.109''"
definition SRV_PORT :: int where "SRV_PORT = 8812"
definition COMMANDMAXC :: nat where "COMMANDMAXC = 256"
definition SOCKET_ERROR :: int where "SOCKET_ERROR = -1"

text \<open>
  How the program ends: \<open>main\<close> returns, \<open>ParseCommand\<close> exits, or \<open>gets_s\<close> ends the process at a
  line that does not fit; or it still waits for a line.
\<close>

datatype win_end = Win_returns int | Win_exits int | Win_aborts | Win_waits

text \<open>The loop over the lines the user types, each with what \<open>send\<close> would return for it.\<close>

fun command_loop :: "int \<Rightarrow> (string \<times> int) list \<Rightarrow> (win_end \<times> effect list) result" where
  "command_loop sock [] = Inr (Win_waits, [])"
| "command_loop sock ((line, n) # lines) =
     (if COMMANDMAXC \<le> length line then Inr (Win_aborts, [])
      else
        and_then (ParseCommand (line @ [NUL])) (\<lambda>r.
          case r of
            Exited \<Rightarrow> Inr (Win_exits 0, [Close sock, Wsa_cleanup])
          | Sent pkt es \<Rightarrow>
              and_then (command_loop sock lines) (\<lambda>(r, es'). Inr (r, es @ sends sock n pkt @ es'))
          | _ \<Rightarrow> command_loop sock lines))"

text \<open>
  The answers: \<open>WSAStartup\<close> and the version it reports (low byte, high byte), the socket,
  \<open>connect\<close>, the two \<open>send\<close>s, \<open>setsockopt\<close>, \<open>WSAIoctl\<close>, the error codes and the lines.
\<close>

record win_env =
  we_startup :: int
  we_version :: "nat \<times> nat"
  we_sock :: int
  we_connect :: int
  we_send1 :: int
  we_send2 :: int
  we_keepalive :: int
  we_ioctl :: int
  we_error :: int
  we_lines :: "(string \<times> int) list"

definition win_greets :: string where
  "win_greets = ''Hello JQServer! I'' @ [CHR 0x27] @ ''m windows client''"

definition win_userId :: string where "win_userId = ''123456798''"
definition win_passwd :: string where "win_passwd = ''WiGeWd''"

text \<open>From the connection to the second message; both are built in the same buffer.\<close>

definition win_hello :: "win_env \<Rightarrow> effect list result" where
  "win_hello env =
     (let sock = we_sock env in
      and_then (ConstructHandShakePkt (replicate 1024 NUL) (win_greets @ [NUL])) (\<lambda>(b, pktlen).
      let es = Connect sock SRV_IPADDR SRV_PORT
                 # (if we_connect env = SOCKET_ERROR then [Print (''Socket error'' @ nl)] else [])
                 @ Print (''Send handshake!'' @ nl) # sends sock (we_send1 env) (take pktlen b)
                 @ [Thread ''recv_func'', Sleep_ms 5] in
      and_then (ConstructSendUIPkt b (win_userId @ [NUL]) (win_passwd @ [NUL])) (\<lambda>(b, pktlen).
        Inr (es @ [Print (''Send user info'' @ nl), Print (''Send len '' @ show_int (int pktlen) @ nl)]
             @ (if we_send2 env = SOCKET_ERROR then [Print (''Error code: '' @ show_int (we_error env))]
                else sends sock (we_send2 env) (take pktlen b))
             @ [Print (''sockfd: '' @ show_int sock @ nl)]))))"

definition win_main :: "win_env \<Rightarrow> (win_end \<times> effect list) result" where
  "win_main env =
     (let sock = we_sock env in
      if we_startup env \<noteq> 0 then Inr (Win_returns (-1), [])
      else if fst (we_version env) \<noteq> 1 \<or> snd (we_version env) \<noteq> 1 then Inr (Win_returns (-1), [Wsa_cleanup])
      else
        and_then (win_hello env) (\<lambda>es.
          if we_keepalive env = SOCKET_ERROR then
            Inr (Win_returns 0, es @ [Print (''setsockopt failed: '' @ show_int (we_error env) @ nl)])
          else
            let es = es @ [SockOpt sock ''SO_KEEPALIVE'' 1] in
            if we_ioctl env = SOCKET_ERROR then
              Inr (Win_returns 0, es @ [Print (''WSAIoctl failed: '' @ show_int (we_error env) @ nl)])
            else
              and_then (command_loop sock (we_lines env)) (\<lambda>(r, es').
                Inr (r, es @ Ioctl sock ''SIO_KEEPALIVE_VALS'' [1, 500, 5000] # Thread ''heartbeat_proc'' # es'))))"

section \<open>The Linux client\<close>

text \<open>
  \<open>recv_thread\<close>, over what \<open>recv\<close> returns: it ends at an error, and calls \<open>recv\<close> again where the
  server has closed the connection. The flag says whether it has ended.
\<close>

fun linux_recv_loop :: "recv_res list \<Rightarrow> string \<Rightarrow> (bool \<times> effect list) result" where
  "linux_recv_loop [] rbuf = Inr (False, [])"
| "linux_recv_loop (r # rs) rbuf =
     (case r of
        RecvErr \<Rightarrow> Inr (True, [Print (''exit recv_thread '' @ nl)])
      | Recvd bs \<Rightarrow>
          (if 0 < length bs then
             and_then (linux_recv_turn bs rbuf) (\<lambda>(b, e).
             and_then (linux_recv_loop rs b) (\<lambda>(r, es). Inr (r, e # es)))
           else linux_recv_loop rs rbuf))"

definition recv_thread :: "recv_res list \<Rightarrow> (bool \<times> effect list) result" where
  "recv_thread rs = linux_recv_loop rs (replicate 2048 NUL)"

text \<open>
  A number of sessions one after the other; \<open>env\<close> gives the answers of each. The flag says whether
  they have all ended.
\<close>

fun connect_times :: "nat \<Rightarrow> (nat \<Rightarrow> linux_env) \<Rightarrow> int \<Rightarrow> (bool \<times> effect list) result" where
  "connect_times 0 env port = Inr (True, [])"
| "connect_times (Suc n) env port =
     and_then (connect_to_g_net port (env 0)) (\<lambda>(r, es).
       if r = None then Inr (False, es)
       else and_then (connect_times n (env \<circ> Suc) port) (\<lambda>(r', es'). Inr (r', es @ es')))"

definition TRY_CONNECT_TIMES :: nat where "TRY_CONNECT_TIMES = 1"
definition linux_port :: int where "linux_port = 8812"

definition con_thread :: "(nat \<Rightarrow> linux_env) \<Rightarrow> (bool \<times> effect list) result" where
  "con_thread env = connect_times (200 * TRY_CONNECT_TIMES) env linux_port"

definition linux_main :: "(nat \<Rightarrow> linux_env) \<Rightarrow> (int option \<times> effect list) result" where
  "linux_main env =
     and_then (connect_times 1 env linux_port) (\<lambda>(r, es). Inr (if r then Some 0 else None, es))"

end
