(* ===== verification/Runs.thy ===== *)
theory Runs
  imports Prelude
begin

text \<open>
  Runs of a program that is given as a function of one operation: the operations one after the
  other, stopping at the first error. The locales say when all runs return and what they refine.
\<close>

fun run_steps :: "('m \<Rightarrow> 's \<Rightarrow> 's result) \<Rightarrow> 'm list \<Rightarrow> 's \<Rightarrow> 's result" where
  "run_steps step [] s = Inr s"
| "run_steps step (m # ms) s = and_then (step m s) (run_steps step ms)"

text \<open>Every operation is judged in the state it finds.\<close>

fun steps_ok :: "('m \<Rightarrow> 's \<Rightarrow> 's result) \<Rightarrow> ('m \<Rightarrow> 's \<Rightarrow> bool) \<Rightarrow> 'm list \<Rightarrow> 's \<Rightarrow> bool" where
  "steps_ok step ok [] s = True"
| "steps_ok step ok (m # ms) s =
     (ok m s \<and> (case step m s of Inl _ \<Rightarrow> True | Inr s' \<Rightarrow> steps_ok step ok ms s'))"

fun_cases run_steps_ConsE: "run_steps step (m # ms) s = Inr s'"

lemma run_steps_append: "run_steps step (ms @ ns) s = and_then (run_steps step ms s) (run_steps step ns)"
  by (induction ms arbitrary: s) (simp_all add: and_then_def split: sum.split)

lemma steps_ok_append:
  "steps_ok step ok (ms @ ns) s \<longleftrightarrow>
     steps_ok step ok ms s \<and> (\<forall>s'. run_steps step ms s = Inr s' \<longrightarrow> steps_ok step ok ns s')"
proof (induction ms arbitrary: s)
  case (Cons m ms)
  then show ?case by (cases "step m s") auto
qed simp

text \<open>Contracts may be exchanged where an invariant makes one follow from the other.\<close>

lemma steps_ok_weaken:
  assumes "I s" "steps_ok step ok ms s"
    and "\<And>m s. I s \<Longrightarrow> ok m s \<Longrightarrow> ok' m s"
    and "\<And>m s s'. I s \<Longrightarrow> ok m s \<Longrightarrow> step m s = Inr s' \<Longrightarrow> I s'"
  shows "steps_ok step ok' ms s"
  using assms(1,2) by (induction ms arbitrary: s) (auto intro: assms(3,4) split: sum.splits)

text \<open>Operations that never fail and keep an invariant.\<close>

locale safe_steps =
  fixes inv :: "'s \<Rightarrow> bool"
    and step :: "'m \<Rightarrow> 's \<Rightarrow> 's result"
    and ok :: "'m \<Rightarrow> 's \<Rightarrow> bool"
  assumes step_safe: "inv s \<Longrightarrow> ok m s \<Longrightarrow> \<exists>s'. step m s = Inr s' \<and> inv s'"
begin

lemma run_safe: "inv s \<Longrightarrow> steps_ok step ok ms s \<Longrightarrow> \<exists>s'. run_steps step ms s = Inr s' \<and> inv s'"
proof (induction ms arbitrary: s)
  case (Cons m ms)
  then obtain s1 where "step m s = Inr s1" "inv s1" using step_safe [of s m] by auto
  with Cons show ?case by auto
qed simp

text \<open>A run that went through left the invariant.\<close>

lemma run_keeps:
  assumes "inv s" "steps_ok step ok ms s" "run_steps step ms s = Inr s'"
  shows "inv s'"
  using run_safe [OF assms(1,2)] assms(3) by auto

end

text \<open>Operations that implement the operations of an abstract state.\<close>

locale refining_steps = safe_steps +
  fixes view :: "'s \<Rightarrow> 'a"
    and astep :: "'m \<Rightarrow> 'a \<Rightarrow> 'a"
  assumes step_refines: "inv s \<Longrightarrow> ok m s \<Longrightarrow> step m s = Inr s' \<Longrightarrow> view s' = astep m (view s)"
begin

lemma run_refines:
  "inv s \<Longrightarrow> steps_ok step ok ms s \<Longrightarrow>
     \<exists>s'. run_steps step ms s = Inr s' \<and> inv s' \<and> view s' = fold astep ms (view s)"
proof (induction ms arbitrary: s)
  case (Cons m ms)
  then have m: "ok m s" by simp
  obtain s1 where s1: "step m s = Inr s1" "inv s1" using step_safe [OF Cons.prems(1) m] by blast
  have "steps_ok step ok ms s1" using Cons.prems(2) s1(1) by simp
  from Cons.IH [OF s1(2) this] show ?case
    using s1(1) step_refines [OF Cons.prems(1) m s1(1)] by simp
qed simp

end

end
