(* ===== verification/SystemRun.thy ===== *)
theory SystemRun
  imports ServerRun Runs
begin

text \<open>
  The whole server as a program over a schedule: the turns of its threads (an iteration of the
  accept thread, of \<open>main\<close>'s loop, of a worker, a signal) in any order, run one after the other. The
  run refines an abstract server that knows the connections, the waiting jobs, the count, the time
  of the last recycling and whether the server is ending.
\<close>

section \<open>The program\<close>

datatype turn =
    Opening int listen_env
  | Accepting accept_env
  | Looping loop_env
  | Working "write_res list" "nat \<Rightarrow> string option"
  | Caught int

text \<open>
  \<open>Opening\<close> is the accept thread before its loop. The state is \<open>main\<close>'s local \<open>eventTime\<close> and the server. A thread whose flag is set has left its
  loop: the accept thread closes the listening socket then, \<open>main\<close> waits for the workers.
\<close>

definition take_turn :: "turn \<Rightarrow> int \<times> server \<Rightarrow> (int \<times> server) result" where
  "take_turn m st =
     (case st of (eventTime, s) \<Rightarrow>
        (case m of
           Opening port le \<Rightarrow> Inr (eventTime, snd (accept_setup port le s))
         | Accepting e \<Rightarrow>
             (if exit_accept_flag s then Inr (eventTime, close_listen s)
              else and_then (accept_iteration e s) (\<lambda>s. Inr (eventTime, s)))
         | Looping e \<Rightarrow> (if exit_flag s then Inr (eventTime, s) else loop_iteration e (eventTime, s))
         | Working ws mem \<Rightarrow> and_then (worker_step ws mem s) (\<lambda>s. Inr (eventTime, s))
         | Caught sig \<Rightarrow> Inr (eventTime, signal_handler_reboot sig s)))"

definition run_server :: "turn list \<Rightarrow> int \<times> server \<Rightarrow> (int \<times> server) result" where
  "run_server = run_steps take_turn"

section \<open>The abstract server\<close>

record abs_state =
  as_time :: int
  as_ending :: bool
  as_server :: abs_server

text \<open>Connections that are too old go, with their sockets, and the expired jobs at the front.\<close>

definition abs_recycle :: "int \<Rightarrow> int \<Rightarrow> abs_server \<Rightarrow> abs_server" where
  "abs_recycle now tm a =
     a\<lparr>a_conns := keep_fresh now (a_conns a),
       a_jobs := dropWhile (expired tm SERVER_TIMEOUT) (a_jobs a),
       a_total := a_total a - (int (card (dom (a_conns a))) - int (card (dom (keep_fresh now (a_conns a)))))
         - int (length (takeWhile (expired tm SERVER_TIMEOUT) (a_jobs a)))\<rparr>"

definition abs_admit :: "accept_env \<Rightarrow> abs_server \<Rightarrow> abs_server" where
  "abs_admit e a =
     (if 0 \<le> ae_fd e \<and> card (dom (a_conns a)) \<noteq> MAX_EVENTS
         \<and> 0 \<le> ae_getfl e \<and> 0 \<le> ae_setfl e \<and> ae_rcvbuf e = 0
      then a\<lparr>a_conns := (a_conns a)(ae_fd e \<mapsto> accept_peer e),
             a_total := a_total a + (if ae_ctl e = -1 then 0 else 1)\<rparr>
      else a)"

definition abs_accept :: "accept_env \<Rightarrow> abs_server \<Rightarrow> abs_server" where
  "abs_accept e a = (if a_total a < int MAX_EVENTS then abs_admit e a else a)"

definition abs_loop :: "loop_env \<Rightarrow> int \<times> abs_server \<Rightarrow> int \<times> abs_server" where
  "abs_loop e ta =
     (case ta of (t, a) \<Rightarrow>
        (if recycle_due (lo_now e) t
         then (lo_now e, fold abs_event (lo_events e) (abs_recycle (lo_now e) (lo_tm e) a))
         else (t, fold abs_event (lo_events e) a)))"

definition abs_turn :: "turn \<Rightarrow> abs_state \<Rightarrow> abs_state" where
  "abs_turn m x =
     (case m of
        Opening port le \<Rightarrow> x
      | Accepting e \<Rightarrow> (if as_ending x then x else x\<lparr>as_server := abs_accept e (as_server x)\<rparr>)
      | Looping e \<Rightarrow>
          (if as_ending x then x
           else case abs_loop e (as_time x, as_server x) of (t, a) \<Rightarrow> x\<lparr>as_time := t, as_server := a\<rparr>)
      | Working ws mem \<Rightarrow> x\<lparr>as_server := (as_server x)\<lparr>a_jobs := tl (a_jobs (as_server x))\<rparr>\<rparr>
      | Caught sig \<Rightarrow> (if sig = SIGKILL \<or> sig = SIGTERM then x\<lparr>as_ending := True\<rparr> else x))"

definition abs_state_of :: "int \<times> server \<Rightarrow> abs_state" where
  "abs_state_of st = \<lparr>as_time = fst st, as_ending = exit_flag (snd st), as_server = abs_of (snd st)\<rparr>"

section \<open>The contracts of the environment along a run\<close>

text \<open>Each turn's answers are judged in the state the turn finds.\<close>

fun events_ok :: "nat \<Rightarrow> ep_event list \<Rightarrow> server \<Rightarrow> bool" where
  "events_ok i [] s = True"
| "events_ok i (e # es) s =
     (event_env_ok e s \<and> client_ok e
      \<and> (case handle_event i e s of Inl _ \<Rightarrow> True | Inr s' \<Rightarrow> events_ok (Suc i) es s'))"

definition loop_ok :: "loop_env \<Rightarrow> int \<Rightarrow> server \<Rightarrow> bool" where
  "loop_ok e t s =
     (if recycle_due (lo_now e) t then
        (case recycle_timeout_confd (lo_now e) (lo_tm e) (lo_del e)
                (emit [Print (''60s detect one time =====>'' @ nl)] s) of
           Inl _ \<Rightarrow> True
         | Inr s' \<Rightarrow> events_ok 0 (lo_events e) s')
      else events_ok 0 (lo_events e) s)"

definition turn_ok :: "turn \<Rightarrow> int \<times> server \<Rightarrow> bool" where
  "turn_ok m st =
     (case st of (t, s) \<Rightarrow>
        (case m of
           Opening port le \<Rightarrow> True
         | Accepting e \<Rightarrow> exit_accept_flag s \<or> accept_env_ok e s
         | Looping e \<Rightarrow> exit_flag s \<or> loop_ok e t s
         | Working ws mem \<Rightarrow>
             (case waiting (thpool s) of
                [] \<Rightarrow> True
              | p # ps \<Rightarrow> servable (job_msg p) (job_sock p) (epoll_connect_client s) \<and> malloc_works mem
                  \<and> answers (reply_len (msg_type (job_msg p)) (epoll_connect_client s)) ws)
         | Caught sig \<Rightarrow> True))"

definition turns_ok :: "turn list \<Rightarrow> int \<times> server \<Rightarrow> bool" where
  "turns_ok = steps_ok take_turn turn_ok"

section \<open>Each turn refines the abstract turn\<close>

lemma abs_of_parts: "abs_of s = \<lparr>a_conns = conns (epoll_connect_client s), a_jobs = waiting (thpool s),
    a_total = current_connected_total s\<rparr>"
  by (simp add: abs_of_def)

lemma returned_turn:
  assumes "server_ok s" "fd_unlisted e s"
  shows "\<exists>s'. accept_returned e s = Inr s' \<and> server_ok s' \<and> abs_of s' = abs_admit e (abs_of s)"
proof (cases "0 \<le> ae_fd e \<and> \<not> accept_refused e s")
  case True
  have inv: "server_inv s" using assms(1) by (simp add: server_ok_def)
  then have c: "card (dom (conns (epoll_connect_client s))) = count_users (epoll_connect_client s)"
    by (simp add: server_inv_def card_dom_conns)
  obtain s' where s': "accept_connection e s = Inr s'"
    "abs_of s' = (abs_of s)\<lparr>a_conns := (conns (epoll_connect_client s))(ae_fd e \<mapsto> accept_peer e),
       a_total := current_connected_total s + (if ae_ctl e = -1 then 0 else 1)\<rparr>"
    using accept_admitted_eq [OF inv assms(2)] True by blast
  have it: "accept_returned e s = Inr s'" using True s'(1) by (simp add: accept_returned_def)
  moreover have "abs_of s' = abs_admit e (abs_of s)"
    using True s'(2) c by (auto simp: abs_admit_def accept_refused_def)
  ultimately show ?thesis using returned_step_ok [OF assms] by blast
next
  case False
  have inv: "conn_inv (epoll_connect_client s)" using assms(1) by (simp add: server_ok_def server_inv_def)
  have "\<exists>es. accept_returned e s = Inr (emit es s)"
  proof (cases "0 \<le> ae_fd e")
    case True
    with False show ?thesis using accept_refused_eq [OF inv] by (auto simp: accept_returned_def)
  next
    case False
    then have "accept_returned e s = Inr s \<or> (\<exists>es. accept_returned e s = Inr (emit es s))"
      by (simp add: accept_returned_def) blast
    moreover have "emit [] s = s" by (simp add: emit_def)
    ultimately show ?thesis by metis
  qed
  then obtain es where it: "accept_returned e s = Inr (emit es s)" by blast
  have "abs_admit e (abs_of s) = abs_of s"
    using False card_dom_conns [OF inv] by (auto simp: abs_admit_def accept_refused_def)
  with it show ?thesis using returned_step_ok [OF assms it] by simp
qed

lemma accept_turn:
  assumes "server_ok s" "fd_unlisted e s"
  shows "\<exists>s'. accept_iteration e s = Inr s' \<and> server_ok s' \<and> abs_of s' = abs_accept e (abs_of s)"
proof (cases "current_connected_total s < int MAX_EVENTS")
  case True
  then show ?thesis
    using returned_turn [OF assms] by (simp add: accept_iteration_def abs_accept_def)
next
  case False
  then show ?thesis
    using accept_full_ok [OF assms(1)] by (simp add: accept_iteration_def abs_accept_def)
qed

lemma event_turn:
  assumes "server_ok s" "event_env_ok e s" "client_ok e"
  shows "\<exists>s'. handle_event i e s = Inr s' \<and> server_ok s' \<and> abs_of s' = abs_event e (abs_of s)"
proof -
  obtain s' where s': "handle_event i e s = Inr s'" "event_done e s s'"
    using handle_event_correct [of s e i] assms by (auto simp: server_ok_def client_ok_def)
  then show ?thesis using event_step_ok [OF assms s'(1)] by (auto simp: event_done_def)
qed

lemma events_turn:
  assumes "server_ok s" "events_ok i es s"
  shows "\<exists>s'. handle_events i es s = Inr s' \<and> server_ok s' \<and> abs_of s' = fold abs_event es (abs_of s)
           \<and> flags s' = flags s"
  using assms
proof (induction es arbitrary: i s)
  case (Cons e es)
  obtain s1 where s1: "handle_event i e s = Inr s1" "server_ok s1" "abs_of s1 = abs_event e (abs_of s)"
    using event_turn [OF Cons.prems(1)] Cons.prems(2) by fastforce
  have "events_ok (Suc i) es s1" using Cons.prems(2) s1(1) by simp
  then obtain s2 where "handle_events (Suc i) es s1 = Inr s2" "server_ok s2"
    "abs_of s2 = fold abs_event es (abs_of s1)" "flags s2 = flags s1"
    using Cons.IH [OF s1(2)] by blast
  then show ?case using s1 event_flags [OF s1(1)] by simp
qed simp

text \<open>The connections that go are counted once each.\<close>

lemma length_stale_fds:
  assumes "conn_inv t"
  shows "int (length (stale_fds now t)) = int (card (dom (conns t))) - int (card (dom (keep_fresh now (conns t))))"
proof -
  have "length (filter live (map (expire now) t)) = length (filter (\<lambda>c. live c \<and> \<not> stale now c) t)"
    by (simp add: filter_map o_def)
  moreover have "length (filter live t) = length (filter (stale now) t) + length (filter (\<lambda>c. live c \<and> \<not> stale now c) t)"
    by (induction t) (auto simp: stale_def)
  ultimately show ?thesis
    using card_dom_conns [OF assms] card_dom_conns [OF conn_inv_expire [OF assms], of now] conns_expire [OF assms, of now]
    by (simp add: stale_fds_def count_users_def)
qed

lemma recycle_turn:
  assumes "server_ok s"
  shows "\<exists>s'. recycle_timeout_confd now tm del s = Inr s' \<and> server_ok s'
           \<and> abs_of s' = abs_recycle now tm (abs_of s) \<and> flags s' = flags s"
proof -
  have inv: "server_inv s" "conn_inv (epoll_connect_client s)"
    using assms by (simp_all add: server_ok_def server_inv_def)
  obtain s' where s': "recycle_timeout_confd now tm del s = Inr s'"
    "conns (epoll_connect_client s') = keep_fresh now (conns (epoll_connect_client s))"
    "waiting (thpool s') = dropWhile (expired tm SERVER_TIMEOUT) (waiting (thpool s))"
    "current_connected_total s' = current_connected_total s
       - int (length (stale_fds now (epoll_connect_client s)))
       - int (length (takeWhile (expired tm SERVER_TIMEOUT) (waiting (thpool s))))"
    using recycle_correct [OF inv(1), of now tm del] by blast
  then have "abs_of s' = abs_recycle now tm (abs_of s)"
    by (simp add: abs_of_def abs_recycle_def length_stale_fds [OF inv(2)])
  then show ?thesis using s'(1) recycle_step_ok [OF assms s'(1)] recycle_flags [OF inv(2) s'(1)] by blast
qed

lemma loop_turn:
  assumes "server_ok s" "loop_ok e t s"
  shows "\<exists>t' s'. loop_iteration e (t, s) = Inr (t', s') \<and> server_ok s'
           \<and> (t', abs_of s') = abs_loop e (t, abs_of s) \<and> flags s' = flags s"
proof (cases "recycle_due (lo_now e) t")
  case True
  let ?s = "emit [Print (''60s detect one time =====>'' @ nl)] s"
  have "server_ok ?s" using assms(1) by (simp add: server_ok_def)
  then obtain s1 where s1: "recycle_timeout_confd (lo_now e) (lo_tm e) (lo_del e) ?s = Inr s1" "server_ok s1"
    "abs_of s1 = abs_recycle (lo_now e) (lo_tm e) (abs_of s)" "flags s1 = flags s"
    using recycle_turn [of ?s "lo_now e" "lo_tm e" "lo_del e"] by auto
  have "events_ok 0 (lo_events e) s1" using assms(2) True s1(1) by (simp add: loop_ok_def)
  then obtain s2 where "handle_events 0 (lo_events e) s1 = Inr s2" "server_ok s2"
    "abs_of s2 = fold abs_event (lo_events e) (abs_of s1)" "flags s2 = flags s1"
    using events_turn [OF s1(2)] by blast
  with True s1 show ?thesis by (simp add: loop_iteration_def abs_loop_def)
next
  case False
  then have "events_ok 0 (lo_events e) s" using assms(2) by (simp add: loop_ok_def)
  then obtain s2 where "handle_events 0 (lo_events e) s = Inr s2" "server_ok s2"
    "abs_of s2 = fold abs_event (lo_events e) (abs_of s)" "flags s2 = flags s"
    using events_turn [OF assms(1)] by blast
  with False show ?thesis by (simp add: loop_iteration_def abs_loop_def)
qed

lemma work_turn:
  assumes "server_ok s" "turn_ok (Working ws mem) (t, s)"
  shows "\<exists>s'. worker_step ws mem s = Inr s' \<and> server_ok s'
           \<and> abs_of s' = (abs_of s)\<lparr>a_jobs := tl (a_jobs (abs_of s))\<rparr> \<and> flags s' = flags s"
proof (cases "waiting (thpool s)")
  case Nil
  with assms(1) have "worker_step ws mem s = Inr s"
    by (intro worker_empty) (simp_all add: server_ok_def server_inv_def)
  with Nil assms(1) show ?thesis by (simp add: abs_of_def)
next
  case (Cons p ps)
  have inv: "server_inv s" "names_ok (epoll_connect_client s)" using assms(1) by (simp_all add: server_ok_def)
  have ok: "servable (job_msg p) (job_sock p) (epoll_connect_client s)" "malloc_works mem"
    "answers (reply_len (msg_type (job_msg p)) (epoll_connect_client s)) ws"
    using assms(2) Cons by (simp_all add: turn_ok_def)
  obtain s' where s': "worker_step ws mem s = Inr s'" "abs_of s' = (abs_of s)\<lparr>a_jobs := ps\<rparr>"
    using worker_serves [OF inv Cons ok] by blast
  have "flags s' = flags s" using worker_step_leaves [OF inv(1) s'(1)] by blast
  then show ?thesis using s' work_step_ok [OF assms(1) s'(1)] Cons by simp
qed

section \<open>The run\<close>

lemma events_reachable:
  assumes "reachable client_ok s" "\<not> exit_flag s" "events_ok i es s" "handle_events i es s = Inr s'"
  shows "reachable client_ok s'"
  using assms
proof (induction es arbitrary: i s)
  case (Cons e es)
  then obtain s1 where s1: "handle_event i e s = Inr s1" "handle_events (Suc i) es s1 = Inr s'" by auto
  have e: "event_env_ok e s" "client_ok e" "events_ok (Suc i) es s1"
    using Cons.prems(3) s1(1) by simp_all
  have "reachable client_ok s1" using Cons.prems(1,2) e(1,2) s1(1) by (blast intro: reachable.step server_step.event)
  moreover have "\<not> exit_flag s1" using Cons.prems(2) event_flags [OF s1(1)] by (simp add: flags_def)
  ultimately show ?case using Cons.IH e(3) s1(2) by blast
qed simp

lemma loop_reachable:
  assumes "reachable client_ok s" "\<not> exit_flag s" "loop_ok e t s" "loop_iteration e (t, s) = Inr (t', s')"
  shows "reachable client_ok s'"
proof (cases "recycle_due (lo_now e) t")
  case True
  let ?s = "emit [Print (''60s detect one time =====>'' @ nl)] s"
  have ok: "server_ok ?s" using reachable_ok [OF assms(1)] by simp
  obtain s1 where s1: "recycle_timeout_confd (lo_now e) (lo_tm e) (lo_del e) ?s = Inr s1" "flags s1 = flags ?s"
    using recycle_turn [OF ok] by blast
  have "reachable client_ok s1" using assms(1,2) s1(1) by (blast intro: reachable.step server_step.recycle)
  moreover have "\<not> exit_flag s1" using s1(2) assms(2) by (simp add: flags_def)
  ultimately show ?thesis
    using events_reachable [of s1 0 "lo_events e" s'] assms(3,4) True s1(1)
    by (auto simp: loop_iteration_def loop_ok_def)
next
  case False
  then show ?thesis
    using events_reachable [OF assms(1,2), of 0 "lo_events e" s'] assms(3,4)
    by (auto simp: loop_iteration_def loop_ok_def)
qed

lemma turn_refines:
  assumes "reachable client_ok s" "turn_ok m (t, s)"
  shows "\<exists>t' s'. take_turn m (t, s) = Inr (t', s') \<and> reachable client_ok s'
           \<and> abs_state_of (t', s') = abs_turn m (abs_state_of (t, s))"
proof (cases m)
  case (Opening port le)
  have "abs_of (snd (accept_setup port le s)) = abs_of s" by (simp add: abs_of_def)
  then show ?thesis
    using Opening reachable.step [OF assms(1) server_step.open_listen]
    by (simp add: take_turn_def abs_turn_def abs_state_of_def)
next
  case (Accepting e)
  note fl = reachable_flags [OF assms(1)]
  show ?thesis
  proof (cases "exit_flag s")
    case True
    have "abs_of (close_listen s) = abs_of s" by (simp add: abs_of_def)
    then show ?thesis
      using Accepting True fl reachable.step [OF assms(1) server_step.end_listen]
      by (simp add: take_turn_def abs_turn_def abs_state_of_def)
  next
    case False
    then have e: "accept_env_ok e s" using assms(2) Accepting fl by (simp add: turn_ok_def)
    obtain s' where s': "accept_iteration e s = Inr s'" "abs_of s' = abs_accept e (abs_of s)"
      using accept_turn [OF reachable_ok [OF assms(1)] accept_env_unlisted [OF _ e]]
        reachable_is_sound [OF assms(1)] by (auto simp: server_sound_def)
    have "reachable client_ok s'" using assms(1) False fl e s'(1) by (blast intro: reachable.step server_step.accept)
    moreover have "exit_flag s' = exit_flag s" using accept_flags [OF s'(1)] by (simp add: flags_def)
    ultimately show ?thesis using Accepting False fl s' by (simp add: take_turn_def abs_turn_def abs_state_of_def)
  qed
next
  case (Looping e)
  show ?thesis
  proof (cases "exit_flag s")
    case True
    with Looping assms(1) show ?thesis by (simp add: take_turn_def abs_turn_def abs_state_of_def)
  next
    case False
    then have l: "loop_ok e t s" using assms(2) Looping by (simp add: turn_ok_def)
    obtain t' s' where s': "loop_iteration e (t, s) = Inr (t', s')" "abs_loop e (t, abs_of s) = (t', abs_of s')"
      "flags s' = flags s"
      using loop_turn [OF reachable_ok [OF assms(1)] l] by metis
    show ?thesis
      using Looping False s' loop_reachable [OF assms(1) False l s'(1)]
      by (simp add: take_turn_def abs_turn_def abs_state_of_def flags_def)
  qed
next
  case (Working ws mem)
  then obtain s' where s': "worker_step ws mem s = Inr s'"
    "abs_of s' = (abs_of s)\<lparr>a_jobs := tl (a_jobs (abs_of s))\<rparr>" "flags s' = flags s"
    using work_turn [OF reachable_ok [OF assms(1)], of ws mem t] assms(2) by blast
  moreover have "reachable client_ok s'" by (rule reachable.step [OF assms(1) server_step.work [OF s'(1)]])
  ultimately show ?thesis using Working by (simp add: take_turn_def abs_turn_def abs_state_of_def flags_def)
next
  case (Caught sig)
  have "abs_of (signal_handler_reboot sig s) = abs_of s" by (simp add: abs_of_def)
  moreover have "exit_flag (signal_handler_reboot sig s) \<longleftrightarrow> sig = SIGKILL \<or> sig = SIGTERM \<or> exit_flag s"
    using signal_flags [of sig s] by (auto simp: flags_def split: if_splits)
  ultimately show ?thesis
    using Caught reachable.step [OF assms(1) server_step.signal, of sig]
    by (auto simp: take_turn_def abs_turn_def abs_state_of_def)
qed

text \<open>So the server's turns are refining steps.\<close>

interpretation whole: refining_steps "\<lambda>st. reachable client_ok (snd st)" take_turn turn_ok abs_state_of abs_turn
proof
  fix st m
  assume "reachable client_ok (snd st)" "turn_ok m st"
  then show "\<exists>st'. take_turn m st = Inr st' \<and> reachable client_ok (snd st')"
    using turn_refines [of "snd st" m "fst st"] by auto
next
  fix st m st'
  assume "reachable client_ok (snd st)" "turn_ok m st" "take_turn m st = Inr st'"
  then show "abs_state_of st' = abs_turn m (abs_state_of st)"
    using turn_refines [of "snd st" m "fst st"] by auto
qed

end
