(* ===== verification/SampleRun.thy ===== *)
theory SampleRun
  imports SystemRun Samples
begin

text \<open>A sample schedule: a client connects, logs in and is served, and the server is told to end.\<close>

definition sample_loop :: loop_env where
  "sample_loop = \<lparr>lo_now = 120, lo_tm = 120, lo_del = (\<lambda>_. None), lo_events = [sample_event]\<rparr>"

definition sample_turns :: "turn list" where
  "sample_turns = [Accepting sample_accept, Looping sample_loop, Working [] full_malloc, Caught SIGTERM,
     Looping sample_loop]"

lemma sample_not_due: "\<not> recycle_due (lo_now sample_loop) 100"
  by (simp add: recycle_due_def c_int_def sample_loop_def SERVER_TIMEOUT_def)

lemma sample_loop_runs:
  "loop_ok sample_loop 100 sample_server" "loop_iteration sample_loop (100, sample_server) = Inr (100, sample_busy)"
  using sample_not_due sample_event_ok sample_busy_facts(1)
  by (simp_all add: loop_ok_def loop_iteration_def) (simp_all add: sample_loop_def)

lemma sample_turns_ok: "turns_ok sample_turns (100, sample_start)"
proof -
  have fl: "\<not> exit_flag sample_server" "\<not> exit_accept_flag sample_server"
    using accept_flags [OF sample_server_facts(1)] by (simp_all add: flags_def)
  have 1: "turn_ok (Accepting sample_accept) (100, sample_start)"
    "take_turn (Accepting sample_accept) (100, sample_start) = Inr (100, sample_server)"
    using sample_accept_ok sample_server_facts(1) by (simp_all add: turn_ok_def take_turn_def)
  have 2: "turn_ok (Looping sample_loop) (100, sample_server)"
    "take_turn (Looping sample_loop) (100, sample_server) = Inr (100, sample_busy)"
    using sample_loop_runs fl by (simp_all add: turn_ok_def take_turn_def)
  have 3: "turn_ok (Working [] full_malloc) (100, sample_busy)"
    using sample_busy_facts(4,5) full_malloc_works
    by (simp add: turn_ok_def servable_def sample_job_facts sample_login_facts reply_len_def cmd_defs)
  have 4: "steps_ok take_turn turn_ok [Caught SIGTERM, Looping sample_loop] st" for st
    using signal_flags [of SIGTERM "snd st"]
    by (cases st) (simp add: turn_ok_def take_turn_def flags_def split: sum.split)
  show ?thesis
    unfolding sample_turns_def turns_ok_def steps_ok.simps(2) [of _ _ "Accepting sample_accept"]
      steps_ok.simps(2) [of _ _ "Looping sample_loop" "[Working [] full_malloc, Caught SIGTERM, Looping sample_loop]"]
      steps_ok.simps(2) [of _ _ "Working [] full_malloc"]
    using 1 2 3 4 by (simp del: steps_ok.simps split: sum.split)
qed

lemma sample_turns_abs:
  "fold abs_turn sample_turns (abs_state_of (100, sample_start)) =
     \<lparr>as_time = 100, as_ending = True,
      as_server = \<lparr>a_conns = [5 \<mapsto> (110, inet_ntoa 0x0700A8C0, 5000)], a_jobs = [], a_total = 1\<rparr>\<rparr>"
proof -
  have c: "conns init_epoll_connect = Map.empty" by (rule ext) (rule conns_init)
  have d: "abs_accept sample_accept (abs_of sample_start)
      = \<lparr>a_conns = [5 \<mapsto> accept_peer sample_accept], a_jobs = [], a_total = 1\<rparr>"
    by (simp add: abs_accept_def abs_admit_def abs_of_def c MAX_EVENTS_def) (simp add: sample_accept_def)
  have l: "length sample_login \<noteq> BUFLEN" by (simp add: sample_login_facts(1) BUFLEN_def)
  then have e: "abs_event sample_event \<lparr>a_conns = [5 \<mapsto> accept_peer sample_accept], a_jobs = [], a_total = 1\<rparr>
      = \<lparr>a_conns = [5 \<mapsto> (110, inet_ntoa 0x0700A8C0, 5000)], a_jobs = [sample_job], a_total = 1\<rparr>"
    by (simp add: abs_event_def sample_event_def sample_peer touch_def sample_job_def)
  have f: "abs_loop sample_loop (100, a) = (100, abs_event sample_event a)" for a
    using sample_not_due by (simp add: abs_loop_def) (simp add: sample_loop_def)
  show ?thesis
    by (simp add: sample_turns_def abs_turn_def abs_state_of_def d e f)
qed

end
