(* ===== verification/SessionCorrect.thy ===== *)
theory SessionCorrect
  imports ClientCorrect ClientSessions SampleRun
begin

text \<open>
  Whole sessions: what the Windows client sends from its start to its end, and that the server
  answers it from the connection on.
\<close>

section \<open>What the Windows client sends\<close>

lemma length_win_greets: "length win_greets = 34"
  by (simp add: win_greets_def)

lemma nulfree_win: "nulfree win_greets" "nulfree win_userId" "nulfree win_passwd"
  by (simp_all add: win_greets_def win_userId_def win_passwd_def NUL_def)

lemma clear_512: "512 \<le> length buf \<Longrightarrow> write_at 0 (replicate 512 NUL) buf = Inr (replicate 512 NUL @ drop 512 buf)"
  by (simp add: write_at_def)

lemma write_tail_rest: "length a = off \<Longrightarrow> length s \<le> n \<Longrightarrow>
    write_at off s (a @ replicate n NUL @ r) = Inr (a @ s @ replicate (n - length s) NUL @ r)"
  by (simp add: write_at_def)

lemma handshake_packet:
  assumes "512 \<le> length buf" "nulfree g" "length g < 504"
  shows "\<exists>b. ConstructHandShakePkt buf (g @ [NUL]) = Inr (b, 9 + length g) \<and> length b = length buf
      \<and> take (9 + length g) b = message CMD_HANDSHAKE (g @ [NUL])"
proof -
  let ?r = "drop 512 buf"
  let ?b = "put32 CMD_HANDSHAKE @ put32 (word_of_nat (9 + length g)) @ g @ replicate (504 - length g) NUL @ ?r"
  have 0: "write_at 0 (replicate 512 NUL) buf = Inr (replicate 512 NUL @ ?r)" using clear_512 [OF assms(1)] .
  have 1: "write_at 0 (put32 CMD_HANDSHAKE) (replicate 512 NUL @ ?r)
      = Inr (put32 CMD_HANDSHAKE @ replicate 508 NUL @ ?r)"
    using write_tail_rest [of "[]" 0 "put32 CMD_HANDSHAKE" 512 ?r] by simp
  have "replicate 508 NUL = replicate 4 NUL @ replicate 504 NUL" by (simp flip: replicate_add)
  then have 2: "write_at 8 g (put32 CMD_HANDSHAKE @ replicate 508 NUL @ ?r)
      = Inr (put32 CMD_HANDSHAKE @ replicate 4 NUL @ g @ replicate (504 - length g) NUL @ ?r)"
    using write_tail_rest [of "put32 CMD_HANDSHAKE @ replicate 4 NUL" 8 g 504 ?r] assms(3) by simp
  have 3: "write_at 4 (put32 w) (put32 CMD_HANDSHAKE @ replicate 4 NUL @ r) = Inr (put32 CMD_HANDSHAKE @ put32 w @ r)" for w r
    by (rule write_at_part) simp_all
  have c: "cstr (g @ [NUL]) = g" using assms(2) by simp
  have e: "ConstructHandShakePkt buf (g @ [NUL]) = Inr (?b, 9 + length g)"
    unfolding ConstructHandShakePkt_def 0 and_then_simps 1 c layout_defs 2 3 Let_def
    by (simp add: 3)
  have "replicate (504 - length g) NUL = NUL # replicate (503 - length g) NUL"
    using assms(3) by (simp flip: replicate_Suc add: Suc_diff_Suc)
  then have "take (9 + length g) ?b = message CMD_HANDSHAKE (g @ [NUL])"
    by (simp add: message_def put_header_def)
  moreover have "length ?b = length buf" using assms(1,3) by simp
  ultimately show ?thesis using e by blast
qed

text \<open>The message a command line stands for; anything but \<open>getu\<close> and \<open>allu\<close> sends nothing.\<close>

definition request_of :: "string \<Rightarrow> string" where
  "request_of line =
     (if take 4 (cstr line) = ''getu'' then message CMD_GETREMOTE (credentials ''876543210'' ''CiGeWK'')
      else if take 4 (cstr line) = ''allu'' then message CMD_GETALLUSER []
      else [])"

text \<open>The lines up to the first one that ends the program.\<close>

definition goes_on :: "string \<times> int \<Rightarrow> bool" where
  "goes_on l \<longleftrightarrow> length (fst l) < COMMANDMAXC \<and> take 4 (cstr (fst l)) \<noteq> ''exit''"

definition win_outcome :: "(string \<times> int) list \<Rightarrow> win_end" where
  "win_outcome lines =
     (case dropWhile goes_on lines of
        [] \<Rightarrow> Win_waits
      | l # ls \<Rightarrow> if COMMANDMAXC \<le> length (fst l) then Win_aborts else Win_exits 0)"

text \<open>Each \<open>send\<close> of the command loop takes its whole message.\<close>

definition sent_whole :: "(string \<times> int) list \<Rightarrow> bool" where
  "sent_whole lines \<longleftrightarrow> list_all (\<lambda>l. snd l = int (length (request_of (fst l)))) lines"

lemma sent_to_sends: "sent_to sock (sends sock n b) = take (nat n) b"
  by (simp add: sends_def)

lemma getalluser_packet:
  "\<exists>b. ConstructGetAllUserPkt (replicate 1024 NUL) = Inr (b, 8) \<and> take 8 b = message CMD_GETALLUSER []"
proof -
  let ?r = "drop 512 (replicate 1024 NUL)"
  have 0: "write_at 0 (replicate 512 NUL) (replicate 1024 NUL) = Inr (replicate 512 NUL @ ?r)"
    by (rule clear_512) simp
  have 1: "write_at 0 (put32 CMD_GETALLUSER) (replicate 512 NUL @ ?r)
      = Inr (put32 CMD_GETALLUSER @ replicate 508 NUL @ ?r)"
    using write_tail_rest [of "[]" 0 "put32 CMD_GETALLUSER" 512 ?r] by simp
  have 2: "write_at 4 (put32 8) (put32 CMD_GETALLUSER @ replicate 508 NUL @ ?r)
      = Inr (put32 CMD_GETALLUSER @ put32 8 @ replicate 504 NUL @ ?r)"
    using write_tail_rest [of "put32 CMD_GETALLUSER" 4 "put32 8" 508 ?r] by simp
  have "ConstructGetAllUserPkt (replicate 1024 NUL)
      = Inr (put32 CMD_GETALLUSER @ put32 8 @ replicate 504 NUL @ ?r, 8)"
    unfolding ConstructGetAllUserPkt_def 0 and_then_simps 1 layout_defs Let_def
    using 2 by simp
  then show ?thesis by (simp add: message_def put_header_def)
qed

lemma str_at_line: "str_at 0 (line @ [NUL]) = Inr (cstr line)"
proof -
  have "cstr (line @ [NUL]) = cstr line"
    by (induction line) (simp_all add: cstr_Cons)
  then show ?thesis by (simp add: str_at_def)
qed

lemma parse_line:
  assumes "take 4 (cstr line) \<noteq> ''exit''"
  shows "(\<exists>pr. ParseCommand (line @ [NUL]) = Inr (Sent (request_of line) [Print pr]))
    \<or> request_of line = [] \<and> (ParseCommand (line @ [NUL]) = Inr Rejected \<or> ParseCommand (line @ [NUL]) = Inr No_command)"
proof -
  let ?c = "take 4 (cstr line)"
  consider "?c = ''getu''" | "?c = ''allu''" | "?c \<noteq> ''getu''" "?c \<noteq> ''allu''" by blast
  then show ?thesis
  proof cases
    case 1
    then have l: "\<not> length (cstr line) < 4" using arg_cong [of ?c _ length] by (auto simp: min_def split: if_splits)
    obtain b where b: "ConstructGetRemotePkt (replicate 1024 NUL) (''876543210'' @ [NUL]) (''CiGeWK'' @ [NUL]) = Inr (b, 25)"
      "take 25 b = message CMD_GETREMOTE (credentials ''876543210'' ''CiGeWK'')"
      using credentials_packet(2) [of "replicate 1024 NUL" "''876543210''" "''CiGeWK''"] by (auto simp: NUL_def)
    show ?thesis
      unfolding ParseCommand_def str_at_line and_then_simps if_not_P [OF l] Let_def b(1)
      using 1 b(2) by (simp add: request_of_def)
  next
    case 2
    then have l: "\<not> length (cstr line) < 4" using arg_cong [of ?c _ length] by (auto simp: min_def split: if_splits)
    obtain b where b: "ConstructGetAllUserPkt (replicate 1024 NUL) = Inr (b, 8)" "take 8 b = message CMD_GETALLUSER []"
      using getalluser_packet by blast
    show ?thesis
      unfolding ParseCommand_def str_at_line and_then_simps if_not_P [OF l] Let_def b(1)
      using 2 b(2) by (simp add: request_of_def)
  next
    case 3
    with assms show ?thesis
      by (auto simp: ParseCommand_def str_at_line request_of_def Let_def)
  qed
qed

lemma parse_exit:
  assumes "take 4 (cstr line) = ''exit''"
  shows "ParseCommand (line @ [NUL]) = Inr Exited"
proof -
  have l: "\<not> length (cstr line) < 4"
    using arg_cong [OF assms, of length] by (auto simp: min_def split: if_splits)
  show ?thesis unfolding ParseCommand_def str_at_line and_then_simps if_not_P [OF l] using assms by simp
qed

lemma command_loop_sends:
  "sent_whole lines \<Longrightarrow> \<exists>es. command_loop sock lines = Inr (win_outcome lines, es)
     \<and> sent_to sock es = concat (map (\<lambda>l. request_of (fst l)) (takeWhile goes_on lines))"
proof (induction lines)
  case Nil
  then show ?case by (simp add: win_outcome_def)
next
  case (Cons l lines)
  obtain line n where l: "l = (line, n)" by (cases l)
  show ?case
  proof (cases "goes_on l")
    case False
    then show ?thesis
      using parse_exit [of line] by (auto simp: l goes_on_def win_outcome_def)
  next
    case True
    then have go: "\<not> COMMANDMAXC \<le> length line" "take 4 (cstr line) \<noteq> ''exit''" by (simp_all add: l goes_on_def)
    have n: "take (nat n) (request_of line) = request_of line" and w: "sent_whole lines"
      using Cons.prems by (simp_all add: l sent_whole_def)
    obtain es where es: "command_loop sock lines = Inr (win_outcome lines, es)"
      "sent_to sock es = concat (map (\<lambda>l. request_of (fst l)) (takeWhile goes_on lines))"
      using Cons.IH [OF w] by blast
    have o: "win_outcome (l # lines) = win_outcome lines" using True by (simp add: win_outcome_def)
    from parse_line [OF go(2)] show ?thesis
    proof (elim disjE exE conjE)
      fix pr assume "ParseCommand (line @ [NUL]) = Inr (Sent (request_of line) [Print pr])"
      then show ?thesis
        using es True go(1) n unfolding o by (simp add: l sent_to_sends)
    qed (use es True go(1) in \<open>simp_all add: l o [unfolded l]\<close>)
  qed
qed

text \<open>The environment of a session in which nothing fails before the first command.\<close>

definition win_runs :: "win_env \<Rightarrow> bool" where
  "win_runs env \<longleftrightarrow> we_startup env = 0 \<and> we_version env = (1, 1) \<and> we_connect env \<noteq> SOCKET_ERROR
     \<and> we_send1 env = 43 \<and> we_send2 env = 25 \<and> we_keepalive env \<noteq> SOCKET_ERROR \<and> we_ioctl env \<noteq> SOCKET_ERROR"

definition win_login :: string where
  "win_login = message CMD_SENDUI (credentials win_userId win_passwd)"

definition win_handshake :: string where
  "win_handshake = message CMD_HANDSHAKE (win_greets @ [NUL])"

lemma win_lengths: "length win_handshake = 43" "length win_login = 25"
  by (simp_all add: win_handshake_def win_login_def length_win_greets credentials_def)

lemma win_hello_sends:
  assumes "win_runs env"
  shows "\<exists>es. win_hello env = Inr es \<and> sent_to (we_sock env) es = win_handshake @ win_login"
proof -
  obtain b where b: "ConstructHandShakePkt (replicate 1024 NUL) (win_greets @ [NUL]) = Inr (b, 43)"
    "length b = 1024" "take 43 b = win_handshake"
    using handshake_packet [of "replicate 1024 NUL" win_greets] nulfree_win(1)
    by (auto simp: length_win_greets win_handshake_def)
  obtain b2 where b2: "ConstructSendUIPkt b (win_userId @ [NUL]) (win_passwd @ [NUL]) = Inr (b2, 25)"
    "take 25 b2 = win_login"
    using credentials_packet(1) [of b win_userId win_passwd] b(2) nulfree_win(2,3)
    by (auto simp: win_userId_def win_passwd_def win_login_def)
  have "we_send1 env = 43" "we_send2 env = 25" "we_connect env \<noteq> SOCKET_ERROR" "25 \<noteq> SOCKET_ERROR"
    using assms by (simp_all add: win_runs_def SOCKET_ERROR_def)
  moreover have "take 43 win_handshake = win_handshake" "take 25 win_login = win_login"
    by (simp_all add: win_lengths)
  ultimately show ?thesis
    unfolding win_hello_def Let_def b(1) and_then_simps prod.case b2(1)
    by (simp add: b(3) b2(2) sent_to_sends)
qed

section \<open>An event and the worker's turn that serves it\<close>

text \<open>With nothing else waiting, the message of an event is the job the next worker takes.\<close>

lemma message_becomes_job:
  assumes "server_ok s" "event_env_ok e s" "client_ok e" "waiting (thpool s) = []"
    and "ev_recv e = Recvd m" "length m < BUFLEN" "ev_in e" "0 \<le> ev_fd e" "ev_malloc e \<noteq> None"
    and "conns (epoll_connect_client s) (ev_fd e) = Some (tm, ip, port)"
  shows "\<exists>s1. handle_event i e s = Inr s1 \<and> server_ok s1 \<and> flags s1 = flags s
    \<and> waiting (thpool s1) = [job_of e m] \<and> logins (epoll_connect_client s1) = logins (epoll_connect_client s)
    \<and> conns (epoll_connect_client s1) = (conns (epoll_connect_client s))(ev_fd e \<mapsto> (ev_now e, ip, port))"
proof -
  obtain s1 where s1: "handle_event i e s = Inr s1" "event_done e s s1"
    using handle_event_correct [of s e i] assms(1-3) by (auto simp: server_ok_def client_ok_def)
  have a: "abs_of s1 = abs_event e (abs_of s)" using s1(2) by (simp add: event_done_def)
  have "abs_event e (abs_of s) = (abs_of s)
      \<lparr>a_conns := (conns (epoll_connect_client s))(ev_fd e \<mapsto> (ev_now e, ip, port)), a_jobs := [job_of e m]\<rparr>"
    using assms(4-10) by (auto simp: abs_event_def Let_def touch_def)
  then have "a_conns (abs_of s1) = (conns (epoll_connect_client s))(ev_fd e \<mapsto> (ev_now e, ip, port))"
    "a_jobs (abs_of s1) = [job_of e m]"
    unfolding a by simp_all
  then show ?thesis
    using s1 event_step_ok [OF assms(1-3) s1(1)] event_flags [OF s1(1)] by (simp add: event_done_def)
qed

lemma job_of_parts:
  "job_msg (job_of e m) = in_buffer m" "job_sock (job_of e m) = ev_fd e"
  by (simp_all add: job_msg_def job_sock_def job_of_def in_buffer_def)

text \<open>The worker's turn in terms of the message's handler.\<close>

lemma job_is_served:
  assumes "server_ok s1" "waiting (thpool s1) = [job_of e m]"
  shows "\<exists>q' q''. waiting q'' = [] \<and> (\<forall>es t'.
      respons_stb_info ws mem \<lparr>recv_buffer = in_buffer m, arg_fd = ev_fd e\<rparr> (s1\<lparr>thpool := q'\<rparr>)
        = Inr (emit es (s1\<lparr>thpool := q', epoll_connect_client := t'\<rparr>)) \<longrightarrow>
      worker_step ws mem s1 = Inr (emit es (s1\<lparr>thpool := q'', epoll_connect_client := t'\<rparr>)))"
proof -
  have inv: "queue_inv (thpool s1)" using assms(1) by (simp add: server_ok_def server_inv_def)
  obtain q' a q'' where q: "free_job a q' = Inr q''" "waiting q'' = []"
    "worker_step ws mem s1 =
       and_then (respons_stb_info ws mem \<lparr>recv_buffer = in_buffer m, arg_fd = ev_fd e\<rparr> (s1\<lparr>thpool := q'\<rparr>))
         (\<lambda>s. and_then (free_job a (thpool s)) (\<lambda>q. Inr (s\<lparr>thpool := q\<rparr>)))"
    using worker_step_unfold [OF inv assms(2), of ws mem] by (auto simp: job_of_parts)
  have "worker_step ws mem s1 = Inr (emit es (s1\<lparr>thpool := q'', epoll_connect_client := t'\<rparr>))"
    if r: "respons_stb_info ws mem \<lparr>recv_buffer = in_buffer m, arg_fd = ev_fd e\<rparr> (s1\<lparr>thpool := q'\<rparr>)
        = Inr (emit es (s1\<lparr>thpool := q', epoll_connect_client := t'\<rparr>))" for es t'
    unfolding q(3) r using q(1) by (simp add: emit_def)
  with q(2) show ?thesis by blast
qed

lemma handshake_in_buffer:
  assumes "length g \<le> 54"
  shows "msg_ok (in_buffer (message CMD_HANDSHAKE (g @ [NUL])))"
    "msg_type (in_buffer (message CMD_HANDSHAKE (g @ [NUL]))) = CMD_HANDSHAKE"
  using assms by (simp_all add: in_buffer_ok BUFFER_SIZE_def msg_type_message)

lemma handshake_turn:
  assumes "server_ok s1" "waiting (thpool s1) = [job_of e (message CMD_HANDSHAKE (g @ [NUL]))]"
    and "conns (epoll_connect_client s1) (ev_fd e) = Some (tm, ip, port)" "0 \<le> ev_fd e" "length g \<le> 54"
    and "accepts 264 ws"
  shows "\<exists>s2 es. worker_step ws mem s1 = Inr s2 \<and> waiting (thpool s2) = [] \<and> io s2 = io s1 @ es
    \<and> epoll_connect_client s2 = epoll_connect_client s1
    \<and> length (sent_to (ev_fd e) es) = 264
    \<and> get_header (sent_to (ev_fd e) es) = \<lparr>iMessageType = CMD_HANDSHAKE_ACK, iMessageLen = 264\<rparr>
    \<and> str_at 8 (sent_to (ev_fd e) es) = Inr (take 255 (handshake_info ip port))"
proof -
  let ?m = "in_buffer (message CMD_HANDSHAKE (g @ [NUL]))" and ?fd = "ev_fd e"
  obtain q' q'' where q: "waiting q'' = []"
    "\<forall>es t'. respons_stb_info ws mem \<lparr>recv_buffer = ?m, arg_fd = ?fd\<rparr> (s1\<lparr>thpool := q'\<rparr>)
             = Inr (emit es (s1\<lparr>thpool := q', epoll_connect_client := t'\<rparr>)) \<longrightarrow>
           worker_step ws mem s1 = Inr (emit es (s1\<lparr>thpool := q'', epoll_connect_client := t'\<rparr>))"
    using job_is_served [OF assms(1,2), of ws mem] by blast
  note m = handshake_in_buffer [OF assms(5)]
  let ?s = "emit (command_prints ?fd ?m) (s1\<lparr>thpool := q'\<rparr>)"
  have c: "conn_inv (epoll_connect_client ?s)" "conns (epoll_connect_client ?s) ?fd = Some (tm, ip, port)"
    using assms(1,3) by (simp_all add: server_ok_def server_inv_def)
  obtain es where es: "handle_handshake ws ?fd ?m ?s = Inr (emit es ?s)" "length (sent_to ?fd es) = 264"
    "get_header (sent_to ?fd es) = \<lparr>iMessageType = CMD_HANDSHAKE_ACK, iMessageLen = 264\<rparr>"
    "str_at 8 (sent_to ?fd es) = Inr (take 255 (handshake_info ip port))"
    using handle_handshake_ok [OF c(1) m(1) assms(6) c(2)] by blast
  have "respons_stb_info ws mem \<lparr>recv_buffer = ?m, arg_fd = ?fd\<rparr> (s1\<lparr>thpool := q'\<rparr>) = handle_handshake ws ?fd ?m ?s"
    using respons_select [OF m(1), of ?fd] assms(4) m(2) by (simp add: select_handler_def cmd_defs)
  then have "respons_stb_info ws mem \<lparr>recv_buffer = ?m, arg_fd = ?fd\<rparr> (s1\<lparr>thpool := q'\<rparr>)
      = Inr (emit (command_prints ?fd ?m @ es)
          (s1\<lparr>thpool := q', epoll_connect_client := epoll_connect_client s1\<rparr>))"
    unfolding es(1) by (simp add: emit_def)
  from q(2) [rule_format, OF this] show ?thesis
    using q(1) es(2-4)
    by (intro exI [of _ "emit (command_prints ?fd ?m @ es) (s1\<lparr>thpool := q'', epoll_connect_client := epoll_connect_client s1\<rparr>)"]
        exI [of _ "command_prints ?fd ?m @ es"]) (simp add: command_prints_def)
qed

lemma login_turn:
  assumes "server_ok s1" "waiting (thpool s1) = [job_of e (message CMD_SENDUI (credentials u p))]"
    and "conns (epoll_connect_client s1) (ev_fd e) = Some x" "0 \<le> ev_fd e" "malloc_works mem"
    and "nulfree u" "length u < 10" "nulfree p" "length p < 7"
  shows "\<exists>s2 k. worker_step ws mem s1 = Inr s2 \<and> waiting (thpool s2) = []
    \<and> conns (epoll_connect_client s2) = conns (epoll_connect_client s1)
    \<and> get_matched_event_index_by_fd (ev_fd e) (epoll_connect_client s2) = int k
    \<and> cstr (UsrhashId (epoll_connect_client s2 ! k)) = u \<and> cstr (conn_passwd (epoll_connect_client s2 ! k)) = p"
proof -
  let ?msg = "message CMD_SENDUI (credentials u p)" and ?fd = "ev_fd e" and ?t = "epoll_connect_client s1"
  let ?m = "in_buffer ?msg"
  obtain q' q'' where q: "waiting q'' = []"
    "\<forall>es t'. respons_stb_info ws mem \<lparr>recv_buffer = ?m, arg_fd = ?fd\<rparr> (s1\<lparr>thpool := q'\<rparr>)
             = Inr (emit es (s1\<lparr>thpool := q', epoll_connect_client := t'\<rparr>)) \<longrightarrow>
           worker_step ws mem s1 = Inr (emit es (s1\<lparr>thpool := q'', epoll_connect_client := t'\<rparr>))"
    using job_is_served [OF assms(1,2), of ws mem] by blast
  let ?s = "s1\<lparr>thpool := q'\<rparr>"
  have c: "conn_inv (epoll_connect_client ?s)" "names_ok (epoll_connect_client ?s)" "?fd \<noteq> -1"
    using assms(1,4) by (simp_all add: server_ok_def server_inv_def)
  obtain k where k: "k < length ?t" "live (?t ! k)" "connect_fd (?t ! k) = ?fd"
    using assms(3) c(1) by (auto simp: conns_Some_iff)
  have i: "get_matched_event_index_by_fd ?fd (epoll_connect_client ?s) = int k"
    using matched_fd_nth [of ?t k] c(1) k by simp
  obtain s' t' where s': "respons_stb_info ws mem \<lparr>recv_buffer = ?m, arg_fd = ?fd\<rparr> ?s = Inr s'"
    "epoll_connect_client s' = t'" "conn_inv t'" "k < length t'"
    "t' = (epoll_connect_client ?s)[k := logged_in ?m (epoll_connect_client ?s ! k)]"
    "cstr (UsrhashId (t' ! k)) = u" "cstr (conn_passwd (t' ! k)) = p"
    by (rule login_served [OF c i assms(6-9)])
  have "servable ?m ?fd (epoll_connect_client ?s)"
    using c(3) assms(3) login_fields(3) [OF assms(6,8,7,9)] by (simp add: servable_def)
  moreover have "answers (reply_len (msg_type ?m) (epoll_connect_client ?s)) ws"
    by (simp add: msg_type_message reply_len_def cmd_defs)
  ultimately have "kept ?s (respons_stb_info ws mem \<lparr>recv_buffer = ?m, arg_fd = ?fd\<rparr> ?s)"
    using respons_kept [OF c(1,2) packet_in_buffer(1) [OF assms(6-9)] _ assms(5)] by blast
  then obtain t2 es where k2: "respons_stb_info ws mem \<lparr>recv_buffer = ?m, arg_fd = ?fd\<rparr> ?s
      = Inr (emit es (?s\<lparr>epoll_connect_client := t2\<rparr>))" "conns t2 = conns ?t"
    unfolding kept_def by auto
  have t2: "t2 = t'" using k2(1) s'(1,2) by auto
  have w: "worker_step ws mem s1 = Inr (emit es (s1\<lparr>thpool := q'', epoll_connect_client := t'\<rparr>))"
    using q(2) k2(1) t2 by simp
  have "connect_fd (t' ! k) = ?fd" "live (t' ! k)"
    using k s'(5) by (simp_all add: logged_in_def live_def)
  then have "get_matched_event_index_by_fd ?fd t' = int k"
    using matched_fd_nth [OF s'(3,4)] by simp
  then show ?thesis using w q(1) s'(6,7) k2(2) t2 by (intro exI conjI) (rule w, simp_all)
qed

section \<open>The session\<close>

text \<open>A message of the Windows client on a socket, and that the server may take it.\<close>

definition arrival :: "int \<Rightarrow> string \<Rightarrow> nat \<Rightarrow> int \<Rightarrow> ep_event" where
  "arrival fd m addr now = \<lparr>ev_fd = fd, ev_in = True, ev_recv = Recvd m, ev_malloc = Some addr, ev_now = now\<rparr>"

lemma arrival_simps [simp]:
  "ev_fd (arrival fd m addr now) = fd" "ev_in (arrival fd m addr now)" "ev_recv (arrival fd m addr now) = Recvd m"
  "ev_malloc (arrival fd m addr now) = Some addr" "ev_now (arrival fd m addr now) = now"
  by (simp_all add: arrival_def)

lemma arrival_ok:
  assumes "fresh_addr addr (thpool s)" "m = win_handshake \<or> m = win_login"
  shows "event_env_ok (arrival fd m addr now) s" "client_ok (arrival fd m addr now)" "length m < BUFLEN"
proof -
  show l: "length m < BUFLEN" using assms(2) by (auto simp: win_lengths BUFLEN_def)
  then show "event_env_ok (arrival fd m addr now) s" using assms(1) by (simp add: event_env_ok_def)
  have "msg_type (in_buffer win_handshake) \<noteq> CMD_SENDUI"
    by (simp add: win_handshake_def msg_type_message cmd_defs)
  moreover have "fields_ok (in_buffer win_login)"
    using login_fields(3) [OF nulfree_win(2,3)] by (simp add: win_login_def win_userId_def win_passwd_def)
  ultimately show "client_ok (arrival fd m addr now)"
    using assms(2) by (auto simp: client_ok_def dump_fits_def job_of_parts win_lengths)
qed

lemma handshake_info_fits: "length (handshake_info (inet_ntoa a) (uint (port :: 16 word))) < 248"
proof -
  have "unat port < 10 ^ Suc 4" using unsigned_less [of port, where ?'a = nat] by simp
  from show_nat_bound [OF this] have "length (show_int (uint port)) \<le> 5"
    by (simp add: show_int_def)
  then show ?thesis using inet_ntoa_length [of a] by (simp add: handshake_info_def)
qed

text \<open>The reply reaches the client's screen when the network delivers its first 256 bytes alone.\<close>

lemma recv_func_handshake:
  assumes "length r = 264" "length recvBuf = 256" "iMessageType (get_header r) = CMD_HANDSHAKE_ACK"
    "str_at 8 r = Inr i" "length i < 248"
  shows "recv_func [Recvd (take 256 r)] recvBuf = Inr ([Print (''[HANDSHAKE ACK] '' @ i @ nl)], take 256 r)"
proof -
  have "take 256 r \<noteq> []" using assms(1) by auto
  then obtain c cs where "take 256 r = c # cs" by (meson neq_Nil_conv)
  then show ?thesis using recv_turn_handshake [OF assms] by simp
qed

text \<open>A reachable state, an event and the worker's turn for it.\<close>

lemma turn_reachable:
  assumes "reachable client_ok s" "\<not> exit_flag s" "event_env_ok e s" "client_ok e" "handle_event i e s = Inr s1"
    and "worker_step ws mem s1 = Inr s2"
  shows "reachable client_ok s2"
proof -
  have "reachable client_ok s1" by (rule reachable.step [OF assms(1) server_step.event [OF assms(2,3), where P = client_ok, OF assms(4,5)]])
  from reachable.step [OF this server_step.work [OF assms(6)]] show ?thesis .
qed

lemma greeting_served:
  assumes "reachable client_ok s" "\<not> exit_flag s" "waiting (thpool s) = []" "fresh_addr m (thpool s)" "0 \<le> fd"
    and "conns (epoll_connect_client s) fd = Some (tm, inet_ntoa a, uint (port :: 16 word))"
    and "accepts 264 ws" "length recvBuf = 256"
  shows "\<exists>s1 s2 es. handle_event i (arrival fd win_handshake m now) s = Inr s1 \<and> worker_step ws mem s1 = Inr s2
    \<and> reachable client_ok s2 \<and> \<not> exit_flag s2 \<and> waiting (thpool s2) = [] \<and> io s2 = io s1 @ es
    \<and> recv_func [Recvd (take 256 (sent_to fd es))] recvBuf
        = Inr ([Print (''[HANDSHAKE ACK] '' @ handshake_info (inet_ntoa a) (uint port) @ nl)], take 256 (sent_to fd es))
    \<and> conns (epoll_connect_client s2) fd = Some (now, inet_ntoa a, uint port)"
proof -
  let ?e = "arrival fd win_handshake m now"
  have ok: "server_ok s" using assms(1) by (rule reachable_ok)
  note ar = arrival_ok(1,2) [OF assms(4), where m = win_handshake and fd = fd and now = now, simplified]
    arrival_ok(3) [OF assms(4), where m = win_handshake, simplified]
  obtain s1 where s1: "handle_event i ?e s = Inr s1" "server_ok s1" "flags s1 = flags s"
    "waiting (thpool s1) = [job_of ?e win_handshake]"
    "conns (epoll_connect_client s1) = (conns (epoll_connect_client s))(fd \<mapsto> (now, inet_ntoa a, uint port))"
    using message_becomes_job [OF ok ar(1,2) assms(3), of win_handshake] ar(3) assms(5,6) by fastforce
  have c: "conns (epoll_connect_client s1) (ev_fd ?e) = Some (now, inet_ntoa a, uint port)" using s1(5) by simp
  have j: "waiting (thpool s1) = [job_of ?e (message CMD_HANDSHAKE (win_greets @ [NUL]))]"
    using s1(4) by (simp add: win_handshake_def)
  have g: "length win_greets \<le> 54" by (simp add: length_win_greets)
  obtain s2 es where s2: "worker_step ws mem s1 = Inr s2" "waiting (thpool s2) = []" "io s2 = io s1 @ es"
    "epoll_connect_client s2 = epoll_connect_client s1" "length (sent_to fd es) = 264"
    "get_header (sent_to fd es) = \<lparr>iMessageType = CMD_HANDSHAKE_ACK, iMessageLen = 264\<rparr>"
    "str_at 8 (sent_to fd es) = Inr (take 255 (handshake_info (inet_ntoa a) (uint port)))"
    using handshake_turn [OF s1(2) j c _ g assms(7), of mem] assms(5) by auto
  have t: "take 255 (handshake_info (inet_ntoa a) (uint port)) = handshake_info (inet_ntoa a) (uint port)"
    using handshake_info_fits [of a port] by simp
  have "flags s2 = flags s1"
    using worker_step_leaves [OF _ s2(1)] s1(2) by (auto simp: server_ok_def)
  then have "\<not> exit_flag s2" using s1(3) assms(2) by (simp add: flags_def)
  moreover have "reachable client_ok s2"
    using turn_reachable [OF assms(1,2) ar(1,2) s1(1) s2(1)] .
  moreover have "recv_func [Recvd (take 256 (sent_to fd es))] recvBuf
      = Inr ([Print (''[HANDSHAKE ACK] '' @ handshake_info (inet_ntoa a) (uint port) @ nl)], take 256 (sent_to fd es))"
    using s2(5-7) t handshake_info_fits [of a port] assms(8) by (intro recv_func_handshake) simp_all
  moreover have "conns (epoll_connect_client s2) fd = Some (now, inet_ntoa a, uint port)" using s2(4) c by simp
  ultimately show ?thesis using s1(1) s2(1-3) by blast
qed

lemma win_login_served:
  assumes "reachable client_ok s" "\<not> exit_flag s" "waiting (thpool s) = []" "fresh_addr m (thpool s)" "0 \<le> fd"
    and "conns (epoll_connect_client s) fd = Some (tm, ip, port)" "malloc_works mem"
  shows "\<exists>s1 s2 k. handle_event i (arrival fd win_login m now) s = Inr s1 \<and> worker_step ws mem s1 = Inr s2
    \<and> reachable client_ok s2 \<and> waiting (thpool s2) = []
    \<and> conns (epoll_connect_client s2) fd = Some (now, ip, port)
    \<and> get_matched_event_index_by_fd fd (epoll_connect_client s2) = int k
    \<and> cstr (UsrhashId (epoll_connect_client s2 ! k)) = win_userId
    \<and> cstr (conn_passwd (epoll_connect_client s2 ! k)) = win_passwd"
proof -
  let ?e = "arrival fd win_login m now"
  have ok: "server_ok s" using assms(1) by (rule reachable_ok)
  note ar = arrival_ok(1,2) [OF assms(4), where m = win_login and fd = fd and now = now, simplified]
    arrival_ok(3) [OF assms(4), where m = win_login, simplified]
  obtain s1 where s1: "handle_event i ?e s = Inr s1" "server_ok s1" "waiting (thpool s1) = [job_of ?e win_login]"
    "conns (epoll_connect_client s1) = (conns (epoll_connect_client s))(fd \<mapsto> (now, ip, port))"
    using message_becomes_job [OF ok ar(1,2) assms(3), of win_login] ar(3) assms(5,6) by fastforce
  have c: "conns (epoll_connect_client s1) (ev_fd ?e) = Some (now, ip, port)" using s1(4) by simp
  have j: "waiting (thpool s1) = [job_of ?e (message CMD_SENDUI (credentials win_userId win_passwd))]"
    using s1(3) by (simp add: win_login_def)
  have l: "length win_userId < 10" "length win_passwd < 7" by (simp_all add: win_userId_def win_passwd_def)
  have fd: "0 \<le> ev_fd ?e" using assms(5) by simp
  obtain s2 k where s2: "worker_step ws mem s1 = Inr s2" "waiting (thpool s2) = []"
    "conns (epoll_connect_client s2) = conns (epoll_connect_client s1)"
    "get_matched_event_index_by_fd fd (epoll_connect_client s2) = int k"
    "cstr (UsrhashId (epoll_connect_client s2 ! k)) = win_userId"
    "cstr (conn_passwd (epoll_connect_client s2 ! k)) = win_passwd"
    using login_turn [OF s1(2) j c fd assms(7) nulfree_win(2) l(1) nulfree_win(3) l(2), of ws] by auto
  have "reachable client_ok s2" using turn_reachable [OF assms(1,2) ar(1,2) s1(1) s2(1)] .
  then show ?thesis using s1(1) s2 c by auto
qed

section \<open>Properties\<close>

text \<open>C15. The Windows client as a whole: when nothing fails before the first command, it sends its
  handshake, its login, and then one message per \<open>getu\<close> or \<open>allu\<close> line in the order they are typed,
  whatever other lines are in between, up to the first \<open>exit\<close> or the first line that does not fit
  \<open>Command[256]\<close>; it exits with 0 in the one case, is aborted by \<open>gets_s\<close> in the other, and otherwise
  waits for more.\<close>

theorem windows_client_messages:
  assumes "win_runs env" "sent_whole (we_lines env)"
  shows "\<exists>es. win_main env = Inr (win_outcome (we_lines env), es)
    \<and> sent_to (we_sock env) es = message CMD_HANDSHAKE (win_greets @ [NUL])
        @ message CMD_SENDUI (credentials win_userId win_passwd)
        @ concat (map (\<lambda>l. request_of (fst l)) (takeWhile goes_on (we_lines env)))"
proof -
  obtain h where h: "win_hello env = Inr h" "sent_to (we_sock env) h = win_handshake @ win_login"
    using win_hello_sends [OF assms(1)] by blast
  obtain es where es: "command_loop (we_sock env) (we_lines env) = Inr (win_outcome (we_lines env), es)"
    "sent_to (we_sock env) es = concat (map (\<lambda>l. request_of (fst l)) (takeWhile goes_on (we_lines env)))"
    using command_loop_sends [OF assms(2)] by blast
  show ?thesis
    using assms(1) h es by (simp add: win_main_def Let_def win_runs_def win_handshake_def win_login_def)
qed

definition sample_win :: "(string \<times> int) list \<Rightarrow> win_env" where
  "sample_win lines = \<lparr>we_startup = 0, we_version = (1, 1), we_sock = 7, we_connect = 0, we_send1 = 43,
     we_send2 = 25, we_keepalive = 0, we_ioctl = 0, we_error = 0, we_lines = lines\<rparr>"

lemma sample_win_runs: "win_runs (sample_win lines)" "we_lines (sample_win lines) = lines" "we_sock (sample_win lines) = 7"
  by (simp_all add: sample_win_def win_runs_def SOCKET_ERROR_def)

theorem windows_client_messages_witness:
  "\<exists>es. win_main (sample_win [(''allu'', 8), (''help'', 0), (''exit'', 0), (''allu'', 8)]) = Inr (Win_exits 0, es)
     \<and> sent_to 7 es = message CMD_HANDSHAKE (win_greets @ [NUL])
         @ message CMD_SENDUI (credentials win_userId win_passwd) @ message CMD_GETALLUSER []"
proof -
  let ?l = "[(''allu'', 8), (''help'', 0), (''exit'', 0), (''allu'', 8)] :: (string \<times> int) list"
  have c: "cstr ''allu'' = ''allu''" "cstr ''help'' = ''help''" "cstr ''exit'' = ''exit''"
    by (simp_all add: NUL_def)
  have "sent_whole ?l" by (simp add: sent_whole_def request_of_def c)
  moreover have "win_outcome ?l = Win_exits 0" by (simp add: win_outcome_def goes_on_def c COMMANDMAXC_def)
  moreover have "concat (map (\<lambda>l. request_of (fst l)) (takeWhile goes_on ?l)) = message CMD_GETALLUSER []"
    by (simp add: goes_on_def c COMMANDMAXC_def request_of_def)
  ultimately show ?thesis
    using windows_client_messages [of "sample_win ?l"] by (simp add: sample_win_runs)
qed

text \<open>C20. A session from end to end, through every thread: a client whose connection the accept thread
  admits sends the Windows client's handshake, and the epoll loop and a worker answer it with a
  reply of 264 bytes; when the network delivers exactly the first 256 of them alone, which is what the
  client's buffer holds (C39: the whole reply at once overflows it), the client prints the address and port it is connected from; its login
  is then stored under its id and password in the slot of its connection, whose time is renewed.
  The server stays in a reachable state with nothing left to do. It starts from a reachable state without waiting jobs, below the
  connection limit; the kernel's new descriptor is not open and can be added to epoll, \<open>malloc\<close> works and the reply
  is written without \<open>EAGAIN\<close>.\<close>

theorem session_served:
  assumes "reachable client_ok s" "\<not> exit_flag s" "waiting (thpool s) = []" "current_connected_total s < int MAX_EVENTS"
    and "accept_env_ok a s" "\<not> accept_refused a s" "0 \<le> ae_fd a"
    and "fresh_addr m1 (thpool s)" "accepts 264 ws" "malloc_works mem" "length recvBuf = 256"
  shows "\<exists>s0 s1 s2 es. accept_iteration a s = Inr s0
    \<and> handle_event i (arrival (ae_fd a) win_handshake m1 t1) s0 = Inr s1 \<and> worker_step ws mem s1 = Inr s2
    \<and> io s2 = io s1 @ es
    \<and> recv_func [Recvd (take 256 (sent_to (ae_fd a) es))] recvBuf
        = Inr ([Print (''[HANDSHAKE ACK] '' @ handshake_info (inet_ntoa (ae_addr a)) (uint (ae_port a)) @ nl)],
               take 256 (sent_to (ae_fd a) es))
    \<and> (\<forall>m2. fresh_addr m2 (thpool s2) \<longrightarrow> (\<exists>s3 s4 k.
          handle_event j (arrival (ae_fd a) win_login m2 t2) s2 = Inr s3 \<and> worker_step ws2 mem s3 = Inr s4
        \<and> reachable client_ok s4 \<and> waiting (thpool s4) = []
        \<and> conns (epoll_connect_client s4) (ae_fd a) = Some (t2, inet_ntoa (ae_addr a), uint (ae_port a))
        \<and> get_matched_event_index_by_fd (ae_fd a) (epoll_connect_client s4) = int k
        \<and> cstr (UsrhashId (epoll_connect_client s4 ! k)) = win_userId
        \<and> cstr (conn_passwd (epoll_connect_client s4 ! k)) = win_passwd))"
proof -
  have inv: "server_inv s" using reachable_ok [OF assms(1)] by (simp add: server_ok_def)
  have un: "fd_unlisted a s" and ctl: "ae_ctl a \<noteq> -1"
    using accept_env_unlisted [OF _ assms(5)] reachable_is_sound [OF assms(1)] assms(5,7)
    by (simp_all add: server_sound_def accept_env_ok_def)
  have fl: "\<not> exit_accept_flag s" using reachable_flags [OF assms(1)] assms(2) by simp
  obtain s0 where s0: "accept_connection a s = Inr s0"
    "abs_of s0 = (abs_of s)\<lparr>a_conns := (conns (epoll_connect_client s))(ae_fd a \<mapsto> accept_peer a),
       a_total := current_connected_total s + 1\<rparr>"
    using accept_admitted_eq [OF inv un assms(6,7)] ctl by auto
  have it: "accept_iteration a s = Inr s0" using s0(1) assms(4,7) by (simp add: accept_iteration_def accept_returned_def accept_full_def)
  have r0: "reachable client_ok s0" by (rule reachable.step [OF assms(1) server_step.accept [OF fl assms(5) it]])
  have e0: "\<not> exit_flag s0" using accept_flags [OF it] assms(2) by (simp add: flags_def)
  have w0: "waiting (thpool s0) = []" "conns (epoll_connect_client s0) (ae_fd a) = Some (accept_peer a)"
    using arg_cong [OF s0(2), of a_jobs] arg_cong [OF s0(2), of a_conns] assms(3) by simp_all
  have f0: "fresh_addr m1 (thpool s0)" using thpool_accepts [OF s0(1)] assms(8) by simp
  obtain s1 s2 es where s2: "handle_event i (arrival (ae_fd a) win_handshake m1 t1) s0 = Inr s1"
    "worker_step ws mem s1 = Inr s2" "reachable client_ok s2" "\<not> exit_flag s2" "waiting (thpool s2) = []" "io s2 = io s1 @ es"
    "recv_func [Recvd (take 256 (sent_to (ae_fd a) es))] recvBuf
        = Inr ([Print (''[HANDSHAKE ACK] '' @ handshake_info (inet_ntoa (ae_addr a)) (uint (ae_port a)) @ nl)],
               take 256 (sent_to (ae_fd a) es))"
    "conns (epoll_connect_client s2) (ae_fd a) = Some (t1, inet_ntoa (ae_addr a), uint (ae_port a))"
    using greeting_served [OF r0 e0 w0(1) f0 assms(7) w0(2) [unfolded accept_peer_def] assms(9,11)] by blast
  show ?thesis
    using it s2(1,2,6,7) win_login_served [OF s2(3-5) _ assms(7) s2(8) assms(10)] by blast
qed

theorem session_served_witness:
  "\<exists>s0 s1 s2 es. accept_iteration sample_accept sample_start = Inr s0
    \<and> handle_event 0 (arrival 5 win_handshake 1 101) s0 = Inr s1 \<and> worker_step [Wrote 264] full_malloc s1 = Inr s2
    \<and> io s2 = io s1 @ es
    \<and> recv_func [Recvd (take 256 (sent_to 5 es))] (replicate 256 NUL)
        = Inr ([Print (''[HANDSHAKE ACK] '' @ handshake_info (inet_ntoa 0x0700A8C0) 5000 @ nl)],
               take 256 (sent_to 5 es))"
proof -
  have a: "0 \<le> ae_fd sample_accept" "ae_fd sample_accept = 5"
    "ae_addr sample_accept = 0x0700A8C0" "uint (ae_port sample_accept) = 5000"
    by (simp_all add: sample_accept_def)
  have s: "\<not> exit_flag sample_start" "waiting (thpool sample_start) = []"
    "current_connected_total sample_start < int MAX_EVENTS" "fresh_addr 1 (thpool sample_start)"
    by (simp_all add: MAX_EVENTS_def fresh_addr_def)
  have "accepts 264 [Wrote 264]" by (simp add: eval_nat_numeral)
  from session_served [OF sample_start_reachable s(1-3) sample_accept_ok(1) sample_not_refused a(1) s(4) this
      full_malloc_works length_replicate, of 0 101 NUL]
  show ?thesis unfolding a by blast
qed

end
