(* ===== verification/TableRuns.thy ===== *)
theory TableRuns
  imports EventCorrect Runs
begin

text \<open>
  Whole histories of the connection table: any sequence of insertions, removals and renewals of the
  time implements the same sequence on a map. The registry with a time is the registry of
  \<open>ConnRegistry\<close> with one more operation; its runs are refining runs.
\<close>

section \<open>The interface\<close>

datatype 'a reg_op = Insert int 'a | Remove int | Renew int int

text \<open>An insertion takes the entry the allocation finds; the caller gives up when there is none.\<close>

definition reg_step ::
    "('t \<Rightarrow> int) \<Rightarrow> (int \<Rightarrow> int \<Rightarrow> 'a \<Rightarrow> 't \<Rightarrow> 't result) \<Rightarrow> (int \<Rightarrow> 't \<Rightarrow> int) \<Rightarrow> (int \<Rightarrow> 't \<Rightarrow> 't result)
     \<Rightarrow> (int \<Rightarrow> int \<Rightarrow> 't \<Rightarrow> int \<times> 't) \<Rightarrow> 'a reg_op \<Rightarrow> 't \<Rightarrow> 't result" where
  "reg_step alloc ins look del tick m t =
     (case m of
        Insert fd a \<Rightarrow> (if alloc t = -1 then Inr t else ins (alloc t) fd a t)
      | Remove fd \<Rightarrow> del (look fd t) t
      | Renew fd tm \<Rightarrow> Inr (snd (tick (look fd t) tm t)))"

definition abs_reg ::
    "nat \<Rightarrow> ('a \<Rightarrow> 'p) \<Rightarrow> (int \<Rightarrow> 'p \<Rightarrow> 'p) \<Rightarrow> 'a reg_op \<Rightarrow> (int \<Rightarrow> 'p option) \<Rightarrow> int \<Rightarrow> 'p option" where
  "abs_reg cap val later m v =
     (case m of
        Insert fd a \<Rightarrow> (if card (dom v) = cap then v else v(fd \<mapsto> val a))
      | Remove fd \<Rightarrow> v(fd := None)
      | Renew fd tm \<Rightarrow> v(fd := map_option (later tm) (v fd)))"

definition reg_ok :: "('t \<Rightarrow> int \<Rightarrow> 'p option) \<Rightarrow> ('a \<Rightarrow> bool) \<Rightarrow> 'a reg_op \<Rightarrow> 't \<Rightarrow> bool" where
  "reg_ok view ok m t =
     (case m of
        Insert fd a \<Rightarrow> ok a \<and> fd \<noteq> -1 \<and> view t fd = None
      | Remove fd \<Rightarrow> fd \<noteq> -1
      | Renew fd tm \<Rightarrow> fd \<noteq> -1)"

locale timed_registry = conn_registry inv view cap alloc ok val ins find del
  for inv :: "'t \<Rightarrow> bool" and view :: "'t \<Rightarrow> int \<Rightarrow> 'p option" and cap :: nat and alloc :: "'t \<Rightarrow> int"
    and ok :: "'a \<Rightarrow> bool" and val :: "'a \<Rightarrow> 'p" and ins :: "int \<Rightarrow> int \<Rightarrow> 'a \<Rightarrow> 't \<Rightarrow> 't result"
    and find :: "int \<Rightarrow> 't \<Rightarrow> int" and del :: "int \<Rightarrow> 't \<Rightarrow> 't result" +
  fixes tick :: "int \<Rightarrow> int \<Rightarrow> 't \<Rightarrow> int \<times> 't"
    and later :: "int \<Rightarrow> 'p \<Rightarrow> 'p"
  assumes tick_find: "inv t \<Longrightarrow> fd \<noteq> -1 \<Longrightarrow>
      inv (snd (tick (find fd t) tm t))
      \<and> view (snd (tick (find fd t) tm t)) = (view t)(fd := map_option (later tm) (view t fd))"

begin

lemma reg_step_correct:
  assumes t: "inv t" and m: "reg_ok view ok m t"
  shows "\<exists>t'. reg_step alloc ins find del tick m t = Inr t' \<and> inv t'
           \<and> view t' = abs_reg cap val later m (view t)"
proof (cases m)
  case (Insert fd a)
  then have a: "ok a" "fd \<noteq> -1" "view t fd = None" using m by (simp_all add: reg_ok_def)
  show ?thesis
  proof (cases "alloc t = -1")
    case True
    then have "card (dom (view t)) = cap" using alloc_full [OF t] by simp
    with True t Insert show ?thesis by (simp add: reg_step_def abs_reg_def)
  next
    case False
    then have "card (dom (view t)) \<noteq> cap" using alloc_full [OF t] by simp
    with False Insert ins_free [OF t False a] show ?thesis by (simp add: reg_step_def abs_reg_def)
  qed
next
  case (Remove fd)
  then have "fd \<noteq> -1" using m by (simp add: reg_ok_def)
  from del_find [OF t this] Remove show ?thesis by (simp add: reg_step_def abs_reg_def)
next
  case (Renew fd tm)
  then have "fd \<noteq> -1" using m by (simp add: reg_ok_def)
  from tick_find [OF t this, of tm] Renew show ?thesis by (simp add: reg_step_def abs_reg_def)
qed

end

sublocale timed_registry \<subseteq> ops: refining_steps inv "reg_step alloc ins find del tick" "reg_ok view ok" view
  "abs_reg cap val later"
proof
  fix t m
  assume t: "inv t" and m: "reg_ok view ok m t"
  show "\<exists>t'. reg_step alloc ins find del tick m t = Inr t' \<and> inv t'"
    using reg_step_correct [OF t m] by blast
next
  fix t m t'
  assume t: "inv t" and m: "reg_ok view ok m t" and s: "reg_step alloc ins find del tick m t = Inr t'"
  show "view t' = abs_reg cap val later m (view t)"
    using reg_step_correct [OF t m] s by auto
qed

section \<open>The table provides it\<close>

lemma update_time_correct:
  assumes "conn_inv t" "fd \<noteq> -1"
  shows "conns (snd (update_time_by_index (get_matched_event_index_by_fd fd t) tm t))
      = (conns t)(fd := map_option (touch tm) (conns t fd))"
proof (cases rule: matched_fd_cases [of fd t])
  case none
  then have "conns t fd = None" using assms by (auto simp: conns_None_iff)
  with none show ?thesis by (simp add: update_time_by_index_def in_range_def fun_upd_idem)
next
  case (found k)
  let ?c = "(t ! k)\<lparr>conn_now := tm\<rparr>"
  have l: "live (t ! k)" using assms(2) found(3) by (simp add: live_def)
  have u: "update_time_by_index (int k) tm t = (0, t[k := ?c])"
    using found(2) assms(1) by (simp add: update_time_by_index_def in_range_iff)
  have inv': "conn_inv (t[k := ?c])" using conn_inv_touch [OF assms(1), of "int k" tm] u by simp
  have "conns (t[k := ?c]) = (conns t)(fd \<mapsto> peer_of ?c)"
    using conns_update_live [OF assms(1) inv' found(2)] l found(3) by (simp add: live_def)
  moreover have "conns t fd = Some (peer_of (t ! k))"
    using assms(1) found(2,3) l by (auto simp: conns_Some_iff)
  ultimately show ?thesis using found(1) u by (simp add: touch_def peer_of_def)
qed

interpretation tab: timed_registry conn_inv conns MAX_EVENTS get_epoll_connect_free_event_index
  arg_ok arg_peer ins_conn get_matched_event_index_by_fd free_event_by_index update_time_by_index touch
  by unfold_locales (simp_all add: conn_inv_touch update_time_correct)

definition table_step :: "conn_arg reg_op \<Rightarrow> conn_table \<Rightarrow> conn_table result" where
  "table_step = reg_step get_epoll_connect_free_event_index ins_conn get_matched_event_index_by_fd
     free_event_by_index update_time_by_index"

definition abs_table :: "conn_arg reg_op \<Rightarrow> (int \<Rightarrow> peer option) \<Rightarrow> int \<Rightarrow> peer option" where
  "abs_table = abs_reg MAX_EVENTS arg_peer touch"

definition table_ok :: "conn_arg reg_op \<Rightarrow> conn_table \<Rightarrow> bool" where
  "table_ok = reg_ok conns arg_ok"

end
