(* ===== verification/ConfigInfo.thy ===== *)
theory ConfigInfo
  imports Effects
begin

text \<open>
  \<open>src/server/config_info.c\<close>, \<open>config_info.h\<close> and \<open>file_operations.c\<close>: reading the file
  \<open>config.ini\<close>. The content of the file is an argument (\<open>None\<close> when it cannot be opened). The
  buffer the file is read into is filled with zeros and one byte longer than the longest read, so
  it always holds a C string; a pointer into it is the rest of that string.
\<close>

section \<open>Data\<close>

definition PATH_BUFF_SIZE :: nat where "PATH_BUFF_SIZE = 128"
definition DB_NAME_SIZE :: nat where "DB_NAME_SIZE = 64"
definition DB_USER_NAME_SIZE :: nat where "DB_USER_NAME_SIZE = 64"
definition DB_PASSWORD_NAME_SIZE :: nat where "DB_PASSWORD_NAME_SIZE = 64"
definition CONFIG_KEY_WORD_BUF_SIZE :: nat where "CONFIG_KEY_WORD_BUF_SIZE = 128"
definition INI_FILE_BUF_SIZE :: nat where "INI_FILE_BUF_SIZE = 10 * 1024"

lemmas config_sizes = PATH_BUFF_SIZE_def DB_NAME_SIZE_def DB_USER_NAME_SIZE_def
  DB_PASSWORD_NAME_SIZE_def CONFIG_KEY_WORD_BUF_SIZE_def INI_FILE_BUF_SIZE_def

datatype config_key =
    CON_VERSION
  | CON_LOG_LEVEL
  | CON_MYSQL_BRANCH_SERVER_ADDR
  | CON_MYSQL_SERVER_PORT
  | CON_MYSQL_DB_NAME
  | CON_MYSQL_USER_NAME
  | CON_MYSQL_PASSWORD

text \<open>The values of the enumeration below \<open>MAX_NO_OF_CONFIG_KEY_WORD\<close>, in order.\<close>

definition config_keys :: "config_key list" where
  "config_keys = [CON_VERSION, CON_LOG_LEVEL, CON_MYSQL_BRANCH_SERVER_ADDR, CON_MYSQL_SERVER_PORT,
     CON_MYSQL_DB_NAME, CON_MYSQL_USER_NAME, CON_MYSQL_PASSWORD]"

fun config_file_key_word :: "config_key \<Rightarrow> string" where
  "config_file_key_word CON_VERSION = ''Version''"
| "config_file_key_word CON_LOG_LEVEL = ''LogLevel''"
| "config_file_key_word CON_MYSQL_BRANCH_SERVER_ADDR = ''MySqlBranchServerAddr''"
| "config_file_key_word CON_MYSQL_SERVER_PORT = ''MySqlServerPort''"
| "config_file_key_word CON_MYSQL_DB_NAME = ''MySqlDbName''"
| "config_file_key_word CON_MYSQL_USER_NAME = ''MySqlUserName''"
| "config_file_key_word CON_MYSQL_PASSWORD = ''MySqlPassword''"

text \<open>\<open>log_level\<close> is a \<open>char\<close> (8 bits, signed on x86-64), the port an \<open>unsigned int\<close>.\<close>

record CONFIG_INFO =
  version :: string
  log_level :: "8 word"
  mysql_branch_server_addr :: string
  mysql_server_port :: "32 word"
  mysql_db_name :: string
  mysql_user_name :: string
  mysql_password :: string

text \<open>\<open>bzero(config_info, sizeof(CONFIG_INFO))\<close>.\<close>

definition config_zero :: CONFIG_INFO where
  "config_zero = \<lparr>version = replicate 32 NUL, log_level = 0,
     mysql_branch_server_addr = replicate PATH_BUFF_SIZE NUL, mysql_server_port = 0,
     mysql_db_name = replicate DB_NAME_SIZE NUL, mysql_user_name = replicate DB_USER_NAME_SIZE NUL,
     mysql_password = replicate DB_PASSWORD_NAME_SIZE NUL\<rparr>"

section \<open>Reading the file\<close>

text \<open>
  \<open>read_file_to_buff\<close>: the return value, the buffer, and the call of \<open>log_s\<close> (whose format is the
  message itself).
\<close>

definition read_file_to_buff ::
    "string option \<Rightarrow> string \<Rightarrow> nat \<Rightarrow> string \<Rightarrow> (int \<times> string \<times> effect list) result" where
  "read_file_to_buff file file_path len data =
     (case file of
        None \<Rightarrow> Inr (-1, data,
          [Log_s LOG_LEVEL_ERROR (''[./file_operations.c read_file_to_buff 20] Can''  @ [CHR 0x27]
             @ ''t open '' @ file_path @ ''.'' @ nl)])
      | Some content \<Rightarrow>
          and_then (write_at 0 (take len content) data) (\<lambda>data.
            Inr (if 0 < length (take len content) then 0 else -1, data, [])))"

section \<open>Parsing a value\<close>

text \<open>
  The copy loop of \<open>parse_config_key_word\<close>: \<open>p\<close> is what is left of the data. It does not reach
  the end of the string, because the caller has found a separator in it.
\<close>

fun key_word_loop :: "nat \<Rightarrow> string \<Rightarrow> string \<Rightarrow> (nat \<times> string) result" where
  "key_word_loop i [] key_word =
     (if i < CONFIG_KEY_WORD_BUF_SIZE then Inl Unterminated else Inr (i, key_word))"
| "key_word_loop i (c # p) key_word =
     (if i < CONFIG_KEY_WORD_BUF_SIZE \<and> c \<noteq> CHR '';'' \<and> c \<noteq> CHR 0x0A
      then and_then (write_at i [c] key_word) (key_word_loop (Suc i) p)
      else Inr (i, key_word))"

definition parse_config_key_word :: "string \<Rightarrow> string \<Rightarrow> (bool \<times> string) result" where
  "parse_config_key_word data key_word =
     (if strchr data (CHR '';'') \<noteq> None \<or> strchr data (CHR 0x0A) \<noteq> None then
        and_then (key_word_loop 0 data key_word) (\<lambda>(i, key_word).
        and_then (write_at (min i (CONFIG_KEY_WORD_BUF_SIZE - 1)) [NUL] key_word) (\<lambda>key_word.
          Inr (True, key_word)))
      else Inr (False, key_word))"

section \<open>The fields\<close>

text \<open>The \<open>switch\<close> of \<open>read_config_info\<close>.\<close>

definition copy_field :: "nat \<Rightarrow> string \<Rightarrow> string \<Rightarrow> string result" where
  "copy_field n key_word_buf field =
     and_then (str_at 0 key_word_buf) (\<lambda>s. snprintf_at 0 n s field)"

fun set_field :: "config_key \<Rightarrow> string \<Rightarrow> CONFIG_INFO \<Rightarrow> CONFIG_INFO result" where
  "set_field CON_VERSION b c =
     and_then (copy_field 32 b (version c)) (\<lambda>x. Inr (c\<lparr>version := x\<rparr>))"
| "set_field CON_LOG_LEVEL b c =
     and_then (str_at 0 b) (\<lambda>s. Inr (c\<lparr>log_level := word_of_int (atoi s)\<rparr>))"
| "set_field CON_MYSQL_BRANCH_SERVER_ADDR b c =
     and_then (copy_field (min PATH_BUFF_SIZE CONFIG_KEY_WORD_BUF_SIZE) b (mysql_branch_server_addr c))
       (\<lambda>x. Inr (c\<lparr>mysql_branch_server_addr := x\<rparr>))"
| "set_field CON_MYSQL_SERVER_PORT b c =
     and_then (str_at 0 b) (\<lambda>s. Inr (c\<lparr>mysql_server_port := word_of_int (atoi s)\<rparr>))"
| "set_field CON_MYSQL_DB_NAME b c =
     and_then (copy_field (min DB_NAME_SIZE CONFIG_KEY_WORD_BUF_SIZE) b (mysql_db_name c))
       (\<lambda>x. Inr (c\<lparr>mysql_db_name := x\<rparr>))"
| "set_field CON_MYSQL_USER_NAME b c =
     and_then (copy_field (min DB_USER_NAME_SIZE CONFIG_KEY_WORD_BUF_SIZE) b (mysql_user_name c))
       (\<lambda>x. Inr (c\<lparr>mysql_user_name := x\<rparr>))"
| "set_field CON_MYSQL_PASSWORD b c =
     and_then (copy_field (min DB_PASSWORD_NAME_SIZE CONFIG_KEY_WORD_BUF_SIZE) b (mysql_password c))
       (\<lambda>x. Inr (c\<lparr>mysql_password := x\<rparr>))"

section \<open>The whole file\<close>

definition blank :: "char \<Rightarrow> bool" where
  "blank c \<longleftrightarrow> c = CHR 0x09 \<or> c = CHR 0x20"

text \<open>
  The loop over the key words; \<open>text\<close> is the C string in \<open>config_file_buff\<close>. The result is the
  return value and \<open>*config_info\<close>: \<open>-1\<close> at \<open>goto EXIT\<close>, 0 at the end.
\<close>

fun config_loop :: "string \<Rightarrow> config_key list \<Rightarrow> string \<Rightarrow> CONFIG_INFO \<Rightarrow> (int \<times> CONFIG_INFO) result" where
  "config_loop text [] key_word_buf c = Inr (0, c)"
| "config_loop text (k # ks) key_word_buf c =
     (case strstr text (config_file_key_word k) of
        None \<Rightarrow> Inr (-1, c)
      | Some p \<Rightarrow>
          (case strchr p (CHR ''='') of
             None \<Rightarrow> Inr (-1, c)
           | Some p \<Rightarrow>
               and_then (parse_config_key_word (dropWhile blank (tl p)) key_word_buf)
                 (\<lambda>(found, key_word_buf).
                   if found
                   then and_then (set_field k key_word_buf c) (config_loop text ks key_word_buf)
                   else config_loop text ks key_word_buf c)))"

text \<open>\<open>malloc_ok\<close> tells whether \<open>malloc\<close> returns memory.\<close>

definition read_config_info ::
    "bool \<Rightarrow> string option \<Rightarrow> CONFIG_INFO \<Rightarrow> (int \<times> CONFIG_INFO \<times> effect list) result" where
  "read_config_info malloc_ok file c =
     (if \<not> malloc_ok then
        Inr (-1, c, [Print (''[./config_info.c read_config_info 56] No enough memory!'' @ nl)])
      else
        and_then (read_file_to_buff file ''config.ini'' (INI_FILE_BUF_SIZE - 1)
            (replicate INI_FILE_BUF_SIZE NUL)) (\<lambda>(r, buf, es).
          if r \<noteq> 0 then Inr (-1, c, es)
          else and_then (config_loop (cstr buf) config_keys (replicate CONFIG_KEY_WORD_BUF_SIZE NUL) config_zero)
            (\<lambda>(r, c). Inr (r, c, es))))"

text \<open>\<open>print_config_info\<close>: \<open>%d\<close> prints the promoted \<open>char\<close>, and the port as a signed number.\<close>

definition config_line :: "nat \<Rightarrow> string \<Rightarrow> string \<Rightarrow> effect" where
  "config_line line name v = Print (''[./config_info.c print_config_info '' @ show_nat line
     @ ''] config_info.'' @ name @ '': '' @ v @ nl)"

definition print_config_info :: "CONFIG_INFO \<Rightarrow> effect list result" where
  "print_config_info c =
     and_then (str_at 0 (version c)) (\<lambda>v.
     and_then (str_at 0 (mysql_branch_server_addr c)) (\<lambda>a.
     and_then (str_at 0 (mysql_db_name c)) (\<lambda>d.
     and_then (str_at 0 (mysql_user_name c)) (\<lambda>u.
     and_then (str_at 0 (mysql_password c)) (\<lambda>p.
       Inr [config_line 125 ''version'' v,
            config_line 126 ''LogLevel'' (show_int (sint (log_level c))),
            config_line 127 ''mysql_branch_server_addr'' a,
            config_line 128 ''mysql_server_port'' (show_int (sint (mysql_server_port c))),
            config_line 129 ''mysql_db_name'' d,
            config_line 130 ''mysql_user_name'' u,
            config_line 131 ''mysql_password'' p])))))"

end
