(* ===== verification/SqlPool.thy ===== *)
theory SqlPool
  imports ConfigInfo
begin

text \<open>
  \<open>src/server/sql_pool.c\<close>, \<open>sql_pool.h\<close> and \<open>database_process.c\<close>: the pool of database
  connections. The answers of the MySQL library are arguments; a connection is identified with the
  index of its node, since \<open>mysql_real_connect\<close> returns the \<open>MYSQL\<close> object it is given. The server
  is built with \<open>CONNECT_TO_SQL_SUCCESS\<close> 0, so this part is compiled but not called.
\<close>

section \<open>Data\<close>

definition DB_LEN_IP :: nat where "DB_LEN_IP = 15"
definition DB_LEN_DBNAME :: nat where "DB_LEN_DBNAME = 64"
definition DB_LEN_DBUSER :: nat where "DB_LEN_DBUSER = 64"
definition DB_LEN_PASSWD :: nat where "DB_LEN_PASSWD = 64"
definition POOL_NUMBER :: nat where "POOL_NUMBER = 20"

lemmas db_sizes = DB_LEN_IP_def DB_LEN_DBNAME_def DB_LEN_DBUSER_def DB_LEN_PASSWD_def POOL_NUMBER_def

datatype db_state = DB_DISCONN | DB_CONN

text \<open>
  A mutex: free, or held by a thread. \<open>pthread_mutex_init\<close> makes it free whatever it was, as the
  C library of the target does (POSIX leaves the initialisation of a mutex in use undefined).
\<close>

datatype sql_mutex = Free | Held nat

record SQL_SOCK_NODE =
  mysql_sock :: "nat option"
  sql_lock :: sql_mutex
  used :: bool
  node_index :: nat
  sql_state :: db_state

record POOL_SQL_SOCK =
  sql_pool :: "SQL_SOCK_NODE list"
  db_ip :: string
  db_port :: "32 word"
  db_name :: string
  db_user :: string
  db_passwd :: string
  pool_number :: nat

definition node_zero :: SQL_SOCK_NODE where
  "node_zero = \<lparr>mysql_sock = None, sql_lock = Free, used = False, node_index = 0, sql_state = DB_DISCONN\<rparr>"

definition sql_pool_zero :: POOL_SQL_SOCK where
  "sql_pool_zero = \<lparr>sql_pool = replicate POOL_NUMBER node_zero, db_ip = replicate (DB_LEN_IP + 1) NUL,
     db_port = 0, db_name = replicate (DB_LEN_DBNAME + 1) NUL, db_user = replicate (DB_LEN_DBUSER + 1) NUL,
     db_passwd = replicate (DB_LEN_PASSWD + 1) NUL, pool_number = 0\<rparr>"

text \<open>What the library answers for one node: \<open>mysql_init\<close>, \<open>pthread_mutex_init\<close>, \<open>mysql_real_connect\<close>,
  \<open>mysql_ping\<close>, and the text of \<open>mysql_error\<close>.\<close>

record db_env =
  init_ok :: bool
  mutex_ok :: bool
  connect_ok :: bool
  ping_ok :: bool
  error_text :: string

section \<open>Opening\<close>

text \<open>\<open>create_connect\<close> on the node with index \<open>i\<close>: the return value and the node.\<close>

definition create_connect :: "db_env \<Rightarrow> nat \<Rightarrow> SQL_SOCK_NODE \<Rightarrow> int \<times> SQL_SOCK_NODE \<times> effect list" where
  "create_connect e i n =
     (if \<not> init_ok e then
        (-1, n, [Log LOG_LEVEL_ERROR ''create_connect'' 35 (''mysql_init error!.'' @ nl)])
      else
        (let es = (if mutex_ok e then []
                   else [Log LOG_LEVEL_ERROR ''create_connect'' 43
                           (''Couldn'' @ [CHR 0x27] @ ''t pthread_mutex_init to engine!.'' @ nl)]);
             n = (if mutex_ok e then n\<lparr>sql_lock := Free\<rparr> else n) in
         if \<not> connect_ok e then
           (1, n\<lparr>mysql_sock := None, sql_state := DB_DISCONN\<rparr>,
            es @ [Log LOG_LEVEL_ERROR ''create_connect'' 50
                    (''Couldn'' @ [CHR 0x27] @ ''t connect to engine! '' @ error_text e @ ''.'' @ nl),
                  Print (''connect error'' @ nl)])
         else (0, n\<lparr>mysql_sock := Some i, used := False, sql_state := DB_CONN\<rparr>, es)))"

text \<open>The loop of \<open>sql_pool_destroy\<close> over the nodes from \<open>i\<close> on.\<close>

fun close_nodes :: "nat \<Rightarrow> SQL_SOCK_NODE list \<Rightarrow> SQL_SOCK_NODE list \<times> effect list" where
  "close_nodes k [] = ([], [])"
| "close_nodes k (n # ns) =
     (if k = 0 then (n # ns, [])
      else
        (let (ns, es) = close_nodes (k - 1) ns in
         (n\<lparr>mysql_sock := None, sql_state := DB_DISCONN\<rparr> # ns,
          (case mysql_sock n of None \<Rightarrow> es | Some c \<Rightarrow> Mysql_close c # es))))"

definition sql_pool_destroy :: "POOL_SQL_SOCK \<Rightarrow> (POOL_SQL_SOCK \<times> effect list) result" where
  "sql_pool_destroy p =
     (if length (sql_pool p) < pool_number p then Inl OutOfBounds
      else (let (ns, es) = close_nodes (pool_number p) (sql_pool p) in Inr (p\<lparr>sql_pool := ns\<rparr>, es)))"

text \<open>
  The loop of \<open>sql_pool_create\<close>; \<open>k\<close> is the number of connections still to make, so the node is
  the one with index \<open>pool_number\<close>.
\<close>

fun create_loop :: "(nat \<Rightarrow> db_env) \<Rightarrow> nat \<Rightarrow> POOL_SQL_SOCK \<Rightarrow> (int \<times> POOL_SQL_SOCK \<times> effect list) result" where
  "create_loop env 0 p = Inr (0, p, [])"
| "create_loop env (Suc k) p =
     (let i = pool_number p in
      if length (sql_pool p) \<le> i then Inl OutOfBounds
      else
        (case create_connect (env i) i (sql_pool p ! i) of
           (r, n, es) \<Rightarrow>
             if r = -1 then
               and_then (sql_pool_destroy (p\<lparr>sql_pool := (sql_pool p)[i := n]\<rparr>)) (\<lambda>(p, es').
                 Inr (-1, p, es @ es'))
             else
               and_then (create_loop env k
                   (p\<lparr>sql_pool := (sql_pool p)[i := n\<lparr>node_index := i\<rparr>], pool_number := Suc i\<rparr>))
                 (\<lambda>(r, p, es').
                   Inr (r, p, es @ Print (''create db pool success'' @ nl) # es'))))"

text \<open>\<open>sprintf(dst, "%s", src)\<close> is \<open>strcpy\<close>.\<close>

definition sql_pool_create ::
    "(nat \<Rightarrow> db_env) \<Rightarrow> CONFIG_INFO \<Rightarrow> nat \<Rightarrow> (int \<times> POOL_SQL_SOCK \<times> effect list) result" where
  "sql_pool_create env config connect_pool_number =
     (let p = sql_pool_zero in
      and_then (strcpy_at 0 (DB_LEN_IP + 1) (mysql_branch_server_addr config) (db_ip p)) (\<lambda>ip.
      and_then (strcpy_at 0 (DB_LEN_DBNAME + 1) (mysql_db_name config) (db_name p)) (\<lambda>dbname.
      and_then (strcpy_at 0 (DB_LEN_DBUSER + 1) (mysql_user_name config) (db_user p)) (\<lambda>user.
      and_then (strcpy_at 0 (DB_LEN_PASSWD + 1) (mysql_password config) (db_passwd p)) (\<lambda>passwd.
        create_loop env connect_pool_number
          (p\<lparr>db_ip := ip, db_port := mysql_server_port config, db_name := dbname, db_user := user,
             db_passwd := passwd\<rparr>))))))"

section \<open>Taking and giving back\<close>

definition release_node :: "SQL_SOCK_NODE \<Rightarrow> SQL_SOCK_NODE" where
  "release_node n = n\<lparr>used := False, sql_lock := Free\<rparr>"

definition release_sock_to_sql_pool :: "nat \<Rightarrow> POOL_SQL_SOCK \<Rightarrow> POOL_SQL_SOCK result" where
  "release_sock_to_sql_pool i p =
     (if i < length (sql_pool p) then Inr (p\<lparr>sql_pool := (sql_pool p)[i := release_node (sql_pool p ! i)]\<rparr>)
      else Inl OutOfBounds)"

definition check_sql_sock_normal :: "nat \<Rightarrow> POOL_SQL_SOCK \<Rightarrow> POOL_SQL_SOCK result" where
  "check_sql_sock_normal i p =
     (if i < length (sql_pool p)
      then Inr (p\<lparr>sql_pool := (sql_pool p)[i := (sql_pool p ! i)\<lparr>sql_state := DB_DISCONN\<rparr>]\<rparr>)
      else Inl OutOfBounds)"

text \<open>
  One turn of the loop of \<open>get_db_connect_from_pool\<close> in thread \<open>t\<close> on the node with index \<open>i\<close>:
  whether the loop breaks, and the node.
\<close>

definition try_node :: "nat \<Rightarrow> db_env \<Rightarrow> nat \<Rightarrow> SQL_SOCK_NODE \<Rightarrow> bool \<times> SQL_SOCK_NODE \<times> effect list" where
  "try_node t e i n =
     (if sql_lock n \<noteq> Free then (False, n, [])
      else
        (let n = n\<lparr>sql_lock := Held t\<rparr>;
             (r, n, es) = (if sql_state n = DB_DISCONN then create_connect e i n else (0, n, [])) in
         if r \<noteq> 0 then (False, release_node n, es)
         else if \<not> ping_ok e then
           (False, release_node (n\<lparr>sql_state := DB_DISCONN\<rparr>),
            es @ [Log LOG_LEVEL_ERROR ''get_db_connect_from_pool'' 151 (''mysql_ping error!.'' @ nl)])
         else (True, n\<lparr>used := True\<rparr>, es)))"

text \<open>The loop over the indices in the order it visits them.\<close>

fun get_loop ::
    "nat \<Rightarrow> (nat \<Rightarrow> db_env) \<Rightarrow> nat list \<Rightarrow> SQL_SOCK_NODE list
     \<Rightarrow> (nat option \<times> SQL_SOCK_NODE list \<times> effect list) result" where
  "get_loop t env [] ns = Inr (None, ns, [])"
| "get_loop t env (i # is) ns =
     (if length ns \<le> i then Inl OutOfBounds
      else
        (case try_node t (env i) i (ns ! i) of
           (found, n, es) \<Rightarrow>
             if found then Inr (Some i, ns[i := n], es)
             else and_then (get_loop t env is (ns[i := n])) (\<lambda>(r, ns, es'). Inr (r, ns, es @ es'))))"

text \<open>\<open>rand\<close> is what \<open>rand()\<close> returns.\<close>

definition get_db_connect_from_pool ::
    "nat \<Rightarrow> nat \<Rightarrow> (nat \<Rightarrow> db_env) \<Rightarrow> POOL_SQL_SOCK \<Rightarrow> (nat option \<times> POOL_SQL_SOCK \<times> effect list) result" where
  "get_db_connect_from_pool t rand env p =
     (let m = pool_number p in
      if m = 0 then Inl DivByZero
      else
        and_then (get_loop t env (map (\<lambda>l. (rand mod m + l) mod m) [0..<m]) (sql_pool p))
          (\<lambda>(r, ns, es). Inr (r, p\<lparr>sql_pool := ns\<rparr>, es)))"

section \<open>The query\<close>

text \<open>What \<open>mysql_query\<close>, \<open>mysql_store_result\<close> and \<open>mysql_fetch_row\<close> answer; a column may be NULL.\<close>

datatype query_res = Query_failed string | No_result string | Rows "string option list list"

text \<open>What the function returns and logs for an answer; \<open>row[0]\<close> is read without a test.\<close>

definition query_value :: "query_res \<Rightarrow> (int \<times> effect list) result" where
  "query_value q =
     (case q of
        Query_failed m \<Rightarrow> Inr (-1, [Log LOG_LEVEL_ERROR ''get_upgrade_count_from_database'' 47
                                     (''Query failed ('' @ m @ '').'' @ nl)])
      | No_result m \<Rightarrow> Inr (-1, [Log LOG_LEVEL_INFO ''get_upgrade_count_from_database'' 54
                                  (''Couldn'' @ [CHR 0x27] @ ''t get result from '' @ m @ nl)])
      | Rows [] \<Rightarrow> Inr (-1, [Log LOG_LEVEL_INFO ''get_upgrade_count_from_database'' 66
                              (''Get the count fail!'' @ nl)])
      | Rows ([] # _) \<Rightarrow> Inl OutOfBounds
      | Rows ((None # _) # _) \<Rightarrow> Inl NullDeref
      | Rows ((Some c # _) # _) \<Rightarrow>
          Inr (atoi c, [Log LOG_LEVEL_INFO ''get_upgrade_count_from_database'' 62
                          (''Get the count success count is '' @ show_int (atoi c) @ ''.'' @ nl)]))"

text \<open>\<open>get_upgrade_count_from_database\<close>.\<close>

definition get_upgrade_count_from_database ::
    "nat \<Rightarrow> nat \<Rightarrow> (nat \<Rightarrow> db_env) \<Rightarrow> query_res \<Rightarrow> POOL_SQL_SOCK \<Rightarrow> (int \<times> POOL_SQL_SOCK \<times> effect list) result" where
  "get_upgrade_count_from_database t rand env q p =
     and_then (get_db_connect_from_pool t rand env p) (\<lambda>(node, p, es).
       case node of
         None \<Rightarrow> Inr (-1, p, es @ [Log LOG_LEVEL_ERROR ''get_upgrade_count_from_database'' 41
                                     (''Get socket node error.'' @ nl)])
       | Some i \<Rightarrow>
           and_then (query_value q)
             (\<lambda>(count, es').
               and_then (release_sock_to_sql_pool i p) (\<lambda>p. Inr (count, p, es @ es'))))"

end
