(* ===== verification/SqlCorrect.thy ===== *)
theory SqlCorrect
  imports SqlPool
begin

text \<open>
  Correctness of the database pool: which connection is handed out, which locks are held
  afterwards, the interface the query relies on, and the connection that is handed out twice.
\<close>

section \<open>One node\<close>

definition node_ok :: "nat \<Rightarrow> SQL_SOCK_NODE \<Rightarrow> bool" where
  "node_ok i n \<longleftrightarrow> (sql_state n = DB_CONN \<longrightarrow> mysql_sock n = Some i)"

text \<open>A node that \<open>get_db_connect_from_pool\<close> can hand out, and one whose lock the reconnection resets.\<close>

definition usable :: "db_env \<Rightarrow> SQL_SOCK_NODE \<Rightarrow> bool" where
  "usable e n \<longleftrightarrow> sql_lock n = Free \<and> ping_ok e \<and> (sql_state n = DB_CONN \<or> init_ok e \<and> connect_ok e)"

definition relocked :: "db_env \<Rightarrow> SQL_SOCK_NODE \<Rightarrow> bool" where
  "relocked e n \<longleftrightarrow> sql_state n = DB_DISCONN \<and> mutex_ok e"

lemma db_state_cases: "s = DB_DISCONN \<or> s = DB_CONN"
  by (cases s) auto

lemma try_node_found:
  assumes "try_node t e i n = (b, n', es)"
  shows "b \<longleftrightarrow> usable e n"
  using assms db_state_cases [of "sql_state n"]
  by (auto simp: try_node_def usable_def create_connect_def Let_def split: if_splits)

lemma try_node_taken:
  assumes "try_node t e i n = (True, n', es)" "node_ok i n"
  shows "used n' \<and> sql_state n' = DB_CONN \<and> mysql_sock n' = Some i
    \<and> sql_lock n' = (if relocked e n then Free else Held t)"
  using assms db_state_cases [of "sql_state n"]
  by (auto simp: try_node_def create_connect_def relocked_def node_ok_def Let_def split: if_splits)

lemma try_node_left:
  assumes "try_node t e i n = (False, n', es)" "node_ok i n"
  shows "node_ok i n' \<and> sql_lock n' = sql_lock n"
  using assms db_state_cases [of "sql_state n"]
  by (auto simp: try_node_def create_connect_def node_ok_def release_node_def Let_def split: if_splits)

section \<open>The loop\<close>

definition nodes_ok :: "SQL_SOCK_NODE list \<Rightarrow> bool" where
  "nodes_ok ns \<longleftrightarrow> (\<forall>i<length ns. node_ok i (ns ! i))"

definition locks :: "SQL_SOCK_NODE list \<Rightarrow> sql_mutex list" where
  "locks ns = map sql_lock ns"

lemma nodes_ok_update: "nodes_ok ns \<Longrightarrow> node_ok i n \<Longrightarrow> nodes_ok (ns[i := n])"
  unfolding nodes_ok_def by (metis length_list_update nth_list_update_eq nth_list_update_neq)

text \<open>What a call hands out: the first usable node in the order of the visits.\<close>

definition taken :: "nat \<Rightarrow> (nat \<Rightarrow> db_env) \<Rightarrow> nat list \<Rightarrow> SQL_SOCK_NODE list \<Rightarrow> nat option
    \<Rightarrow> SQL_SOCK_NODE list \<Rightarrow> bool" where
  "taken t env js ns r ns' \<longleftrightarrow>
     r = find (\<lambda>i. usable (env i) (ns ! i)) js \<and> length ns' = length ns \<and> nodes_ok ns'
     \<and> (case r of
          None \<Rightarrow> locks ns' = locks ns
        | Some i \<Rightarrow> used (ns' ! i) \<and> sql_state (ns' ! i) = DB_CONN \<and> mysql_sock (ns' ! i) = Some i
            \<and> locks ns' = (locks ns)[i := if relocked (env i) (ns ! i) then Free else Held t])"

lemma locks_update: "i < length ns \<Longrightarrow> locks (ns[i := n]) = (locks ns)[i := sql_lock n]"
  by (simp add: locks_def map_update)

lemma locks_same: "i < length ns \<Longrightarrow> sql_lock n = sql_lock (ns ! i) \<Longrightarrow> locks (ns[i := n]) = locks ns"
  by (simp add: locks_update) (simp add: locks_def list_update_same_conv)

lemma find_usable_update:
  "i \<notin> set js \<Longrightarrow> find (\<lambda>j. usable (env j) (ns[i := n] ! j)) js = find (\<lambda>j. usable (env j) (ns ! j)) js"
  by (rule find_cong) (simp, metis nth_list_update_neq)

lemma find_Some_in: "find P js = Some j \<Longrightarrow> j \<in> set js"
  by (auto simp: find_Some_iff)

lemma find_Some_holds: "find P js = Some j \<Longrightarrow> P j"
  by (auto simp: find_Some_iff)

lemma get_loop_taken:
  assumes "distinct js" "\<forall>i\<in>set js. i < length ns" "nodes_ok ns"
  shows "\<exists>r ns' es. get_loop t env js ns = Inr (r, ns', es) \<and> taken t env js ns r ns'"
  using assms
proof (induction js arbitrary: ns)
  case Nil
  then show ?case by (simp add: taken_def)
next
  case (Cons i js)
  have i: "i < length ns" "node_ok i (ns ! i)" using Cons.prems by (auto simp: nodes_ok_def)
  obtain b n es where tn: "try_node t (env i) i (ns ! i) = (b, n, es)" by (metis prod_cases3)
  show ?case
  proof (cases b)
    case True
    have n: "used n \<and> sql_state n = DB_CONN \<and> mysql_sock n = Some i
        \<and> sql_lock n = (if relocked (env i) (ns ! i) then Free else Held t)"
      using try_node_taken [of t "env i" i "ns ! i" n es] tn True i(2) by simp
    have u: "usable (env i) (ns ! i)" using try_node_found [OF tn] True by simp
    have "taken t env (i # js) ns (Some i) (ns[i := n])"
      using u n i nodes_ok_update [OF Cons.prems(3), of i n]
      by (simp add: taken_def locks_update node_ok_def)
    then show ?thesis using tn True i(1) by simp
  next
    case False
    have u: "\<not> usable (env i) (ns ! i)" using try_node_found [OF tn] False by simp
    have n: "node_ok i n" "sql_lock n = sql_lock (ns ! i)"
      using try_node_left [of t "env i" i "ns ! i" n es] tn False i(2) by auto
    have ok: "nodes_ok (ns[i := n])" using nodes_ok_update Cons.prems(3) n(1) by blast
    obtain r ns' es' where r: "get_loop t env js (ns[i := n]) = Inr (r, ns', es')"
      "taken t env js (ns[i := n]) r ns'"
      using Cons.IH [of "ns[i := n]"] Cons.prems ok by auto
    have same: "ns[i := n] ! j = ns ! j" if "find P js = Some j" for P j
      using find_Some_in [OF that] Cons.prems(1) by (metis distinct.simps(2) nth_list_update_neq)
    have "taken t env (i # js) ns r ns'"
      using r(2) u Cons.prems(1) same
      by (auto simp: taken_def find_usable_update locks_same [OF i(1) n(2)] split: option.splits)
    then show ?thesis using tn False i(1) r(1) by simp
  qed
qed

section \<open>The pool\<close>

text \<open>A pool with at least one connection, as \<open>sql_pool_create\<close> leaves it.\<close>

definition sql_pool_ok :: "POOL_SQL_SOCK \<Rightarrow> bool" where
  "sql_pool_ok p \<longleftrightarrow> 0 < pool_number p \<and> pool_number p \<le> length (sql_pool p) \<and> nodes_ok (sql_pool p)"

definition pool_locks :: "POOL_SQL_SOCK \<Rightarrow> sql_mutex list" where
  "pool_locks p = locks (sql_pool p)"

lemma length_pool_locks [simp]: "length (pool_locks p) = length (sql_pool p)"
  by (simp add: pool_locks_def locks_def)

text \<open>The loop visits every connection once, whatever \<open>rand()\<close> returns.\<close>

definition visits :: "nat \<Rightarrow> nat \<Rightarrow> nat list" where
  "visits rand m = map (\<lambda>l. (rand mod m + l) mod m) [0..<m]"

lemma rotate_inj: "inj_on (\<lambda>l. (s + l) mod m) {0..<m}" for s m :: nat
proof -
  have eq: "l = l'" if "l' < m" "(s + l) mod m = (s + l') mod m" "l \<le> l'" for l l'
  proof -
    have "m dvd (s + l') - (s + l)"
      using that mod_eq_dvd_iff_nat [of "s + l" "s + l'" m] by simp
    then have "m dvd l' - l" by simp
    then have "l' - l = 0" using that(1) by (metis dvd_imp_le less_imp_diff_less not_less gr0I)
    with that(3) show ?thesis by simp
  qed
  show ?thesis
  proof (rule inj_onI)
    fix x y
    assume "x \<in> {0..<m}" "y \<in> {0..<m}" "(s + x) mod m = (s + y) mod m"
    then show "x = y" using eq [of y x] eq [of x y] by (cases "x \<le> y") simp_all
  qed
qed

lemma visits_once: "distinct (visits rand m)" "0 < m \<Longrightarrow> set (visits rand m) = {0..<m}"
proof -
  show d: "distinct (visits rand m)"
    using rotate_inj by (simp add: visits_def distinct_map)
  assume "0 < m"
  then have "set (visits rand m) \<subseteq> {0..<m}" by (auto simp: visits_def)
  moreover have "card (set (visits rand m)) = card {0..<m}"
    using distinct_card [OF d] by (simp add: visits_def)
  ultimately show "set (visits rand m) = {0..<m}" by (simp add: card_subset_eq)
qed

lemma get_db_taken:
  assumes "sql_pool_ok p"
  shows "\<exists>r ns es. get_db_connect_from_pool t rand env p = Inr (r, p\<lparr>sql_pool := ns\<rparr>, es)
    \<and> taken t env (visits rand (pool_number p)) (sql_pool p) r ns"
proof -
  have m: "0 < pool_number p" "nodes_ok (sql_pool p)" using assms by (auto simp: sql_pool_ok_def)
  have "\<forall>i\<in>set (visits rand (pool_number p)). i < length (sql_pool p)"
    using assms visits_once(2) [OF m(1)] by (auto simp: sql_pool_ok_def)
  then obtain r ns es where "get_loop t env (visits rand (pool_number p)) (sql_pool p) = Inr (r, ns, es)"
    "taken t env (visits rand (pool_number p)) (sql_pool p) r ns"
    using get_loop_taken [OF visits_once(1) _ m(2)] by blast
  moreover from this(1)
  have "get_db_connect_from_pool t rand env p = Inr (r, p\<lparr>sql_pool := ns\<rparr>, es)"
    using m(1) by (simp add: get_db_connect_from_pool_def visits_def [symmetric] Let_def)
  ultimately show ?thesis by blast
qed

text \<open>The contract of a call: total, sound, and its effect on the locks.\<close>

definition handed_out :: "nat \<Rightarrow> (nat \<Rightarrow> db_env) \<Rightarrow> POOL_SQL_SOCK \<Rightarrow> nat option \<Rightarrow> POOL_SQL_SOCK \<Rightarrow> bool" where
  "handed_out t env p r p' \<longleftrightarrow>
     (case r of
        None \<Rightarrow> (\<forall>i<pool_number p. \<not> usable (env i) (sql_pool p ! i)) \<and> pool_locks p' = pool_locks p
      | Some i \<Rightarrow> i < pool_number p \<and> usable (env i) (sql_pool p ! i)
          \<and> used (sql_pool p' ! i) \<and> sql_state (sql_pool p' ! i) = DB_CONN \<and> mysql_sock (sql_pool p' ! i) = Some i
          \<and> pool_locks p' = (pool_locks p)[i := if relocked (env i) (sql_pool p ! i) then Free else Held t])"

lemma get_db_handed_out:
  assumes "sql_pool_ok p"
  obtains r p' es where "get_db_connect_from_pool t rand env p = Inr (r, p', es)"
    "sql_pool_ok p'" "pool_number p' = pool_number p" "length (sql_pool p') = length (sql_pool p)"
    "handed_out t env p r p'"
proof -
  obtain r ns es where g: "get_db_connect_from_pool t rand env p = Inr (r, p\<lparr>sql_pool := ns\<rparr>, es)"
    "taken t env (visits rand (pool_number p)) (sql_pool p) r ns"
    using get_db_taken [OF assms] by blast
  have r: "r = find (\<lambda>i. usable (env i) (sql_pool p ! i)) (visits rand (pool_number p))"
    using g(2) by (simp add: taken_def)
  have vs: "set (visits rand (pool_number p)) = {0..<pool_number p}"
    using visits_once(2) assms by (simp add: sql_pool_ok_def)
  have h: "handed_out t env p r (p\<lparr>sql_pool := ns\<rparr>)"
  proof (cases r)
    case None
    then have "\<forall>i<pool_number p. \<not> usable (env i) (sql_pool p ! i)"
      using r vs by (simp add: find_None_iff)
    with None g(2) show ?thesis by (simp add: handed_out_def taken_def pool_locks_def)
  next
    case (Some i)
    then have "find (\<lambda>i. usable (env i) (sql_pool p ! i)) (visits rand (pool_number p)) = Some i"
      using r by simp
    from find_Some_in [OF this] find_Some_holds [OF this]
    have i: "i < pool_number p" "usable (env i) (sql_pool p ! i)"
      unfolding vs by simp_all
    have "used (ns ! i)" "sql_state (ns ! i) = DB_CONN" "mysql_sock (ns ! i) = Some i"
      "locks ns = (locks (sql_pool p))[i := if relocked (env i) (sql_pool p ! i) then Free else Held t]"
      using g(2) Some by (simp_all add: taken_def)
    with i show ?thesis unfolding handed_out_def Some by (simp add: pool_locks_def)
  qed
  have ns: "length ns = length (sql_pool p)" "nodes_ok ns" using g(2) by (simp_all add: taken_def)
  then have ok: "sql_pool_ok (p\<lparr>sql_pool := ns\<rparr>)" using assms by (simp add: sql_pool_ok_def)
  show ?thesis by (rule that [OF g(1) ok _ _ h]) (simp_all add: ns(1))
qed

lemma release_ok:
  assumes "sql_pool_ok p" "i < length (sql_pool p)"
  obtains p' where "release_sock_to_sql_pool i p = Inr p'" "sql_pool_ok p'"
    "pool_locks p' = (pool_locks p)[i := Free]"
proof
  let ?p = "p\<lparr>sql_pool := (sql_pool p)[i := release_node (sql_pool p ! i)]\<rparr>"
  show "release_sock_to_sql_pool i p = Inr ?p"
    using assms(2) by (simp add: release_sock_to_sql_pool_def)
  have "node_ok i (release_node (sql_pool p ! i))"
    using assms by (simp add: sql_pool_ok_def nodes_ok_def node_ok_def release_node_def)
  then show "sql_pool_ok ?p"
    using assms(1) nodes_ok_update by (simp add: sql_pool_ok_def)
  show "pool_locks ?p = (pool_locks p)[i := Free]"
    using assms(2) by (simp add: pool_locks_def locks_update release_node_def)
qed

section \<open>The interface of the pool\<close>

text \<open>
  What a query relies on: taking an object locks at most that object, which was free, and giving
  it back frees it. \<open>with_object\<close> is a computation between the two.
\<close>

definition with_object ::
    "('p \<Rightarrow> (nat option \<times> 'p \<times> 'e list) result) \<Rightarrow> (nat \<Rightarrow> 'p \<Rightarrow> 'p result) \<Rightarrow> ('v \<times> 'e list)
     \<Rightarrow> ('v \<times> 'e list) result \<Rightarrow> 'p \<Rightarrow> ('v \<times> 'p \<times> 'e list) result" where
  "with_object acquire restore absent use p =
     and_then (acquire p) (\<lambda>(node, p, es).
       case node of
         None \<Rightarrow> Inr (fst absent, p, es @ snd absent)
       | Some i \<Rightarrow> and_then use (\<lambda>(v, es'). and_then (restore i p) (\<lambda>p. Inr (v, p, es @ es'))))"

locale object_pool =
  fixes inv :: "'p \<Rightarrow> bool"
    and mutexes :: "'p \<Rightarrow> 'l list"
    and free :: 'l
    and acquire :: "'p \<Rightarrow> (nat option \<times> 'p \<times> 'e list) result"
    and restore :: "nat \<Rightarrow> 'p \<Rightarrow> 'p result"
  assumes take_total: "inv p \<Longrightarrow> \<exists>r p' es. acquire p = Inr (r, p', es) \<and> inv p'"
    and take_none: "inv p \<Longrightarrow> acquire p = Inr (None, p', es) \<Longrightarrow> mutexes p' = mutexes p"
    and take_some: "inv p \<Longrightarrow> acquire p = Inr (Some i, p', es) \<Longrightarrow>
      i < length (mutexes p) \<and> mutexes p ! i = free \<and> (\<exists>l. mutexes p' = (mutexes p)[i := l])"
    and give_ok: "inv p \<Longrightarrow> i < length (mutexes p) \<Longrightarrow>
      \<exists>p'. restore i p = Inr p' \<and> inv p' \<and> mutexes p' = (mutexes p)[i := free]"
begin

lemma with_object_neutral:
  assumes "inv p" "use = Inr (v, es')"
  shows "\<exists>w p' es. with_object acquire restore absent use p = Inr (w, p', es) \<and> inv p'
    \<and> mutexes p' = mutexes p \<and> (w = v \<or> w = fst absent)"
proof -
  obtain r p1 es where p1: "acquire p = Inr (r, p1, es)" "inv p1" using take_total [OF assms(1)] by blast
  show ?thesis
  proof (cases r)
    case None
    with p1 take_none [OF assms(1)] show ?thesis by (simp add: with_object_def)
  next
    case (Some i)
    with take_some [OF assms(1)] p1(1) obtain l where l: "i < length (mutexes p)" "mutexes p ! i = free"
      "mutexes p1 = (mutexes p)[i := l]" by blast
    then obtain p2 where "restore i p1 = Inr p2" "inv p2" "mutexes p2 = (mutexes p1)[i := free]"
      using give_ok [OF p1(2), of i] by auto
    with l p1 Some assms(2) show ?thesis
      by (simp add: with_object_def list_update_same_conv)
  qed
qed

end

interpretation db: object_pool sql_pool_ok pool_locks Free "get_db_connect_from_pool t rand env"
  release_sock_to_sql_pool for t rand env
proof
  fix p assume p: "sql_pool_ok p"
  obtain r p' es where g: "get_db_connect_from_pool t rand env p = Inr (r, p', es)" "sql_pool_ok p'"
    "length (sql_pool p') = length (sql_pool p)" "handed_out t env p r p'"
    using get_db_handed_out [OF p] by blast
  show "\<exists>r p' es. get_db_connect_from_pool t rand env p = Inr (r, p', es) \<and> sql_pool_ok p'"
    using g by blast
  show "pool_locks p1 = pool_locks p"
    if "get_db_connect_from_pool t rand env p = Inr (None, p1, es1)" for p1 es1
    using g that by (simp add: handed_out_def)
  show "i < length (pool_locks p) \<and> pool_locks p ! i = Free \<and> (\<exists>l. pool_locks p1 = (pool_locks p)[i := l])"
    if "get_db_connect_from_pool t rand env p = Inr (Some i, p1, es1)" for i p1 es1
    using g that p
    by (auto simp: handed_out_def sql_pool_ok_def usable_def pool_locks_def locks_def)
  show "\<exists>p'. release_sock_to_sql_pool i p = Inr p' \<and> sql_pool_ok p' \<and> pool_locks p' = (pool_locks p)[i := Free]"
    if "i < length (pool_locks p)" for i
    using release_ok [OF p] that by (metis length_pool_locks)
qed

section \<open>Creating the pool\<close>

lemma create_connect_ok:
  assumes "init_ok e" "create_connect e i n = (r, n', es)"
  shows "r \<noteq> -1 \<and> node_ok i n' \<and> (sql_lock n = Free \<longrightarrow> sql_lock n' = Free)
    \<and> sql_state n' = (if connect_ok e then DB_CONN else DB_DISCONN)"
  using assms by (auto simp: create_connect_def node_ok_def Let_def split: if_splits)

lemma create_loop_ok:
  assumes "pool_number p + k \<le> length (sql_pool p)" "\<forall>i<pool_number p + k. init_ok (env i)"
    "nodes_ok (sql_pool p)" "\<forall>l\<in>set (pool_locks p). l = Free"
  shows "\<exists>p' es. create_loop env k p = Inr (0, p', es) \<and> pool_number p' = pool_number p + k
    \<and> length (sql_pool p') = length (sql_pool p) \<and> nodes_ok (sql_pool p')
    \<and> (\<forall>l\<in>set (pool_locks p'). l = Free)
    \<and> (\<forall>i<pool_number p. sql_pool p' ! i = sql_pool p ! i)
    \<and> (\<forall>i. pool_number p \<le> i \<and> i < pool_number p' \<longrightarrow>
         sql_state (sql_pool p' ! i) = (if connect_ok (env i) then DB_CONN else DB_DISCONN))"
  using assms
proof (induction k arbitrary: p)
  case 0
  then show ?case by auto
next
  case (Suc k)
  let ?i = "pool_number p"
  obtain r n es where n: "create_connect (env ?i) ?i (sql_pool p ! ?i) = (r, n, es)" by (metis prod_cases3)
  have i: "?i < length (sql_pool p)" "init_ok (env ?i)" using Suc.prems by simp_all
  have "sql_lock (sql_pool p ! ?i) = Free"
    using Suc.prems(4) i(1) by (simp add: pool_locks_def locks_def)
  then have c: "r \<noteq> -1" "node_ok ?i n" "sql_lock n = Free"
    "sql_state n = (if connect_ok (env ?i) then DB_CONN else DB_DISCONN)"
    using create_connect_ok [OF i(2) n] by simp_all
  let ?n = "n\<lparr>node_index := ?i\<rparr>"
  let ?p = "p\<lparr>sql_pool := (sql_pool p)[?i := ?n], pool_number := Suc ?i\<rparr>"
  have "nodes_ok (sql_pool ?p)"
    using nodes_ok_update [OF Suc.prems(3), of ?i ?n] c(2) by (simp add: node_ok_def)
  moreover have "\<forall>l\<in>set (pool_locks ?p). l = Free"
    using Suc.prems(4) c(3) i(1) set_update_subset_insert [of "pool_locks p" ?i Free]
    by (auto simp: pool_locks_def locks_update)
  ultimately obtain p' es' where p': "create_loop env k ?p = Inr (0, p', es')"
    "pool_number p' = pool_number ?p + k" "length (sql_pool p') = length (sql_pool ?p)"
    "nodes_ok (sql_pool p')" "\<forall>l\<in>set (pool_locks p'). l = Free"
    "\<forall>i<pool_number ?p. sql_pool p' ! i = sql_pool ?p ! i"
    "\<forall>i. pool_number ?p \<le> i \<and> i < pool_number p' \<longrightarrow>
       sql_state (sql_pool p' ! i) = (if connect_ok (env i) then DB_CONN else DB_DISCONN)"
    using Suc.IH [of ?p] Suc.prems(1,2) by auto
  have old: "\<forall>i<?i. sql_pool p' ! i = sql_pool p ! i" and new: "sql_pool p' ! ?i = ?n"
    using p'(6) i(1) by simp_all
  have "sql_state (sql_pool p' ! j) = (if connect_ok (env j) then DB_CONN else DB_DISCONN)"
    if "?i \<le> j" "j < pool_number p'" for j
    using that p'(7) new c(4) by (cases "j = ?i") simp_all
  then show ?case using p' n c(1) i(1) old by simp
qed

text \<open>The strings of the configuration that fit the pool's arrays.\<close>

definition db_config_fits :: "CONFIG_INFO \<Rightarrow> bool" where
  "db_config_fits c \<longleftrightarrow> terminated (mysql_branch_server_addr c) \<and> length (cstr (mysql_branch_server_addr c)) \<le> DB_LEN_IP
     \<and> terminated (mysql_db_name c) \<and> length (cstr (mysql_db_name c)) \<le> DB_LEN_DBNAME
     \<and> terminated (mysql_user_name c) \<and> length (cstr (mysql_user_name c)) \<le> DB_LEN_DBUSER
     \<and> terminated (mysql_password c) \<and> length (cstr (mysql_password c)) \<le> DB_LEN_PASSWD"

lemma strcpy_fits:
  "terminated src \<Longrightarrow> length (cstr src) < n \<Longrightarrow> length dst = n \<Longrightarrow> \<exists>b. strcpy_at 0 n src dst = Inr b"
  by (simp add: strcpy_at_def write_at_def)

lemma sql_pool_create_ok:
  assumes "db_config_fits c" "0 < n" "n \<le> POOL_NUMBER" "\<forall>i<n. init_ok (env i)"
  shows "\<exists>p es. sql_pool_create env c n = Inr (0, p, es) \<and> sql_pool_ok p \<and> pool_number p = n
    \<and> (\<forall>l\<in>set (pool_locks p). l = Free)
    \<and> (\<forall>i<n. sql_state (sql_pool p ! i) = (if connect_ok (env i) then DB_CONN else DB_DISCONN))"
proof -
  let ?z = sql_pool_zero
  obtain ip name user pw where strs: "strcpy_at 0 16 (mysql_branch_server_addr c) (db_ip ?z) = Inr ip"
    "strcpy_at 0 65 (mysql_db_name c) (db_name ?z) = Inr name"
    "strcpy_at 0 65 (mysql_user_name c) (db_user ?z) = Inr user"
    "strcpy_at 0 65 (mysql_password c) (db_passwd ?z) = Inr pw"
    using assms(1) strcpy_fits [of "mysql_branch_server_addr c" 16 "db_ip ?z"]
      strcpy_fits [of "mysql_db_name c" 65 "db_name ?z"] strcpy_fits [of "mysql_user_name c" 65 "db_user ?z"]
      strcpy_fits [of "mysql_password c" 65 "db_passwd ?z"]
    by (auto simp: db_config_fits_def db_sizes sql_pool_zero_def)
  let ?p = "?z\<lparr>db_ip := ip, db_port := mysql_server_port c, db_name := name, db_user := user, db_passwd := pw\<rparr>"
  have "pool_number ?p + n \<le> length (sql_pool ?p)" "\<forall>i<pool_number ?p + n. init_ok (env i)"
    "nodes_ok (sql_pool ?p)" "\<forall>l\<in>set (pool_locks ?p). l = Free"
    using assms(3,4)
    by (simp_all add: sql_pool_zero_def nodes_ok_def node_ok_def node_zero_def pool_locks_def locks_def)
  from create_loop_ok [OF this] obtain p es where p: "create_loop env n ?p = Inr (0, p, es)"
    "pool_number p = n" "length (sql_pool p) = POOL_NUMBER" "nodes_ok (sql_pool p)"
    "\<forall>l\<in>set (pool_locks p). l = Free"
    "\<forall>i<n. sql_state (sql_pool p ! i) = (if connect_ok (env i) then DB_CONN else DB_DISCONN)"
    by (auto simp: sql_pool_zero_def)
  have "sql_pool_create env c n = Inr (0, p, es)"
    using strs p(1) by (simp add: sql_pool_create_def db_sizes Let_def)
  moreover have "sql_pool_ok p" using p(2-4) assms(2,3) by (simp add: sql_pool_ok_def)
  ultimately show ?thesis using p by blast
qed

text \<open>An address of 16 characters or more overflows the array \<open>ip\<close>.\<close>

lemma sql_pool_create_long_ip:
  assumes "terminated (mysql_branch_server_addr c)" "DB_LEN_IP < length (cstr (mysql_branch_server_addr c))"
  shows "sql_pool_create env c n = Inl OutOfBounds"
  using assms by (simp add: sql_pool_create_def strcpy_at_def db_sizes Let_def)

text \<open>Before a pool is created, asking for a connection divides by zero.\<close>

lemma get_db_empty: "get_db_connect_from_pool t rand env sql_pool_zero = Inl DivByZero"
  by (simp add: get_db_connect_from_pool_def sql_pool_zero_def)

section \<open>The query\<close>

lemma get_upgrade_count_eq:
  "get_upgrade_count_from_database t rand env q p =
     with_object (get_db_connect_from_pool t rand env) release_sock_to_sql_pool
       (-1, [Log LOG_LEVEL_ERROR ''get_upgrade_count_from_database'' 41 (''Get socket node error.'' @ nl)])
       (query_value q) p"
  unfolding get_upgrade_count_from_database_def with_object_def fst_conv snd_conv by (rule refl)

text \<open>The answers without a row that lacks its column.\<close>

fun rows_ok :: "query_res \<Rightarrow> bool" where
  "rows_ok (Rows ([] # _)) = False"
| "rows_ok (Rows ((None # _) # _)) = False"
| "rows_ok _ = True"

fun count_of :: "query_res \<Rightarrow> int" where
  "count_of (Rows ((Some c # _) # _)) = atoi c"
| "count_of _ = -1"

lemma query_value_ok: "rows_ok q \<Longrightarrow> \<exists>es. query_value q = Inr (count_of q, es)"
  by (cases q rule: rows_ok.cases) (auto simp: query_value_def split: list.split option.split)

section \<open>Properties\<close>

text \<open>A pool of two nodes whose connections are still to be made, and a library that always succeeds.\<close>

definition sample_sql_pool :: POOL_SQL_SOCK where
  "sample_sql_pool = sql_pool_zero\<lparr>pool_number := 2\<rparr>"

definition db_works :: db_env where
  "db_works = \<lparr>init_ok = True, mutex_ok = True, connect_ok = True, ping_ok = True, error_text = []\<rparr>"

lemma sample_sql_pool_ok: "sql_pool_ok sample_sql_pool"
  by (simp add: sql_pool_ok_def sample_sql_pool_def sql_pool_zero_def nodes_ok_def node_ok_def node_zero_def
      POOL_NUMBER_def)

lemma sample_sql_nodes: "i < 2 \<Longrightarrow> sql_pool sample_sql_pool ! i = node_zero"
  by (simp add: sample_sql_pool_def sql_pool_zero_def POOL_NUMBER_def)

lemma sample_usable:
  "usable db_works (sql_pool sample_sql_pool ! 0)" "pool_number sample_sql_pool = 2"
  "i < 2 \<Longrightarrow> relocked db_works (sql_pool sample_sql_pool ! i)"
  by (simp_all add: sample_sql_nodes)
    (simp_all add: usable_def relocked_def db_works_def node_zero_def sample_sql_pool_def)

text \<open>C34. \<open>get_db_connect_from_pool\<close> always returns: it gives NULL exactly when no connection is
  free, alive and reachable, and leaves all locks as they were; otherwise it gives one that was free
  and is now connected and in use, and locks no other. The pool stays sound.\<close>

theorem connection_handed_out:
  assumes "sql_pool_ok p"
  shows "\<exists>r p' es. get_db_connect_from_pool t rand env p = Inr (r, p', es) \<and> sql_pool_ok p'
    \<and> handed_out t env p r p'"
  using get_db_handed_out [OF assms] by metis

theorem connection_handed_out_witness:
  "\<exists>i p' es. get_db_connect_from_pool 7 5 (\<lambda>_. db_works) sample_sql_pool = Inr (Some i, p', es) \<and> i < 2
     \<and> sql_state (sql_pool p' ! i) = DB_CONN"
proof -
  obtain r p' es where g: "get_db_connect_from_pool 7 5 (\<lambda>_. db_works) sample_sql_pool = Inr (r, p', es)"
    "handed_out 7 (\<lambda>_. db_works) sample_sql_pool r p'"
    using connection_handed_out [OF sample_sql_pool_ok] by metis
  show ?thesis
  proof (cases r)
    case None
    then show ?thesis using g(2) sample_usable(1,2) by (simp add: handed_out_def)
  next
    case (Some i)
    then show ?thesis using g sample_usable(2) by (simp add: handed_out_def)
  qed
qed

text \<open>What the next call can do. A connection whose mutex is held when it is handed out is not handed out by the next call;
  one whose mutex has been initialised anew (\<open>relocked\<close>: it had to be reconnected and
  \<open>pthread_mutex_init\<close> succeeded) is free again, and the next call gives it to a second thread. That
  initialising a held mutex frees it is what glibc does; POSIX leaves it undefined.\<close>

theorem reconnected_is_shared:
  assumes "sql_pool_ok p" "get_db_connect_from_pool t rand env p = Inr (Some i, p1, es)"
  shows "if relocked (env i) (sql_pool p ! i)
    then \<forall>t' env'. ping_ok (env' i) \<longrightarrow> (\<exists>p2 es2. get_db_connect_from_pool t' i env' p1 = Inr (Some i, p2, es2))
    else \<forall>t' rand' env' j p2 es2. get_db_connect_from_pool t' rand' env' p1 = Inr (Some j, p2, es2) \<longrightarrow> j \<noteq> i"
proof -
  have p1: "sql_pool_ok p1" "pool_number p1 = pool_number p" "length (sql_pool p1) = length (sql_pool p)"
    and h: "handed_out t env p (Some i) p1"
    using get_db_handed_out [OF assms(1), of t rand env] assms(2) by fastforce+
  have i: "i < pool_number p" "i < length (sql_pool p)" "sql_state (sql_pool p1 ! i) = DB_CONN"
    "pool_locks p1 = (pool_locks p)[i := if relocked (env i) (sql_pool p ! i) then Free else Held t]"
    using h assms(1) by (auto simp: handed_out_def sql_pool_ok_def)
  have lock: "sql_lock (sql_pool p1 ! i) = pool_locks p1 ! i"
    using i(2) p1(3) by (simp add: pool_locks_def locks_def)
  show ?thesis
  proof (cases "relocked (env i) (sql_pool p ! i)")
    case True
    have "\<exists>p2 es2. get_db_connect_from_pool t' i env' p1 = Inr (Some i, p2, es2)" if "ping_ok (env' i)" for t' env'
    proof -
      have "usable (env' i) (sql_pool p1 ! i)"
        using that i True lock by (simp add: usable_def)
      moreover have "visits i (pool_number p1) = i # tl (visits i (pool_number p1))"
        using i(1) p1(2) by (simp add: visits_def upt_conv_Cons)
      ultimately have "find (\<lambda>j. usable (env' j) (sql_pool p1 ! j)) (visits i (pool_number p1)) = Some i"
        by (metis find.simps(2))
      then show ?thesis
        using get_db_taken [OF p1(1), of t' i env'] by (auto simp: taken_def)
    qed
    with True show ?thesis by simp
  next
    case False
    have "j \<noteq> i" if "get_db_connect_from_pool t' rand' env' p1 = Inr (Some j, p2, es2)" for t' rand' env' j p2 es2
    proof -
      have "handed_out t' env' p1 (Some j) p2"
        using get_db_handed_out [OF p1(1), of t' rand' env'] that by fastforce
      then have "sql_lock (sql_pool p1 ! j) = Free" by (simp add: handed_out_def usable_def)
      with lock i False show ?thesis by auto
    qed
    with False show ?thesis by simp
  qed
qed

theorem reconnected_is_shared_witness:
  "\<exists>i p1 es p2 es2. get_db_connect_from_pool 1 0 (\<lambda>_. db_works) sample_sql_pool = Inr (Some i, p1, es)
     \<and> get_db_connect_from_pool 2 i (\<lambda>_. db_works) p1 = Inr (Some i, p2, es2)"
proof -
  obtain r p1 es where g: "get_db_connect_from_pool 1 0 (\<lambda>_. db_works) sample_sql_pool = Inr (r, p1, es)"
    "handed_out 1 (\<lambda>_. db_works) sample_sql_pool r p1"
    using get_db_handed_out [OF sample_sql_pool_ok] by metis
  obtain i where i: "r = Some i" "i < 2"
  proof (cases r)
    case None
    then have False using g(2) sample_usable(1,2) by (simp add: handed_out_def)
    then show ?thesis by blast
  next
    case (Some i)
    then show ?thesis using g(2) sample_usable(2) that by (simp add: handed_out_def)
  qed
  have "ping_ok db_works" by (simp add: db_works_def)
  then show ?thesis
    using reconnected_is_shared [OF sample_sql_pool_ok g(1) [unfolded i(1)]] sample_usable(3) [OF i(2)] g(1) i(1)
    by auto
qed

text \<open>A query gives its connection back: whatever the library answers (short of a row without
  its column), \<open>get_upgrade_count_from_database\<close> returns the count of the first row, or -1 when
  there is none or no connection, and leaves every lock as it found it.\<close>

theorem query_returns_connection:
  assumes "sql_pool_ok p" "rows_ok q"
  shows "\<exists>c p' es. get_upgrade_count_from_database t rand env q p = Inr (c, p', es) \<and> sql_pool_ok p'
    \<and> pool_locks p' = pool_locks p \<and> (c = count_of q \<or> c = -1)"
proof -
  obtain es where "query_value q = Inr (count_of q, es)" using query_value_ok [OF assms(2)] by blast
  from db.with_object_neutral [OF assms(1) this] show ?thesis
    unfolding get_upgrade_count_eq by fastforce
qed

theorem query_returns_connection_witness:
  "\<exists>c p' es. get_upgrade_count_from_database 3 1 (\<lambda>_. db_works) (Rows [[Some ''42'']]) sample_sql_pool
     = Inr (c, p', es) \<and> pool_locks p' = pool_locks sample_sql_pool"
  using query_returns_connection [OF sample_sql_pool_ok, of "Rows [[Some ''42'']]" 3 1 "\<lambda>_. db_works"] by auto

end
