(* ===== verification/ConfigCorrect.thy ===== *)
theory ConfigCorrect
  imports ConfigInfo
begin

text \<open>
  Correctness of the configuration reader: it never leaves its buffers, whatever the file
  holds; on a text of lines it looks every key up in the first line that contains it; and it
  drops the value of an unfinished last line.
\<close>

section \<open>Searching in lines\<close>

lemma strstr_skip:
  assumes "c \<notin> set key" "key \<noteq> []"
  shows "strstr (a @ c # b) key = (case strstr a key of Some t \<Rightarrow> Some (t @ c # b) | None \<Rightarrow> strstr b key)"
proof (induction a)
  case Nil
  have "take (length key) (c # b) \<noteq> key"
    using assms by (cases key) auto
  with assms(2) show ?case by simp
next
  case (Cons x a)
  have "take (length key) (x # a @ c # b) = key \<longleftrightarrow> take (length key) (x # a) = key"
  proof (cases "length key \<le> length (x # a)")
    case True
    then show ?thesis using take_append [of "length key" "x # a" "c # b"] by simp
  next
    case False
    then obtain m where m: "length key - length (x # a) = Suc m"
      by (metis Suc_diff_Suc not_le)
    have "c \<in> set (take (length key) ((x # a) @ c # b))"
      unfolding take_append m by simp
    moreover have "length (take (length key) (x # a)) \<noteq> length key" using False by simp
    ultimately show ?thesis using assms(1) by (metis append_Cons)
  qed
  with Cons.IH show ?case by simp
qed

section \<open>The value buffer\<close>

definition in_value :: "char \<Rightarrow> bool" where
  "in_value c \<longleftrightarrow> c \<noteq> CHR '';'' \<and> c \<noteq> CHR 0x0A"

lemma key_word_loop_eq:
  assumes "takeWhile in_value p \<noteq> p" "i \<le> 128" "length kw = 128"
  shows "\<exists>n. n = min (length (takeWhile in_value p)) (128 - i)
    \<and> key_word_loop i p kw = Inr (i + n, take i kw @ take n (takeWhile in_value p) @ drop (i + n) kw)"
  using assms
proof (induction i p kw rule: key_word_loop.induct)
  case (1 i kw)
  then show ?case by simp
next
  case (2 i c p kw)
  show ?case
  proof (cases "i < 128 \<and> in_value c")
    case False
    then have "key_word_loop i (c # p) kw = Inr (i, kw)"
      by (auto simp add: in_value_def CONFIG_KEY_WORD_BUF_SIZE_def)
    moreover have "min (length (takeWhile in_value (c # p))) (128 - i) = 0"
      using False 2(3) by auto
    ultimately show ?thesis by (intro exI [of _ 0]) simp
  next
    case True
    let ?kw = "take i kw @ [c] @ drop (Suc i) kw"
    have w: "write_at i [c] kw = Inr ?kw" "length ?kw = 128"
      using True 2(4) by (simp_all add: write_at_def)
    have g: "i < CONFIG_KEY_WORD_BUF_SIZE \<and> c \<noteq> CHR '';'' \<and> c \<noteq> CHR 0x0A"
      using True by (simp add: in_value_def CONFIG_KEY_WORD_BUF_SIZE_def)
    have p: "takeWhile in_value p \<noteq> p" using 2(2) True by auto
    obtain n where n: "n = min (length (takeWhile in_value p)) (128 - Suc i)"
      "key_word_loop (Suc i) p ?kw
        = Inr (Suc i + n, take (Suc i) ?kw @ take n (takeWhile in_value p) @ drop (Suc i + n) ?kw)"
      using "2.IH" [OF g p _ w(2)] True by auto
    have m: "Suc n = min (length (takeWhile in_value (c # p))) (128 - i)"
      using n(1) True by (auto simp: min_def)
    have s: "take (Suc i) ?kw = take i kw @ [c]" "drop (Suc i + n) ?kw = drop (i + Suc n) kw"
      using True 2(4) by (simp_all add: add.commute)
    have "key_word_loop i (c # p) kw
        = Inr (i + Suc n, take i kw @ take (Suc n) (takeWhile in_value (c # p)) @ drop (i + Suc n) kw)"
      using n(2) w(1) g s True by simp
    with m show ?thesis by blast
  qed
qed

lemma parse_ok:
  assumes "\<exists>c\<in>set p. \<not> in_value c" "length kw = 128" "nulfree p"
  shows "\<exists>kw'. parse_config_key_word p kw = Inr (True, kw') \<and> length kw' = 128
    \<and> str_at 0 kw' = Inr (take 127 (takeWhile in_value p))"
proof -
  let ?w = "takeWhile in_value p"
  let ?n = "min (length ?w) 128"
  have w: "?w \<noteq> p" using assms(1) by (simp add: takeWhile_eq_all_conv)
  have sep: "strchr p (CHR '';'') \<noteq> None \<or> strchr p (CHR 0x0A) \<noteq> None"
    using assms(1) by (auto simp: strchr_None_iff in_value_def)
  have nf: "nulfree ?w" using assms(3) by (auto simp: nulfree_def dest: set_takeWhileD)
  have l: "key_word_loop 0 p kw = Inr (?n, take ?n ?w @ drop ?n kw)"
    using key_word_loop_eq [OF w _ assms(2), of 0] by auto
  let ?b = "take ?n ?w @ drop ?n kw"
  let ?kw = "take 127 ?w @ NUL # drop (Suc (min ?n 127)) ?b"
  have len: "length ?b = 128" using assms(2) by simp
  have "take (min ?n 127) ?b = take 127 ?w"
  proof (cases "length ?w \<le> 127")
    case True
    then show ?thesis by simp
  next
    case False
    then have "take 127 (take ?n ?w) = take 127 ?w" by (simp add: min_def)
    then show ?thesis using False by (simp add: min_def)
  qed
  then have "write_at (min ?n 127) [NUL] ?b = Inr ?kw"
    using len by (auto simp: write_at_def)
  then have "parse_config_key_word p kw = Inr (True, ?kw)"
    using sep l by (simp add: parse_config_key_word_def CONFIG_KEY_WORD_BUF_SIZE_def)
  moreover have "length ?kw = 128"
    using len assms(2) by (simp add: min_def)
  moreover have "str_at 0 ?kw = Inr (take 127 ?w)"
    using nf by (simp add: str_at_def)
  ultimately show ?thesis by blast
qed

lemma parse_none:
  "\<forall>c\<in>set p. in_value c \<Longrightarrow> parse_config_key_word p kw = Inr (False, kw)"
  by (auto simp: parse_config_key_word_def strchr_None_iff in_value_def)

section \<open>The fields\<close>

text \<open>The sizes of the arrays, and that each holds a C string.\<close>

definition config_ok :: "CONFIG_INFO \<Rightarrow> bool" where
  "config_ok c \<longleftrightarrow> length (version c) = 32 \<and> length (mysql_branch_server_addr c) = 128
     \<and> length (mysql_db_name c) = 64 \<and> length (mysql_user_name c) = 64 \<and> length (mysql_password c) = 64
     \<and> terminated (version c) \<and> terminated (mysql_branch_server_addr c) \<and> terminated (mysql_db_name c)
     \<and> terminated (mysql_user_name c) \<and> terminated (mysql_password c)"

lemma config_zero_ok: "config_ok config_zero"
  by (simp add: config_ok_def config_zero_def config_sizes)

text \<open>What a field holds after a value has been stored.\<close>

definition field :: "nat \<Rightarrow> string \<Rightarrow> string \<Rightarrow> string" where
  "field n s old = take (n - 1) s @ NUL # drop (Suc (min (n - 1) (length s))) old"

fun store :: "config_key \<Rightarrow> string \<Rightarrow> CONFIG_INFO \<Rightarrow> CONFIG_INFO" where
  "store CON_VERSION s c = c\<lparr>version := field 32 s (version c)\<rparr>"
| "store CON_LOG_LEVEL s c = c\<lparr>log_level := word_of_int (atoi s)\<rparr>"
| "store CON_MYSQL_BRANCH_SERVER_ADDR s c =
     c\<lparr>mysql_branch_server_addr := field 128 s (mysql_branch_server_addr c)\<rparr>"
| "store CON_MYSQL_SERVER_PORT s c = c\<lparr>mysql_server_port := word_of_int (atoi s)\<rparr>"
| "store CON_MYSQL_DB_NAME s c = c\<lparr>mysql_db_name := field 64 s (mysql_db_name c)\<rparr>"
| "store CON_MYSQL_USER_NAME s c = c\<lparr>mysql_user_name := field 64 s (mysql_user_name c)\<rparr>"
| "store CON_MYSQL_PASSWORD s c = c\<lparr>mysql_password := field 64 s (mysql_password c)\<rparr>"

lemma copy_field_ok:
  assumes "str_at 0 kw = Inr s" "0 < n" "length old = n"
  shows "copy_field n kw old = Inr (field n s old)"
  using assms by (simp add: copy_field_def snprintf_at_def write_at_def field_def min.commute)

lemma length_field: "0 < n \<Longrightarrow> length old = n \<Longrightarrow> length (field n s old) = n"
  by (simp add: field_def)

lemma terminated_field [simp]: "terminated (field n s old)"
  by (simp add: field_def)

lemma set_field_ok:
  "config_ok c \<Longrightarrow> str_at 0 kw = Inr s \<Longrightarrow> set_field k kw c = Inr (store k s c)"
  by (cases k) (simp_all add: config_ok_def copy_field_ok config_sizes)

lemma store_ok: "config_ok c \<Longrightarrow> config_ok (store k s c)"
  by (cases k) (simp_all add: config_ok_def length_field)

section \<open>Safety\<close>

text \<open>The text behind the \<open>=\<close> of a key, with leading blanks skipped; \<open>None\<close> leads to \<open>goto EXIT\<close>.\<close>

definition key_data :: "string \<Rightarrow> config_key \<Rightarrow> string option" where
  "key_data txt k = Option.bind (strstr txt (config_file_key_word k)) (\<lambda>p.
     map_option (\<lambda>q. dropWhile blank (tl q)) (strchr p (CHR ''='')))"

lemma config_loop_step:
  "config_loop txt (k # ks) kw c =
     (case key_data txt k of
        None \<Rightarrow> Inr (-1, c)
      | Some d \<Rightarrow> and_then (parse_config_key_word d kw) (\<lambda>(found, kw).
          if found then and_then (set_field k kw c) (config_loop txt ks kw)
          else config_loop txt ks kw c))"
  by (simp add: key_data_def split: option.split)

declare config_loop.simps(2) [simp del]

lemma strstr_suffix: "strstr s key = Some t \<Longrightarrow> \<exists>a. s = a @ t"
proof (induction s)
  case Nil
  then show ?case by (simp split: if_splits)
next
  case (Cons x s)
  show ?case
  proof (cases "take (length key) (x # s) = key")
    case True
    with Cons.prems have "t = x # s" by (metis option.inject strstr.simps(2))
    then show ?thesis by simp
  next
    case False
    with Cons.prems have "strstr s key = Some t" by (simp only: strstr.simps if_False)
    with Cons.IH obtain a where "s = a @ t" by blast
    then show ?thesis by (intro exI [of _ "x # a"]) simp
  qed
qed

lemma nulfree_dropWhile: "nulfree s \<Longrightarrow> nulfree (dropWhile P s)"
  by (auto simp: nulfree_def dest: set_dropWhileD)

lemma nulfree_key_data:
  assumes "key_data txt k = Some d" "nulfree txt"
  shows "nulfree d"
proof -
  obtain p q where pq: "strstr txt (config_file_key_word k) = Some p" "strchr p (CHR ''='') = Some q"
    "d = dropWhile blank (tl q)"
    using assms(1) by (auto simp: key_data_def bind_eq_Some_conv)
  obtain a where "txt = a @ p" using strstr_suffix [OF pq(1)] by blast
  moreover obtain b r where "p = b @ q" "q = CHR ''='' # r" using strchr_Some [OF pq(2)] by blast
  ultimately show ?thesis using assms(2) pq(3) by (simp add: nulfree_dropWhile)
qed

lemma config_loop_safe:
  assumes "nulfree txt" "length kw = 128" "config_ok c"
  shows "\<exists>r c'. config_loop txt ks kw c = Inr (r, c') \<and> config_ok c' \<and> r \<in> {-1, 0}"
  using assms(2,3)
proof (induction ks arbitrary: kw c)
  case Nil
  then show ?case by simp
next
  case (Cons k ks)
  show ?case
  proof (cases "key_data txt k")
    case None
    with Cons.prems show ?thesis by (simp add: config_loop_step)
  next
    case (Some d)
    show ?thesis
    proof (cases "\<exists>x\<in>set d. \<not> in_value x")
      case True
      obtain kw' where kw': "parse_config_key_word d kw = Inr (True, kw')" "length kw' = 128"
        "str_at 0 kw' = Inr (take 127 (takeWhile in_value d))"
        using parse_ok [OF True Cons.prems(1) nulfree_key_data [OF Some assms(1)]] by blast
      let ?c = "store k (take 127 (takeWhile in_value d)) c"
      have "config_ok ?c" using store_ok Cons.prems(2) by blast
      then show ?thesis
        using Cons.IH [OF kw'(2), of ?c] kw' Some set_field_ok [OF Cons.prems(2) kw'(3)]
        by (simp add: config_loop_step)
    next
      case False
      then have "parse_config_key_word d kw = Inr (False, kw)" using parse_none by blast
      then show ?thesis using Cons.IH [OF Cons.prems] Some by (simp add: config_loop_step)
    qed
  qed
qed

section \<open>Files of lines\<close>

definition file_of :: "string list \<Rightarrow> string" where
  "file_of lines = concat (map (\<lambda>l. l @ nl) lines)"

text \<open>The first line that contains a key, from the key on, and the value it gives.\<close>

fun key_line :: "string list \<Rightarrow> string \<Rightarrow> string option" where
  "key_line [] key = None"
| "key_line (l # ls) key = (case strstr l key of Some t \<Rightarrow> Some t | None \<Rightarrow> key_line ls key)"

definition line_value :: "string list \<Rightarrow> config_key \<Rightarrow> string option" where
  "line_value lines k = Option.bind (key_line lines (config_file_key_word k)) (\<lambda>t.
     map_option (\<lambda>q. take 127 (takeWhile (\<lambda>c. c \<noteq> CHR '';'') (dropWhile blank (tl q))))
       (strchr t (CHR ''='')))"

definition plain_lines :: "string list \<Rightarrow> bool" where
  "plain_lines lines \<longleftrightarrow> (\<forall>l\<in>set lines. CHR 0x0A \<notin> set l)"

lemma key_word_chars: "CHR 0x0A \<notin> set (config_file_key_word k)" "config_file_key_word k \<noteq> []"
  by (cases k; simp)+

lemma strstr_lines:
  "strstr (file_of lines @ z) (config_file_key_word k) =
     (case key_line lines (config_file_key_word k) of
        None \<Rightarrow> strstr z (config_file_key_word k)
      | Some t \<Rightarrow> strstr (file_of lines @ z) (config_file_key_word k))
   \<and> (\<forall>t. key_line lines (config_file_key_word k) = Some t \<longrightarrow>
        (\<exists>rest. strstr (file_of lines @ z) (config_file_key_word k) = Some (t @ CHR 0x0A # rest)))"
proof (induction lines)
  case Nil
  then show ?case by (simp add: file_of_def)
next
  case (Cons l ls)
  have "file_of (l # ls) @ z = l @ CHR 0x0A # (file_of ls @ z)" by (simp add: file_of_def nl_def)
  then have "strstr (file_of (l # ls) @ z) (config_file_key_word k) =
      (case strstr l (config_file_key_word k) of Some t \<Rightarrow> Some (t @ CHR 0x0A # (file_of ls @ z))
       | None \<Rightarrow> strstr (file_of ls @ z) (config_file_key_word k))"
    using strstr_skip [OF key_word_chars, of l "file_of ls @ z" k] by simp
  with Cons show ?case by (auto split: option.splits)
qed

lemma strchr_append_Some: "strchr a c = Some q \<Longrightarrow> strchr (a @ b) c = Some (q @ b)"
  by (induction a) (auto split: if_splits)

lemma key_line_plain:
  "plain_lines lines \<Longrightarrow> key_line lines key = Some t \<Longrightarrow> CHR 0x0A \<notin> set t"
proof (induction lines)
  case Nil
  then show ?case by simp
next
  case (Cons l ls)
  show ?case
  proof (cases "strstr l key")
    case None
    with Cons show ?thesis by (simp add: plain_lines_def)
  next
    case (Some u)
    then obtain a where "l = a @ u" using strstr_suffix by blast
    with Some Cons.prems show ?thesis by (simp add: plain_lines_def)
  qed
qed

lemma takeWhile_value:
  "CHR 0x0A \<notin> set u \<Longrightarrow> takeWhile in_value (u @ CHR 0x0A # rest) = takeWhile (\<lambda>c. c \<noteq> CHR '';'') u"
  by (induction u) (auto simp: in_value_def)

lemma dropWhile_blank:
  "CHR 0x0A \<notin> set u \<Longrightarrow> dropWhile blank (u @ CHR 0x0A # rest) = dropWhile blank u @ CHR 0x0A # rest"
  by (induction u) (auto simp: blank_def)

lemma key_data_line:
  assumes "plain_lines lines" "line_value lines k = Some v"
  shows "\<exists>d. key_data (file_of lines @ z) k = Some d \<and> (\<exists>x\<in>set d. \<not> in_value x)
    \<and> take 127 (takeWhile in_value d) = v"
proof -
  obtain t q where tq: "key_line lines (config_file_key_word k) = Some t" "strchr t (CHR ''='') = Some q"
    "v = take 127 (takeWhile (\<lambda>c. c \<noteq> CHR '';'') (dropWhile blank (tl q)))"
    using assms(2) by (auto simp: line_value_def bind_eq_Some_conv)
  obtain rest where s: "strstr (file_of lines @ z) (config_file_key_word k) = Some (t @ CHR 0x0A # rest)"
    using strstr_lines [of lines z k] tq(1) by auto
  obtain a r where r: "t = a @ q" "q = CHR ''='' # r" using strchr_Some [OF tq(2)] by blast
  have nl: "CHR 0x0A \<notin> set r" using key_line_plain [OF assms(1) tq(1)] r by simp
  have "key_data (file_of lines @ z) k = Some (dropWhile blank r @ CHR 0x0A # rest)"
    using s strchr_append_Some [OF tq(2), of "CHR 0x0A # rest"] r(2) nl
    by (simp add: key_data_def dropWhile_blank)
  moreover have "\<exists>x\<in>set (dropWhile blank r @ CHR 0x0A # rest). \<not> in_value x"
    by (simp add: in_value_def)
  moreover have "CHR 0x0A \<notin> set (dropWhile blank r)" using nl set_dropWhileD by metis
  then have "take 127 (takeWhile in_value (dropWhile blank r @ CHR 0x0A # rest)) = v"
    unfolding takeWhile_value [OF \<open>CHR 0x0A \<notin> set (dropWhile blank r)\<close>] using tq(3) r(2) by simp
  ultimately show ?thesis by blast
qed

text \<open>The loop over keys that all have a value.\<close>

lemma config_loop_values:
  assumes "nulfree txt"
    "\<And>k. k \<in> set ks \<Longrightarrow> \<exists>d. key_data txt k = Some d \<and>
       ((\<exists>x\<in>set d. \<not> in_value x) \<and> take 127 (takeWhile in_value d) = v k \<and> k \<notin> lost
        \<or> (\<forall>x\<in>set d. in_value x) \<and> k \<in> lost)"
    "length kw = 128" "config_ok c"
  shows "config_loop txt ks kw c = Inr (0, fold (\<lambda>k c. if k \<in> lost then c else store k (v k) c) ks c)"
  using assms(2-)
proof (induction ks arbitrary: kw c)
  case Nil
  then show ?case by simp
next
  case (Cons k ks)
  obtain d where d: "key_data txt k = Some d"
    "(\<exists>x\<in>set d. \<not> in_value x) \<and> take 127 (takeWhile in_value d) = v k \<and> k \<notin> lost
     \<or> (\<forall>x\<in>set d. in_value x) \<and> k \<in> lost"
    using Cons.prems(1) [of k] by auto
  note IH = Cons.IH [OF Cons.prems(1)]
  show ?case
  proof (cases "k \<in> lost")
    case True
    then have "parse_config_key_word d kw = Inr (False, kw)" using d(2) parse_none by blast
    then show ?thesis using IH [of kw c] Cons.prems True d(1) by (simp add: config_loop_step)
  next
    case False
    then have w: "\<exists>x\<in>set d. \<not> in_value x" "take 127 (takeWhile in_value d) = v k" using d(2) by auto
    obtain kw' where kw': "parse_config_key_word d kw = Inr (True, kw')" "length kw' = 128"
      "str_at 0 kw' = Inr (v k)"
      using parse_ok [OF w(1) Cons.prems(2) nulfree_key_data [OF d(1) assms(1)]] w(2) by auto
    show ?thesis
      using IH [OF _ kw'(2) store_ok [OF Cons.prems(3)], of k "v k"] kw' d(1) False
        set_field_ok [OF Cons.prems(3) kw'(3)]
      by (simp add: config_loop_step)
  qed
qed

section \<open>The whole reader\<close>

lemma cstr_end: "cstr (s @ NUL # r) = cstr s"
  by (induction s) (simp_all add: cstr_Cons)

lemma read_buffer:
  assumes "file = Some content" "content \<noteq> []"
  shows "read_config_info True file c =
    and_then (config_loop (cstr (take 10239 content)) config_keys (replicate 128 NUL) config_zero)
      (\<lambda>(r, c). Inr (r, c, []))"
proof -
  obtain b where b: "b = take 10239 content" by simp
  have l: "length b \<le> 10239" "b \<noteq> []" using assms(2) by (simp_all add: b)
  then have n: "10240 - length b = Suc (10239 - length b)" by simp
  have "write_at 0 b (replicate 10240 NUL) = Inr (b @ replicate (10240 - length b) NUL)"
    using l(1) by (simp add: write_at_def)
  then have w: "write_at 0 b (replicate 10240 NUL) = Inr (b @ NUL # replicate (10239 - length b) NUL)"
    unfolding n by simp
  have "read_file_to_buff file ''config.ini'' 10239 (replicate 10240 NUL)
      = Inr (0, b @ NUL # replicate (10239 - length b) NUL, [])"
    using assms(1) w l(2) by (simp add: read_file_to_buff_def b [symmetric] del: length_take)
  then show ?thesis
    by (simp add: read_config_info_def config_sizes cstr_end b)
qed

text \<open>The record of the values, each cut to its field.\<close>

definition padded :: "nat \<Rightarrow> string \<Rightarrow> string" where
  "padded n s = take (n - 1) s @ replicate (n - min (n - 1) (length s)) NUL"

definition config_of :: "(config_key \<Rightarrow> string) \<Rightarrow> CONFIG_INFO" where
  "config_of v = \<lparr>version = padded 32 (v CON_VERSION), log_level = word_of_int (atoi (v CON_LOG_LEVEL)),
     mysql_branch_server_addr = padded 128 (v CON_MYSQL_BRANCH_SERVER_ADDR),
     mysql_server_port = word_of_int (atoi (v CON_MYSQL_SERVER_PORT)),
     mysql_db_name = padded 64 (v CON_MYSQL_DB_NAME), mysql_user_name = padded 64 (v CON_MYSQL_USER_NAME),
     mysql_password = padded 64 (v CON_MYSQL_PASSWORD)\<rparr>"

lemma field_zero: "0 < n \<Longrightarrow> field n s (replicate n NUL) = padded n s"
  by (simp add: field_def padded_def Suc_diff_Suc min_def flip: replicate_Suc)

lemma store_all:
  "fold (\<lambda>k c. if k \<in> lost then c else store k (v k) c) config_keys config_zero
     = config_of (\<lambda>k. if k \<in> lost then [] else v k)"
  by (simp add: config_keys_def config_zero_def config_of_def field_zero config_sizes padded_def [of _ "[]"]
      atoi_def)

lemma read_values:
  assumes "plain_lines lines" "nulfree (file_of lines @ z)" "length (file_of lines @ z) < INI_FILE_BUF_SIZE"
    "file_of lines @ z \<noteq> []"
    "\<And>k. k \<notin> lost \<Longrightarrow> line_value lines k = Some (v k)"
    "\<And>k. k \<in> lost \<Longrightarrow> \<exists>d. key_data (file_of lines @ z) k = Some d \<and> (\<forall>x\<in>set d. in_value x)"
  shows "read_config_info True (Some (file_of lines @ z)) c
    = Inr (0, config_of (\<lambda>k. if k \<in> lost then [] else v k), [])"
proof -
  let ?t = "file_of lines @ z"
  have t: "cstr (take 10239 ?t) = ?t" using assms(2,3) by (simp add: INI_FILE_BUF_SIZE_def)
  have keys: "\<exists>d. key_data ?t k = Some d \<and>
       ((\<exists>x\<in>set d. \<not> in_value x) \<and> take 127 (takeWhile in_value d) = v k \<and> k \<notin> lost
        \<or> (\<forall>x\<in>set d. in_value x) \<and> k \<in> lost)" for k
    using key_data_line [OF assms(1) assms(5), of k z] assms(6) [of k] by (cases "k \<in> lost") auto
  have "config_loop ?t config_keys (replicate 128 NUL) config_zero
      = Inr (0, fold (\<lambda>k c. if k \<in> lost then c else store k (v k) c) config_keys config_zero)"
    by (rule config_loop_values [OF assms(2)]) (simp_all add: keys config_zero_ok)
  then show ?thesis
    using read_buffer [of "Some ?t" ?t c] assms(4) unfolding t store_all by simp
qed

section \<open>Properties\<close>

text \<open>The file \<open>config.ini\<close> of the repository.\<close>

definition shipped_lines :: "string list" where
  "shipped_lines = ['';'', ''; G-Net Update inifile'', '';'', [], ''[GENERAL]'', ''Version = 1.0;'',
     ''LogLevel = 4;'', [], ''[DATABASE]'', ''MySqlBranchServerAddr = 127.0.0.1'', ''MySqlServerPort = 3306'',
     ''MySqlDbName = gshare'', ''MySqlUserName = gsh107'', ''MySqlPassword = my223gs4mk221'']"

fun shipped_value :: "config_key \<Rightarrow> string" where
  "shipped_value CON_VERSION = ''1.0''"
| "shipped_value CON_LOG_LEVEL = ''4''"
| "shipped_value CON_MYSQL_BRANCH_SERVER_ADDR = ''127.0.0.1''"
| "shipped_value CON_MYSQL_SERVER_PORT = ''3306''"
| "shipped_value CON_MYSQL_DB_NAME = ''gshare''"
| "shipped_value CON_MYSQL_USER_NAME = ''gsh107''"
| "shipped_value CON_MYSQL_PASSWORD = ''my223gs4mk221''"

lemma shipped_values: "line_value shipped_lines k = Some (shipped_value k)"
  by (cases k; simp add: line_value_def shipped_lines_def blank_def)

lemma shipped_text:
  "plain_lines shipped_lines" "nulfree (file_of shipped_lines)" "length (file_of shipped_lines) = 210"
  by (simp_all add: plain_lines_def shipped_lines_def file_of_def nl_def NUL_def)

text \<open>C31. Whatever the file holds, reading the configuration stays inside its buffers and returns;
  the record it leaves has every array terminated, so printing it is safe as well.\<close>

theorem config_reader_safe:
  assumes "config_ok c"
  shows "\<exists>r c' es. read_config_info malloc_ok file c = Inr (r, c', es) \<and> r \<in> {-1, 0} \<and> config_ok c'
    \<and> (\<exists>ps. print_config_info c' = Inr ps)"
proof -
  have print: "\<exists>ps. print_config_info c = Inr ps" if "config_ok c" for c
    using that by (simp add: config_ok_def print_config_info_def str_at_def)
  consider "\<not> malloc_ok \<or> file = None \<or> file = Some []" | content where "malloc_ok" "file = Some content" "content \<noteq> []"
    by (metis option.exhaust)
  then show ?thesis
  proof cases
    case 1
    then show ?thesis
      using assms print by (auto simp: read_config_info_def read_file_to_buff_def write_at_def)
  next
    case 2
    obtain r c' where "config_loop (cstr (take 10239 content)) config_keys (replicate 128 NUL) config_zero
        = Inr (r, c')" "config_ok c'" "r \<in> {-1, 0}"
      using config_loop_safe [OF nulfree_cstr _ config_zero_ok] by force
    then show ?thesis using read_buffer [OF 2(2,3)] 2(1) print by auto
  qed
qed

theorem config_reader_safe_witness:
  "\<exists>r c' es. read_config_info True (Some (replicate 20000 (CHR ''=''))) config_zero = Inr (r, c', es)
    \<and> config_ok c'"
  using config_reader_safe [OF config_zero_ok, of True "Some (replicate 20000 (CHR ''=''))"] by blast

text \<open>C32. On a file of lines in which every key has a value, \<open>read_config_info\<close> succeeds and stores,
  for each key, the value of the first line that contains it, whatever the order of the lines: the
  text behind \<open>=\<close>, without leading blanks, up to \<open>;\<close> or the end of the line, cut to the field.\<close>

theorem config_values_read:
  assumes "plain_lines lines" "nulfree (file_of lines)" "length (file_of lines) < INI_FILE_BUF_SIZE"
    "\<And>k. line_value lines k = Some (v k)"
  shows "read_config_info True (Some (file_of lines)) c = Inr (0, config_of v, [])"
proof -
  have "lines \<noteq> []" using assms(4) [of CON_VERSION] by (auto simp: line_value_def)
  then have "file_of lines \<noteq> []" by (auto simp: file_of_def nl_def)
  then show ?thesis using read_values [of lines "[]" "{}" v c] assms by simp
qed

theorem config_values_read_witness:
  "read_config_info True (Some (file_of shipped_lines)) config_zero = Inr (0, config_of shipped_value, [])"
  using config_values_read [OF shipped_text(1,2) _ shipped_values] shipped_text(3)
  by (simp add: INI_FILE_BUF_SIZE_def)

text \<open>When the last line has no end, the value it holds is lost: the field stays empty, and
  \<open>read_config_info\<close> still reports success.\<close>

theorem config_last_value_lost:
  assumes "plain_lines lines" "nulfree (file_of lines @ z)" "length (file_of lines @ z) < INI_FILE_BUF_SIZE"
    "CHR 0x0A \<notin> set z" "key_line lines (config_file_key_word k0) = None"
    "strstr z (config_file_key_word k0) = Some t" "strchr t (CHR ''='') = Some q" "CHR '';'' \<notin> set q"
    "\<And>k. k \<noteq> k0 \<Longrightarrow> line_value lines k = Some (v k)"
  shows "read_config_info True (Some (file_of lines @ z)) c = Inr (0, config_of (v(k0 := [])), [])"
proof -
  obtain a where a: "z = a @ t" using strstr_suffix [OF assms(6)] by blast
  obtain b r where b: "t = b @ q" "q = CHR ''='' # r" using strchr_Some [OF assms(7)] by blast
  have "key_data (file_of lines @ z) k0 = Some (dropWhile blank r)"
    using strstr_lines [of lines z k0] assms(5-7) b(2) by (simp add: key_data_def)
  moreover have "\<forall>x\<in>set (dropWhile blank r). in_value x"
    using a b assms(4,8) by (auto simp: in_value_def dest!: set_dropWhileD)
  ultimately have "read_config_info True (Some (file_of lines @ z)) c
      = Inr (0, config_of (\<lambda>k. if k \<in> {k0} then [] else v k), [])"
    using assms(1-3,9) a b by (intro read_values) auto
  also have "(\<lambda>k. if k \<in> {k0} then [] else v k) = v(k0 := [])" by auto
  finally show ?thesis .
qed

lemma shipped_but_last:
  "plain_lines (butlast shipped_lines)" "nulfree (file_of (butlast shipped_lines))"
  "length (file_of (butlast shipped_lines)) = 180"
  "key_line (butlast shipped_lines) ''MySqlPassword'' = None"
  by (simp_all add: plain_lines_def shipped_lines_def file_of_def nl_def NUL_def)

lemma shipped_values_but_last:
  "k \<noteq> CON_MYSQL_PASSWORD \<Longrightarrow> line_value (butlast shipped_lines) k = Some (shipped_value k)"
  by (cases k; simp add: line_value_def shipped_lines_def blank_def)

theorem config_last_value_lost_witness:
  "read_config_info True (Some (file_of (butlast shipped_lines) @ ''MySqlPassword = my223gs4mk221'')) config_zero
     = Inr (0, config_of (shipped_value(CON_MYSQL_PASSWORD := [])), [])"
  by (rule config_last_value_lost [where t = "''MySqlPassword = my223gs4mk221''"
        and q = "''= my223gs4mk221''", OF shipped_but_last(1) _ _ _ _ _ _ _ shipped_values_but_last])
    (simp_all add: shipped_but_last INI_FILE_BUF_SIZE_def NUL_def)

end
