(* ===== verification/LogModel.thy ===== *)
theory LogModel
  imports Effects
begin

text \<open>
  \<open>src/server/log.c\<close> and \<open>log.h\<close>: the log file. The state is the static variables of
  \<open>log.c\<close> and the content of the file; the local time at which a line is written and whether
  \<open>fopen\<close> succeeds are arguments. A message is what \<open>vsnprintf\<close> makes of the format and the
  arguments of the call. The mutex is held from the first to the last statement of a call, so a
  call is one step.
\<close>

section \<open>Data\<close>

definition MAX_LOG_LINE_NUM :: nat where "MAX_LOG_LINE_NUM = 500000"
definition TIME_STAMP_BUF_LEN :: nat where "TIME_STAMP_BUF_LEN = 128"
definition LOG_STR_BUF_LEN :: nat where "LOG_STR_BUF_LEN = 512"

text \<open>\<open>log_file_handle\<close>: NULL, an open stream, or a stream that \<open>fclose\<close> has ended.\<close>

datatype log_handle = No_file | Opened | Ended

record log_state =
  log_file_handle :: log_handle
  log_file :: string
  def_log_level :: int
  last_log_str :: string
  cur_ts_str :: string
  log_file_name :: string
  preamble_count :: nat

definition log_start :: log_state where
  "log_start = \<lparr>log_file_handle = No_file, log_file = [], def_log_level = int LOG_LEVEL_INDISPENSABLE,
     last_log_str = replicate LOG_STR_BUF_LEN NUL, cur_ts_str = replicate TIME_STAMP_BUF_LEN NUL,
     log_file_name = replicate 128 NUL, preamble_count = 0\<rparr>"

record tm =
  tm_sec :: int
  tm_min :: int
  tm_hour :: int
  tm_mday :: int
  tm_mon :: int
  tm_year :: int

section \<open>Formatting\<close>

text \<open>\<open>%02d\<close>.\<close>

definition show_02d :: "int \<Rightarrow> string" where
  "show_02d i = (if 0 \<le> i \<and> i < 10 then ''0'' @ show_int i else show_int i)"

text \<open>\<open>tm_year % 100\<close> truncates towards zero, as C does; the years of \<open>time_t\<close> are not negative.\<close>

definition time_stamp :: "tm \<Rightarrow> string" where
  "time_stamp t = show_02d (tm_mday t) @ ''/'' @ show_02d (tm_mon t + 1) @ ''/''
     @ show_02d (tm_year t mod 100) @ '' '' @ show_02d (tm_hour t) @ '':'' @ show_02d (tm_min t)
     @ '':'' @ show_02d (tm_sec t)"

definition log_create_current_time_stamp :: "tm \<Rightarrow> log_state \<Rightarrow> log_state result" where
  "log_create_current_time_stamp t s =
     and_then (snprintf_at 0 TIME_STAMP_BUF_LEN (time_stamp t) (cur_ts_str s))
       (\<lambda>b. Inr (s\<lparr>cur_ts_str := b\<rparr>))"

text \<open>The C string \<open>vsnprintf(sBuffer, 512, ...)\<close> leaves in \<open>sBuffer\<close>.\<close>

definition sBuffer :: "string \<Rightarrow> string" where
  "sBuffer msg = take 511 (cstr msg)"

text \<open>
  \<open>fprintf(f, s)\<close> without arguments: \<open>%%\<close> prints a percent sign, any other conversion asks for
  an argument that is not there (\<open>%m\<close>, an extension of glibc, is counted among these).
\<close>

fun fprintf_plain :: "string \<Rightarrow> string result" where
  "fprintf_plain [] = Inr []"
| "fprintf_plain (c # s) =
     (if c = CHR ''%'' then
        (case s of
           [] \<Rightarrow> Inl BadFormat
         | d # r \<Rightarrow> if d = CHR ''%'' then and_then (fprintf_plain r) (\<lambda>t. Inr (c # t)) else Inl BadFormat)
      else and_then (fprintf_plain s) (\<lambda>t. Inr (c # t)))"

definition preamble_logstr :: "string list" where
  "preamble_logstr = ['' '', ''FATAL'', ''ERROR'', ''WARNING'', ''INFO'']"

definition log_label :: "int \<Rightarrow> string result" where
  "log_label level =
     (if 0 \<le> level \<and> nat level < length preamble_logstr then Inr (preamble_logstr ! nat level)
      else Inl OutOfBounds)"

section \<open>Operations\<close>

definition set_log_file_name :: "string \<Rightarrow> log_state \<Rightarrow> log_state result" where
  "set_log_file_name file_name s =
     and_then (strcpy_at 0 128 file_name (log_file_name s)) (\<lambda>b. Inr (s\<lparr>log_file_name := b\<rparr>))"

definition log_set_level :: "int \<Rightarrow> log_state \<Rightarrow> log_state" where
  "log_set_level level s = s\<lparr>def_log_level := level\<rparr>"

text \<open>\<open>memset(last_log_str, 0, 512); strcpy(last_log_str, sBuffer);\<close>\<close>

definition keep_last :: "string \<Rightarrow> log_state \<Rightarrow> log_state result" where
  "keep_last b s =
     and_then (write_at 0 (b @ [NUL]) (replicate LOG_STR_BUF_LEN NUL)) (\<lambda>l. Inr (s\<lparr>last_log_str := l\<rparr>))"

text \<open>\<open>fprintf\<close> on the stream: what an output does depends on the state of the stream.\<close>

definition log_write :: "string \<Rightarrow> log_state \<Rightarrow> log_state result" where
  "log_write out s =
     (case log_file_handle s of
        No_file \<Rightarrow> Inl NullDeref
      | Ended \<Rightarrow> Inl UseAfterFree
      | Opened \<Rightarrow> Inr (s\<lparr>log_file := log_file s @ out\<rparr>))"

text \<open>\<open>fflush(log_file_handle)\<close>: with NULL it flushes every stream; on an ended stream it is undefined.\<close>

definition log_flush :: "log_state \<Rightarrow> log_state result" where
  "log_flush s = (if log_file_handle s = Ended then Inl UseAfterFree else Inr s)"

definition log_s :: "tm \<Rightarrow> int \<Rightarrow> string \<Rightarrow> log_state \<Rightarrow> (int \<times> log_state) result" where
  "log_s t level msg s =
     (if log_file_handle s = No_file then Inr (-1, s)
      else
        and_then (log_create_current_time_stamp t s) (\<lambda>s.
        and_then
          (if sBuffer msg \<noteq> cstr (last_log_str s) \<and> level \<le> def_log_level s then
             and_then (fprintf_plain (sBuffer msg)) (\<lambda>out.
             and_then (log_write out s) (keep_last (sBuffer msg)))
           else Inr s) (\<lambda>s.
        and_then (log_flush s) (\<lambda>s. Inr (0, s)))))"

text \<open>The rotation of \<open>log_preamble\<close>; \<open>reopened\<close> tells whether \<open>fopen\<close> succeeds.\<close>

definition log_rotate :: "bool \<Rightarrow> log_state \<Rightarrow> log_state result" where
  "log_rotate reopened s =
     (let s = s\<lparr>preamble_count := Suc (preamble_count s)\<rparr> in
      if MAX_LOG_LINE_NUM \<le> preamble_count s then
        if log_file_handle s = Ended then Inl UseAfterFree
        else Inr (if reopened
                  then s\<lparr>preamble_count := 0, log_file_handle := Opened, log_file := []\<rparr>
                  else s\<lparr>preamble_count := 0, log_file_handle := No_file\<rparr>)
      else Inr s)"

definition log_preamble :: "bool \<Rightarrow> tm \<Rightarrow> int \<Rightarrow> string \<Rightarrow> log_state \<Rightarrow> (int \<times> log_state) result" where
  "log_preamble reopened t level msg s =
     (if log_file_handle s = No_file then Inr (-1, s)
      else
        and_then (log_create_current_time_stamp t s) (\<lambda>s.
        and_then (log_rotate reopened s) (\<lambda>s.
        and_then
          (if sBuffer msg \<noteq> cstr (last_log_str s) \<and> level \<le> def_log_level s then
             and_then (log_label level) (\<lambda>label.
             and_then (log_write (''['' @ cstr (cur_ts_str s) @ '']['' @ label @ ''] '' @ sBuffer msg) s)
               (keep_last (sBuffer msg)))
           else Inr s) (\<lambda>s.
        and_then (log_flush s) (\<lambda>s. Inr (0, s))))))"

definition log_init :: "bool \<Rightarrow> tm \<Rightarrow> log_state \<Rightarrow> (int \<times> log_state) result" where
  "log_init opened t s =
     (if \<not> opened then Inr (-1, s\<lparr>log_file_handle := No_file\<rparr>)
      else
        and_then (log_s t (int LOG_LEVEL_INDISPENSABLE) (''LOG START'' @ nl)
            (s\<lparr>log_file_handle := Opened, log_file := [], last_log_str := replicate LOG_STR_BUF_LEN NUL\<rparr>))
          (\<lambda>(_, s). Inr (0, s)))"

text \<open>\<open>log_close\<close> leaves \<open>log_file_handle\<close> pointing at the ended stream.\<close>

definition log_close :: "tm \<Rightarrow> log_state \<Rightarrow> (int \<times> log_state) result" where
  "log_close t s =
     (if log_file_handle s \<noteq> No_file then
        and_then (log_s t (int LOG_LEVEL_INDISPENSABLE) (''LOG END'' @ nl) s)
          (\<lambda>(_, s). Inr (0, s\<lparr>log_file_handle := Ended\<rparr>))
      else Inr (0, s))"

text \<open>
  The macro \<open>LOG_INFO\<close> of \<open>log.h\<close>: \<open>t\<close> and \<open>t'\<close> are the times of the two calls.
\<close>

record log_entry =
  e_level :: int
  e_file :: string
  e_func :: string
  e_line :: nat
  e_text :: string

definition log_prefix :: "log_entry \<Rightarrow> string" where
  "log_prefix e = e_file e @ '' '' @ e_func e @ ''('' @ show_nat (e_line e) @ '') ''"

definition LOG_INFO :: "bool \<Rightarrow> tm \<Rightarrow> tm \<Rightarrow> log_entry \<Rightarrow> log_state \<Rightarrow> log_state result" where
  "LOG_INFO reopened t t' e s =
     and_then (log_preamble reopened t (e_level e) (log_prefix e) s) (\<lambda>(_, s).
     and_then (log_s t' (e_level e) (e_text e) s) (\<lambda>(_, s). Inr s))"

end
