(* ===== verification/LogCorrect.thy ===== *)
theory LogCorrect
  imports LogModel Runs
begin

text \<open>
  Correctness of the log: an open log writes exactly the lines of the enabled levels, and
  where it does not: the labels, the levels without a label, the stream that has been closed,
  and the rotation.
\<close>

section \<open>The contract\<close>

text \<open>What \<open>localtime\<close> returns.\<close>

definition tm_ok :: "tm \<Rightarrow> bool" where
  "tm_ok t \<longleftrightarrow> 0 \<le> tm_sec t \<and> tm_sec t \<le> 60 \<and> 0 \<le> tm_min t \<and> tm_min t < 60 \<and> 0 \<le> tm_hour t
     \<and> tm_hour t < 24 \<and> 1 \<le> tm_mday t \<and> tm_mday t \<le> 31 \<and> 0 \<le> tm_mon t \<and> tm_mon t < 12"

lemma show_02d_width: "0 \<le> i \<Longrightarrow> i < 100 \<Longrightarrow> length (show_02d i) = 2"
  by (auto simp: show_02d_def show_int_def show_nat.simps [of "nat i"] show_nat.simps [of "nat i div 10"])

lemma nulfree_show_02d [simp]: "nulfree (show_02d i)"
  by (simp add: show_02d_def NUL_def)

lemma time_stamp_width: "tm_ok t \<Longrightarrow> length (time_stamp t) = 17"
  by (simp add: time_stamp_def tm_ok_def show_02d_width)

lemma nulfree_time_stamp [simp]: "nulfree (time_stamp t)"
  by (simp add: time_stamp_def NUL_def)

text \<open>
  An open log: the buffers have their sizes. Between two \<open>LOG_INFO\<close> the last string is not the place
  of a call, which ends in a blank and is shorter than the buffer.
\<close>

definition log_open :: "log_state \<Rightarrow> bool" where
  "log_open s \<longleftrightarrow> log_file_handle s = Opened \<and> length (cur_ts_str s) = TIME_STAMP_BUF_LEN
     \<and> length (last_log_str s) = LOG_STR_BUF_LEN"

definition not_place :: "string \<Rightarrow> bool" where
  "not_place b \<longleftrightarrow> b = [] \<or> last b \<noteq> CHR '' '' \<or> length b = 511"

definition log_ok :: "log_state \<Rightarrow> bool" where
  "log_ok s \<longleftrightarrow> log_open s \<and> not_place (cstr (last_log_str s))"

lemma log_ok_open: "log_ok s \<Longrightarrow> log_open s"
  by (simp add: log_ok_def)

text \<open>
  A message of the program: it does not end in a blank and is no format (what does not fit the
  buffer is cut), and its file and function name fit the buffer.
\<close>

definition text_ok :: "string \<Rightarrow> bool" where
  "text_ok b \<longleftrightarrow> b \<noteq> [] \<and> last b \<noteq> CHR '' '' \<and> nulfree b \<and> CHR ''%'' \<notin> set b"

definition entry_ok :: "log_entry \<Rightarrow> bool" where
  "entry_ok e \<longleftrightarrow> 0 \<le> e_level e \<and> text_ok (e_text e)
     \<and> nulfree (log_prefix e) \<and> length (log_prefix e) < 511"

definition log_line :: "tm \<Rightarrow> log_entry \<Rightarrow> string" where
  "log_line t e = ''['' @ time_stamp t @ '']['' @ preamble_logstr ! nat (e_level e) @ ''] ''
     @ log_prefix e @ sBuffer (e_text e)"

section \<open>One call\<close>

lemma sBuffer_fits: "nulfree b \<Longrightarrow> length b \<le> 511 \<Longrightarrow> sBuffer b = b"
  by (simp add: sBuffer_def)

lemma sBuffer_text:
  assumes "text_ok b"
  shows "nulfree (sBuffer b)" "length (sBuffer b) \<le> 511" "CHR ''%'' \<notin> set (sBuffer b)" "not_place (sBuffer b)"
proof -
  have s: "sBuffer b = take 511 b" using assms by (simp add: sBuffer_def text_ok_def)
  show "nulfree (sBuffer b)" "CHR ''%'' \<notin> set (sBuffer b)"
    using assms unfolding s by (auto simp: text_ok_def nulfree_def dest: in_set_takeD)
  show "length (sBuffer b) \<le> 511" unfolding s by simp
  show "not_place (sBuffer b)"
    using assms unfolding s by (cases "length b \<le> 511") (auto simp: text_ok_def not_place_def)
qed

lemma no_percent [simp]: "CHR ''%'' \<notin> set (show_nat n)" "CHR ''%'' \<notin> set (show_int i)"
proof -
  have "\<not> is_digit (CHR ''%'')" by (simp add: is_digit_def)
  then show n: "CHR ''%'' \<notin> set (show_nat n)" for n using show_nat_digits [of n] by blast
  show "CHR ''%'' \<notin> set (show_int i)" using n by (simp add: show_int_def)
qed

lemma fprintf_plain_no_format: "CHR ''%'' \<notin> set b \<Longrightarrow> fprintf_plain b = Inr b"
  by (induction b) auto

text \<open>A percent sign followed by anything but another one is undefined behaviour.\<close>

lemma fprintf_plain_format:
  "CHR ''%'' \<notin> set a \<Longrightarrow> c \<noteq> CHR ''%'' \<Longrightarrow> fprintf_plain (a @ CHR ''%'' # c # b) = Inl BadFormat"
  by (induction a) auto

lemma stamp_written:
  assumes "tm_ok t" "length (cur_ts_str s) = TIME_STAMP_BUF_LEN"
  obtains b where "log_create_current_time_stamp t s = Inr (s\<lparr>cur_ts_str := b\<rparr>)"
    "length b = TIME_STAMP_BUF_LEN" "cstr b = time_stamp t"
proof
  let ?b = "time_stamp t @ NUL # drop 18 (cur_ts_str s)"
  show "log_create_current_time_stamp t s = Inr (s\<lparr>cur_ts_str := ?b\<rparr>)"
    using assms by (simp add: log_create_current_time_stamp_def snprintf_at_def write_at_def
        time_stamp_width TIME_STAMP_BUF_LEN_def)
  show "length ?b = TIME_STAMP_BUF_LEN"
    using assms by (simp add: time_stamp_width TIME_STAMP_BUF_LEN_def)
  show "cstr ?b = time_stamp t" by simp
qed

lemma keep_last_ok:
  assumes "nulfree b" "length b \<le> 511"
  shows "keep_last b s = Inr (s\<lparr>last_log_str := b @ replicate (512 - length b) NUL\<rparr>)"
proof -
  have "512 - length b = Suc (511 - length b)" using assms(2) by simp
  then show ?thesis
    using assms(2) by (simp add: keep_last_def write_at_def LOG_STR_BUF_LEN_def)
qed

lemma cstr_padded: "nulfree b \<Longrightarrow> cstr (b @ replicate n NUL) = b"
  by (cases n) simp_all

text \<open>The counter and the file after the rotation: the 500000th line starts the file anew.\<close>

definition rotated_count :: "log_state \<Rightarrow> nat" where
  "rotated_count s = (if Suc (preamble_count s) < MAX_LOG_LINE_NUM then Suc (preamble_count s) else 0)"

definition rotated_file :: "log_state \<Rightarrow> string" where
  "rotated_file s = (if Suc (preamble_count s) < MAX_LOG_LINE_NUM then log_file s else [])"

lemma log_rotate_ok:
  assumes "log_file_handle s = Opened" "r \<or> Suc (preamble_count s) < MAX_LOG_LINE_NUM"
  shows "log_rotate r s = Inr (s\<lparr>preamble_count := rotated_count s, log_file := rotated_file s\<rparr>)"
  using assms by (cases s) (auto simp: log_rotate_def rotated_count_def rotated_file_def Let_def)

lemmas rotated_defs = rotated_count_def rotated_file_def

text \<open>\<open>log_preamble\<close> and \<open>log_s\<close> when the level is disabled.\<close>

lemma log_s_disabled:
  assumes "log_open s" "tm_ok t" "def_log_level s < level"
  shows "\<exists>s'. log_s t level msg s = Inr (0, s') \<and> log_open s' \<and> log_file s' = log_file s
    \<and> def_log_level s' = def_log_level s \<and> preamble_count s' = preamble_count s
    \<and> last_log_str s' = last_log_str s"
proof -
  obtain b where b: "log_create_current_time_stamp t s = Inr (s\<lparr>cur_ts_str := b\<rparr>)"
    "length b = TIME_STAMP_BUF_LEN" "cstr b = time_stamp t"
    using stamp_written [OF assms(2)] assms(1) by (auto simp: log_ok_def log_open_def)
  show ?thesis
    using assms b by (auto simp: log_open_def log_s_def log_flush_def)
qed

lemma log_preamble_disabled:
  assumes "log_open s" "tm_ok t" "def_log_level s < level" "r \<or> Suc (preamble_count s) < MAX_LOG_LINE_NUM"
  shows "\<exists>s'. log_preamble r t level msg s = Inr (0, s') \<and> log_open s' \<and> log_file s' = rotated_file s
    \<and> def_log_level s' = def_log_level s \<and> preamble_count s' = rotated_count s
    \<and> last_log_str s' = last_log_str s"
proof -
  obtain b where b: "log_create_current_time_stamp t s = Inr (s\<lparr>cur_ts_str := b\<rparr>)"
    "length b = TIME_STAMP_BUF_LEN" "cstr b = time_stamp t"
    using stamp_written [OF assms(2)] assms(1) by (auto simp: log_ok_def log_open_def)
  show ?thesis
    using assms b by (auto simp: log_open_def log_preamble_def log_flush_def log_rotate_ok rotated_defs)
qed

text \<open>An enabled \<open>log_preamble\<close> writes the stamp, the label and the place, if it differs from the last string.\<close>

lemma log_preamble_enabled:
  assumes "log_open s" "tm_ok t" "level \<le> def_log_level s" "0 \<le> level" "level < 5"
    "nulfree msg" "length msg \<le> 511" "msg \<noteq> cstr (last_log_str s)"
    "r \<or> Suc (preamble_count s) < MAX_LOG_LINE_NUM"
  shows "\<exists>s'. log_preamble r t level msg s = Inr (0, s') \<and> log_open s'
    \<and> cstr (last_log_str s') = msg \<and> def_log_level s' = def_log_level s
    \<and> preamble_count s' = rotated_count s
    \<and> log_file s' = rotated_file s @ ''['' @ time_stamp t @ '']['' @ preamble_logstr ! nat level @ ''] '' @ msg"
proof -
  obtain b where b: "log_create_current_time_stamp t s = Inr (s\<lparr>cur_ts_str := b\<rparr>)"
    "length b = TIME_STAMP_BUF_LEN" "cstr b = time_stamp t"
    using stamp_written [OF assms(2)] assms(1) by (auto simp: log_ok_def log_open_def)
  have label: "log_label level = Inr (preamble_logstr ! nat level)"
    using assms(4,5) by (simp add: log_label_def preamble_logstr_def)
  have h: "log_file_handle s = Opened" "length (last_log_str s) = LOG_STR_BUF_LEN"
    using assms(1) by (simp_all add: log_open_def)
  show ?thesis
    using assms(3-9) b h
    by (simp add: log_open_def log_preamble_def log_flush_def log_rotate_ok rotated_defs log_write_def keep_last_ok cstr_padded
        sBuffer_fits label LOG_STR_BUF_LEN_def)
qed

lemma log_s_enabled:
  assumes "log_open s" "tm_ok t" "level \<le> def_log_level s" "text_ok msg" "sBuffer msg \<noteq> cstr (last_log_str s)"
  shows "\<exists>s'. log_s t level msg s = Inr (0, s') \<and> log_ok s' \<and> def_log_level s' = def_log_level s
    \<and> preamble_count s' = preamble_count s \<and> log_file s' = log_file s @ sBuffer msg
    \<and> cstr (last_log_str s') = sBuffer msg"
proof -
  obtain b where b: "log_create_current_time_stamp t s = Inr (s\<lparr>cur_ts_str := b\<rparr>)"
    "length b = TIME_STAMP_BUF_LEN" "cstr b = time_stamp t"
    using stamp_written [OF assms(2)] assms(1) by (auto simp: log_open_def)
  note m = sBuffer_text [OF assms(4)]
  show ?thesis
    using assms(1,3,5) b m
    by (simp add: log_s_def log_flush_def log_write_def keep_last_ok cstr_padded
        fprintf_plain_no_format LOG_STR_BUF_LEN_def log_ok_def log_open_def)
qed

section \<open>LOG_INFO\<close>

text \<open>
  The prefix ends in a blank and no message does, so neither equals the string
  written before it: an enabled \<open>LOG_INFO\<close> is never suppressed.
\<close>

lemma log_prefix_no_line: "not_place b \<Longrightarrow> length (log_prefix e) < 511 \<Longrightarrow> log_prefix e \<noteq> b"
  by (auto simp: not_place_def log_prefix_def)

lemma log_info_enabled:
  assumes "log_ok s" "entry_ok e" "tm_ok t" "tm_ok t'" "e_level e \<le> def_log_level s"
    "def_log_level s < 5" "r \<or> Suc (preamble_count s) < MAX_LOG_LINE_NUM"
  shows "\<exists>s'. LOG_INFO r t t' e s = Inr s' \<and> log_ok s' \<and> log_file s' = rotated_file s @ log_line t e
    \<and> def_log_level s' = def_log_level s \<and> preamble_count s' = rotated_count s
    \<and> cstr (last_log_str s') = sBuffer (e_text e)"
proof -
  have e: "0 \<le> e_level e" "e_level e < 5" "text_ok (e_text e)" "nulfree (log_prefix e)"
    "length (log_prefix e) < 511" "length (log_prefix e) \<le> 511"
    using assms(2,5,6) by (simp_all add: entry_ok_def)
  have new: "log_prefix e \<noteq> cstr (last_log_str s)"
    using log_prefix_no_line [OF _ e(5)] assms(1) by (auto simp: log_ok_def)
  obtain s1 where s1: "log_preamble r t (e_level e) (log_prefix e) s = Inr (0, s1)"
    "log_open s1" "cstr (last_log_str s1) = log_prefix e" "def_log_level s1 = def_log_level s"
    "preamble_count s1 = rotated_count s"
    "log_file s1 = rotated_file s @ ''['' @ time_stamp t @ '']['' @ preamble_logstr ! nat (e_level e) @ ''] '' @ log_prefix e"
    using log_preamble_enabled [OF log_ok_open [OF assms(1)] assms(3,5) e(1,2,4,6) new assms(7)] by blast
  have fresh: "sBuffer (e_text e) \<noteq> cstr (last_log_str s1)"
    unfolding s1(3) using log_prefix_no_line [OF sBuffer_text(4) [OF e(3)] e(5)] by metis
  have lvl: "e_level e \<le> def_log_level s1" using assms(5) s1(4) by simp
  obtain s2 where "log_s t' (e_level e) (e_text e) s1 = Inr (0, s2)" "log_ok s2"
    "def_log_level s2 = def_log_level s1" "preamble_count s2 = preamble_count s1"
    "log_file s2 = log_file s1 @ sBuffer (e_text e)" "cstr (last_log_str s2) = sBuffer (e_text e)"
    using log_s_enabled [OF s1(2) assms(4) lvl e(3) fresh] by blast
  then show ?thesis using s1 by (simp add: LOG_INFO_def log_line_def)
qed

lemma log_info_disabled:
  assumes "log_ok s" "tm_ok t" "tm_ok t'" "def_log_level s < e_level e"
    "r \<or> Suc (preamble_count s) < MAX_LOG_LINE_NUM"
  shows "\<exists>s'. LOG_INFO r t t' e s = Inr s' \<and> log_ok s' \<and> log_file s' = rotated_file s
    \<and> def_log_level s' = def_log_level s \<and> preamble_count s' = rotated_count s
    \<and> last_log_str s' = last_log_str s"
proof -
  obtain s1 where s1: "log_preamble r t (e_level e) (log_prefix e) s = Inr (0, s1)" "log_open s1"
    "log_file s1 = rotated_file s" "def_log_level s1 = def_log_level s"
    "preamble_count s1 = rotated_count s" "last_log_str s1 = last_log_str s"
    using log_preamble_disabled [OF log_ok_open [OF assms(1)] assms(2,4,5)] by blast
  have "def_log_level s1 < e_level e" using assms(4) s1(4) by simp
  then obtain s2 where "log_s t' (e_level e) (e_text e) s1 = Inr (0, s2)" "log_open s2"
    "log_file s2 = log_file s1" "def_log_level s2 = def_log_level s1"
    "preamble_count s2 = preamble_count s1" "last_log_str s2 = last_log_str s1"
    using log_s_disabled [OF s1(2) assms(3)] by blast
  then show ?thesis using s1 assms(1) by (simp add: LOG_INFO_def log_ok_def)
qed

lemma log_info_ok:
  assumes "log_ok s" "entry_ok e" "tm_ok t" "tm_ok t'" "def_log_level s < 5"
    "r \<or> Suc (preamble_count s) < MAX_LOG_LINE_NUM"
  shows "\<exists>s'. LOG_INFO r t t' e s = Inr s' \<and> log_ok s'
    \<and> log_file s' = rotated_file s @ (if e_level e \<le> def_log_level s then log_line t e else [])
    \<and> def_log_level s' = def_log_level s \<and> preamble_count s' = rotated_count s
    \<and> cstr (last_log_str s') = (if e_level e \<le> def_log_level s then sBuffer (e_text e) else cstr (last_log_str s))"
proof (cases "e_level e \<le> def_log_level s")
  case True
  then show ?thesis using log_info_enabled [OF assms(1-4) True assms(5,6)] by auto
next
  case False
  then have "def_log_level s < e_level e" by simp
  then show ?thesis using log_info_disabled [where e = e, OF assms(1,3,4) _ assms(6)] False by auto
qed

text \<open>A run of log calls, with the times of each, and the lines it is to leave in the file.\<close>

definition log_run :: "bool \<Rightarrow> (tm \<times> tm \<times> log_entry) list \<Rightarrow> log_state \<Rightarrow> log_state result" where
  "log_run r = run_steps (\<lambda>(t, t', e). LOG_INFO r t t' e)"

definition log_lines :: "int \<Rightarrow> (tm \<times> tm \<times> log_entry) list \<Rightarrow> string" where
  "log_lines level cs = concat (map (\<lambda>(t, t', e). log_line t e) (filter (\<lambda>(t, t', e). e_level e \<le> level) cs))"

definition call_ok :: "tm \<times> tm \<times> log_entry \<Rightarrow> bool" where
  "call_ok c = (case c of (t, t', e) \<Rightarrow> tm_ok t \<and> tm_ok t' \<and> entry_ok e)"

definition texts :: "(tm \<times> tm \<times> log_entry) list \<Rightarrow> string set" where
  "texts cs = (\<lambda>(t, t', e). sBuffer (e_text e)) ` set cs"

text \<open>The string of the last enabled call.\<close>

definition last_text :: "string \<Rightarrow> int \<Rightarrow> (tm \<times> tm \<times> log_entry) list \<Rightarrow> string" where
  "last_text start level cs =
     last (start # map (\<lambda>(t, t', e). sBuffer (e_text e)) (filter (\<lambda>(t, t', e). e_level e \<le> level) cs))"

lemma last_text_simps [simp]:
  "last_text start level [] = start"
  "last_text start level (cs @ [(t, t', e)]) = (if e_level e \<le> level then sBuffer (e_text e) else last_text start level cs)"
  by (simp_all add: last_text_def)

lemma last_text_in: "last_text start level cs \<in> insert start (texts cs)"
proof (induction cs rule: rev_induct)
  case (snoc c cs)
  then show ?case by (cases c) (auto simp: texts_def)
qed simp

text \<open>
  The 500000th call starts the file anew and its own line is the first of it; so the file holds what
  it held before and all the lines, or the lines since the last such call.
\<close>

definition log_kept :: "string \<Rightarrow> int \<Rightarrow> (tm \<times> tm \<times> log_entry) list \<Rightarrow> string" where
  "log_kept start level cs =
     (if length cs < MAX_LOG_LINE_NUM then start @ log_lines level cs
      else log_lines level (drop (length cs div MAX_LOG_LINE_NUM * MAX_LOG_LINE_NUM - 1) cs))"

lemma log_lines_simps [simp]:
  "log_lines level [] = []"
  "log_lines level (cs @ ds) = log_lines level cs @ log_lines level ds"
  "log_lines level [(t, t', e)] = (if e_level e \<le> level then log_line t e else [])"
  by (simp_all add: log_lines_def)

lemma rotation_arith:
  assumes "0 < (m::nat)"
  shows "Suc (n mod m) < m \<Longrightarrow> Suc n mod m = Suc (n mod m) \<and> Suc n div m = n div m"
    and "\<not> Suc (n mod m) < m \<Longrightarrow> Suc n mod m = 0 \<and> Suc n div m * m = Suc n"
proof -
  show "Suc (n mod m) < m \<Longrightarrow> Suc n mod m = Suc (n mod m) \<and> Suc n div m = n div m"
    using assms by (auto simp: mod_Suc div_Suc)
  assume "\<not> Suc (n mod m) < m"
  then have "Suc (n mod m) = m" using mod_less_divisor [OF assms, of n] by simp
  then have z: "Suc n mod m = 0" by (simp add: mod_Suc)
  then show "Suc n mod m = 0 \<and> Suc n div m * m = Suc n" by (metis add.right_neutral div_mult_mod_eq)
qed

lemma log_kept_snoc:
  "log_kept start level (cs @ [c]) =
     (if Suc (length cs mod MAX_LOG_LINE_NUM) < MAX_LOG_LINE_NUM then log_kept start level cs else [])
     @ log_lines level [c]"
proof -
  let ?n = "length cs" and ?m = MAX_LOG_LINE_NUM
  have m: "0 < ?m" "1 < ?m" by (simp_all add: MAX_LOG_LINE_NUM_def)
  show ?thesis
  proof (cases "Suc (?n mod ?m) < ?m")
    case True
    note d = rotation_arith(1) [OF m(1) True]
    have le: "?n div ?m * ?m - 1 \<le> ?n" by (rule le_trans [OF diff_le_self div_times_less_eq_dividend])
    have "Suc ?n < ?m \<longleftrightarrow> ?n < ?m"
      using d by (metis Suc_lessD True mod_less)
    then show ?thesis using True d le by (simp add: log_kept_def)
  next
    case False
    note d = rotation_arith(2) [OF m(1) False]
    have "\<not> Suc ?n < ?m" using False m by (metis Suc_lessD mod_less)
    moreover have "Suc ?n div ?m * ?m - 1 = ?n" using d by simp
    ultimately show ?thesis using False by (simp add: log_kept_def)
  qed
qed

text \<open>What is known of a log that began with the line \<open>start\<close>, after the calls \<open>cs\<close>.\<close>

definition log_holds :: "string \<Rightarrow> int \<Rightarrow> (tm \<times> tm \<times> log_entry) list \<Rightarrow> log_state \<Rightarrow> bool" where
  "log_holds start level cs s \<longleftrightarrow> log_ok s \<and> def_log_level s = level \<and> preamble_count s = length cs mod MAX_LOG_LINE_NUM
     \<and> log_file s = log_kept start level cs \<and> cstr (last_log_str s) = last_text start level cs"

lemma log_call_holds:
  assumes "log_holds start level cs s" "level < 5" "tm_ok t" "tm_ok t'" "entry_ok e"
    "r \<or> Suc (length cs) < MAX_LOG_LINE_NUM"
  shows "\<exists>s'. LOG_INFO r t t' e s = Inr s' \<and> log_holds start level (cs @ [(t, t', e)]) s'"
proof -
  have s: "log_ok s" "def_log_level s = level" "preamble_count s = length cs mod MAX_LOG_LINE_NUM"
    "log_file s = log_kept start level cs" "cstr (last_log_str s) = last_text start level cs"
    using assms(1) by (simp_all add: log_holds_def)
  have rot: "r \<or> Suc (preamble_count s) < MAX_LOG_LINE_NUM" using assms(6) s(3) by auto
  have lvl: "def_log_level s < 5" using assms(2) s(2) by simp
  obtain s2 where s2: "LOG_INFO r t t' e s = Inr s2" "log_ok s2"
    "log_file s2 = rotated_file s @ (if e_level e \<le> def_log_level s then log_line t e else [])"
    "def_log_level s2 = def_log_level s" "preamble_count s2 = rotated_count s"
    "cstr (last_log_str s2) = (if e_level e \<le> def_log_level s then sBuffer (e_text e) else cstr (last_log_str s))"
    using log_info_ok [OF s(1) assms(5,3,4) lvl rot] by blast
  let ?cs = "cs @ [(t, t', e)]"
  have "log_file s2 = log_kept start level ?cs"
    using s2(3) s(2-4) by (simp add: log_kept_snoc rotated_file_def)
  moreover have "preamble_count s2 = length ?cs mod MAX_LOG_LINE_NUM"
    using s2(5) s(3) rotation_arith [of MAX_LOG_LINE_NUM "length cs"]
    by (simp add: rotated_count_def MAX_LOG_LINE_NUM_def del: mod_Suc)
  moreover have "cstr (last_log_str s2) = last_text start level ?cs" using s2(6) s(2,5) by simp
  ultimately show ?thesis using s2(1,2,4) s(2) unfolding log_holds_def by blast
qed

lemma log_run_append: "log_run r (cs @ ds) s = and_then (log_run r cs s) (log_run r ds)"
  by (simp add: log_run_def run_steps_append)

lemma log_run_holds:
  assumes "log_holds start level cs s" "level < 5"
  shows "list_all call_ok ds \<Longrightarrow> r \<or> length (cs @ ds) < MAX_LOG_LINE_NUM \<Longrightarrow>
    \<exists>s'. log_run r ds s = Inr s' \<and> log_holds start level (cs @ ds) s'"
proof (induction ds rule: rev_induct)
  case Nil
  then show ?case using assms(1) by (simp add: log_run_def)
next
  case (snoc c ds)
  obtain t t' e where c: "c = (t, t', e)" by (cases c)
  obtain s1 where s1: "log_run r ds s = Inr s1" "log_holds start level (cs @ ds) s1"
    using snoc by auto
  have "tm_ok t" "tm_ok t'" "entry_ok e" "r \<or> Suc (length (cs @ ds)) < MAX_LOG_LINE_NUM"
    using snoc.prems by (simp_all add: c call_ok_def)
  from log_call_holds [OF s1(2) assms(2) this] show ?case
    using s1(1) by (auto simp: log_run_def run_steps_append c)
qed

section \<open>The life of the log file\<close>

lemma text_ok_marks: "text_ok (''LOG START'' @ nl)" "text_ok (''LOG END'' @ nl)"
  by (simp_all add: text_ok_def nl_def NUL_def)

lemma sBuffer_marks [simp]:
  "sBuffer (''LOG START'' @ nl) = ''LOG START'' @ nl" "sBuffer (''LOG END'' @ nl) = ''LOG END'' @ nl"
  using text_ok_marks by (simp_all add: text_ok_def nl_def sBuffer_fits)

lemmas sBuffer_marks_cons [simp] = sBuffer_marks [unfolded append_Cons append_Nil]

lemma log_init_ok:
  assumes "tm_ok t" "length (cur_ts_str s) = TIME_STAMP_BUF_LEN" "1 \<le> def_log_level s"
  shows "\<exists>s'. log_init True t s = Inr (0, s') \<and> log_ok s' \<and> log_file s' = ''LOG START'' @ nl
    \<and> def_log_level s' = def_log_level s \<and> preamble_count s' = preamble_count s
    \<and> cstr (last_log_str s') = ''LOG START'' @ nl"
proof -
  let ?s = "s\<lparr>log_file_handle := Opened, log_file := [], last_log_str := replicate LOG_STR_BUF_LEN NUL\<rparr>"
  have "int LOG_LEVEL_INDISPENSABLE \<le> def_log_level ?s"
    using assms(3) by (simp add: LOG_LEVEL_INDISPENSABLE_def)
  then obtain s' where "log_s t (int LOG_LEVEL_INDISPENSABLE) (''LOG START'' @ nl) ?s = Inr (0, s')"
    "log_ok s'" "def_log_level s' = def_log_level s" "preamble_count s' = preamble_count s"
    "log_file s' = ''LOG START'' @ nl" "cstr (last_log_str s') = ''LOG START'' @ nl"
    using log_s_enabled [of ?s t "int LOG_LEVEL_INDISPENSABLE" "''LOG START'' @ nl"] assms text_ok_marks(1)
    by (auto simp: log_open_def)
  then show ?thesis by (simp add: log_init_def)
qed

lemma log_init_holds:
  assumes "tm_ok t" "length (cur_ts_str s) = TIME_STAMP_BUF_LEN" "1 \<le> def_log_level s" "preamble_count s = 0"
  shows "\<exists>s'. log_init True t s = Inr (0, s') \<and> log_holds (''LOG START'' @ nl) level [] (log_set_level level s')"
  using log_init_ok [OF assms(1-3)] assms(4)
  by (fastforce simp: log_holds_def log_kept_def log_ok_def log_open_def log_set_level_def MAX_LOG_LINE_NUM_def)

lemma log_close_ok:
  assumes "log_open s" "tm_ok t" "1 \<le> def_log_level s" "cstr (last_log_str s) \<noteq> ''LOG END'' @ nl"
  shows "\<exists>s'. log_close t s = Inr (0, s') \<and> log_file s' = log_file s @ ''LOG END'' @ nl
    \<and> log_file_handle s' = Ended \<and> length (cur_ts_str s') = TIME_STAMP_BUF_LEN
    \<and> def_log_level s' = def_log_level s"
proof -
  have s: "log_open s" "int LOG_LEVEL_INDISPENSABLE \<le> def_log_level s"
    using assms(1,3) by (simp_all add: LOG_LEVEL_INDISPENSABLE_def)
  obtain s' where "log_s t (int LOG_LEVEL_INDISPENSABLE) (''LOG END'' @ nl) s = Inr (0, s')"
    "log_file s' = log_file s @ ''LOG END'' @ nl" "log_ok s'" "def_log_level s' = def_log_level s"
    using log_s_enabled [OF s(1) assms(2) s(2) text_ok_marks(2)] assms(4)
    unfolding sBuffer_marks by metis
  then show ?thesis using s(1) by (simp add: log_close_def log_ok_def log_open_def)
qed

text \<open>It returns in any case.\<close>

lemma log_close_returns:
  assumes "log_open s" "tm_ok t"
  shows "\<exists>s'. log_close t s = Inr (0, s')"
proof (cases "1 \<le> def_log_level s \<and> cstr (last_log_str s) \<noteq> ''LOG END'' @ nl")
  case True
  then show ?thesis using log_close_ok [OF assms] by blast
next
  case False
  obtain b where b: "log_create_current_time_stamp t s = Inr (s\<lparr>cur_ts_str := b\<rparr>)"
    using stamp_written [OF assms(2)] assms(1) by (auto simp: log_ok_def log_open_def)
  have "log_file_handle s = Opened" using assms(1) by (simp add: log_open_def)
  then show ?thesis using b False sBuffer_marks(2)
    by (auto simp: log_close_def log_s_def log_flush_def LOG_LEVEL_INDISPENSABLE_def)
qed

section \<open>Calls that go wrong\<close>

text \<open>A level that is enabled but has no label.\<close>

lemma log_info_no_label:
  assumes "log_ok s" "tm_ok t" "5 \<le> e_level e" "e_level e \<le> def_log_level s"
    "nulfree (log_prefix e)" "length (log_prefix e) < 511"
    "r \<or> Suc (preamble_count s) < MAX_LOG_LINE_NUM"
  shows "LOG_INFO r t t' e s = Inl OutOfBounds"
proof -
  obtain b where b: "log_create_current_time_stamp t s = Inr (s\<lparr>cur_ts_str := b\<rparr>)"
    using stamp_written [OF assms(2)] assms(1) by (auto simp: log_ok_def log_open_def)
  have "log_prefix e \<noteq> cstr (last_log_str s)"
    using log_prefix_no_line [OF _ assms(6)] assms(1) by (auto simp: log_ok_def)
  moreover have "log_label (e_level e) = Inl OutOfBounds"
    using assms(3) by (auto simp: log_label_def preamble_logstr_def)
  ultimately show ?thesis
    using assms(1,4-7) b
    by (simp add: LOG_INFO_def log_preamble_def log_ok_def log_open_def log_rotate_ok rotated_defs sBuffer_fits)
qed

text \<open>A message with a conversion in it: \<open>log_s\<close> uses the finished message as a format again.\<close>

lemma log_s_format:
  assumes "log_ok s" "tm_ok t" "level \<le> def_log_level s" "msg = a @ CHR ''%'' # c # b"
    "CHR ''%'' \<notin> set a" "c \<noteq> CHR ''%''" "nulfree msg" "length msg \<le> 511" "msg \<noteq> cstr (last_log_str s)"
  shows "log_s t level msg s = Inl BadFormat"
proof -
  obtain ts where ts: "log_create_current_time_stamp t s = Inr (s\<lparr>cur_ts_str := ts\<rparr>)"
    using stamp_written [OF assms(2)] assms(1) by (auto simp: log_ok_def log_open_def)
  have "fprintf_plain msg = Inl BadFormat" using fprintf_plain_format assms(4-6) by simp
  then show ?thesis
    using assms(1,3,9) ts sBuffer_fits [OF assms(7,8)] by (simp add: log_s_def log_ok_def log_open_def)
qed

text \<open>Any call after \<open>log_close\<close>.\<close>

lemma log_s_ended:
  assumes "log_file_handle s = Ended" "length (cur_ts_str s) = TIME_STAMP_BUF_LEN" "tm_ok t" "text_ok msg"
  shows "log_s t level msg s = Inl UseAfterFree"
proof -
  obtain b where b: "log_create_current_time_stamp t s = Inr (s\<lparr>cur_ts_str := b\<rparr>)"
    using stamp_written [OF assms(3,2)] by auto
  have "fprintf_plain (sBuffer msg) = Inr (sBuffer msg)"
    using sBuffer_text(3) [OF assms(4)] by (rule fprintf_plain_no_format)
  then show ?thesis using assms(1) b by (simp add: log_s_def log_write_def log_flush_def)
qed

lemma log_info_ended:
  assumes "log_file_handle s = Ended" "length (cur_ts_str s) = TIME_STAMP_BUF_LEN" "tm_ok t"
    "0 \<le> e_level e" "e_level e < 5 \<or> def_log_level s < e_level e"
  shows "LOG_INFO r t t' e s = Inl UseAfterFree"
proof -
  obtain b where b: "log_create_current_time_stamp t s = Inr (s\<lparr>cur_ts_str := b\<rparr>)"
    using stamp_written [OF assms(3,2)] by auto
  have "e_level e < 5 \<Longrightarrow> log_label (e_level e) = Inr (preamble_logstr ! nat (e_level e))"
    using assms(4) by (simp add: log_label_def preamble_logstr_def)
  then show ?thesis
    using assms(1,5) b
    by (auto simp: LOG_INFO_def log_preamble_def log_rotate_def log_write_def log_flush_def Let_def)
qed

section \<open>Properties\<close>

definition sample_tm :: tm where
  "sample_tm = \<lparr>tm_sec = 5, tm_min = 30, tm_hour = 12, tm_mday = 18, tm_mon = 2, tm_year = 115\<rparr>"

definition sample_entry :: "int \<Rightarrow> log_entry" where
  "sample_entry level = \<lparr>e_level = level, e_file = ''./g_net_update.c'', e_func = ''main'', e_line = 594,
     e_text = ''children fork start.'' @ nl\<rparr>"

definition sample_log :: log_state where
  "sample_log = log_start\<lparr>log_file_handle := Opened, def_log_level := 6\<rparr>"

lemma sample_tm_ok [simp]: "tm_ok sample_tm"
  by (simp add: tm_ok_def sample_tm_def)

lemma sample_entry_simps [simp]:
  "e_level (sample_entry l) = l" "e_text (sample_entry l) = ''children fork start.'' @ nl"
  by (simp_all add: sample_entry_def)

lemma sample_prefix: "length (log_prefix (sample_entry l)) = 27" "nulfree (log_prefix (sample_entry l))"
  by (simp add: log_prefix_def sample_entry_def show_nat.simps [of 594] show_nat.simps [of 59]
      show_nat.simps [of 5], simp add: log_prefix_def sample_entry_def NUL_def)

lemma sample_entry_ok: "0 \<le> l \<Longrightarrow> entry_ok (sample_entry l)"
  by (simp add: entry_ok_def sample_prefix) (simp add: text_ok_def nl_def NUL_def)

lemma sample_text: "sBuffer (''children fork start.'' @ nl) = ''children fork start.'' @ nl"
  by (rule sBuffer_fits) (simp_all add: nl_def NUL_def)

lemmas sample_text_cons = sample_text [unfolded append_Cons append_Nil]

lemma sample_log_ok: "log_ok sample_log"
  by (simp add: log_ok_def log_open_def sample_log_def log_start_def not_place_def)

text \<open>C28. From \<open>log_init\<close> over any number of \<open>LOG_INFO\<close> calls to \<open>log_close\<close>, with the level set as
  \<open>main\<close> does and the file reopened at every 500000th call, the log file holds the start line and
  the lines of the enabled calls, or just the lines of the enabled calls since the last rotation,
  in order, each with stamp, label and place, and then the end line. In particular a call that
  repeats the one before is written again: the comparison with the last string, meant to suppress
  it, never does.\<close>

theorem log_file_holds_lines:
  assumes "tm_ok t0" "tm_ok t1" "1 \<le> level" "level < 5" "list_all call_ok cs"
    "r \<or> length cs < MAX_LOG_LINE_NUM" "''LOG END'' @ nl \<notin> texts cs"
  shows "\<exists>s1 s2 s3. log_init True t0 log_start = Inr (0, s1)
    \<and> log_run r cs (log_set_level level s1) = Inr s2 \<and> log_close t1 s2 = Inr (0, s3)
    \<and> log_file s3 = log_kept (''LOG START'' @ nl) level cs @ ''LOG END'' @ nl"
proof -
  obtain s1 where s1: "log_init True t0 log_start = Inr (0, s1)" "log_holds (''LOG START'' @ nl) level [] (log_set_level level s1)"
    using log_init_holds [OF assms(1), of log_start] by (auto simp: log_start_def LOG_LEVEL_INDISPENSABLE_def)
  obtain s2 where s2: "log_run r cs (log_set_level level s1) = Inr s2" "log_holds (''LOG START'' @ nl) level cs s2"
    using log_run_holds [OF s1(2) assms(4,5)] assms(6) by auto
  note h = s2(2) [unfolded log_holds_def]
  have "cstr (last_log_str s2) \<noteq> ''LOG END'' @ nl"
    using h assms(7) last_text_in [of "''LOG START'' @ nl" level cs] by (auto simp: nl_def)
  then obtain s3 where "log_close t1 s2 = Inr (0, s3)" "log_file s3 = log_file s2 @ ''LOG END'' @ nl"
    using log_close_ok [OF log_ok_open assms(2)] h assms(3) by blast
  with s1(1) s2(1) h show ?thesis by simp
qed

theorem log_file_holds_lines_witness:
  "\<exists>s1 s2 s3. log_init True sample_tm log_start = Inr (0, s1)
    \<and> log_run False [(sample_tm, sample_tm, sample_entry 4), (sample_tm, sample_tm, sample_entry 4),
         (sample_tm, sample_tm, sample_entry 6)] (log_set_level 4 s1) = Inr s2
    \<and> log_close sample_tm s2 = Inr (0, s3)
    \<and> log_file s3 = ''LOG START'' @ nl @ log_line sample_tm (sample_entry 4)
        @ log_line sample_tm (sample_entry 4) @ ''LOG END'' @ nl"
  using log_file_holds_lines [of sample_tm sample_tm 4 "[(sample_tm, sample_tm, sample_entry 4),
      (sample_tm, sample_tm, sample_entry 4), (sample_tm, sample_tm, sample_entry 6)]" False]
  by (simp add: call_ok_def sample_entry_ok MAX_LOG_LINE_NUM_def log_kept_def log_lines_def texts_def
      sample_text_cons)

text \<open>The labels are one off: a line of level \<open>LOG_LEVEL_FATAL\<close> is labelled ERROR, and so on.
  The levels \<open>LOG_LEVEL_DEBUG\<close> and \<open>LOG_LEVEL_INFO\<close> have no label at all: when the configuration
  enables them, \<open>LOG_INFO\<close> reads behind the array of labels.\<close>

theorem log_levels_mislabelled:
  assumes "log_ok s" "tm_ok t" "5 \<le> e_level e" "e_level e \<le> def_log_level s"
    "nulfree (log_prefix e)" "length (log_prefix e) < 511" "Suc (preamble_count s) < MAX_LOG_LINE_NUM"
  shows "LOG_INFO r t t' e s = Inl OutOfBounds
    \<and> map (\<lambda>l. log_label (int l)) [LOG_LEVEL_INDISPENSABLE, LOG_LEVEL_FATAL, LOG_LEVEL_ERROR,
        LOG_LEVEL_WARNING, LOG_LEVEL_DEBUG, LOG_LEVEL_INFO]
      = [Inr ''FATAL'', Inr ''ERROR'', Inr ''WARNING'', Inr ''INFO'', Inl OutOfBounds, Inl OutOfBounds]"
  using log_info_no_label [OF assms(1-6), of r t'] assms(7)
  by (auto simp: log_label_def preamble_logstr_def LOG_LEVEL_INDISPENSABLE_def LOG_LEVEL_FATAL_def
      LOG_LEVEL_ERROR_def LOG_LEVEL_WARNING_def LOG_LEVEL_DEBUG_def LOG_LEVEL_INFO_def)

theorem log_levels_mislabelled_witness:
  "LOG_INFO False sample_tm sample_tm (sample_entry 6) sample_log = Inl OutOfBounds"
  using log_levels_mislabelled [OF sample_log_ok sample_tm_ok _ _ sample_prefix(2), of 6 False sample_tm]
  by (simp add: sample_prefix)
    (simp add: sample_log_def log_start_def MAX_LOG_LINE_NUM_def)

text \<open>\<open>log_close\<close> does not reset \<open>log_file_handle\<close>: every later \<open>LOG_INFO\<close> uses the closed
  stream. \<open>main\<close> closes the log before it stops the workers, which go on logging.\<close>

theorem log_used_after_close:
  assumes "log_ok s" "tm_ok t" "1 \<le> def_log_level s" "cstr (last_log_str s) \<noteq> ''LOG END'' @ nl"
    "tm_ok t'" "0 \<le> e_level e" "e_level e < 5"
  shows "\<exists>s'. log_close t s = Inr (0, s') \<and> log_file s' = log_file s @ ''LOG END'' @ nl
    \<and> LOG_INFO r t' t'' e s' = Inl UseAfterFree"
proof -
  obtain s' where s': "log_close t s = Inr (0, s')" "log_file s' = log_file s @ ''LOG END'' @ nl"
    "log_file_handle s' = Ended" "length (cur_ts_str s') = TIME_STAMP_BUF_LEN"
    using log_close_ok [OF log_ok_open [OF assms(1)] assms(2-4)] by blast
  show ?thesis using s'(1,2) log_info_ended [OF s'(3,4) assms(5,6), of r t''] assms(7) by blast
qed

theorem log_used_after_close_witness:
  "\<exists>s'. log_close sample_tm sample_log = Inr (0, s')
    \<and> LOG_INFO False sample_tm sample_tm (sample_entry 1) s' = Inl UseAfterFree"
  using log_used_after_close [OF sample_log_ok sample_tm_ok _ _ sample_tm_ok, of "sample_entry 1" False sample_tm]
  by (auto simp: sample_log_def log_start_def)

end
