(* ===== verification/StartUp.thy ===== *)
theory StartUp
  imports ConfigCorrect LogCorrect ServerRun PoolRun
begin

text \<open>
  The start-up of the server: \<open>main\<close> of \<open>g_net_update.c\<close> from its first statement to its loop,
  and the statements behind the loop. It is where the configuration, the log, the table and the
  thread pool meet; what the kernel answers is a record, and the time of all log lines is one.
\<close>

section \<open>Data\<close>

definition THREAD_POLL_SIZE :: int where "THREAD_POLL_SIZE = 15"

record start_env =
  se_malloc :: bool
  se_ini :: "string option"
  se_log :: bool
  se_tm :: tm
  se_fork :: int
  se_fork_err :: "int \<times> string"
  se_rlimit :: "int \<times> int"
  se_epoll :: int
  se_mutexes :: "bool \<times> bool \<times> bool"
  se_heap :: "func heap"

text \<open>
  How the start ends: \<open>main\<close> returns, the parent of the fork exits, or the loop is entered with a
  state (whose \<open>io\<close> begins empty; the effects so far are a result of their own) and a pool.
\<close>

datatype main_res =
    Main_returns int
  | Parent_exits
  | Enters_loop CONFIG_INFO server "func pool"

section \<open>Logging from main\<close>

definition main_entry :: "nat \<Rightarrow> nat \<Rightarrow> string \<Rightarrow> log_entry" where
  "main_entry level line msg = \<lparr>e_level = int level, e_file = ''./g_net_update.c'', e_func = ''main'',
     e_line = line, e_text = msg\<rparr>"

definition main_LOG_INFO :: "tm \<Rightarrow> nat \<Rightarrow> nat \<Rightarrow> string \<Rightarrow> log_state \<Rightarrow> (effect list \<times> log_state) result" where
  "main_LOG_INFO t level line msg ls =
     and_then (LOG_INFO False t t (main_entry level line msg) ls)
       (\<lambda>ls. Inr ([main_log level line msg], ls))"

text \<open>The branches that log an error, close the log and return -1.\<close>

definition main_fails :: "tm \<Rightarrow> nat \<Rightarrow> string \<Rightarrow> effect list \<Rightarrow> log_state \<Rightarrow> (main_res \<times> effect list \<times> log_state) result" where
  "main_fails t line msg es ls =
     and_then (main_LOG_INFO t LOG_LEVEL_FATAL line msg ls) (\<lambda>(e, ls).
     and_then (log_close t ls) (\<lambda>(_, ls). Inr (Main_returns (-1), es @ e, ls)))"

section \<open>The child of the fork\<close>

definition main_child ::
    "start_env \<Rightarrow> CONFIG_INFO \<Rightarrow> effect list \<Rightarrow> log_state \<Rightarrow> (main_res \<times> effect list \<times> log_state) result" where
  "main_child e config es ls =
     (let t = se_tm e; (cur, max) = se_rlimit e in
      and_then (main_LOG_INFO t LOG_LEVEL_INFO 594 (''children fork start.'' @ nl) ls) (\<lambda>(e1, ls).
      and_then
        (main_LOG_INFO t LOG_LEVEL_INFO 603
           (''information about rlimit cur:'' @ show_int cur @ '' max:'' @ show_int max @ ''.'' @ nl) ls) (\<lambda>(e2, ls).
      let es = es @ e1 @ [Print (''cur:'' @ show_int cur @ nl), Print (''max:'' @ show_int max @ nl)] @ e2
                 @ [Sleep 1] in
      if 0 \<ge> se_epoll e then main_fails t 622 (''epoll_create error.'' @ nl) es ls
      else
        (case se_mutexes e of
           (m1, m2, m3) \<Rightarrow>
             (case thpool_init THREAD_POLL_SIZE m1 m2 m3 (se_heap e) of
                None \<Rightarrow> main_fails t 632 (''create thread pool error.'' @ nl) es ls
              | Some p \<Rightarrow>
                  and_then (main_LOG_INFO t LOG_LEVEL_INDISPENSABLE 636 (''thpool_init success.'' @ nl) ls)
                    (\<lambda>(e3, ls).
                      Inr (Enters_loop config
                             \<lparr>epoll_connect_client = init_epoll_connect, current_connected_total = 0,
                              exit_accept_flag = False, exit_flag = False, listen_fd = -1,
                              epoll_fd = se_epoll e, thpool = jobqueue p, io = []\<rparr> p,
                           es @ e3, ls)))))))"

section \<open>The start\<close>

text \<open>\<open>main\<close> up to its loop; \<open>args\<close> are the arguments behind the program's name.\<close>

definition main_start :: "string list \<Rightarrow> start_env \<Rightarrow> (main_res \<times> effect list \<times> log_state) result" where
  "main_start args e =
     (case args of
        [arg] \<Rightarrow>
          let port = atoi arg; t = se_tm e in
          and_then (read_config_info (se_malloc e) (se_ini e) config_zero) (\<lambda>(r, config, es).
          if r \<noteq> 0 then
            Inr (Main_returns (-1),
                 es @ [Print (''[./g_net_update.c main 562] read_config_info fail.'' @ nl)], log_start)
          else
            and_then (print_config_info config) (\<lambda>ps.
            and_then (strcpy_at 0 128 (''log_'' @ show_int port @ ''.txt'' @ [NUL]) (replicate 128 NUL)) (\<lambda>name.
            and_then (set_log_file_name name log_start) (\<lambda>ls.
            and_then (log_init (se_log e) t ls) (\<lambda>(r, ls).
            if r \<noteq> 0 then
              Inr (Main_returns (-1),
                   es @ ps @ [Print (''[./log.c log_init 45] Can'' @ [CHR 0x27] @ ''t create log file.'' @ nl),
                              Print (''init log error'' @ nl)], ls)
            else
              let ls = log_set_level (sint (log_level config)) ls; es = es @ ps in
              if se_fork e < 0 then
                main_fails t 584 (''fork failed! errorcode = '' @ show_int (fst (se_fork_err e)) @ ''[''
                   @ snd (se_fork_err e) @ ''].'' @ nl) es ls
              else if se_fork e \<noteq> 0 then
                and_then (main_LOG_INFO t LOG_LEVEL_INFO 590 (''parent fork over.'' @ nl) ls)
                  (\<lambda>(e1, ls). Inr (Parent_exits, es @ e1, ls))
              else main_child e config es ls)))))
      | _ \<Rightarrow> Inr (Main_returns 0, [Print (''please input the port'' @ nl)], log_start))"

text \<open>
  Behind the loop: the log is closed, then the listening socket, and the accept thread is told to
  end; \<open>thpool_destroy\<close> and the last line of output follow.
\<close>

definition main_end :: "tm \<Rightarrow> server \<Rightarrow> log_state \<Rightarrow> (server \<times> log_state) result" where
  "main_end t s ls =
     and_then (log_close t ls) (\<lambda>(_, ls).
       let s = (if listen_fd s \<noteq> -1 then emit (closesocket (listen_fd s)) (s\<lparr>listen_fd := -1\<rparr>) else s) in
       Inr (s\<lparr>exit_accept_flag := True\<rparr>, ls))"

section \<open>Correctness of the start\<close>

lemma main_entry_simps [simp]:
  "e_level (main_entry l n m) = int l" "e_text (main_entry l n m) = m"
  by (simp_all add: main_entry_def)

lemma main_prefix:
  assumes "100 \<le> n" "n < 1000"
  shows "length (log_prefix (main_entry l n m)) = 27" "nulfree (log_prefix (main_entry l n m))"
proof -
  have "\<not> n < 10" using assms(1) by simp
  moreover have "\<not> n div 10 < 10" using div_le_mono [of 100 n 10] assms(1) by simp
  moreover have "n div 10 div 10 < 10" using assms(2) by (intro less_mult_imp_div_less) simp
  ultimately have "length (show_nat n) = 3"
    by (simp add: show_nat.simps [of n] show_nat.simps [of "n div 10"] show_nat.simps [of "n div 10 div 10"])
  then show "length (log_prefix (main_entry l n m)) = 27" "nulfree (log_prefix (main_entry l n m))"
    by (simp_all add: log_prefix_def main_entry_def NUL_def)
qed

text \<open>A message of the start, far from the rotation.\<close>

lemma main_log_holds:
  assumes "log_holds start level cs ls" "tm_ok t" "level < 5" "length cs < 1000"
    "100 \<le> line" "line < 1000" "text_ok msg"
  shows "\<exists>ls'. main_LOG_INFO t l line msg ls = Inr ([main_log l line msg], ls')
    \<and> log_holds start level (cs @ [(t, t, main_entry l line msg)]) ls'"
proof -
  have "entry_ok (main_entry l line msg)" "False \<or> Suc (length cs) < MAX_LOG_LINE_NUM"
    using assms(4-7) by (simp_all add: entry_ok_def main_prefix MAX_LOG_LINE_NUM_def)
  from log_call_holds [OF assms(1,3,2,2) this] show ?thesis by (auto simp: main_LOG_INFO_def)
qed

lemma main_log_unlabelled:
  assumes "log_holds start level cs ls" "tm_ok t" "5 \<le> int l" "int l \<le> level" "length cs < 1000" "100 \<le> line" "line < 1000"
  shows "main_LOG_INFO t l line msg ls = Inl OutOfBounds"
proof -
  have "LOG_INFO False t t (main_entry l line msg) ls = Inl OutOfBounds"
    using assms main_prefix [OF assms(6,7)]
    by (intro log_info_no_label) (simp_all add: log_holds_def MAX_LOG_LINE_NUM_def)
  then show ?thesis by (simp add: main_LOG_INFO_def)
qed

lemma strcpy_whole:
  "nulfree n \<Longrightarrow> length n < 128 \<Longrightarrow>
     \<exists>r. strcpy_at 0 128 (n @ NUL # x) (replicate 128 NUL) = Inr (n @ NUL # r)"
  by (simp add: strcpy_at_def write_at_def)

lemma port_name:
  assumes "length (show_int port) \<le> 100"
  shows "\<exists>name. strcpy_at 0 128 (''log_'' @ show_int port @ ''.txt'' @ [NUL]) (replicate 128 NUL) = Inr name
    \<and> (\<exists>name'. set_log_file_name name log_start = Inr (log_start\<lparr>log_file_name := name'\<rparr>))"
proof -
  have n: "nulfree (''log_'' @ show_int port @ ''.txt'')" "length (''log_'' @ show_int port @ ''.txt'') < 128"
    using assms by (simp_all add: NUL_def)
  obtain r where r: "strcpy_at 0 128 ((''log_'' @ show_int port @ ''.txt'') @ NUL # []) (replicate 128 NUL)
      = Inr ((''log_'' @ show_int port @ ''.txt'') @ NUL # r)"
    using strcpy_whole [OF n] by blast
  obtain r' where "strcpy_at 0 128 ((''log_'' @ show_int port @ ''.txt'') @ NUL # r) (replicate 128 NUL)
      = Inr ((''log_'' @ show_int port @ ''.txt'') @ NUL # r')"
    using strcpy_whole [OF n] by blast
  then have "\<exists>name'. set_log_file_name ((''log_'' @ show_int port @ ''.txt'') @ NUL # r) log_start
      = Inr (log_start\<lparr>log_file_name := name'\<rparr>)"
    by (simp add: set_log_file_name_def log_start_def)
  with r show ?thesis by auto
qed

lemma config_of_ok: "config_ok (config_of v)"
  by (simp add: config_ok_def config_of_def padded_def min_def)

lemma print_config_ok: "config_ok c \<Longrightarrow> \<exists>ps. print_config_info c = Inr ps"
  by (simp add: config_ok_def print_config_info_def str_at_def)

text \<open>The start up to the fork, as one equation.\<close>

lemma main_start_opened:
  assumes "read_config_info (se_malloc e) (se_ini e) config_zero = Inr (0, config, [])" "config_ok config"
    and "length (show_int (atoi arg)) \<le> 100" "se_log e" "tm_ok (se_tm e)" "se_fork e = 0"
  shows "\<exists>es ls. main_start [arg] e = main_child e config es ls
    \<and> log_holds (''LOG START'' @ nl) (sint (log_level config)) [] ls"
proof -
  obtain ps where ps: "print_config_info config = Inr ps" using print_config_ok [OF assms(2)] by blast
  obtain name name' where n: "strcpy_at 0 128 (''log_'' @ show_int (atoi arg) @ ''.txt'' @ [NUL]) (replicate 128 NUL) = Inr name"
    "set_log_file_name name log_start = Inr (log_start\<lparr>log_file_name := name'\<rparr>)"
    using port_name [OF assms(3)] by blast
  obtain ls where ls: "log_init True (se_tm e) (log_start\<lparr>log_file_name := name'\<rparr>) = Inr (0, ls)"
    "log_holds (''LOG START'' @ nl) (sint (log_level config)) [] (log_set_level (sint (log_level config)) ls)"
    using log_init_holds [OF assms(5), of "log_start\<lparr>log_file_name := name'\<rparr>"]
    by (auto simp: log_start_def LOG_LEVEL_INDISPENSABLE_def)
  have "main_start [arg] e = main_child e config ps (log_set_level (sint (log_level config)) ls)"
    unfolding main_start_def list.case Let_def assms(1) and_then_simps prod.case ps n
    using ls(1) assms(4,6) by simp
  with ls(2) show ?thesis by blast
qed

text \<open>The log calls of the child, in order.\<close>

definition rlimit_msg :: "start_env \<Rightarrow> string" where
  "rlimit_msg e = ''information about rlimit cur:'' @ show_int (fst (se_rlimit e))
     @ '' max:'' @ show_int (snd (se_rlimit e)) @ ''.'' @ nl"

definition start_calls :: "start_env \<Rightarrow> (tm \<times> tm \<times> log_entry) list" where
  "start_calls e = map (\<lambda>(l, line, m). (se_tm e, se_tm e, main_entry l line m))
     [(LOG_LEVEL_INFO, 594, ''children fork start.'' @ nl), (LOG_LEVEL_INFO, 603, rlimit_msg e),
      (LOG_LEVEL_INDISPENSABLE, 636, ''thpool_init success.'' @ nl)]"

lemma start_texts: "text_ok (''children fork start.'' @ nl)" "text_ok (rlimit_msg e)" "text_ok (''thpool_init success.'' @ nl)"
  by (simp_all add: text_ok_def rlimit_msg_def nl_def NUL_def)

lemma start_calls_lines:
  assumes "1 \<le> level" "level < 5"
  shows "log_kept start level (start_calls e)
    = start @ log_line (se_tm e) (main_entry LOG_LEVEL_INDISPENSABLE 636 (''thpool_init success.'' @ nl))"
  using assms
  by (simp add: log_kept_def log_lines_def start_calls_def MAX_LOG_LINE_NUM_def LOG_LEVEL_INFO_def LOG_LEVEL_INDISPENSABLE_def)

lemma main_child_runs:
  assumes "log_holds start level [] ls" "1 \<le> level" "level < 5" "tm_ok (se_tm e)"
    and "0 < se_epoll e" "se_mutexes e = (True, True, True)"
  shows "\<exists>es' ls' p. main_child e config es ls
        = Inr (Enters_loop config (start_state (se_epoll e) (se_heap e)) p, es', ls')
    \<and> thpool_init THREAD_POLL_SIZE True True True (se_heap e) = Some p
    \<and> jobqueue p = thpool (start_state (se_epoll e) (se_heap e)) \<and> log_holds start level (start_calls e) ls'"
proof -
  obtain cur max where rl: "se_rlimit e = (cur, max)" by (metis surj_pair)
  note call = main_log_holds [OF _ assms(4,3)]
  obtain ls1 where 1: "main_LOG_INFO (se_tm e) LOG_LEVEL_INFO 594 (''children fork start.'' @ nl) ls
      = Inr ([main_log LOG_LEVEL_INFO 594 (''children fork start.'' @ nl)], ls1)" "log_holds start level (take 1 (start_calls e)) ls1"
    using call [OF assms(1) _ _ _ start_texts(1), of 594 LOG_LEVEL_INFO] by (auto simp: start_calls_def)
  let ?m = "rlimit_msg e"
  obtain ls2 where 2: "main_LOG_INFO (se_tm e) LOG_LEVEL_INFO 603 ?m ls1
      = Inr ([main_log LOG_LEVEL_INFO 603 ?m], ls2)" "log_holds start level (take 2 (start_calls e)) ls2"
    using call [OF 1(2) _ _ _ start_texts(2), of 603 LOG_LEVEL_INFO] by (auto simp: start_calls_def)
  obtain ls3 where 3: "main_LOG_INFO (se_tm e) LOG_LEVEL_INDISPENSABLE 636 (''thpool_init success.'' @ nl) ls2
      = Inr ([main_log LOG_LEVEL_INDISPENSABLE 636 (''thpool_init success.'' @ nl)], ls3)"
    "log_holds start level (start_calls e) ls3"
    using call [OF 2(2) _ _ _ start_texts(3), of 636 LOG_LEVEL_INDISPENSABLE] by (auto simp: start_calls_def)
  obtain p where p: "thpool_init THREAD_POLL_SIZE True True True (se_heap e) = Some p"
    "jobqueue p = thpool (start_state (se_epoll e) (se_heap e))"
    by (simp add: thpool_init_def thpool_jobqueue_init_def start_state_def Let_def)
  have "\<not> 0 \<ge> se_epoll e" using assms(5) by simp
  moreover have m: "?m = ''information about rlimit cur:'' @ show_int cur @ '' max:'' @ show_int max @ ''.'' @ nl"
    by (simp add: rlimit_msg_def rl)
  ultimately show ?thesis
    unfolding main_child_def Let_def rl prod.case 1(1) and_then_simps m [symmetric] 2(1) assms(6) p(1) option.case 3(1)
    using 3(2) p(2) by (simp add: start_state_def)
qed

section \<open>From the files to the loop\<close>

text \<open>The conditions of a start that succeeds, apart from the log level.\<close>

definition start_ok :: "string list \<Rightarrow> (config_key \<Rightarrow> string) \<Rightarrow> string \<Rightarrow> start_env \<Rightarrow> bool" where
  "start_ok lines v arg e \<longleftrightarrow> plain_lines lines \<and> nulfree (file_of lines)
     \<and> length (file_of lines) < INI_FILE_BUF_SIZE \<and> (\<forall>k. line_value lines k = Some (v k))
     \<and> se_malloc e \<and> se_ini e = Some (file_of lines) \<and> se_log e \<and> tm_ok (se_tm e) \<and> se_fork e = 0
     \<and> 0 < se_epoll e \<and> se_mutexes e = (True, True, True) \<and> length (show_int (atoi arg)) \<le> 100"

definition start_level :: "(config_key \<Rightarrow> string) \<Rightarrow> int" where
  "start_level v = sint (word_of_int (atoi (v CON_LOG_LEVEL)) :: 8 word)"

lemma start_opened:
  assumes "start_ok lines v arg e"
  shows "\<exists>es ls. main_start [arg] e = main_child e (config_of v) es ls
    \<and> log_holds (''LOG START'' @ nl) (start_level v) [] ls"
proof -
  note ok = assms [unfolded start_ok_def]
  have "lines \<noteq> []" using ok by (auto simp: line_value_def dest: spec [of _ CON_VERSION])
  then have "file_of lines \<noteq> []" by (auto simp: file_of_def nl_def)
  then have "read_config_info (se_malloc e) (se_ini e) config_zero = Inr (0, config_of v, [])"
    using read_values [of lines "[]" "{}" v config_zero] ok by simp
  then show ?thesis
    using main_start_opened [OF _ config_of_ok, of e v arg] ok by (auto simp: config_of_def start_level_def)
qed

lemma start_enters:
  assumes "start_ok lines v arg e" "1 \<le> start_level v" "start_level v < 5"
  shows "\<exists>es ls p. main_start [arg] e
       = Inr (Enters_loop (config_of v) (start_state (se_epoll e) (se_heap e)) p, es, ls)
     \<and> thpool_init THREAD_POLL_SIZE True True True (se_heap e) = Some p
     \<and> jobqueue p = thpool (start_state (se_epoll e) (se_heap e))
     \<and> log_holds (''LOG START'' @ nl) (start_level v) (start_calls e) ls"
proof -
  obtain es ls where m: "main_start [arg] e = main_child e (config_of v) es ls"
    "log_holds (''LOG START'' @ nl) (start_level v) [] ls"
    using start_opened [OF assms(1)] by blast
  have e: "tm_ok (se_tm e)" "0 < se_epoll e" "se_mutexes e = (True, True, True)"
    using assms(1) by (simp_all add: start_ok_def)
  show ?thesis using main_child_runs [OF m(2) assms(2,3) e, of "config_of v" es] m(1) by auto
qed

lemma start_fails:
  assumes "start_ok lines v arg e" "6 \<le> start_level v"
  shows "main_start [arg] e = Inl OutOfBounds"
proof -
  obtain es ls where m: "main_start [arg] e = main_child e (config_of v) es ls"
    "log_holds (''LOG START'' @ nl) (start_level v) [] ls"
    using start_opened [OF assms(1)] by blast
  have "main_LOG_INFO (se_tm e) LOG_LEVEL_INFO 594 (''children fork start.'' @ nl) ls = Inl OutOfBounds"
    using assms by (intro main_log_unlabelled [OF m(2)]) (simp_all add: LOG_LEVEL_INFO_def start_ok_def)
  then show ?thesis using m(1) by (simp add: main_child_def Let_def split: prod.split)
qed

section \<open>Properties\<close>

definition sample_env :: "string list \<Rightarrow> start_env" where
  "sample_env lines = \<lparr>se_malloc = True, se_ini = Some (file_of lines), se_log = True, se_tm = sample_tm,
     se_fork = 0, se_fork_err = (0, []), se_rlimit = (10240, 10240), se_epoll = 4,
     se_mutexes = (True, True, True), se_heap = (\<lambda>_. None)\<rparr>"

text \<open>C40. With a readable configuration and a kernel that grants what it is asked for, \<open>main\<close> enters
  its loop with the configured values, the empty table and queue from which the server's reachable
  states are counted, and a sound pool of 15 waiting workers; the log then holds its start line and
  the line on the pool. This needs a log level from 1 to 4: with level 6 or more the first message
  of level \<open>LOG_LEVEL_INFO\<close> reads behind the array of labels.\<close>

theorem server_starts:
  assumes "plain_lines lines" "nulfree (file_of lines)" "length (file_of lines) < INI_FILE_BUF_SIZE"
    and "\<And>k. line_value lines k = Some (v k)" "level = sint (word_of_int (atoi (v CON_LOG_LEVEL)) :: 8 word)"
    and "se_malloc e" "se_ini e = Some (file_of lines)" "se_log e" "tm_ok (se_tm e)" "se_fork e = 0"
    and "0 < se_epoll e" "se_mutexes e = (True, True, True)" "length (show_int (atoi arg)) \<le> 100"
  shows "if 6 \<le> level then main_start [arg] e = Inl OutOfBounds
    else 1 \<le> level \<and> level < 5 \<longrightarrow>
      (\<exists>es ls p. main_start [arg] e
           = Inr (Enters_loop (config_of v) (start_state (se_epoll e) (se_heap e)) p, es, ls)
         \<and> reachable client_ok (start_state (se_epoll e) (se_heap e))
         \<and> pool_inv p \<and> workers p = replicate 15 Test \<and> waiting (jobqueue p) = []
         \<and> log_file ls = ''LOG START'' @ nl
             @ log_line (se_tm e) (main_entry LOG_LEVEL_INDISPENSABLE 636 (''thpool_init success.'' @ nl)))"
proof -
  have ok: "start_ok lines v arg e" "level = start_level v"
    using assms by (simp_all add: start_ok_def start_level_def)
  show ?thesis
  proof (cases "6 \<le> level")
    case True
    then show ?thesis using start_fails [OF ok(1)] ok(2) by simp
  next
    case False
    have "\<exists>es ls p. main_start [arg] e
           = Inr (Enters_loop (config_of v) (start_state (se_epoll e) (se_heap e)) p, es, ls)
         \<and> reachable client_ok (start_state (se_epoll e) (se_heap e))
         \<and> pool_inv p \<and> workers p = replicate 15 Test \<and> waiting (jobqueue p) = []
         \<and> log_file ls = ''LOG START'' @ nl
             @ log_line (se_tm e) (main_entry LOG_LEVEL_INDISPENSABLE 636 (''thpool_init success.'' @ nl))"
      if l: "1 \<le> level" "level < 5"
    proof -
      obtain es ls p where c: "main_start [arg] e
          = Inr (Enters_loop (config_of v) (start_state (se_epoll e) (se_heap e)) p, es, ls)"
        "thpool_init THREAD_POLL_SIZE True True True (se_heap e) = Some p"
        "log_file ls = ''LOG START'' @ nl
           @ log_line (se_tm e) (main_entry LOG_LEVEL_INDISPENSABLE 636 (''thpool_init success.'' @ nl))"
        using start_enters [OF ok(1)] l ok(2) start_calls_lines [OF l] by (auto simp: log_holds_def)
      show ?thesis using c pool_init_inv [OF c(2)] reachable.start by (auto simp: THREAD_POLL_SIZE_def)
    qed
    with False show ?thesis by simp
  qed
qed

theorem server_starts_witness:
  "\<exists>es ls p. main_start [''8812''] (sample_env shipped_lines)
     = Inr (Enters_loop (config_of shipped_value) (start_state 4 (\<lambda>_. None)) p, es, ls)
   \<and> workers p = replicate 15 Test"
proof -
  have "atoi ''4'' = 4" "length (show_int (atoi ''8812'')) \<le> 100"
    by (simp_all add: atoi_def is_space_def is_digit_def dec_val_def show_int_def show_nat.simps [of 8812]
        show_nat.simps [of 881] show_nat.simps [of 88] show_nat.simps [of 8])
  then show ?thesis
    using server_starts [OF shipped_text(1,2) _ shipped_values HOL.refl, of "sample_env shipped_lines" "''8812''"]
      shipped_text(3)
    by (auto simp: sample_env_def INI_FILE_BUF_SIZE_def)
qed

end
