(* ===== verification/LiveServer.thy ===== *)
theory LiveServer
  imports SystemRun StartUp PoolShutdown
begin

text \<open>
  The server with all its threads interleaved: the moves of the workers and of \<open>main\<close> in
  \<open>thpool_add_work\<close> and \<open>thpool_destroy\<close> are those of \<open>ThreadPool\<close>, between them run the
  accept thread, the rest of \<open>main\<close>'s loop and the signal handler. A job that a worker has taken
  is served later, while other threads go on.
\<close>

section \<open>An event up to the submission of its job\<close>

text \<open>
  Lines 693--712: the message that is to be submitted, with the index of its connection, or
  \<open>None\<close> when the branch ends without one.
\<close>

definition receive_message ::
    "ep_event \<Rightarrow> int \<Rightarrow> server \<Rightarrow> ((int \<times> string) option \<times> server) result" where
  "receive_message e k s =
     and_then (recv_buffer_from_fd (ev_recv e) (replicate BUFFER_SIZE NUL)) (\<lambda>(r, buf, len).
       if r = 0 then
         let n = (case len of None \<Rightarrow> 0 | Some n \<Rightarrow> n) in
         and_then (dumpInfo buf n) (\<lambda>es.
           Inr (Some (k, buf),
                emit (main_log LOG_LEVEL_INDISPENSABLE 696
                       (''recv_length = '' @ show_int (int n) @ '', current fd = '' @ show_int (ev_fd e)
                        @ '', current job queue job number = ''
                        @ show_int (int (get_jobqueue_number (Some (thpool s)))) @ ''.'' @ nl)
                     # es) s))
       else
         and_then (drop_connection k (ev_fd e)
           (emit [main_log LOG_LEVEL_INDISPENSABLE 705
                    (''Epoll event['' @ show_int k @ ''] not read data, and the socket fd = ''
                     @ show_int (ev_fd e) @ ''.'' @ nl)]
              (connect_total_count_sub 1 s))) (\<lambda>s. Inr (None, s)))"

definition start_event :: "nat \<Rightarrow> ep_event \<Rightarrow> server \<Rightarrow> ((int \<times> string) option \<times> server) result" where
  "start_event index e s =
     (let fd = ev_fd e in
      if ev_in e then
        if fd < 0 then
          Inr (None, emit [main_log LOG_LEVEL_ERROR 673
                             (''Event['' @ show_int (int index) @ ''] read invalid handle.'' @ nl)]
                       (connect_total_count_sub 1 s))
        else
          let k = get_matched_event_index_by_fd fd (epoll_connect_client s);
              s = emit [main_log LOG_LEVEL_ERROR 677
                          (''Epoll get Event['' @ show_int k @ ''] fd = '' @ show_int fd @ ''.'' @ nl)] s in
          if k < 0 then
            and_then (drop_connection k fd
              (emit [main_log LOG_LEVEL_ERROR 683 (''not find matched fd = '' @ show_int fd @ ''.'' @ nl)]
                 (connect_total_count_sub 1 s))) (\<lambda>s. Inr (None, s))
          else receive_message e k s
      else
        let s = connect_total_count_sub 1
                  (emit [main_log LOG_LEVEL_ERROR 720
                           (''Unknown error! event.data.fd = '' @ show_int fd @ ''.'' @ nl)] s) in
        if fd < 0 then Inr (None, emit [main_log LOG_LEVEL_ERROR 724 (''EPOLLOUT.'' @ nl)] s)
        else and_then (drop_connection (get_matched_event_index_by_fd fd (epoll_connect_client s)) fd s)
               (\<lambda>s. Inr (None, s)))"

text \<open>Together with the whole \<open>thpool_add_work\<close> this is \<open>handle_event\<close>.\<close>

lemma handle_event_start:
  "handle_event index e s =
     and_then (start_event index e s) (\<lambda>(m, s). case m of
         None \<Rightarrow> Inr s
       | Some (k, buf) \<Rightarrow>
           and_then (thpool_add_work (ev_now e) (ev_malloc e) Respons_stb_info k (ev_fd e) buf s) (\<lambda>(_, s). Inr s))"
  unfolding handle_event_def start_event_def read_event_def receive_message_def
  by (simp add: Let_def and_then_def split: sum.split prod.split)

section \<open>State\<close>

text \<open>Where the accept thread is: before its loop, at its head, in \<open>accept\<close>, or at its end.\<close>

datatype accept_pc = Starting | Accepting_loop | In_accept | Returned

text \<open>
  \<open>lv_time\<close> is \<open>main\<close>'s \<open>eventTime\<close>, \<open>lv_batch\<close> its \<open>index\<close> and the events of the last
  \<open>epoll_wait\<close> that are still to be handled, \<open>lv_delete\<close> the time and the \<open>curjob\<close> that
  \<open>delete_timeout_job\<close> has read while it waits for the mutex. The queue is the pool's; \<open>server_of\<close> is the server's
  state with that queue. \<open>lv_received\<close> records the messages that \<open>main\<close> has made jobs of.
\<close>

record live =
  lv_time :: int
  lv_batch :: "nat \<times> ep_event list"
  lv_delete :: "(int \<times> nat option) option"
  lv_accept :: accept_pc
  lv_server :: server
  lv_pool :: "func pool"
  lv_log :: log_state
  lv_received :: "func payload list"

definition server_of :: "live \<Rightarrow> server" where
  "server_of st = (lv_server st)\<lparr>thpool := jobqueue (lv_pool st)\<rparr>"

definition put_server :: "server \<Rightarrow> live \<Rightarrow> live" where
  "put_server s st = st\<lparr>lv_server := s, lv_pool := (lv_pool st)\<lparr>jobqueue := thpool s\<rparr>\<rparr>"

text \<open>The state in which \<open>main\<close> enters its loop, at the time \<open>now\<close>.\<close>

definition live_start :: "int \<Rightarrow> server \<Rightarrow> func pool \<Rightarrow> log_state \<Rightarrow> live" where
  "live_start now s p ls =
     \<lparr>lv_time = now, lv_batch = (0, []), lv_delete = None, lv_accept = Starting, lv_server = s, lv_pool = p, lv_log = ls,
      lv_received = []\<rparr>"

section \<open>The threads\<close>

text \<open>A turn is \<open>None\<close> while its thread is blocked or has ended.\<close>

definition on_pool :: "func pool result option \<Rightarrow> live \<Rightarrow> live result option" where
  "on_pool r st = map_option (\<lambda>r. and_then r (\<lambda>p. Inr (st\<lparr>lv_pool := p\<rparr>))) r"

text \<open>
  A worker: the moves of \<open>worker_move\<close>, where the move \<open>Run\<close> calls \<open>respons_stb_info\<close> on the
  server before it frees the job. \<open>ws\<close> and \<open>mem\<close> are the answers of the kernel and of \<open>malloc\<close>.
\<close>

definition worker_turn :: "nat \<Rightarrow> write_res list \<Rightarrow> (nat \<Rightarrow> string option) \<Rightarrow> live \<Rightarrow> live result option" where
  "worker_turn i ws mem st =
     (let p = lv_pool st in
      if length (workers p) \<le> i then None
      else case workers p ! i of
             Run job_p \<Rightarrow>
               Some (and_then (deref (job_heap (jobqueue p)) job_p) (\<lambda>(_, j).
                     and_then (respons_stb_info ws mem (job_arg j) (server_of st)) (\<lambda>s.
                       let st = put_server s st in
                       case on_pool (worker_move i (lv_pool st)) st of None \<Rightarrow> Inr st | Some r \<Rightarrow> r)))
           | _ \<Rightarrow> on_pool (worker_move i p) st)"

text \<open>The accept thread: the flag is read before \<open>accept\<close>, which may return long after it has been set.\<close>

definition accept_turn_of :: "int \<Rightarrow> listen_env \<Rightarrow> accept_env \<Rightarrow> live \<Rightarrow> live result option" where
  "accept_turn_of port le e st =
     (let s = server_of st in
      case lv_accept st of
        Starting \<Rightarrow>
          (case accept_setup port le s of
             (ok, s) \<Rightarrow> Some (Inr (put_server s (st\<lparr>lv_accept := if ok then Accepting_loop else Returned\<rparr>))))
      | Accepting_loop \<Rightarrow>
          if exit_accept_flag s then Some (Inr (put_server (close_listen s) (st\<lparr>lv_accept := Returned\<rparr>)))
          else if current_connected_total s < int MAX_EVENTS then Some (Inr (st\<lparr>lv_accept := In_accept\<rparr>))
          else Some (Inr (put_server (accept_full s) st))
      | In_accept \<Rightarrow>
          Some (and_then (accept_returned e s) (\<lambda>s. Inr (put_server s (st\<lparr>lv_accept := Accepting_loop\<rparr>))))
      | Returned \<Rightarrow> None)"

text \<open>
  \<open>main\<close> at the head of its loop, between two batches: the expiry of connections when it is due, up to
  the mutex of \<open>delete_timeout_job\<close>, and the events that the \<open>epoll_wait\<close> behind it reports.
\<close>

definition wait_turn :: "loop_env \<Rightarrow> live \<Rightarrow> live result option" where
  "wait_turn e st =
     (let s = server_of st in
      if main (lv_pool st) \<noteq> Idle \<or> snd (lv_batch st) \<noteq> [] \<or> lv_delete st \<noteq> None \<or> exit_flag s then None
      else if recycle_due (lo_now e) (lv_time st) then
        Some (and_then
          (recycle_slots (lo_now e) (lo_del e) [0..<MAX_EVENTS] (emit [Print (''60s detect one time =====>'' @ nl)] s))
          (\<lambda>s. Inr (put_server s (st\<lparr>lv_time := lo_now e, lv_batch := (0, lo_events e),
                                       lv_delete := Some (lo_tm e, q_tail (thpool s))\<rparr>))))
      else Some (Inr (st\<lparr>lv_batch := (0, lo_events e)\<rparr>)))"

text \<open>The rest of the recycling, inside the mutex: \<open>curjob\<close> may have been taken by a worker meanwhile.\<close>

definition delete_turn :: "int \<Rightarrow> nat option \<Rightarrow> live \<Rightarrow> live result option" where
  "delete_turn tm curjob st =
     (if pool_mutex (lv_pool st) \<noteq> None then None
      else Some (and_then (timeout_loop tm SERVER_TIMEOUT curjob 0 (jobqueue (lv_pool st))) (\<lambda>(n, q).
        Inr (put_server
          (emit [Log LOG_LEVEL_INDISPENSABLE ''recycle_timeout_confd'' 531
                   (''pool queque delete job number = '' @ show_int (int n) @ ''.'' @ nl)]
             (connect_total_count_sub (int n) ((server_of st)\<lparr>thpool := q\<rparr>)))
          (st\<lparr>lv_delete := None\<rparr>)))))"

text \<open>\<open>thpool_add_work\<close> up to the mutex.\<close>

definition start_work :: "ep_event \<Rightarrow> int \<Rightarrow> string \<Rightarrow> live \<Rightarrow> live result option" where
  "start_work e k buf st =
     (let s = server_of st;
          st = put_server (s\<lparr>epoll_connect_client := snd (update_time_by_index k (ev_now e) (epoll_connect_client s))\<rparr>) st in
      on_pool (main_move (Submit_work (ev_malloc e) Respons_stb_info (ev_now e) buf (ev_fd e)) (lv_pool st))
        (st\<lparr>lv_received := lv_received st
              @ (if ev_malloc e = None then []
                 else [payload_of (new_job Respons_stb_info (ev_now e) buf (ev_fd e))])\<rparr>))"

text \<open>
  \<open>main\<close> in a batch: the deletion that is due, then the next event up to the mutex, and the moves of \<open>thpool_add_work\<close>. Between
  two batches with \<open>exit_flag\<close> set it leaves the loop (\<open>main_end\<close>) and calls \<open>thpool_destroy\<close>.
\<close>

definition main_turn :: "tm \<Rightarrow> live \<Rightarrow> live result option" where
  "main_turn t st =
     (let p = lv_pool st; s = server_of st in
      if main p \<noteq> Idle then on_pool (main_move Destroy p) st
      else case lv_delete st of
        Some (tm, curjob) \<Rightarrow> delete_turn tm curjob st
      | None \<Rightarrow>
          (case lv_batch st of
             (index, e # es) \<Rightarrow>
               Some (and_then (start_event index e s) (\<lambda>(m, s).
                 let st = put_server s (st\<lparr>lv_batch := (Suc index, es)\<rparr>) in
                 case m of
                   None \<Rightarrow> Inr st
                 | Some (k, buf) \<Rightarrow> (case start_work e k buf st of None \<Rightarrow> Inr st | Some r \<Rightarrow> r)))
           | (index, []) \<Rightarrow>
               if exit_flag s then
                 Some (and_then (main_end t s (lv_log st)) (\<lambda>(s, ls).
                   let st = put_server s (st\<lparr>lv_log := ls\<rparr>) in
                   case on_pool (main_move Destroy (lv_pool st)) st of None \<Rightarrow> Inr st | Some r \<Rightarrow> r))
               else None))"

section \<open>The program\<close>

datatype live_choice =
    By_acceptor int listen_env accept_env
  | By_wait loop_env
  | By_main_thread tm
  | By_pool_worker nat "write_res list" "nat \<Rightarrow> string option"
  | By_signal int

definition live_turn :: "live_choice \<Rightarrow> live \<Rightarrow> live result option" where
  "live_turn c st =
     (case c of
        By_acceptor port le e \<Rightarrow> accept_turn_of port le e st
      | By_wait e \<Rightarrow> wait_turn e st
      | By_main_thread t \<Rightarrow> main_turn t st
      | By_pool_worker i ws mem \<Rightarrow> worker_turn i ws mem st
      | By_signal sig \<Rightarrow> Some (Inr (put_server (signal_handler_reboot sig (server_of st)) st)))"

text \<open>A schedule; the turn of a blocked thread is skipped.\<close>

definition live_step :: "live_choice \<Rightarrow> live \<Rightarrow> live result" where
  "live_step c st = (case live_turn c st of None \<Rightarrow> Inr st | Some r \<Rightarrow> r)"

definition run_live :: "live_choice list \<Rightarrow> live \<Rightarrow> live result" where
  "run_live = run_steps live_step"

end
