(* ===== verification/PoolParts.thy ===== *)
theory PoolParts
  imports PoolShutdown
begin

text \<open>
  Where the jobs of the pool are: being added by \<open>main\<close>, waiting, in a worker's hands, or
  called; and what every move does to these four.
\<close>

section \<open>The parts\<close>

definition main_hand :: "'f pool \<Rightarrow> 'f payload multiset" where
  "main_hand p =
     (case main_holds (main p) of
        None \<Rightarrow> {#}
      | Some n \<Rightarrow> (case contents (job_heap (jobqueue p)) n of None \<Rightarrow> {#} | Some x \<Rightarrow> {#x#}))"

definition hands :: "'f pool \<Rightarrow> 'f payload multiset" where
  "hands p = sum_list (map (hand (job_heap (jobqueue p))) (workers p))"

lemma account_parts: "account p = mset (calls p) + hands p + mset (waiting (jobqueue p))"
  by (simp add: account_def hands_def)

lemma main_hand_free: "main_holds (main p) = None \<Longrightarrow> main_hand p = {#}"
  by (simp add: main_hand_def)

lemma main_hand_cong:
  assumes "main_holds (main p') = main_holds (main p)"
    and "\<And>n. main_holds (main p) = Some n \<Longrightarrow> contents (job_heap (jobqueue p')) n = contents (job_heap (jobqueue p)) n"
  shows "main_hand p' = main_hand p"
  using assms by (auto simp: main_hand_def split: option.split)

lemma hands_cong:
  assumes "workers p' = workers p"
    and "\<And>i a. i < length (workers p) \<Longrightarrow> holds (workers p ! i) = Some (Some a) \<Longrightarrow>
           contents (job_heap (jobqueue p')) a = contents (job_heap (jobqueue p)) a"
  shows "hands p' = hands p"
proof -
  have "hand (job_heap (jobqueue p')) w = hand (job_heap (jobqueue p)) w" if w: "w \<in> set (workers p)" for w
  proof -
    obtain i where "i < length (workers p)" "w = workers p ! i" using w by (metis in_set_conv_nth)
    then show ?thesis using assms(2) [of i] by (auto simp: hand_def split: option.split)
  qed
  then have "map (hand (job_heap (jobqueue p'))) (workers p) = map (hand (job_heap (jobqueue p))) (workers p)"
    by simp
  then show ?thesis unfolding hands_def assms(1) by (rule arg_cong)
qed

text \<open>A held job is allocated.\<close>

lemma held_alloc:
  "owner_inv p \<Longrightarrow> i < length (workers p) \<Longrightarrow> holds (workers p ! i) = Some (Some a) \<Longrightarrow>
     job_heap (jobqueue p) a \<noteq> None"
  using owner_invD by fastforce

section \<open>The moves of a worker\<close>

text \<open>The change of the parts, as a relation: nothing, a job taken, a job called.\<close>

definition parts_step :: "'f pool \<Rightarrow> 'f pool \<Rightarrow> bool" where
  "parts_step p p' \<longleftrightarrow> main_hand p' = main_hand p \<and>
     (waiting (jobqueue p') = waiting (jobqueue p) \<and> hands p' = hands p \<and> calls p' = calls p
      \<or> (\<exists>x. waiting (jobqueue p) = x # waiting (jobqueue p') \<and> hands p' = add_mset x (hands p) \<and> calls p' = calls p)
      \<or> (\<exists>x. waiting (jobqueue p') = waiting (jobqueue p) \<and> hands p = add_mset x (hands p') \<and> calls p' = calls p @ [x]))"

lemma worker_parts_quiet:
  assumes "account p' = account p" "main_hand p' = main_hand p"
    and "waiting (jobqueue p') = waiting (jobqueue p)" "calls p' = calls p"
  shows "parts_step p p'"
  using assms by (simp add: parts_step_def account_parts)

lemma worker_parts:
  assumes "pool_inv p" "i < length (workers p)" "worker_move i p = Some (Inr p')"
  shows "parts_step p p'"
proof -
  have inv: "owner_inv p" "token_inv p" using assms(1) by (simp_all add: pool_inv_def)
  note acc = worker_move_account [OF assms]
  let ?q = "jobqueue p"
  have quiet: "parts_step p p'" if "workers p ! i \<notin> {Take, Wait}" "\<forall>x. workers p ! i \<noteq> Run x"
  proof -
    have "jobqueue p' = ?q \<and> calls p' = calls p \<and> main p' = main p"
      using that assms(3) by (cases "workers p ! i") (auto simp: worker_move_def Let_def split: if_splits)
    then show ?thesis by (intro worker_parts_quiet [OF acc] main_hand_cong) simp_all
  qed
  show ?thesis
  proof (cases "workers p ! i")
    case Take
    have "0 < cnt at_work p" using cnt_pos [OF assms(2)] Take by simp
    then have n: "0 < jobN ?q" using inv(2) by (simp add: token_inv_def)
    obtain a q' where q': "take_job ?q = Inr (Some a, 0, q')"
      "waiting ?q = payload_of (the (job_heap q' a)) # waiting q'" "contents (job_heap q') = contents (job_heap ?q)"
      using take_job_owner [OF inv(1) assms(2) n] Take by auto
    have p': "p' = goto i (Unlock (Some a)) (p\<lparr>jobqueue := q'\<rparr>)"
      using assms(3) Take q'(1) by (simp add: worker_move_def Let_def)
    have "main_hand p' = main_hand p" by (rule main_hand_cong) (simp_all add: p' q'(3))
    moreover have "hands p' = add_mset (payload_of (the (job_heap q' a))) (hands p)"
      using acc q'(2) by (simp add: account_parts p')
    ultimately have "waiting ?q = payload_of (the (job_heap q' a)) # waiting (jobqueue p')"
      "hands p' = add_mset (payload_of (the (job_heap q' a))) (hands p)" "calls p' = calls p" "main_hand p' = main_hand p"
      using q'(2) by (simp_all add: p')
    then show ?thesis unfolding parts_step_def by blast
  next
    case (Run x)
    obtain a j q' where q': "x = Some a" "deref (job_heap ?q) x = Inr (a, j)" "free_job a ?q = Inr q'"
      "waiting q' = waiting ?q"
      using run_job_owner [OF inv(1) assms(2) Run] by blast
    have p': "p' = goto i Test (p\<lparr>jobqueue := q', calls := calls p @ [payload_of j]\<rparr>)"
      using assms(3) Run q'(2,3) by (simp add: worker_move_def Let_def)
    have c: "contents (job_heap q') = (contents (job_heap ?q))(a := None)"
      using q'(3) by (auto simp: free_job_def split: option.splits)
    have "main_holds (main p) \<noteq> Some a"
      using owner_invD [OF inv(1) assms(2), of "Some a"] Run q'(1) by auto
    then have "main_hand p' = main_hand p" by (intro main_hand_cong) (auto simp: p' c)
    moreover have "hands p = add_mset (payload_of j) (hands p')"
      using acc q'(4) by (simp add: account_parts p')
    ultimately have "waiting (jobqueue p') = waiting ?q" "hands p = add_mset (payload_of j) (hands p')"
      "calls p' = calls p @ [payload_of j]" "main_hand p' = main_hand p"
      using q'(4) by (simp_all add: p')
    then show ?thesis unfolding parts_step_def by blast
  next
    case Wait
    then have "p' = goto i Woken (p\<lparr>jobqueue := ?q\<lparr>queueSem := queueSem ?q - 1\<rparr>\<rparr>)"
      using assms(3) by (auto simp: worker_move_def Let_def split: if_splits)
    then show ?thesis
      by (intro worker_parts_quiet [OF acc] main_hand_cong) (simp_all add: waiting_def addrs_def)
  qed (use quiet in auto)
qed

section \<open>The moves of the main thread\<close>

lemma add_parts:
  assumes "pool_inv p" "main p = Add n" "main_move c p = Some (Inr p')"
  shows "\<exists>x. main_hand p = {#x#} \<and> main_hand p' = {#} \<and> waiting (jobqueue p') = waiting (jobqueue p) @ [x]
           \<and> hands p' = hands p \<and> calls p' = calls p"
proof -
  have inv: "owner_inv p" using assms(1) by (simp add: pool_inv_def)
  let ?q = "jobqueue p"
  have rep: "queue_rep ?q (addrs ?q)" using inv by (simp add: owner_inv_def queue_inv_def)
  obtain j where n: "job_heap ?q n = Some j" "n \<notin> set (addrs ?q)"
    using inv assms(2) by (auto simp: owner_inv_def)
  obtain q' where q': "thpool_job_enqueue ?q n = Inr q'" "contents (job_heap q') = contents (job_heap ?q)"
    using enqueue_rep [OF rep n(2,1)] by blast
  have w: "waiting q' = waiting ?q @ [payload_of j]"
    using enqueue_owner [OF inv assms(2)] q'(1) n(1) by auto
  have p': "p' = p\<lparr>main := AddUnlock, jobqueue := q'\<rparr>"
    using assms(2,3) q'(1) by (simp add: main_move_def Let_def)
  have "hands p' = hands p" by (rule hands_cong) (simp_all add: p' q'(2))
  then show ?thesis
    using w n(1) assms(2) by (intro exI [of _ "payload_of j"]) (simp add: p' main_hand_def contents_def)
qed

lemma submit_parts:
  assumes "pool_inv p" "main p = Idle" "job_heap (jobqueue p) n = None" "length buf = BUFFER_SIZE"
    and "main_move (Submit_work (Some n) f tm buf sock) p = Some (Inr p')"
  shows "main_hand p = {#}" "main_hand p' = {#payload_of (new_job f tm buf sock)#}"
    "waiting (jobqueue p') = waiting (jobqueue p)" "hands p' = hands p" "calls p' = calls p"
proof -
  have inv: "owner_inv p" using assms(1) by (simp add: pool_inv_def)
  have p': "p' = p\<lparr>main := AddLock n,
      jobqueue := (jobqueue p)\<lparr>job_heap := (job_heap (jobqueue p))(n \<mapsto> new_job f tm buf sock)\<rparr>\<rparr>"
    using assms(2-5) by (simp add: main_move_def Let_def)
  show "main_hand p = {#}" using assms(2) by (simp add: main_hand_def)
  show "main_hand p' = {#payload_of (new_job f tm buf sock)#}" by (simp add: p' main_hand_def contents_def)
  show "waiting (jobqueue p') = waiting (jobqueue p)"
    using heap_extend_owner(2) [OF inv assms(3,2)] by (simp add: p')
  show "calls p' = calls p" by (simp add: p')
  show "hands p' = hands p"
    using held_alloc [OF inv] assms(3) by (intro hands_cong) (fastforce simp: p' contents_def)+
qed

lemma hands_done: "\<forall>j<length (workers p). workers p ! j = Done \<Longrightarrow> hands p = {#}"
proof -
  assume "\<forall>j<length (workers p). workers p ! j = Done"
  then have "\<forall>w\<in>set (workers p). w = Done" by (auto simp: in_set_conv_nth)
  then have "map (hand (job_heap (jobqueue p))) (workers p) = map (\<lambda>_. {#}) (workers p)"
    by (auto simp: hand_free)
  then have "hands p = sum_list (map (\<lambda>_. {#}) (workers p))" unfolding hands_def by (rule arg_cong)
  then show ?thesis by simp
qed

lemma destroy_parts:
  assumes "pool_inv p" "\<And>n. main p \<noteq> Add n" "main p = Idle \<Longrightarrow> c = Destroy"
    and "main_move c p = Some (Inr p')"
  shows "main_hand p' = main_hand p" "hands p' = hands p" "calls p' = calls p"
    "waiting (jobqueue p') = waiting (jobqueue p) \<or> waiting (jobqueue p') = [] \<and> main p' = Destroyed"
proof -
  have inv: "owner_inv p" "token_inv p" using assms(1) by (simp_all add: pool_inv_def)
  have "main_hand p' = main_hand p \<and> hands p' = hands p \<and> calls p' = calls p
    \<and> (waiting (jobqueue p') = waiting (jobqueue p) \<or> waiting (jobqueue p') = [] \<and> main p' = Destroyed)"
  proof (cases "main p")
    case Empty
    then have d: "\<forall>j<length (workers p). workers p ! j = Done" using inv(2) by (simp add: token_inv_def)
    obtain q' where q': "thpool_jobqueue_empty (jobqueue p) = Inr q'" "waiting q' = []"
      using jobqueue_empty_owner [OF inv(1) d] by blast
    have p': "p' = p\<lparr>main := Destroyed, jobqueue := q'\<rparr>"
      using assms(4) Empty q'(1) by (simp add: main_move_def Let_def)
    have "hands p' = hands p" using hands_done [of p] hands_done [of p'] d by (simp add: p')
    then show ?thesis using q'(2) Empty by (simp add: p' main_hand_def)
  next
    case (Post k)
    then show ?thesis using assms(4)
      by (cases k) (auto simp: main_move_def Let_def main_hand_def hands_def waiting_def addrs_def)
  qed (use assms(2-4) inv(2) in \<open>auto simp: main_move_def Let_def main_hand_def hands_def token_inv_def
        split: if_splits\<close>)
  then show "main_hand p' = main_hand p" "hands p' = hands p" "calls p' = calls p"
    "waiting (jobqueue p') = waiting (jobqueue p) \<or> waiting (jobqueue p') = [] \<and> main p' = Destroyed"
    by simp_all
qed

end
