(* ===== verification/LiveCorrect.thy ===== *)
theory LiveCorrect
  imports LiveServer PoolParts
begin

text \<open>
  The interleaved server keeps its invariant over every schedule and refines a specification in
  which jobs are added, taken and served by separate steps.
\<close>

section \<open>The queue outside the pool's moves\<close>

lemma on_table_thpool: "on_table f s = Inr s' \<Longrightarrow> thpool s' = thpool s"
  by (auto simp: on_table_def)

lemma returned_thpool: "accept_returned e s = Inr s' \<Longrightarrow> thpool s' = thpool s"
  by (auto simp: accept_returned_def accept_connection_def Let_def dest!: on_table_thpool
      split: if_splits prod.splits)

lemma accept_thpool: "accept_iteration e s = Inr s' \<Longrightarrow> thpool s' = thpool s"
  by (auto simp: accept_iteration_def dest: returned_thpool split: if_splits)

lemma drop_thpool: "drop_connection k fd s = Inr s' \<Longrightarrow> thpool s' = thpool s"
  by (auto simp: drop_connection_def dest!: on_table_thpool split: if_splits)

lemma start_event_thpool: "start_event i e s = Inr (m, s') \<Longrightarrow> thpool s' = thpool s"
  by (auto simp: start_event_def receive_message_def Let_def dest!: drop_thpool split: if_splits)

lemma start_event_flags: "start_event i e s = Inr (m, s') \<Longrightarrow> flags s' = flags s"
  by (auto simp: start_event_def receive_message_def Let_def dest!: drop_flags split: if_splits)

text \<open>The expiry of connections, and a deletion that finds its first job in place and not too old.\<close>

lemma expiry_step:
  assumes "server_ok s"
  shows "\<exists>s'. recycle_slots now del [0..<MAX_EVENTS] s = Inr s' \<and> server_ok s' \<and> thpool s' = thpool s
    \<and> flags s' = flags s \<and> conns (epoll_connect_client s') = keep_fresh now (conns (epoll_connect_client s))
    \<and> current_connected_total s' = current_connected_total s - (int (card (dom (conns (epoll_connect_client s))))
        - int (card (dom (keep_fresh now (conns (epoll_connect_client s))))))"
proof -
  let ?t = "epoll_connect_client s"
  have inv: "server_inv s" "conn_inv ?t" "names_ok ?t" using assms by (simp_all add: server_ok_def server_inv_def)
  obtain es where es: "recycle_slots now del [0..<MAX_EVENTS] s
      = Inr (recycled (int (length (stale_fds now ?t))) (map (expire now) ?t) es s)"
    using recycle_slots_all [OF inv(2), of now del] by blast
  let ?s = "recycled (int (length (stale_fds now ?t))) (map (expire now) ?t) es s"
  have "server_ok ?s"
    using assms conn_inv_expire [OF inv(2)] names_ok_expire inv(3) by (simp add: server_ok_def server_inv_def)
  moreover have "flags ?s = flags s" by (simp add: recycled_def flags_def)
  ultimately show ?thesis
    using es conns_expire [OF inv(2), of now] by (intro exI [of _ ?s]) (simp add: length_stale_fds [OF inv(2)])
qed

definition keeps_jobs :: "int \<Rightarrow> nat option \<Rightarrow> func thpool_jobqueue \<Rightarrow> bool" where
  "keeps_jobs tm curjob q \<longleftrightarrow> curjob \<noteq> None \<longrightarrow>
     q_tail q = curjob \<and> (\<forall>x xs. waiting q = x # xs \<longrightarrow> \<not> expired tm SERVER_TIMEOUT x)"

lemma deletion_step:
  assumes "queue_inv q" "keeps_jobs tm curjob q"
  shows "timeout_loop tm SERVER_TIMEOUT curjob 0 q = Inr (0, q)"
proof (cases "jobN q = 0 \<or> curjob = None")
  case True
  then show ?thesis by (auto simp: timeout_loop.simps [of _ _ _ _ q])
next
  case False
  then obtain a where a: "curjob = Some a" "q_tail q = Some a" using assms(2) by (auto simp: keeps_jobs_def)
  obtain as where rep: "queue_rep q as" using assms(1) by (auto simp: queue_inv_iff)
  then obtain j bs where j: "as = a # bs" "job_heap q a = Some j"
    using False a(2) by (cases as) (fastforce simp: queue_rep_def split: option.splits)+
  then have "\<not> expired tm SERVER_TIMEOUT (payload_of j)"
    using assms(2) a queue_rep_waiting [OF rep] by (simp add: keeps_jobs_def)
  then show ?thesis using a j(2) by (simp add: timeout_loop.simps [of _ _ _ _ q] expired_def payload_of_def)
qed

section \<open>An event up to the mutex\<close>

definition touched :: "ep_event \<Rightarrow> int \<Rightarrow> server \<Rightarrow> server" where
  "touched e k s = s\<lparr>epoll_connect_client := snd (update_time_by_index k (ev_now e) (epoll_connect_client s))\<rparr>"

lemma touched_simps [simp]:
  "thpool (touched e k s) = thpool s"
  "flags (touched e k s) = flags s"
  by (simp_all add: touched_def)

text \<open>It is the whole event for which \<open>malloc\<close> fails.\<close>

lemma handle_event_no_malloc:
  "handle_event i (e\<lparr>ev_malloc := None\<rparr>) s =
     and_then (start_event i e s) (\<lambda>(m, s). case m of None \<Rightarrow> Inr s | Some (k, buf) \<Rightarrow> Inr (touched e k s))"
proof -
  have sel: "ev_in (e\<lparr>ev_malloc := None\<rparr>) = ev_in e" "ev_fd (e\<lparr>ev_malloc := None\<rparr>) = ev_fd e" "ev_recv (e\<lparr>ev_malloc := None\<rparr>) = ev_recv e"
    by simp_all
  have rm: "receive_message (e\<lparr>ev_malloc := None\<rparr>) = receive_message e"
    unfolding fun_eq_iff receive_message_def sel by blast
  have "start_event i (e\<lparr>ev_malloc := None\<rparr>) s = start_event i e s"
    unfolding start_event_def rm sel by blast
  then show ?thesis
    unfolding handle_event_start [of i "e\<lparr>ev_malloc := None\<rparr>"]
    by (intro arg_cong2 [where f = and_then] ext)
      (auto simp: thpool_add_work_def add_job_def touched_def split: option.split)
qed

lemma abs_event_no_malloc:
  "abs_event (e\<lparr>ev_malloc := None\<rparr>) a = (abs_event e a)\<lparr>a_jobs := a_jobs a\<rparr>"
  by (simp add: abs_event_def Let_def touch_def job_of_def split: option.split recv_res.split)

lemma start_event_message:
  assumes "start_event i e s = Inr (Some (k, buf), s')" "event_env_ok e s"
  shows "\<exists>bs. ev_recv e = Recvd bs \<and> length bs < BUFLEN \<and> buf = bs @ replicate (BUFFER_SIZE - length bs) NUL
           \<and> 0 \<le> ev_fd e \<and> ev_in e \<and> 0 \<le> get_matched_event_index_by_fd (ev_fd e) (epoll_connect_client s)"
proof (cases "ev_recv e")
  case RecvErr
  then have "recv_buffer_from_fd (ev_recv e) (replicate BUFFER_SIZE NUL) = Inr (-1, replicate BUFFER_SIZE NUL, None)"
    by (simp add: recv_buffer_from_fd_def)
  then show ?thesis using assms(1)
    by (auto simp: start_event_def receive_message_def Let_def split: if_splits)
next
  case (Recvd bs)
  then have "length bs \<le> BUFLEN" using assms(2) by (simp add: event_env_ok_def)
  then show ?thesis using assms(1) recv_buffer_eq [of bs] Recvd
    by (auto simp: start_event_def receive_message_def Let_def split: if_splits)
qed

text \<open>The jobs that the event adds in the specification.\<close>

lemma start_event_jobs:
  assumes "start_event i e s = Inr (m, s')" "server_inv s" "event_env_ok e s" "dump_fits e"
  shows "a_jobs (abs_event e (abs_of s)) = waiting (thpool s) @
    (case m of None \<Rightarrow> [] | Some (k, buf) \<Rightarrow> if ev_malloc e = None then []
       else [payload_of (new_job Respons_stb_info (ev_now e) buf (ev_fd e))])"
proof -
  have inv: "conn_inv (epoll_connect_client s)" using assms(2) by (simp add: server_inv_def)
  note k = matched_minus_one [OF inv]
  show ?thesis
  proof (cases m)
    case None
    have env: "event_env_ok (e\<lparr>ev_malloc := None\<rparr>) s" "dump_fits (e\<lparr>ev_malloc := None\<rparr>)"
      using assms(3,4) by (simp_all add: event_env_ok_def dump_fits_def)
    have "handle_event i e s = Inr s'" "handle_event i (e\<lparr>ev_malloc := None\<rparr>) s = Inr s'"
      unfolding handle_event_no_malloc handle_event_start [of i e] using assms(1) None by simp_all
    then have "abs_event e (abs_of s) = abs_event (e\<lparr>ev_malloc := None\<rparr>) (abs_of s)"
      using handle_event_correct [OF assms(2-4), of i] handle_event_correct [OF assms(2) env, of i]
      by (auto simp: event_done_def)
    then have "a_jobs (abs_event e (abs_of s)) = a_jobs (abs_of s)" unfolding abs_event_no_malloc by (metis abs_server.select_convs(2) abs_server.update_convs(2) abs_server.surjective)
    then show ?thesis using None by simp
  next
    case (Some kb)
    then obtain k buf where kb: "m = Some (k, buf)" by (cases kb) auto
    obtain bs where bs: "ev_recv e = Recvd bs" "length bs < BUFLEN" "buf = bs @ replicate (BUFFER_SIZE - length bs) NUL"
      "0 \<le> ev_fd e" "ev_in e" "0 \<le> get_matched_event_index_by_fd (ev_fd e) (epoll_connect_client s)"
      using start_event_message [OF assms(1) [unfolded kb] assms(3)] by blast
    have "conns (epoll_connect_client s) (ev_fd e) \<noteq> None"
      using bs(6) k [OF bs(4)] by auto
    moreover have "payload_of (new_job Respons_stb_info (ev_now e) buf (ev_fd e)) = job_of e bs"
      using bs(2,3) by (simp add: payload_of_def new_job_def job_of_def BUFLEN_def BUFFER_SIZE_def)
    ultimately show ?thesis using bs kb by (auto simp: abs_event_def Let_def)
  qed
qed

section \<open>The invariant\<close>

lemma server_of_simps [simp]:
  "epoll_connect_client (server_of st) = epoll_connect_client (lv_server st)"
  "thpool (server_of st) = jobqueue (lv_pool st)"
  "exit_flag (server_of st) = exit_flag (lv_server st)"
  "exit_accept_flag (server_of st) = exit_accept_flag (lv_server st)"
  "server_of (put_server s st) = s"
  "server_of (st\<lparr>lv_time := t\<rparr>) = server_of st"
  "server_of (st\<lparr>lv_batch := b\<rparr>) = server_of st"
  "server_of (st\<lparr>lv_accept := a\<rparr>) = server_of st"
  "server_of (st\<lparr>lv_delete := d\<rparr>) = server_of st"
  "server_of (st\<lparr>lv_log := l\<rparr>) = server_of st"
  "server_of (st\<lparr>lv_received := r\<rparr>) = server_of st"
  by (simp_all add: server_of_def put_server_def)

lemma put_server_simps [simp]:
  "lv_server (put_server s st) = s"
  "lv_pool (put_server s st) = (lv_pool st)\<lparr>jobqueue := thpool s\<rparr>"
  "lv_time (put_server s st) = lv_time st"
  "lv_batch (put_server s st) = lv_batch st"
  "lv_delete (put_server s st) = lv_delete st"
  "lv_accept (put_server s st) = lv_accept st"
  "lv_log (put_server s st) = lv_log st"
  "lv_received (put_server s st) = lv_received st"
  by (simp_all add: put_server_def)

definition good_job :: "func payload \<Rightarrow> bool" where
  "good_job x \<longleftrightarrow> job_ok x \<and> login_ok x"

text \<open>
  Every message received is being added, waiting, in a worker's hands or served; only the end of
  \<open>thpool_destroy\<close> drops those that still wait.
\<close>

definition live_jobs :: "live \<Rightarrow> bool" where
  "live_jobs st \<longleftrightarrow> (\<forall>x\<in>set (lv_received st). good_job x)
     \<and> main_hand (lv_pool st) + account (lv_pool st) \<subseteq># mset (lv_received st)
     \<and> (main (lv_pool st) \<noteq> Destroyed \<longrightarrow>
          main_hand (lv_pool st) + account (lv_pool st) = mset (lv_received st))"

definition live_inv :: "live \<Rightarrow> bool" where
  "live_inv st \<longleftrightarrow> server_ok (server_of st) \<and> pool_inv (lv_pool st) \<and> live_jobs st
     \<and> exit_accept_flag (lv_server st) = exit_flag (lv_server st)
     \<and> (closing (main (lv_pool st)) \<longrightarrow> exit_flag (lv_server st) \<and> snd (lv_batch st) = [])
     \<and> (\<not> closing (main (lv_pool st)) \<longrightarrow> log_open (lv_log st))"

lemma live_inv_parts:
  assumes "live_inv st"
  shows "server_ok (server_of st)" "pool_inv (lv_pool st)" "live_jobs st" "server_inv (server_of st)"
    "conn_inv (epoll_connect_client (lv_server st))" "names_ok (epoll_connect_client (lv_server st))"
  using assms by (simp_all add: live_inv_def server_ok_def server_inv_def)

section \<open>The specification\<close>

record live_view =
  lw_server :: abs_server
  lw_ending :: bool
  lw_adding :: "func payload multiset"
  lw_hands :: "func payload multiset"
  lw_served :: "func payload list"

definition abs_expire :: "int \<Rightarrow> abs_server \<Rightarrow> abs_server" where
  "abs_expire now a =
     a\<lparr>a_conns := keep_fresh now (a_conns a),
       a_total := a_total a - (int (card (dom (a_conns a))) - int (card (dom (keep_fresh now (a_conns a)))))\<rparr>"

inductive live_spec :: "live_view \<Rightarrow> live_view \<Rightarrow> bool" where
  spec_accept: "live_spec v (v\<lparr>lw_server := abs_admit e (lw_server v)\<rparr>)"
| spec_expire: "\<not> lw_ending v \<Longrightarrow> live_spec v (v\<lparr>lw_server := abs_expire now (lw_server v)\<rparr>)"
| spec_event: "lw_adding v = {#} \<Longrightarrow> a_jobs (abs_event e (lw_server v)) = a_jobs (lw_server v) @ xs \<Longrightarrow>
     live_spec v (v\<lparr>lw_server := (abs_event e (lw_server v))\<lparr>a_jobs := a_jobs (lw_server v)\<rparr>, lw_adding := mset xs\<rparr>)"
| spec_add: "lw_adding v = {#x#} \<Longrightarrow>
     live_spec v (v\<lparr>lw_server := (lw_server v)\<lparr>a_jobs := a_jobs (lw_server v) @ [x]\<rparr>, lw_adding := {#}\<rparr>)"
| spec_take: "a_jobs (lw_server v) = x # xs \<Longrightarrow>
     live_spec v (v\<lparr>lw_server := (lw_server v)\<lparr>a_jobs := xs\<rparr>, lw_hands := add_mset x (lw_hands v)\<rparr>)"
| spec_serve: "lw_hands v = add_mset x hs \<Longrightarrow>
     live_spec v (v\<lparr>lw_hands := hs, lw_served := lw_served v @ [x]\<rparr>)"
| spec_end: "live_spec v (v\<lparr>lw_ending := True\<rparr>)"
| spec_stop: "lw_ending v \<Longrightarrow> lw_hands v = {#} \<Longrightarrow>
     live_spec v (v\<lparr>lw_server := (lw_server v)\<lparr>a_jobs := []\<rparr>\<rparr>)"

definition live_view :: "live \<Rightarrow> live_view" where
  "live_view st = \<lparr>lw_server = abs_of (server_of st), lw_ending = exit_flag (lv_server st),
     lw_adding = main_hand (lv_pool st), lw_hands = hands (lv_pool st), lw_served = calls (lv_pool st)\<rparr>"

text \<open>A turn keeps the invariant and is a step of the specification, or none.\<close>

definition advances :: "live \<Rightarrow> live \<Rightarrow> bool" where
  "advances st st' \<longleftrightarrow> live_inv st' \<and> length (workers (lv_pool st')) = length (workers (lv_pool st))
     \<and> (live_view st' = live_view st \<or> live_spec (live_view st) (live_view st'))"

section \<open>Turns that leave the pool alone\<close>

lemma server_turn:
  assumes "live_inv st" "lv_pool st' = lv_pool st" "lv_received st' = lv_received st" "lv_log st' = lv_log st"
    and "server_ok (server_of st')" "exit_accept_flag (lv_server st') = exit_flag (lv_server st')"
    and "exit_flag (lv_server st) \<Longrightarrow> exit_flag (lv_server st')"
    and "closing (main (lv_pool st)) \<Longrightarrow> snd (lv_batch st') = []"
  shows "live_inv st'"
    "live_view st' = (live_view st)\<lparr>lw_server := abs_of (server_of st'), lw_ending := exit_flag (lv_server st')\<rparr>"
  using assms by (simp_all add: live_inv_def live_jobs_def live_view_def)

text \<open>The table and the record of effects may change as long as connections and counts stay.\<close>

lemma same_view:
  assumes "live_inv st" "lv_pool st' = lv_pool st" "lv_received st' = lv_received st" "lv_log st' = lv_log st"
    and "server_ok (server_of st')" "flags (lv_server st') = flags (lv_server st)"
    and "abs_of (server_of st') = abs_of (server_of st)" "closing (main (lv_pool st)) \<Longrightarrow> snd (lv_batch st') = []"
  shows "live_inv st'" "live_view st' = live_view st"
proof -
  have f: "exit_flag (lv_server st') = exit_flag (lv_server st)"
    "exit_accept_flag (lv_server st') = exit_accept_flag (lv_server st)"
    using assms(6) by (simp_all add: flags_def)
  have a: "exit_accept_flag (lv_server st') = exit_flag (lv_server st')" using f assms(1) by (simp add: live_inv_def)
  show "live_inv st'" using server_turn(1) [OF assms(1-5) a _ assms(8)] f by simp
  show "live_view st' = live_view st" using assms(2,7) f by (simp add: live_view_def)
qed

lemma put_back: "thpool s = jobqueue (lv_pool st) \<Longrightarrow> lv_pool (put_server s st) = lv_pool st"
  by simp

section \<open>The moves of the pool\<close>

lemma server_ok_tail:
  assumes "server_ok (server_of st)" "queue_inv (jobqueue p')"
    and "waiting (jobqueue p') = waiting (jobqueue (lv_pool st)) \<or> waiting (jobqueue (lv_pool st)) = x # waiting (jobqueue p')
      \<or> waiting (jobqueue p') = []"
  shows "server_ok (server_of (st\<lparr>lv_pool := p'\<rparr>))"
  using assms by (auto simp: server_ok_def server_inv_def server_of_def)

lemma pool_queue_inv: "pool_inv p \<Longrightarrow> queue_inv (jobqueue p)"
  by (simp add: pool_inv_def owner_inv_def)

lemma pool_turn:
  assumes "live_inv st" "pool_inv p'" "parts_step (lv_pool st) p'" "main p' = main (lv_pool st)"
    "length (workers p') = length (workers (lv_pool st))"
  shows "advances st (st\<lparr>lv_pool := p'\<rparr>)"
proof -
  let ?p = "lv_pool st" and ?st = "st\<lparr>lv_pool := p'\<rparr>"
  have a: "account p' = account ?p" "main_hand p' = main_hand ?p"
    using assms(3) by (auto simp: parts_step_def account_parts)
  have w: "\<exists>x. waiting (jobqueue p') = waiting (jobqueue ?p) \<or> waiting (jobqueue ?p) = x # waiting (jobqueue p')
      \<or> waiting (jobqueue p') = []"
    using assms(3) by (auto simp: parts_step_def)
  have "server_ok (server_of ?st)"
    using server_ok_tail [OF _ pool_queue_inv [OF assms(2)]] w assms(1) by (auto simp: live_inv_def)
  then have "live_inv ?st"
    using assms(1,2,4) a by (simp add: live_inv_def live_jobs_def)
  moreover have "live_view ?st = live_view st \<or> live_spec (live_view st) (live_view ?st)"
    using assms(3) unfolding parts_step_def
  proof (elim conjE disjE exE)
    assume "waiting (jobqueue p') = waiting (jobqueue ?p)" "hands p' = hands ?p" "calls p' = calls ?p"
    then show ?thesis using a(2) by (simp add: live_view_def abs_of_parts server_of_def)
  next
    fix x assume x: "waiting (jobqueue ?p) = x # waiting (jobqueue p')" "hands p' = add_mset x (hands ?p)" "calls p' = calls ?p"
    have "a_jobs (lw_server (live_view st)) = x # waiting (jobqueue p')" using x(1) by (simp add: live_view_def)
    from spec_take [OF this] show ?thesis using x a(2) by (simp add: live_view_def abs_of_parts server_of_def)
  next
    fix x assume x: "waiting (jobqueue p') = waiting (jobqueue ?p)" "hands ?p = add_mset x (hands p')" "calls p' = calls ?p @ [x]"
    have "lw_hands (live_view st) = add_mset x (hands p')" using x(2) by (simp add: live_view_def)
    from spec_serve [OF this] show ?thesis using x a(2) by (simp add: live_view_def abs_of_parts server_of_def)
  qed
  ultimately show ?thesis using assms(5) by (simp add: advances_def)
qed

end
