(* ===== verification/LiveTurns.thy ===== *)
theory LiveTurns
  imports LiveCorrect
begin

text \<open>
  Every turn of the interleaved server, under the contracts of kernel and clients in the state it
  finds, returns, keeps the invariant and is a step of the specification.
\<close>

section \<open>The contracts\<close>

text \<open>
  A worker's answers matter when it calls the function of its job: the peer of a login is still
  connected and its fields are terminated, \<open>malloc\<close> works, and the writes take the whole reply. A
  recycling must find the first job of the queue in place and not too old: C12 and C13 show what a
  deletion does to workers. A client sends messages of at most 63 bytes whose login fields are terminated.
  \<open>k\<close> is what is promised of a connection that \<open>accept\<close> returns.
\<close>

definition call_allowed :: "write_res list \<Rightarrow> (nat \<Rightarrow> string option) \<Rightarrow> func payload \<Rightarrow> conn_table \<Rightarrow> bool" where
  "call_allowed ws mem x t \<longleftrightarrow> servable (job_msg x) (job_sock x) t \<and> malloc_works mem
     \<and> answers (reply_len (msg_type (job_msg x)) t) ws"

definition choice_contract :: "(accept_env \<Rightarrow> server \<Rightarrow> bool) \<Rightarrow> live_choice \<Rightarrow> live \<Rightarrow> bool" where
  "choice_contract k c st =
     (let p = lv_pool st; s = server_of st in
      case c of
        By_acceptor port le e \<Rightarrow> lv_accept st = In_accept \<longrightarrow> k e s
      | By_wait e \<Rightarrow> True
      | By_main_thread t \<Rightarrow> tm_ok t \<and> (main p = Idle \<longrightarrow>
          (case lv_delete st of
             Some (tm, curjob) \<Rightarrow> pool_mutex p = None \<longrightarrow> keeps_jobs tm curjob (jobqueue p)
           | None \<Rightarrow> (case snd (lv_batch st) of [] \<Rightarrow> True | e # es \<Rightarrow> event_env_ok e s \<and> client_ok e)))
      | By_pool_worker i ws mem \<Rightarrow>
          (if i < length (workers p) then
             (case workers p ! i of
                Run (Some a) \<Rightarrow>
                  (case contents (job_heap (jobqueue p)) a of
                     None \<Rightarrow> True | Some x \<Rightarrow> call_allowed ws mem x (epoll_connect_client s))
              | _ \<Rightarrow> True)
           else True)
      | By_signal sig \<Rightarrow> True)"

text \<open>
  With the kernel's own promise for \<open>accept\<close> this is the contract of the properties; the turns need of
  it that the new descriptor has no slot (\<open>LiveKernel\<close> derives the one from the other).
\<close>

abbreviation choice_allowed :: "live_choice \<Rightarrow> live \<Rightarrow> bool" where
  "choice_allowed \<equiv> choice_contract accept_env_ok"

abbreviation choice_safe :: "live_choice \<Rightarrow> live \<Rightarrow> bool" where
  "choice_safe \<equiv> choice_contract fd_unlisted"

lemma contract_exchange:
  "choice_contract k c st \<Longrightarrow> (\<And>e. k e (server_of st) \<Longrightarrow> k' e (server_of st)) \<Longrightarrow> choice_contract k' c st"
  by (cases c) (auto simp: choice_contract_def Let_def)

lemma contract_elsewhere:
  "choice_contract k c st \<Longrightarrow> lv_accept st \<noteq> In_accept \<Longrightarrow> choice_contract k' c st"
  by (cases c) (auto simp: choice_contract_def Let_def)

section \<open>The accept thread and the signals\<close>

lemma live_flags: "live_inv st \<Longrightarrow> exit_accept_flag (lv_server st) = exit_flag (lv_server st)"
  by (simp add: live_inv_def)

lemma live_batch: "live_inv st \<Longrightarrow> closing (main (lv_pool st)) \<Longrightarrow> snd (lv_batch st) = []"
  by (simp add: live_inv_def)

lemma flags_server_of [simp]: "flags (server_of st) = flags (lv_server st)"
  by (simp add: flags_def)

lemma acceptor_turn:
  assumes "live_inv st" "choice_safe (By_acceptor port le e) st" "accept_turn_of port le e st = Some r"
  shows "\<exists>st'. r = Inr st' \<and> advances st st'"
proof -
  note ok = live_inv_parts(1) [OF assms(1)]
  have quiet: "advances st (put_server s (st\<lparr>lv_accept := a\<rparr>))"
    if s: "server_ok s" "thpool s = jobqueue (lv_pool st)" "flags s = flags (lv_server st)"
      "abs_of s = abs_of (server_of st)" for s a
    using same_view [OF assms(1), of "put_server s (st\<lparr>lv_accept := a\<rparr>)"] s live_batch [OF assms(1)]
    by (simp add: advances_def)
  show ?thesis
  proof (cases "lv_accept st")
    case Starting
    let ?s = "snd (accept_setup port le (server_of st))"
    have "server_ok ?s" by (rule opening_step_ok [OF ok])
    moreover have "abs_of ?s = abs_of (server_of st)" by (simp add: abs_of_def)
    moreover have "flags ?s = flags (lv_server st)" by (simp add: flags_def)
    ultimately show ?thesis
      using quiet [of ?s] assms(3) Starting by (auto simp: accept_turn_of_def Let_def split: prod.splits)
  next
    case Accepting_loop
    let ?s = "server_of st"
    have enter: "advances st (st\<lparr>lv_accept := In_accept\<rparr>)"
      using same_view [OF assms(1), of "st\<lparr>lv_accept := In_accept\<rparr>"] ok live_batch [OF assms(1)]
      by (simp add: advances_def)
    have same: "put_server s (st\<lparr>lv_accept := Accepting_loop\<rparr>) = put_server s st" for s
      using Accepting_loop by (cases st) (simp add: put_server_def)
    have "abs_of (close_listen ?s) = abs_of ?s" by (simp add: abs_of_def)
    then show ?thesis
      using assms(3) Accepting_loop enter quiet [of "close_listen ?s" Returned] closing_step_ok [OF ok]
        quiet [of "accept_full ?s" Accepting_loop] accept_full_ok [OF ok]
      by (auto simp: accept_turn_of_def Let_def same split: if_splits)
  next
    case In_accept
    then have e: "fd_unlisted e (server_of st)"
      "r = and_then (accept_returned e (server_of st)) (\<lambda>s. Inr (put_server s (st\<lparr>lv_accept := Accepting_loop\<rparr>)))"
      using assms(2,3) by (simp_all add: accept_turn_of_def choice_contract_def Let_def)
    obtain s' where s': "accept_returned e (server_of st) = Inr s'" "server_ok s'"
      "abs_of s' = abs_admit e (abs_of (server_of st))"
      using returned_turn [OF ok e(1)] by blast
    have f: "flags s' = flags (lv_server st)" "thpool s' = jobqueue (lv_pool st)"
      using returned_flags [OF s'(1)] returned_thpool [OF s'(1)] by simp_all
    then have fl: "exit_flag s' = exit_flag (lv_server st)" "exit_accept_flag s' = exit_accept_flag (lv_server st)"
      by (simp_all add: flags_def)
    let ?st = "put_server s' (st\<lparr>lv_accept := Accepting_loop\<rparr>)"
    have "live_inv ?st" "live_view ?st = (live_view st)\<lparr>lw_server := abs_of s', lw_ending := exit_flag s'\<rparr>"
      using server_turn [OF assms(1), of ?st] s'(2) f(2) fl live_flags [OF assms(1)] live_batch [OF assms(1)]
      by simp_all
    moreover have "live_spec (live_view st) ((live_view st)\<lparr>lw_server := abs_of s', lw_ending := exit_flag s'\<rparr>)"
      using spec_accept [of "live_view st" e] s'(3) fl(1) by (simp add: live_view_def)
    ultimately show ?thesis using e(2) s'(1) f(2) by (simp add: advances_def)
  next
    case Returned
    with assms(3) show ?thesis by (simp add: accept_turn_of_def Let_def)
  qed
qed

lemma signal_turn:
  assumes "live_inv st"
  shows "advances st (put_server (signal_handler_reboot sig (server_of st)) st)"
proof -
  let ?s = "signal_handler_reboot sig (server_of st)"
  let ?st = "put_server ?s st"
  have ok: "server_ok ?s" by (rule signal_step_ok [OF live_inv_parts(1) [OF assms]])
  have f: "flags ?s = (if sig = SIGKILL \<or> sig = SIGTERM then (True, True) else flags (lv_server st))"
    by (simp add: signal_flags)
  have a: "abs_of ?s = abs_of (server_of st)" by (simp add: abs_of_def)
  have i: "live_inv ?st" "live_view ?st = (live_view st)\<lparr>lw_server := abs_of ?s, lw_ending := exit_flag ?s\<rparr>"
    using server_turn [OF assms, of ?st] ok f live_flags [OF assms] live_batch [OF assms]
    by (auto simp: flags_def split: if_splits)
  have "live_view ?st = live_view st \<or> live_view ?st = (live_view st)\<lparr>lw_ending := True\<rparr>"
    unfolding i(2) a using f by (auto simp: live_view_def flags_def split: if_splits)
  then show ?thesis using i(1) spec_end [of "live_view st"] by (auto simp: advances_def)
qed

section \<open>The head of the loop\<close>

lemma waiting_turn:
  assumes "live_inv st" "wait_turn e st = Some r"
  shows "\<exists>st'. r = Inr st' \<and> advances st st'"
proof -
  note ok = live_inv_parts(1) [OF assms(1)]
  have g: "main (lv_pool st) = Idle" "\<not> exit_flag (lv_server st)"
    using assms(2) by (auto simp: wait_turn_def Let_def split: if_splits)
  show ?thesis
  proof (cases "recycle_due (lo_now e) (lv_time st)")
    case False
    then have "r = Inr (st\<lparr>lv_batch := (0, lo_events e)\<rparr>)"
      using assms(2) by (auto simp: wait_turn_def Let_def split: if_splits)
    moreover have "advances st (st\<lparr>lv_batch := (0, lo_events e)\<rparr>)"
      using same_view [OF assms(1), of "st\<lparr>lv_batch := (0, lo_events e)\<rparr>"] ok g(1) by (simp add: advances_def)
    ultimately show ?thesis by simp
  next
    case True
    let ?s = "emit [Print (''60s detect one time =====>'' @ nl)] (server_of st)"
    obtain s' where s': "recycle_slots (lo_now e) (lo_del e) [0..<MAX_EVENTS] ?s = Inr s'" "server_ok s'"
      "thpool s' = jobqueue (lv_pool st)" "flags s' = flags (lv_server st)" "abs_of s' = abs_expire (lo_now e) (abs_of (server_of st))"
      using expiry_step [of ?s "lo_now e" "lo_del e"] ok by (auto simp: abs_of_def abs_expire_def)
    have fl: "exit_flag s' = exit_flag (lv_server st)" "exit_accept_flag s' = exit_accept_flag (lv_server st)"
      using s'(4) by (simp_all add: flags_def)
    let ?st = "put_server s' (st\<lparr>lv_time := lo_now e, lv_batch := (0, lo_events e), lv_delete := Some (lo_tm e, q_tail (thpool s'))\<rparr>)"
    have "r = Inr ?st" using assms(2) True s'(1) by (auto simp: wait_turn_def Let_def split: if_splits)
    moreover have "live_inv ?st" "live_view ?st = (live_view st)\<lparr>lw_server := abs_of s', lw_ending := exit_flag s'\<rparr>"
      using server_turn [OF assms(1), of ?st] s'(2,3) fl live_flags [OF assms(1)] g(1) by simp_all
    moreover have "live_spec (live_view st) ((live_view st)\<lparr>lw_server := abs_of s', lw_ending := exit_flag s'\<rparr>)"
      using spec_expire [of "live_view st" "lo_now e"] g(2) s'(5) fl(1) by (simp add: live_view_def)
    ultimately show ?thesis using s'(3) by (simp add: advances_def)
  qed
qed

text \<open>The deletion, when it deletes nothing, only writes to the log.\<close>

lemma deleting_turn:
  assumes "live_inv st" "main (lv_pool st) = Idle" "keeps_jobs tm curjob (jobqueue (lv_pool st))"
    and "delete_turn tm curjob st = Some r"
  shows "\<exists>st'. r = Inr st' \<and> advances st st'"
proof -
  note inv = live_inv_parts [OF assms(1)]
  have d: "timeout_loop tm SERVER_TIMEOUT curjob 0 (jobqueue (lv_pool st)) = Inr (0, jobqueue (lv_pool st))"
    using deletion_step [OF pool_queue_inv [OF inv(2)] assms(3)] .
  obtain es where r: "r = Inr (put_server (emit es (connect_total_count_sub 0 ((server_of st)\<lparr>thpool := jobqueue (lv_pool st)\<rparr>)))
      (st\<lparr>lv_delete := None\<rparr>))"
    using assms(4) d by (auto simp: delete_turn_def split: if_splits)
  let ?s = "emit es (server_of st)" and ?st = "put_server (emit es (server_of st)) (st\<lparr>lv_delete := None\<rparr>)"
  have e: "connect_total_count_sub 0 ((server_of st)\<lparr>thpool := jobqueue (lv_pool st)\<rparr>) = server_of st"
    by (simp add: connect_total_count_sub_def server_of_def)
  have "live_inv ?st" "live_view ?st = live_view st"
    using same_view [OF assms(1), of ?st] inv(1) assms(2) by (simp_all add: abs_of_def flags_def)
  then show ?thesis unfolding r e by (simp add: advances_def)
qed

section \<open>A worker\<close>

lemma in_hands:
  assumes "i < length (workers p)" "holds (workers p ! i) = Some (Some a)" "contents (job_heap (jobqueue p)) a = Some x"
  shows "x \<in># hands p"
proof -
  let ?f = "hand (job_heap (jobqueue p))"
  have "?f (workers p ! i) = {#x#}" using assms(2,3) by (simp add: hand_def)
  moreover have "workers p = take i (workers p) @ workers p ! i # drop (Suc i) (workers p)"
    by (rule id_take_nth_drop [OF assms(1)])
  then have "map ?f (workers p) = map ?f (take i (workers p)) @ ?f (workers p ! i) # map ?f (drop (Suc i) (workers p))"
    by (metis list.simps(9) map_append)
  ultimately show ?thesis unfolding hands_def by simp
qed

lemma held_good:
  assumes "live_inv st" "x \<in># hands (lv_pool st) + main_hand (lv_pool st)"
  shows "good_job x"
proof -
  let ?all = "main_hand (lv_pool st) + account (lv_pool st)"
  have sub: "?all \<subseteq># mset (lv_received st)" and good: "\<forall>x\<in>set (lv_received st). good_job x"
    using live_inv_parts(3) [OF assms(1)] by (simp_all add: live_jobs_def)
  have "x \<in># ?all" using assms(2) by (auto simp: account_parts)
  from mset_subset_eqD [OF sub this] good show ?thesis by simp
qed

text \<open>Serving a job changes the table's logins and the record of effects, nothing the view shows.\<close>

lemma served_view:
  assumes "live_inv st" "kept (server_of st) r"
  shows "\<exists>s'. r = Inr s' \<and> live_inv (put_server s' st) \<and> live_view (put_server s' st) = live_view st
           \<and> thpool s' = jobqueue (lv_pool st) \<and> flags s' = flags (lv_server st)"
proof -
  obtain t' es where r: "r = Inr (emit es ((server_of st)\<lparr>epoll_connect_client := t'\<rparr>))" "conn_inv t'" "names_ok t'"
    "conns t' = conns (epoll_connect_client (lv_server st))"
    using assms(2) by (auto simp: kept_def)
  let ?s = "emit es ((server_of st)\<lparr>epoll_connect_client := t'\<rparr>)"
  have "server_ok ?s" using live_inv_parts(1) [OF assms(1)] r(2,3) by (simp add: server_ok_def server_inv_def)
  moreover have "abs_of ?s = abs_of (server_of st)" using r(4) by (simp add: abs_of_def server_of_def)
  moreover have f: "flags ?s = flags (lv_server st)" by simp
  moreover have q: "thpool ?s = jobqueue (lv_pool st)" by simp
  ultimately have "live_inv (put_server ?s st)" "live_view (put_server ?s st) = live_view st"
    using same_view [OF assms(1), of "put_server ?s st"] live_batch [OF assms(1)] by simp_all
  with r(1) q f show ?thesis by blast
qed

text \<open>A worker's turn is a move of the pool.\<close>

definition moves_worker :: "nat \<Rightarrow> live \<Rightarrow> live \<Rightarrow> bool" where
  "moves_worker i st st' \<longleftrightarrow> worker_move i (lv_pool st) = Some (Inr (lv_pool st'))
     \<and> lv_batch st' = lv_batch st \<and> lv_delete st' = lv_delete st \<and> lv_accept st' = lv_accept st \<and> flags (lv_server st') = flags (lv_server st)
     \<and> lv_received st' = lv_received st
     \<and> conns (epoll_connect_client (lv_server st')) = conns (epoll_connect_client (lv_server st))"

lemma pool_worker_advances:
  assumes "live_inv st" "i < length (workers (lv_pool st))" "worker_move i (lv_pool st) = Some r"
  shows "\<exists>p'. r = Inr p' \<and> advances st (st\<lparr>lv_pool := p'\<rparr>)"
proof -
  note inv = live_inv_parts(2) [OF assms(1)]
  obtain p' where p': "r = Inr p'" "pool_inv p'" "length (workers p') = length (workers (lv_pool st))"
    "main p' = main (lv_pool st)"
    using worker_move_inv [OF inv assms(2,3)] by blast
  have "parts_step (lv_pool st) p'" using worker_parts [OF inv assms(2)] assms(3) p'(1) by simp
  from pool_turn [OF assms(1) p'(2) this p'(4,3)] p'(1) show ?thesis by blast
qed

lemma pool_worker_turn:
  assumes "live_inv st" "choice_safe (By_pool_worker i ws mem) st" "worker_turn i ws mem st = Some r"
  shows "\<exists>st'. r = Inr st' \<and> advances st st' \<and> moves_worker i st st'"
proof -
  let ?p = "lv_pool st"
  have i: "i < length (workers ?p)" using assms(3) by (auto simp: worker_turn_def Let_def split: if_splits)
  note inv = live_inv_parts(2) [OF assms(1)]
  show ?thesis
  proof (cases "\<exists>x. workers ?p ! i = Run x")
    case False
    then have "on_pool (worker_move i ?p) st = Some r"
      using assms(3) i by (auto simp: worker_turn_def Let_def split: worker.splits)
    then obtain r' where "worker_move i ?p = Some r'" "r = and_then r' (\<lambda>p. Inr (st\<lparr>lv_pool := p\<rparr>))"
      by (auto simp: on_pool_def)
    with pool_worker_advances [OF assms(1) i] show ?thesis by (auto simp: moves_worker_def)
  next
    case True
    then obtain x where x: "workers ?p ! i = Run x" by blast
    obtain a j where a: "x = Some a" "deref (job_heap (jobqueue ?p)) x = Inr (a, j)"
      using run_job_owner [OF _ i x] inv by (auto simp: pool_inv_def)
    then have c: "contents (job_heap (jobqueue ?p)) a = Some (payload_of j)"
      by (auto simp: deref_def contents_def split: option.splits)
    have good: "good_job (payload_of j)"
      using held_good [OF assms(1)] in_hands [OF i _ c] x a(1) by simp
    have call: "call_allowed ws mem (payload_of j) (epoll_connect_client (lv_server st))"
      using assms(2) i x a(1) c by (simp add: choice_contract_def Let_def)
    have arg: "job_arg j = \<lparr>recv_buffer = job_msg (payload_of j), arg_fd = job_sock (payload_of j)\<rparr>"
      by (simp add: payload_of_def job_msg_def job_sock_def)
    have "kept (server_of st) (respons_stb_info ws mem (job_arg j) (server_of st))"
      unfolding arg using call good live_inv_parts(5,6) [OF assms(1)]
      by (intro respons_kept) (simp_all add: call_allowed_def good_job_def job_ok_msg)
    then obtain s' where s': "respons_stb_info ws mem (job_arg j) (server_of st) = Inr s'"
      "live_inv (put_server s' st)" "live_view (put_server s' st) = live_view st" "thpool s' = jobqueue ?p"
      "flags s' = flags (lv_server st)"
      using served_view [OF assms(1)] by blast
    let ?st = "put_server s' st"
    have p: "lv_pool ?st = ?p" using s'(4) by simp
    obtain r' where r': "worker_move i ?p = Some r'" using x by (simp add: worker_move_def Let_def)
    obtain p' where p': "r' = Inr p'" "advances ?st (?st\<lparr>lv_pool := p'\<rparr>)"
      using pool_worker_advances [OF s'(2)] p i r' by auto
    have "r = Inr (?st\<lparr>lv_pool := p'\<rparr>)"
      using assms(3) i x a s'(1) r' p'(1) p by (simp add: worker_turn_def on_pool_def Let_def)
    moreover have "conns (epoll_connect_client s') = conns (epoll_connect_client (lv_server st))"
      using arg_cong [OF s'(3), of "\<lambda>v. a_conns (lw_server v)"] by (simp add: live_view_def)
    ultimately show ?thesis
      using p'(1,2) s'(3-5) p r' by (intro exI [of _ "?st\<lparr>lv_pool := p'\<rparr>"]) (simp add: advances_def moves_worker_def)
  qed
qed

end
