(* ===== verification/LiveRun.thy ===== *)
theory LiveRun
  imports LiveTurns
begin

text \<open>
  The turns of \<open>main\<close>, and whole runs of the interleaved server: every schedule refines the
  specification, and no message is lost, invented or answered twice.
\<close>

section \<open>main inside thpool_add_work and thpool_destroy\<close>

lemma not_deleting: "pool_inv p \<Longrightarrow> \<not> deleting (main p)"
  by (simp add: pool_inv_def token_inv_def)

lemma main_move_closing:
  assumes "main p \<noteq> Idle" "\<not> deleting (main p)" "main_move c p = Some (Inr p')"
  shows "closing (main p') = closing (main p)" "main p \<noteq> Destroyed"
  using assms by (cases "main p"; force simp: main_move_def Let_def split: if_splits)+

lemma adding_turn:
  assumes "live_inv st" "main (lv_pool st) = Add n" "main_move c (lv_pool st) = Some (Inr p')" "pool_inv p'"
    "workers p' = workers (lv_pool st)"
  shows "advances st (st\<lparr>lv_pool := p'\<rparr>)"
proof -
  let ?p = "lv_pool st" and ?st = "st\<lparr>lv_pool := p'\<rparr>"
  note inv = live_inv_parts [OF assms(1)]
  obtain x where x: "main_hand ?p = {#x#}" "main_hand p' = {#}" "waiting (jobqueue p') = waiting (jobqueue ?p) @ [x]"
    "hands p' = hands ?p" "calls p' = calls ?p"
    using add_parts [OF inv(2) assms(2,3)] by blast
  have c: "\<not> closing (main p')" "main ?p \<noteq> Destroyed"
    using main_move_closing [OF _ not_deleting [OF inv(2)] assms(3)] assms(2) by simp_all
  have "good_job x" using held_good [OF assms(1), of x] x(1) by simp
  then have "server_ok (server_of ?st)"
    using inv(1) x(3) pool_queue_inv [OF assms(4)] by (simp add: server_ok_def server_inv_def server_of_def good_job_def)
  moreover have "main_hand p' + account p' = main_hand ?p + account ?p"
    using x by (simp add: account_parts)
  ultimately have "live_inv ?st"
    using assms(1,2,4) c by (simp add: live_inv_def live_jobs_def)
  moreover have "live_spec (live_view st) (live_view ?st)"
    using spec_add [of "live_view st" x] x by (simp add: live_view_def abs_of_parts server_of_def)
  ultimately show ?thesis using assms(5) by (simp add: advances_def)
qed

lemma moving_turn:
  assumes "live_inv st" "main (lv_pool st) \<noteq> Idle" "on_pool (main_move Destroy (lv_pool st)) st = Some r"
  shows "\<exists>st'. r = Inr st' \<and> advances st st'"
proof -
  let ?p = "lv_pool st"
  note inv = live_inv_parts [OF assms(1)]
  obtain r' where r': "main_move Destroy ?p = Some r'" "r = and_then r' (\<lambda>p. Inr (st\<lparr>lv_pool := p\<rparr>))"
    using assms(3) by (auto simp: on_pool_def)
  obtain p' where p': "r' = Inr p'" "pool_inv p'" "workers p' = workers ?p"
    using main_move_inv [OF inv(2) _ r'(1)] by (auto simp: command_ok_def)
  note m = r'(1) [unfolded p'(1)]
  have "advances st (st\<lparr>lv_pool := p'\<rparr>)"
  proof (cases "\<exists>n. main ?p = Add n")
    case True
    then show ?thesis using adding_turn [OF assms(1) _ m p'(2,3)] by blast
  next
    case False
    let ?st = "st\<lparr>lv_pool := p'\<rparr>"
    note d = destroy_parts [OF inv(2) _ _ m]
    have parts: "main_hand p' = main_hand ?p" "hands p' = hands ?p" "calls p' = calls ?p"
      "waiting (jobqueue p') = waiting (jobqueue ?p) \<or> waiting (jobqueue p') = [] \<and> main p' = Destroyed"
      using d False by simp_all
    have c: "closing (main p') = closing (main ?p)" "main ?p \<noteq> Destroyed"
      using main_move_closing [OF assms(2) not_deleting [OF inv(2)] m] by simp_all
    have "server_ok (server_of ?st)"
      using server_ok_tail [OF inv(1) pool_queue_inv [OF p'(2)]] parts(4) by blast
    moreover have "main_hand p' + account p' \<subseteq># main_hand ?p + account ?p"
      "main p' \<noteq> Destroyed \<Longrightarrow> main_hand p' + account p' = main_hand ?p + account ?p"
      using parts by (auto simp: account_parts)
    then have "live_jobs ?st" using inv(3) c(2) by (simp add: live_jobs_def)
    ultimately have i: "live_inv ?st" using assms(1) p'(2) c(1) by (simp add: live_inv_def)
    have "live_view ?st = live_view st \<or> live_spec (live_view st) (live_view ?st)"
      using parts(4)
    proof
      assume "waiting (jobqueue p') = waiting (jobqueue ?p)"
      then show ?thesis using parts(1-3) by (simp add: live_view_def abs_of_parts server_of_def)
    next
      assume e: "waiting (jobqueue p') = [] \<and> main p' = Destroyed"
      then have "\<forall>j<length (workers p'). workers p' ! j = Done" using p'(2) by (simp add: pool_inv_def token_inv_def)
      then have "hands p' = {#}" by (rule hands_done)
      moreover have "exit_flag (lv_server st)" using e c(1) assms(1) by (simp add: live_inv_def)
      ultimately show ?thesis
        using spec_stop [of "live_view st"] parts(1-3) e by (simp add: live_view_def abs_of_parts server_of_def)
    qed
    then show ?thesis using i p'(3) by (simp add: advances_def)
  qed
  then show ?thesis using r'(2) p'(1) by simp
qed

section \<open>main at the next event\<close>

lemma touched_step:
  assumes "live_inv st" "event_env_ok e (server_of st)" "client_ok e"
  shows "\<exists>m s'. start_event i e (server_of st) = Inr (m, s') \<and> thpool s' = jobqueue (lv_pool st)
     \<and> (let s'' = (case m of None \<Rightarrow> s' | Some (k, buf) \<Rightarrow> touched e k s') in
          server_ok s'' \<and> flags s'' = flags (lv_server st)
          \<and> abs_of s'' = (abs_event e (abs_of (server_of st)))\<lparr>a_jobs := waiting (jobqueue (lv_pool st))\<rparr>)"
proof -
  let ?s = "server_of st" and ?e = "e\<lparr>ev_malloc := None\<rparr>"
  have e: "event_env_ok ?e ?s" "client_ok ?e"
    using assms(2,3) by (simp_all add: event_env_ok_def client_ok_def dump_fits_def job_of_def)
  obtain s2 where s2: "handle_event i ?e ?s = Inr s2" "server_ok s2" "abs_of s2 = abs_event ?e (abs_of ?s)"
    using event_turn [OF live_inv_parts(1) [OF assms(1)] e] by blast
  then obtain m s' where m: "start_event i e ?s = Inr (m, s')"
    "s2 = (case m of None \<Rightarrow> s' | Some (k, buf) \<Rightarrow> touched e k s')"
    unfolding handle_event_no_malloc by (auto split: option.splits)
  have "flags s2 = flags (lv_server st)" using event_flags [OF s2(1)] by simp
  moreover have "thpool s' = jobqueue (lv_pool st)" using start_event_thpool [OF m(1)] by simp
  ultimately show ?thesis using m s2(2,3) abs_event_no_malloc [of e "abs_of ?s"] by (auto simp: Let_def)
qed

text \<open>The state after an event, up to the mutex.\<close>

lemma event_step:
  assumes "live_inv st" "main (lv_pool st) = Idle" "event_env_ok e (server_of st)" "client_ok e"
    and "server_ok s''" "thpool s'' = jobqueue (lv_pool st)" "flags s'' = flags (lv_server st)"
    and "abs_of s'' = (abs_event e (abs_of (server_of st)))\<lparr>a_jobs := waiting (jobqueue (lv_pool st))\<rparr>"
    and "a_jobs (abs_event e (abs_of (server_of st))) = waiting (jobqueue (lv_pool st)) @ xs"
    and "pool_inv p'" "workers p' = workers (lv_pool st)" "hands p' = hands (lv_pool st)" "calls p' = calls (lv_pool st)"
    and "waiting (jobqueue p') = waiting (jobqueue (lv_pool st))" "main_hand p' = mset xs" "\<forall>x\<in>set xs. good_job x"
    and "\<not> closing (main p')"
    and st': "st' = st\<lparr>lv_batch := b, lv_server := s'', lv_pool := p', lv_received := lv_received st @ xs\<rparr>"
  shows "advances st st'"
proof -
  have h: "main_hand (lv_pool st) = {#}" using assms(2) by (simp add: main_hand_def)
  have fl: "exit_flag s'' = exit_flag (lv_server st)" "exit_accept_flag s'' = exit_accept_flag (lv_server st)"
    using assms(7) by (simp_all add: flags_def)
  have "server_ok (server_of st')"
    using assms(5,6,14) pool_queue_inv [OF assms(10)] unfolding st'
    by (simp add: server_ok_def server_inv_def server_of_def)
  moreover have "live_jobs st'"
    using live_inv_parts(3) [OF assms(1)] assms(2,12-16) h unfolding st'
    by (auto simp: live_jobs_def account_parts)
  ultimately have "live_inv st'"
    using assms(1,2,10,17) fl unfolding st' by (simp add: live_inv_def)
  moreover have "live_spec (live_view st) (live_view st')"
  proof -
    have "lw_adding (live_view st) = {#}" "a_jobs (abs_event e (lw_server (live_view st))) = a_jobs (lw_server (live_view st)) @ xs"
      using h assms(9) by (simp_all add: live_view_def)
    from spec_event [OF this] show ?thesis
      using assms(6,8,12-15) fl unfolding st' by (simp add: live_view_def abs_of_parts server_of_def)
  qed
  ultimately show ?thesis using assms(11) unfolding st' by (simp add: advances_def)
qed

lemma message_good:
  assumes "start_event i e s = Inr (Some (k, buf), s')" "event_env_ok e s" "client_ok e"
  shows "good_job (payload_of (new_job Respons_stb_info (ev_now e) buf (ev_fd e)))" "length buf = BUFFER_SIZE"
proof -
  obtain bs where bs: "ev_recv e = Recvd bs" "length bs < BUFLEN" "buf = bs @ replicate (BUFFER_SIZE - length bs) NUL"
    "0 \<le> ev_fd e"
    using start_event_message [OF assms(1,2)] by blast
  show l: "length buf = BUFFER_SIZE" using bs(2,3) by (simp add: BUFLEN_def BUFFER_SIZE_def)
  have p: "payload_of (new_job Respons_stb_info (ev_now e) buf (ev_fd e)) = job_of e bs"
    using l bs(3) by (simp add: payload_of_def new_job_def job_of_def)
  have "length bs \<le> 63" using assms(3) bs(1,2) by (auto simp: client_ok_def dump_fits_def)
  then have "terminated (drop 8 buf)" unfolding bs(3) by (simp add: BUFFER_SIZE_def) arith
  then have "job_ok (job_of e bs)" using l bs(3) by (simp add: job_ok_def payload_ok_def job_of_def)
  moreover have "login_ok (job_of e bs)"
    using assms(3) bs(1,4) by (auto simp: client_ok_def login_ok_def job_sock_def job_of_def)
  ultimately show "good_job (payload_of (new_job Respons_stb_info (ev_now e) buf (ev_fd e)))"
    unfolding p by (simp add: good_job_def)
qed

lemma event_turn_of_main:
  assumes "live_inv st" "main (lv_pool st) = Idle" "lv_batch st = (i, e # es)"
    and "event_env_ok e (server_of st)" "client_ok e" "main_turn t st = Some r" "lv_delete st = None"
  shows "\<exists>st'. r = Inr st' \<and> advances st st'"
proof -
  let ?p = "lv_pool st"
  note inv = live_inv_parts [OF assms(1)]
  obtain m s' where m: "start_event i e (server_of st) = Inr (m, s')" "thpool s' = jobqueue ?p"
    and s'': "(let s'' = (case m of None \<Rightarrow> s' | Some (k, buf) \<Rightarrow> touched e k s') in
          server_ok s'' \<and> flags s'' = flags (lv_server st)
          \<and> abs_of s'' = (abs_event e (abs_of (server_of st)))\<lparr>a_jobs := waiting (jobqueue ?p)\<rparr>)"
    using touched_step [OF assms(1,4,5)] by blast
  have df: "dump_fits e" using assms(5) by (simp add: client_ok_def)
  note jobs = start_event_jobs [OF m(1) inv(4) assms(4) df]
  note step = event_step [OF assms(1,2,4,5)]
  have r: "r = (let st = put_server s' (st\<lparr>lv_batch := (Suc i, es)\<rparr>) in
                 case m of
                   None \<Rightarrow> Inr st
                 | Some (k, buf) \<Rightarrow> (case start_work e k buf st of None \<Rightarrow> Inr st | Some r \<Rightarrow> r))"
    using assms(2,3,6,7) m(1) by (simp add: main_turn_def Let_def)
  have h: "main_hand ?p = {#}" using assms(2) by (simp add: main_hand_def)
  show ?thesis
  proof (cases m)
    case None
    let ?st = "st\<lparr>lv_batch := (Suc i, es), lv_server := s', lv_pool := ?p, lv_received := lv_received st @ []\<rparr>"
    have "advances st ?st"
      using s'' None m(2) jobs h assms(2) by (intro step [OF _ _ _ _ _ inv(2) _ _ _ _ _ _ _ HOL.refl]) auto
    moreover have "r = Inr ?st" using r None m(2) by (simp add: put_server_def)
    ultimately show ?thesis by blast
  next
    case (Some kb)
    then obtain k buf where kb: "m = Some (k, buf)" by (cases kb) auto
    let ?s = "touched e k s'" and ?c = "Submit_work (ev_malloc e) Respons_stb_info (ev_now e) buf (ev_fd e)"
    let ?x = "payload_of (new_job Respons_stb_info (ev_now e) buf (ev_fd e))"
    have good: "good_job ?x" "length buf = BUFFER_SIZE"
      using message_good [OF m(1) [unfolded kb] assms(4,5)] by simp_all
    have q: "?p\<lparr>jobqueue := jobqueue ?p\<rparr> = ?p" by simp
    have w: "start_work e k buf (put_server s' (st\<lparr>lv_batch := (Suc i, es)\<rparr>))
        = on_pool (main_move ?c ?p) (st\<lparr>lv_batch := (Suc i, es), lv_server := ?s, lv_pool := ?p,
            lv_received := lv_received st @ (if ev_malloc e = None then [] else [?x])\<rparr>)"
      unfolding start_work_def Let_def server_of_simps touched_def [symmetric]
      using m(2) by (simp add: put_server_def)
    show ?thesis
    proof (cases "ev_malloc e")
      case None
      let ?st = "st\<lparr>lv_batch := (Suc i, es), lv_server := ?s, lv_pool := ?p, lv_received := lv_received st @ []\<rparr>"
      have "main_move ?c ?p = Some (Inr ?p)" using assms(2) None by (simp add: main_move_def Let_def)
      then have "r = Inr ?st" unfolding r kb using w None by (simp add: on_pool_def Let_def)
      moreover have "advances st ?st"
        using s'' kb None m(2) jobs h assms(2) by (intro step [OF _ _ _ _ _ inv(2) _ _ _ _ _ _ _ HOL.refl]) (auto simp: Let_def)
      ultimately show ?thesis by blast
    next
      case (Some n)
      have n: "job_heap (jobqueue ?p) n = None"
        using assms(4) Some by (simp add: event_env_ok_def fresh_addr_def)
      have "\<exists>p. main_move ?c ?p = Some (Inr p) \<and> main p = AddLock n"
        using assms(2) Some good(2) by (simp add: main_move_def Let_def)
      then obtain p' where p': "main_move ?c ?p = Some (Inr p')" "main p' = AddLock n" by blast
      have "command_ok ?c ?p" using Some n good(2) by (simp add: command_ok_def)
      then have p'': "pool_inv p'" "workers p' = workers ?p"
        using main_move_inv [OF inv(2) _ p'(1)] by auto
      note sub = submit_parts [OF inv(2) assms(2) n good(2) p'(1) [unfolded Some]]
      let ?st = "st\<lparr>lv_batch := (Suc i, es), lv_server := ?s, lv_pool := p', lv_received := lv_received st @ [?x]\<rparr>"
      have "r = Inr ?st" unfolding r kb using w Some p'(1) by (simp add: on_pool_def Let_def)
      moreover have "advances st ?st"
        using s'' kb Some m(2) jobs p'(2) sub(2-5) good(1) p''
        by (intro step [OF _ _ _ _ _ p'' _ _ _ _ _ _ HOL.refl]) (auto simp: Let_def)
      ultimately show ?thesis by blast
    qed
  qed
qed

section \<open>main leaves its loop\<close>

definition left_loop :: "server \<Rightarrow> server" where
  "left_loop s = (if listen_fd s \<noteq> -1 then emit (closesocket (listen_fd s)) (s\<lparr>listen_fd := -1\<rparr>) else s)
     \<lparr>exit_accept_flag := True\<rparr>"

lemma main_end_left: "main_end t s ls = and_then (log_close t ls) (\<lambda>(_, ls). Inr (left_loop s, ls))"
  by (simp add: main_end_def left_loop_def Let_def)

lemma left_loop_simps [simp]:
  "thpool (left_loop s) = thpool s" "exit_flag (left_loop s) = exit_flag s" "exit_accept_flag (left_loop s) = True"
  "epoll_connect_client (left_loop s) = epoll_connect_client s" "listen_fd (left_loop s) = -1"
  "abs_of (left_loop s) = abs_of s" "server_ok (left_loop s) = server_ok s"
  by (simp_all add: left_loop_def abs_of_def server_ok_def server_inv_def)

lemma leaving_turn:
  assumes "live_inv st" "main (lv_pool st) = Idle" "lv_batch st = (i, [])" "exit_flag (lv_server st)"
    and "tm_ok t" "main_turn t st = Some r" "lv_delete st = None"
  shows "\<exists>st'. r = Inr st' \<and> advances st st'"
proof -
  let ?p = "lv_pool st"
  note inv = live_inv_parts [OF assms(1)]
  have "log_open (lv_log st)" using assms(1,2) by (simp add: live_inv_def)
  then obtain ls where ls: "log_close t (lv_log st) = Inr (0, ls)" using log_close_returns assms(5) by blast
  let ?s = "left_loop (server_of st)"
  obtain p' where p': "main_move Destroy ?p = Some (Inr p')" "closing (main p')" "main p' \<noteq> Destroyed"
    using assms(2) by (simp add: main_move_def Let_def)
  have inv': "pool_inv p'" "workers p' = workers ?p"
    using main_move_inv [OF inv(2) _ p'(1)] by (auto simp: command_ok_def)
  have parts: "main_hand p' = main_hand ?p" "hands p' = hands ?p" "calls p' = calls ?p"
    "waiting (jobqueue p') = waiting (jobqueue ?p)"
    using destroy_parts [OF inv(2) _ _ p'(1)] assms(2) p'(3) by auto
  let ?st = "st\<lparr>lv_log := ls, lv_server := ?s, lv_pool := p'\<rparr>"
  have "r = Inr ?st"
    using assms(2-4,6,7) ls p'(1) by (simp add: main_turn_def main_end_left on_pool_def put_server_def Let_def)
  moreover have "advances st ?st"
  proof -
    have ok: "server_ok (server_of ?st)"
      using inv(1) parts(4) pool_queue_inv [OF inv'(1)]
      by (simp add: server_of_def server_ok_def server_inv_def)
    have "live_inv ?st"
      using inv(3) inv'(1) parts p' assms(2-4) ok
      by (simp add: live_inv_def live_jobs_def account_parts)
    moreover have "live_view ?st = live_view st"
      using parts by (simp add: live_view_def abs_of_parts server_of_def left_loop_def)
    ultimately show ?thesis using inv'(2) by (simp add: advances_def)
  qed
  ultimately show ?thesis by blast
qed

section \<open>Runs\<close>

lemma main_thread_turn:
  assumes "live_inv st" "choice_safe (By_main_thread t) st" "main_turn t st = Some r"
  shows "\<exists>st'. r = Inr st' \<and> advances st st'"
proof (cases "main (lv_pool st) = Idle")
  case False
  then show ?thesis using moving_turn [OF assms(1)] assms(3) by (simp add: main_turn_def Let_def)
next
  case True
  note idle = True
  obtain i es where b: "lv_batch st = (i, es)" by (cases "lv_batch st")
  show ?thesis
  proof (cases "lv_delete st")
    case None
    show ?thesis
    proof (cases es)
      case Nil
      then have "exit_flag (lv_server st)"
        using assms(3) idle b None by (auto simp: main_turn_def Let_def split: if_splits)
      then show ?thesis
        using leaving_turn [OF assms(1) idle _ _ _ assms(3)] b Nil None assms(2) by (simp add: choice_contract_def Let_def)
    next
      case (Cons e es')
      then show ?thesis
        using event_turn_of_main [OF assms(1) idle _ _ _ assms(3)] b None assms(2) idle
        by (simp add: choice_contract_def Let_def)
    qed
  next
    case (Some d)
    then obtain tm curjob where d: "lv_delete st = Some (tm, curjob)" by (cases d) auto
    have t: "delete_turn tm curjob st = Some r" using assms(3) idle d by (simp add: main_turn_def Let_def)
    then have "pool_mutex (lv_pool st) = None" by (auto simp: delete_turn_def split: if_splits)
    then have "keeps_jobs tm curjob (jobqueue (lv_pool st))"
      using assms(2) idle d by (simp add: choice_contract_def Let_def)
    then show ?thesis using deleting_turn [OF assms(1) idle _ t] by simp
  qed
qed

lemma live_turn_advances:
  assumes "live_inv st" "choice_safe c st" "live_turn c st = Some r"
  shows "\<exists>st'. r = Inr st' \<and> advances st st'"
proof (cases c)
  case (By_acceptor port le e)
  then show ?thesis using acceptor_turn [OF assms(1)] assms(2,3) by (simp add: live_turn_def)
next
  case (By_wait e)
  then show ?thesis using waiting_turn [OF assms(1)] assms(3) by (simp add: live_turn_def)
next
  case (By_main_thread t)
  then show ?thesis using main_thread_turn [OF assms(1)] assms(2,3) by (simp add: live_turn_def)
next
  case (By_pool_worker i ws mem)
  then show ?thesis using pool_worker_turn [OF assms(1)] assms(2,3) by (fastforce simp: live_turn_def)
next
  case (By_signal sig)
  then show ?thesis using signal_turn [OF assms(1), of sig] assms(3) by (auto simp: live_turn_def)
qed

lemma live_step_advances:
  assumes "live_inv st" "choice_safe c st"
  shows "\<exists>st'. live_step c st = Inr st' \<and> advances st st'"
proof (cases "live_turn c st")
  case None
  then show ?thesis using assms(1) by (simp add: live_step_def advances_def)
next
  case (Some r)
  then show ?thesis using live_turn_advances [OF assms Some] by (simp add: live_step_def)
qed

interpretation live: safe_steps live_inv live_step choice_safe
  using live_step_advances by unfold_locales (fastforce simp: advances_def)

text \<open>A step of the specification or none, as many times as there are turns.\<close>

lemma run_live_refines:
  assumes "live_inv st" "steps_ok live_step choice_safe cs st"
  shows "\<exists>st'. run_live cs st = Inr st' \<and> live_inv st' \<and> live_spec\<^sup>*\<^sup>* (live_view st) (live_view st')
           \<and> length (workers (lv_pool st')) = length (workers (lv_pool st))"
  using assms
proof (induction cs arbitrary: st)
  case Nil
  then show ?case by (simp add: run_live_def)
next
  case (Cons c cs)
  obtain st1 where st1: "live_step c st = Inr st1" "advances st st1"
    using live_step_advances [OF Cons.prems(1)] Cons.prems(2) by auto
  have "live_inv st1" "steps_ok live_step choice_safe cs st1"
    using st1 Cons.prems(2) by (simp_all add: advances_def)
  then obtain st' where st': "run_live cs st1 = Inr st'" "live_inv st'"
    "live_spec\<^sup>*\<^sup>* (live_view st1) (live_view st')" "length (workers (lv_pool st')) = length (workers (lv_pool st1))"
    using Cons.IH by blast
  have "live_spec\<^sup>*\<^sup>* (live_view st) (live_view st1)" using st1(2) by (auto simp: advances_def)
  then have "live_spec\<^sup>*\<^sup>* (live_view st) (live_view st')" using st'(3) by (rule rtranclp_trans)
  then show ?case using st1 st' by (simp add: run_live_def advances_def)
qed

end
