(* ===== verification/LiveEnds.thy ===== *)
theory LiveEnds
  imports LiveRun
begin

text \<open>
  The end of the interleaved server: once a signal has set the flags, every turn of the accept
  thread, \<open>main\<close> and the workers lowers a measure, and while \<open>thpool_destroy\<close> has not returned
  some thread can move. So under every fair schedule all threads end.
\<close>

section \<open>The measure\<close>

fun accept_weight :: "accept_pc \<Rightarrow> nat" where
  "accept_weight Starting = 3"
| "accept_weight In_accept = 2"
| "accept_weight Accepting_loop = 1"
| "accept_weight Returned = 0"

fun adding_weight :: "main_pc \<Rightarrow> nat" where
  "adding_weight (AddLock n) = 10"
| "adding_weight (Add n) = 9"
| "adding_weight AddUnlock = 1"
| "adding_weight _ = 0"

text \<open>What \<open>main\<close> has still to do before \<open>thpool_destroy\<close>.\<close>

definition before_weight :: "live \<Rightarrow> nat" where
  "before_weight st = (if closing (main (lv_pool st)) then 0
     else 9 * length (workers (lv_pool st)) + 12 + adding_weight (main (lv_pool st)) + 11 * length (snd (lv_batch st))
       + (if lv_delete st = None then 0 else 1))"

definition live_measure :: "live \<Rightarrow> nat" where
  "live_measure st = pool_measure (lv_pool st) + before_weight st + accept_weight (lv_accept st)"

lemma enqueue_sem: "thpool_job_enqueue q n = Inr q' \<Longrightarrow> queueSem q' = Suc (queueSem q)"
  by (auto simp: thpool_job_enqueue_def Let_def split: if_splits)

lemma moving_measure:
  assumes "pool_inv p" "main p \<noteq> Idle" "main_move c p = Some (Inr p')"
  shows "pool_measure p' + (if closing (main p') then 0 else adding_weight (main p'))
    < pool_measure p + (if closing (main p) then 0 else adding_weight (main p))"
proof (cases "closing (main p)")
  case True
  then show ?thesis using main_move_measure [OF _ assms(3)] by simp
next
  case False
  then show ?thesis
    using assms not_deleting [OF assms(1)]
    by (cases "main p") (auto simp: main_move_def Let_def pool_measure_def dest: enqueue_sem split: if_splits)
qed

lemma move_workers: "main_move c p = Some (Inr p') \<Longrightarrow> workers p' = workers p"
  by (cases "main p"; cases c) (auto simp: main_move_def Let_def split: if_splits option.splits)

lemma deleting_sem: "timeout_loop tm time_out curjob n q = Inr (m, q') \<Longrightarrow> queueSem q' = queueSem q"
proof (induction tm time_out curjob n q rule: timeout_loop.induct)
  case (1 tm time_out curjob n q)
  then show ?case
    by (auto simp: timeout_loop.simps [of tm time_out curjob n q] split: if_splits option.splits)
qed

text \<open>The next event: the batch gets shorter by one, the pool at most allocates a job.\<close>

lemma main_event_form:
  assumes "main_turn t st = Some (Inr st')" "main (lv_pool st) = Idle" "lv_batch st = (i, e # es)" "lv_delete st = None"
  shows "lv_batch st' = (Suc i, es) \<and> lv_delete st' = None \<and> lv_accept st' = lv_accept st \<and> exit_flag (lv_server st') = exit_flag (lv_server st)
    \<and> workers (lv_pool st') = workers (lv_pool st) \<and> queueSem (jobqueue (lv_pool st')) = queueSem (jobqueue (lv_pool st))
    \<and> (main (lv_pool st') = Idle \<or> (\<exists>n. main (lv_pool st') = AddLock n))"
proof -
  obtain m s' where m: "start_event i e (server_of st) = Inr (m, s')"
    "(let st = put_server s' (st\<lparr>lv_batch := (Suc i, es)\<rparr>) in
        case m of None \<Rightarrow> Inr st
        | Some (k, buf) \<Rightarrow> (case start_work e k buf st of None \<Rightarrow> Inr st | Some r \<Rightarrow> r)) = Inr st'"
    using assms by (auto simp: main_turn_def Let_def)
  have q: "thpool s' = jobqueue (lv_pool st)" "exit_flag s' = exit_flag (lv_server st)"
    using start_event_thpool [OF m(1)] start_event_flags [OF m(1)] by (simp_all add: flags_def)
  show ?thesis
  proof (cases m)
    case None
    then show ?thesis using m(2) q assms(2,4) by (auto simp: Let_def)
  next
    case (Some kb)
    obtain k buf where "m = Some (k, buf)" using Some by (cases kb) auto
    then show ?thesis
      using m(2) q assms(2,4)
      by (cases "ev_malloc e")
        (auto simp: Let_def start_work_def on_pool_def main_move_def split: if_splits)
  qed
qed

lemma deleting_measure:
  assumes "delete_turn tm curjob st = Some (Inr st')" "main (lv_pool st) = Idle" "lv_delete st \<noteq> None"
  shows "live_measure st' < live_measure st \<and> exit_flag (lv_server st') = exit_flag (lv_server st)"
proof -
  obtain n q where t: "timeout_loop tm SERVER_TIMEOUT curjob 0 (jobqueue (lv_pool st)) = Inr (n, q)"
    "lv_pool st' = (lv_pool st)\<lparr>jobqueue := q\<rparr>" "lv_batch st' = lv_batch st" "lv_accept st' = lv_accept st"
    "lv_delete st' = None" "exit_flag (lv_server st') = exit_flag (lv_server st)"
    using assms(1) by (auto simp: delete_turn_def emit_def connect_total_count_sub_def split: if_splits)
  show ?thesis
    using t(2-6) assms(2,3) deleting_sem [OF t(1)] by (simp add: live_measure_def before_weight_def pool_measure_def)
qed

lemma main_turn_measure:
  assumes "live_inv st" "main_turn t st = Some (Inr st')"
  shows "live_measure st' < live_measure st" "exit_flag (lv_server st') = exit_flag (lv_server st)"
proof -
  let ?p = "lv_pool st"
  note inv = live_inv_parts [OF assms(1)]
  have "live_measure st' < live_measure st \<and> exit_flag (lv_server st') = exit_flag (lv_server st)"
  proof (cases "main ?p = Idle")
    case False
    then obtain p' where p': "main_move Destroy ?p = Some (Inr p')" "st' = st\<lparr>lv_pool := p'\<rparr>"
      using assms(2) by (auto simp: main_turn_def on_pool_def Let_def)
    have "closing (main p') = closing (main ?p)"
      using main_move_closing [OF False not_deleting [OF inv(2)] p'(1)] by simp
    then show ?thesis
      using moving_measure [OF inv(2) False p'(1)] move_workers [OF p'(1)]
      by (auto simp: p'(2) live_measure_def before_weight_def split: if_splits)
  next
    case True
    note idle = True
    obtain i es where b: "lv_batch st = (i, es)" by (cases "lv_batch st")
    show ?thesis
    proof (cases "lv_delete st")
      case (Some d)
      then obtain tm curjob where "delete_turn tm curjob st = Some (Inr st')"
        using assms(2) idle by (cases d) (simp add: main_turn_def Let_def)
      then show ?thesis using deleting_measure idle Some by auto
    next
      case None
      show ?thesis
      proof (cases es)
        case (Cons e es')
        note f = main_event_form [OF assms(2) idle b [unfolded Cons] None]
        then have "pool_measure (lv_pool st') = pool_measure ?p" using idle by (auto simp: pool_measure_def)
        then show ?thesis using f idle b Cons None by (auto simp: live_measure_def before_weight_def)
      next
        case Nil
        then obtain s ls p' where st': "main_end t (server_of st) (lv_log st) = Inr (s, ls)"
          "main_move Destroy ((lv_pool st)\<lparr>jobqueue := thpool s\<rparr>) = Some (Inr p')"
          "st' = (put_server s (st\<lparr>lv_log := ls\<rparr>))\<lparr>lv_pool := p'\<rparr>"
          using assms(2) idle b None by (auto simp: main_turn_def on_pool_def main_move_def Let_def split: if_splits)
        have s: "s = left_loop (server_of st)" using st'(1) by (auto simp: main_end_left)
        have p': "p' = ?p\<lparr>main := Post (length (workers ?p) + 1), thpool_keepalive := False\<rparr>"
          using st'(2) idle by (simp add: s main_move_def Let_def)
        show ?thesis using idle b Nil None
          by (simp add: st'(3) p' s live_measure_def before_weight_def pool_measure_def)
      qed
    qed
  qed
  then show "live_measure st' < live_measure st" "exit_flag (lv_server st') = exit_flag (lv_server st)" by simp_all
qed

lemma worker_turn_measure:
  assumes "moves_worker i st st'" "i < length (workers (lv_pool st))" "live_inv st"
  shows "live_measure st' < live_measure st" "exit_flag (lv_server st') = exit_flag (lv_server st)"
proof -
  have m: "worker_move i (lv_pool st) = Some (Inr (lv_pool st'))" using assms(1) by (simp add: moves_worker_def)
  have "main (lv_pool st') = main (lv_pool st)" "length (workers (lv_pool st')) = length (workers (lv_pool st))"
    using worker_move_inv [OF live_inv_parts(2) [OF assms(3)] assms(2) m] by auto
  then show "live_measure st' < live_measure st"
    using worker_move_measure [OF assms(2) m] assms(1)
    by (simp add: live_measure_def before_weight_def moves_worker_def)
  show "exit_flag (lv_server st') = exit_flag (lv_server st)"
    using assms(1) by (simp add: moves_worker_def flags_def)
qed

lemma accept_turn_measure:
  assumes "live_inv st" "exit_flag (lv_server st)" "accept_turn_of port le e st = Some (Inr st')"
  shows "live_measure st' < live_measure st" "exit_flag (lv_server st')"
proof -
  have fl: "exit_accept_flag (lv_server st)" using live_flags [OF assms(1)] assms(2) by simp
  have "\<exists>s a. st' = put_server s (st\<lparr>lv_accept := a\<rparr>) \<and> thpool s = jobqueue (lv_pool st) \<and> exit_flag s
      \<and> accept_weight a < accept_weight (lv_accept st)"
  proof (cases "lv_accept st")
    case Starting
    obtain ok s where "accept_setup port le (server_of st) = (ok, s)" by (cases "accept_setup port le (server_of st)")
    moreover have "thpool s = jobqueue (lv_pool st)" "exit_flag s"
      using calculation assms(2) by (auto simp: accept_setup_def Let_def split: if_splits)
    ultimately show ?thesis
      using assms(3) Starting
      by (intro exI [of _ s] exI [of _ "if ok then Accepting_loop else Returned"])
        (simp add: accept_turn_of_def Let_def)
  next
    case Accepting_loop
    then show ?thesis
      using assms(2,3) fl
      by (intro exI [of _ "close_listen (server_of st)"] exI [of _ Returned]) (simp add: accept_turn_of_def Let_def)
  next
    case In_accept
    then obtain s where s: "accept_returned e (server_of st) = Inr s"
      "st' = put_server s (st\<lparr>lv_accept := Accepting_loop\<rparr>)"
      using assms(3) by (auto simp: accept_turn_of_def Let_def)
    have "thpool s = jobqueue (lv_pool st)" "exit_flag s"
      using returned_thpool [OF s(1)] returned_flags [OF s(1)] assms(2) by (simp_all add: flags_def)
    then show ?thesis
      using s(2) In_accept by (intro exI [of _ s] exI [of _ Accepting_loop]) simp
  qed (use assms(3) in \<open>simp add: accept_turn_of_def Let_def\<close>)
  then obtain s a where s: "st' = put_server s (st\<lparr>lv_accept := a\<rparr>)" "thpool s = jobqueue (lv_pool st)" "exit_flag s"
    "accept_weight a < accept_weight (lv_accept st)"
    by blast
  have "before_weight st' = before_weight st" "pool_measure (lv_pool st') = pool_measure (lv_pool st)"
    using s(1,2) by (simp_all add: before_weight_def)
  then show "live_measure st' < live_measure st" "exit_flag (lv_server st')"
    using s(1,3,4) by (simp_all add: live_measure_def)
qed

section \<open>Who is blocked\<close>

text \<open>The parts of the state on which it depends, once the flags are set.\<close>

definition same_threads :: "live \<Rightarrow> live \<Rightarrow> bool" where
  "same_threads st st' \<longleftrightarrow> lv_pool st' = lv_pool st \<and> lv_batch st' = lv_batch st \<and> lv_delete st' = lv_delete st
     \<and> lv_accept st' = lv_accept st \<and> exit_flag (lv_server st) \<and> exit_flag (lv_server st')"

definition thread_blocked :: "live_choice \<Rightarrow> live \<Rightarrow> bool" where
  "thread_blocked c st =
     (case c of
        By_acceptor port le e \<Rightarrow> lv_accept st = Returned
      | By_main_thread t \<Rightarrow>
          if main (lv_pool st) = Idle then lv_delete st \<noteq> None \<and> pool_mutex (lv_pool st) \<noteq> None
          else main_move Destroy (lv_pool st) = None
      | By_pool_worker i ws mem \<Rightarrow> i < length (workers (lv_pool st)) \<longrightarrow> worker_move i (lv_pool st) = None
      | _ \<Rightarrow> True)"

lemma same_threads_blocked: "same_threads st st' \<Longrightarrow> thread_blocked c st' = thread_blocked c st"
  by (cases c) (simp_all add: same_threads_def thread_blocked_def)

lemma same_threads_measure: "same_threads st st' \<Longrightarrow> live_measure st' = live_measure st"
  by (simp add: same_threads_def live_measure_def before_weight_def)

lemma blocked_iff:
  assumes "exit_flag (lv_server st)" "live_turn c st = None"
  shows "thread_blocked c st"
proof (cases c)
  case (By_acceptor port le e)
  then show ?thesis using assms
    by (auto simp: live_turn_def accept_turn_of_def thread_blocked_def Let_def
        split: accept_pc.splits if_splits prod.splits)
next
  case (By_main_thread t)
  obtain i es where "lv_batch st = (i, es)" by (cases "lv_batch st")
  then show ?thesis using assms By_main_thread
    by (cases es)
      (auto simp: live_turn_def main_turn_def on_pool_def delete_turn_def thread_blocked_def Let_def
        split: if_splits option.splits)
next
  case (By_pool_worker i ws mem)
  then show ?thesis using assms
    by (auto simp: live_turn_def worker_turn_def on_pool_def thread_blocked_def Let_def split: if_splits worker.splits)
qed (simp_all add: thread_blocked_def)

text \<open>A turn after the signal lowers the measure, or nothing of this changes.\<close>

lemma ending_step:
  assumes "live_inv st" "exit_flag (lv_server st)" "choice_safe c st"
  shows "\<exists>st'. live_step c st = Inr st' \<and> live_inv st' \<and> exit_flag (lv_server st')
    \<and> length (workers (lv_pool st')) = length (workers (lv_pool st))
    \<and> (live_measure st' < live_measure st \<or> same_threads st st' \<and> thread_blocked c st)"
proof (cases "live_turn c st")
  case None
  then show ?thesis
    using assms blocked_iff [OF assms(2) None] by (simp add: live_step_def same_threads_def)
next
  case (Some r)
  obtain st' where st': "r = Inr st'" "advances st st'" using live_turn_advances [OF assms(1,3) Some] by blast
  note t = Some [unfolded st'(1)]
  have "exit_flag (lv_server st') \<and> (live_measure st' < live_measure st \<or> same_threads st st' \<and> thread_blocked c st)"
  proof (cases c)
    case (By_acceptor port le e)
    then show ?thesis using accept_turn_measure [OF assms(1,2)] t by (simp add: live_turn_def)
  next
    case (By_wait e)
    then show ?thesis using t assms(2) by (simp add: live_turn_def wait_turn_def Let_def)
  next
    case (By_main_thread u)
    then show ?thesis using main_turn_measure [OF assms(1)] assms(2) t by (simp add: live_turn_def)
  next
    case (By_pool_worker i ws mem)
    then have w: "worker_turn i ws mem st = Some (Inr st')" using t by (simp add: live_turn_def)
    then have "i < length (workers (lv_pool st))" by (auto simp: worker_turn_def Let_def split: if_splits)
    then show ?thesis
      using pool_worker_turn [OF assms(1) _ w] worker_turn_measure [OF _ _ assms(1)] assms(2,3) By_pool_worker by auto
  next
    case (By_signal sig)
    then show ?thesis
      using t assms(2) by (auto simp: live_turn_def same_threads_def thread_blocked_def signal_handler_reboot_def Let_def)
  qed
  then show ?thesis using Some st' by (simp add: live_step_def advances_def)
qed

section \<open>No deadlock\<close>

lemma ending_not_stuck:
  assumes "live_inv st" "thread_blocked (By_main_thread t) st"
    and "\<And>i. i < length (workers (lv_pool st)) \<Longrightarrow> \<exists>ws mem. thread_blocked (By_pool_worker i ws mem) st"
  shows "main (lv_pool st) = Destroyed" "\<forall>w\<in>set (workers (lv_pool st)). w = Done"
proof -
  let ?p = "lv_pool st"
  note inv = live_inv_parts(2) [OF assms(1)]
  have w: "worker_move i ?p = None" if "i < length (workers ?p)" for i
    using assms(3) [OF that] that by (simp add: thread_blocked_def)
  have mi: "mutex_inv ?p" using inv by (simp add: pool_inv_def)
  have free: "pool_mutex ?p = None \<or> pool_mutex ?p = Some Main"
  proof (rule ccontr)
    assume "\<not> (pool_mutex ?p = None \<or> pool_mutex ?p = Some Main)"
    then obtain j where j: "pool_mutex ?p = Some (Worker j)" by (metis option.exhaust thread.exhaust)
    then have "j < length (workers ?p)" "in_crit (workers ?p ! j)" using mi unfolding mutex_inv_def by blast+
    then show False using w [of j] worker_blocked [of j ?p] by auto
  qed
  have "main ?p \<noteq> Idle"
    using assms(2) free mi by (auto simp: thread_blocked_def mutex_inv_def)
  then have m: "main ?p \<noteq> Idle" "main_move Destroy ?p = None" using assms(2) by (simp_all add: thread_blocked_def)
  have "closing (main ?p)"
  proof (rule ccontr)
    assume nc: "\<not> closing (main ?p)"
    then obtain n where a: "main ?p = AddLock n" "pool_mutex ?p \<noteq> None"
      using m not_deleting [OF inv] by (cases "main ?p") (auto simp: main_move_def Let_def split: if_splits)
    then have "pool_mutex ?p \<noteq> Some Main" using mi by (simp add: mutex_inv_def)
    then show False using a(2) free by simp
  qed
  then show d: "main ?p = Destroyed"
    using closing_not_stuck [OF inv, of Destroy] m(2) w by fastforce
  have "\<forall>j<length (workers ?p). workers ?p ! j = Done" using inv d by (simp add: pool_inv_def token_inv_def)
  then show "\<forall>w\<in>set (workers ?p). w = Done" by (metis in_set_conv_nth)
qed

section \<open>Fair schedules\<close>

text \<open>A round in which \<open>main\<close>, the accept thread and \<open>n\<close> workers all get a turn, among any others.\<close>

definition fair_round :: "nat \<Rightarrow> live_choice list \<Rightarrow> bool" where
  "fair_round n cs \<longleftrightarrow> (\<exists>t. By_main_thread t \<in> set cs) \<and> (\<exists>port le e. By_acceptor port le e \<in> set cs)
     \<and> (\<forall>i<n. \<exists>ws mem. By_pool_worker i ws mem \<in> set cs)"

lemma run_live_append: "run_live (cs @ ds) st = and_then (run_live cs st) (run_live ds)"
  by (simp add: run_live_def run_steps_append)

lemma ending_run:
  assumes "live_inv st" "exit_flag (lv_server st)" "steps_ok live_step choice_safe cs st"
  shows "\<exists>st'. run_live cs st = Inr st' \<and> live_inv st' \<and> exit_flag (lv_server st')
    \<and> length (workers (lv_pool st')) = length (workers (lv_pool st))
    \<and> (live_measure st' < live_measure st \<or> same_threads st st' \<and> (\<forall>c\<in>set cs. thread_blocked c st))"
  using assms
proof (induction cs arbitrary: st)
  case Nil
  then show ?case by (simp add: run_live_def same_threads_def)
next
  case (Cons c cs)
  obtain st1 where st1: "live_step c st = Inr st1" "live_inv st1" "exit_flag (lv_server st1)"
    "length (workers (lv_pool st1)) = length (workers (lv_pool st))"
    "live_measure st1 < live_measure st \<or> same_threads st st1 \<and> thread_blocked c st"
    using ending_step [OF Cons.prems(1,2)] Cons.prems(3) by auto
  have "steps_ok live_step choice_safe cs st1" using Cons.prems(3) st1(1) by simp
  then obtain st' where st': "run_live cs st1 = Inr st'" "live_inv st'" "exit_flag (lv_server st')"
    "length (workers (lv_pool st')) = length (workers (lv_pool st1))"
    "live_measure st' < live_measure st1 \<or> same_threads st1 st' \<and> (\<forall>c\<in>set cs. thread_blocked c st1)"
    using Cons.IH [OF st1(2,3)] by blast
  have "live_measure st' < live_measure st \<or> same_threads st st' \<and> (\<forall>c\<in>set (c # cs). thread_blocked c st)"
  proof (cases "live_measure st1 < live_measure st")
    case True
    then show ?thesis using st'(5) same_threads_measure [of st1 st'] by auto
  next
    case False
    then have s: "same_threads st st1" "thread_blocked c st" using st1(5) by auto
    show ?thesis using st'(5)
    proof
      assume "live_measure st' < live_measure st1"
      then show ?thesis using same_threads_measure [OF s(1)] by simp
    next
      assume "same_threads st1 st' \<and> (\<forall>c\<in>set cs. thread_blocked c st1)"
      then show ?thesis using s same_threads_blocked [OF s(1)] by (simp add: same_threads_def)
    qed
  qed
  with st1 st' show ?case by (simp add: run_live_def)
qed

definition all_ended :: "live \<Rightarrow> bool" where
  "all_ended st \<longleftrightarrow> main (lv_pool st) = Destroyed \<and> (\<forall>w\<in>set (workers (lv_pool st)). w = Done)
     \<and> lv_accept st = Returned"

lemma stuck_ended:
  assumes "live_inv st" "fair_round (length (workers (lv_pool st))) cs" "\<forall>c\<in>set cs. thread_blocked c st"
  shows "all_ended st"
proof -
  obtain t where t: "By_main_thread t \<in> set cs" using assms(2) unfolding fair_round_def by blast
  obtain port le e where a: "By_acceptor port le e \<in> set cs" using assms(2) unfolding fair_round_def by blast
  have w: "\<exists>ws mem. thread_blocked (By_pool_worker i ws mem) st" if "i < length (workers (lv_pool st))" for i
    using assms(2,3) that unfolding fair_round_def by blast
  have m: "thread_blocked (By_main_thread t) st" using assms(3) t by blast
  have "lv_accept st = Returned" using assms(3) a by (auto simp: thread_blocked_def)
  then show ?thesis using ending_not_stuck [OF assms(1) m w] by (simp add: all_ended_def)
qed

text \<open>Once all threads have ended, nothing of this changes any more.\<close>

lemma ended_blocked: "all_ended st \<Longrightarrow> thread_blocked c st"
proof (cases c)
  case (By_pool_worker i ws mem)
  assume "all_ended st"
  then have "workers (lv_pool st) ! i = Done" if "i < length (workers (lv_pool st))"
    using that nth_mem by (auto simp: all_ended_def)
  then show ?thesis using By_pool_worker by (auto simp: thread_blocked_def worker_move_def Let_def)
qed (auto simp: all_ended_def thread_blocked_def main_move_def Let_def)

lemma blocked_turn:
  assumes "thread_blocked c st" "exit_flag (lv_server st)"
  shows "live_turn c st = None \<or> (\<exists>sig. c = By_signal sig)"
proof (cases c)
  case (By_pool_worker i ws mem)
  have "workers (lv_pool st) ! i \<noteq> Run x" if "worker_move i (lv_pool st) = None" for x
    using that by (auto simp: worker_move_def Let_def)
  then show ?thesis using assms By_pool_worker
    by (auto simp: live_turn_def worker_turn_def thread_blocked_def on_pool_def Let_def split: worker.split)
qed (use assms in \<open>auto simp: live_turn_def accept_turn_of_def wait_turn_def main_turn_def delete_turn_def thread_blocked_def on_pool_def Let_def split: if_splits\<close>)

lemma ended_run:
  assumes "all_ended st" "exit_flag (lv_server st)"
  shows "\<exists>st'. run_live cs st = Inr st' \<and> same_threads st st'"
  using assms
proof (induction cs arbitrary: st)
  case Nil
  then show ?case by (simp add: run_live_def same_threads_def)
next
  case (Cons c cs)
  have "\<exists>st1. live_step c st = Inr st1 \<and> same_threads st st1"
    using blocked_turn [OF ended_blocked [OF Cons.prems(1)] Cons.prems(2), of c] Cons.prems(2)
    by (auto simp: live_step_def live_turn_def same_threads_def signal_handler_reboot_def Let_def)
  then obtain st1 where st1: "live_step c st = Inr st1" "same_threads st st1" by blast
  then have "all_ended st1" "exit_flag (lv_server st1)"
    using Cons.prems(1) by (simp_all add: same_threads_def all_ended_def)
  then obtain st' where "run_live cs st1 = Inr st'" "same_threads st1 st'" using Cons.IH by blast
  with st1 show ?case by (auto simp: run_live_def same_threads_def)
qed

lemma fair_rounds_end:
  assumes "live_inv st" "exit_flag (lv_server st)" "\<forall>cs\<in>set rounds. fair_round (length (workers (lv_pool st))) cs"
    and "steps_ok live_step choice_safe (concat rounds) st" "live_measure st < length rounds"
  shows "\<exists>st'. run_live (concat rounds) st = Inr st' \<and> live_inv st' \<and> all_ended st'"
  using assms
proof (induction rounds arbitrary: st)
  case (Cons cs rounds)
  have ok: "steps_ok live_step choice_safe cs st" using Cons.prems(4) by (simp add: steps_ok_append)
  obtain st1 where st1: "run_live cs st = Inr st1" "live_inv st1" "exit_flag (lv_server st1)"
    "length (workers (lv_pool st1)) = length (workers (lv_pool st))"
    "live_measure st1 < live_measure st \<or> same_threads st st1 \<and> (\<forall>c\<in>set cs. thread_blocked c st)"
    using ending_run [OF Cons.prems(1,2) ok] by blast
  have ok1: "steps_ok live_step choice_safe (concat rounds) st1"
    using Cons.prems(4) st1(1) by (simp add: steps_ok_append run_live_def)
  show ?case
  proof (cases "live_measure st1 < live_measure st")
    case True
    then have "\<exists>st'. run_live (concat rounds) st1 = Inr st' \<and> live_inv st' \<and> all_ended st'"
      using Cons.IH [OF st1(2,3) _ ok1] Cons.prems(3,5) st1(4) by simp
    then show ?thesis using st1(1) by (simp add: run_live_append)
  next
    case False
    then have s: "same_threads st st1" "\<forall>c\<in>set cs. thread_blocked c st" using st1(5) by auto
    have "all_ended st" using stuck_ended [OF Cons.prems(1) _ s(2)] Cons.prems(3) by simp
    then have e1: "all_ended st1" using s(1) by (simp add: same_threads_def all_ended_def)
    obtain st' where st': "run_live (concat rounds) st1 = Inr st'" "same_threads st1 st'"
      using ended_run [OF e1 st1(3)] by blast
    have "live_inv st'"
      using ending_run [OF st1(2,3) ok1] st'(1) by auto
    moreover have "all_ended st'" using st'(2) e1 by (simp add: same_threads_def all_ended_def)
    ultimately show ?thesis using st1(1) st' by (simp add: run_live_append)
  qed
qed simp

end
