(* ===== verification/LiveWhole.thy ===== *)
theory LiveWhole
  imports LiveEnds SampleRun
begin

text \<open>
  The two granularities agree: a thread that is not disturbed does in its moves exactly what
  \<open>handle_event\<close> and \<open>worker_step\<close> do in one turn. The sample states of the interleaved server
  follow, and its runs from the start of \<open>main\<close>.
\<close>

section \<open>Outcomes\<close>

text \<open>A run of the interleaved server ends as a turn of the server does, errors included.\<close>

definition same_outcome :: "server result \<Rightarrow> live result \<Rightarrow> bool" where
  "same_outcome r R = (case R of Inl e \<Rightarrow> r = Inl e | Inr st \<Rightarrow> r = Inr (server_of st))"

lemma same_outcome_simps [simp]:
  "same_outcome r (Inl e) = (r = Inl e)"
  "same_outcome r (Inr st) = (r = Inr (server_of st))"
  by (simp_all add: same_outcome_def)

lemma run_live_simps [simp]:
  "run_live [] st = Inr st"
  "run_live (c # cs) st = and_then (live_step c st) (run_live cs)"
  by (simp_all add: run_live_def)

lemma server_of_pool: "server_of (st\<lparr>lv_pool := p\<rparr>) = (lv_server st)\<lparr>thpool := jobqueue p\<rparr>"
  by (simp add: server_of_def)

section \<open>An event\<close>

lemma step_main_moving:
  assumes "main (lv_pool st) \<noteq> Idle" "main_move Destroy (lv_pool st) = Some r"
  shows "live_step (By_main_thread t) st = and_then r (\<lambda>p. Inr (st\<lparr>lv_pool := p\<rparr>))"
  using assms by (simp add: live_step_def live_turn_def main_turn_def on_pool_def Let_def)

text \<open>The three moves from the mutex to its release.\<close>

lemma adding_moves:
  assumes "main (lv_pool st) = AddLock n" "pool_mutex (lv_pool st) = None"
  shows "run_live (replicate 3 (By_main_thread t)) st =
    and_then (thpool_job_enqueue (jobqueue (lv_pool st)) n) (\<lambda>q.
      Inr (st\<lparr>lv_pool := (lv_pool st)\<lparr>main := Idle, jobqueue := q, pool_mutex := None\<rparr>\<rparr>))"
proof -
  let ?p1 = "(lv_pool st)\<lparr>main := Add n, pool_mutex := Some Main\<rparr>"
  have 1: "live_step (By_main_thread t) st = Inr (st\<lparr>lv_pool := ?p1\<rparr>)"
    using assms step_main_moving [of st "Inr ?p1" t] by (simp add: main_move_def Let_def)
  show ?thesis
  proof (cases "thpool_job_enqueue (jobqueue (lv_pool st)) n")
    case (Inl e)
    then have "live_step (By_main_thread t) (st\<lparr>lv_pool := ?p1\<rparr>) = Inl e"
      using step_main_moving [of "st\<lparr>lv_pool := ?p1\<rparr>" "Inl e" t] by (simp add: main_move_def Let_def)
    then show ?thesis using 1 Inl by (simp add: numeral_3_eq_3)
  next
    case (Inr q)
    let ?p2 = "?p1\<lparr>main := AddUnlock, jobqueue := q\<rparr>" and ?p3 = "?p1\<lparr>main := Idle, jobqueue := q, pool_mutex := None\<rparr>"
    have 2: "live_step (By_main_thread t) (st\<lparr>lv_pool := ?p1\<rparr>) = Inr (st\<lparr>lv_pool := ?p2\<rparr>)"
      using step_main_moving [of "st\<lparr>lv_pool := ?p1\<rparr>" "Inr ?p2" t] Inr by (simp add: main_move_def Let_def)
    have 3: "live_step (By_main_thread t) (st\<lparr>lv_pool := ?p2\<rparr>) = Inr (st\<lparr>lv_pool := ?p3\<rparr>)"
      using step_main_moving [of "st\<lparr>lv_pool := ?p2\<rparr>" "Inr ?p3" t] by (simp add: main_move_def Let_def)
    show ?thesis using 1 2 3 Inr by (simp add: numeral_3_eq_3)
  qed
qed

lemma event_moves:
  assumes "main (lv_pool st) = Idle" "pool_mutex (lv_pool st) = None" "lv_batch st = (i, e # es)" "lv_delete st = None"
  shows "\<exists>n\<le>4. same_outcome (handle_event i e (server_of st)) (run_live (replicate n (By_main_thread t)) st)"
proof -
  have one: "run_live (replicate 1 (By_main_thread t)) st = live_step (By_main_thread t) st"
    by (simp add: and_then_def split: sum.split)
  have step: "live_step (By_main_thread t) st = and_then (start_event i e (server_of st)) (\<lambda>(m, s).
      let st = put_server s (st\<lparr>lv_batch := (Suc i, es)\<rparr>) in
      case m of None \<Rightarrow> Inr st | Some (k, buf) \<Rightarrow> (case start_work e k buf st of None \<Rightarrow> Inr st | Some r \<Rightarrow> r))"
    using assms(1,3,4) by (simp add: live_step_def live_turn_def main_turn_def Let_def)
  show ?thesis
  proof (cases "start_event i e (server_of st)")
    case (Inl err)
    then show ?thesis using one step by (intro exI [of _ 1]) (simp add: handle_event_start)
  next
    case (Inr ms)
    then obtain m s where ms: "start_event i e (server_of st) = Inr (m, s)" by (cases ms) auto
    let ?st = "put_server s (st\<lparr>lv_batch := (Suc i, es)\<rparr>)"
    show ?thesis
    proof (cases m)
      case None
      then show ?thesis using one step ms by (intro exI [of _ 1]) (simp add: handle_event_start)
    next
      case (Some kb)
      then obtain k buf where kb: "m = Some (k, buf)" by (cases kb) auto
      let ?q = "thpool s" and ?j = "new_job Respons_stb_info (ev_now e) buf (ev_fd e)"
      have h: "handle_event i e (server_of st) = and_then (add_job (ev_malloc e) Respons_stb_info (ev_now e) buf (ev_fd e) ?q)
          (\<lambda>(_, q). Inr ((touched e k s)\<lparr>thpool := q\<rparr>))"
        unfolding handle_event_start ms kb
        by (simp add: thpool_add_work_def touched_def Let_def and_then_def split: sum.split)
      show ?thesis
      proof (cases "ev_malloc e")
        case None
        have "touched e k s\<lparr>thpool := thpool s\<rparr> = touched e k s" by (simp add: touched_def)
        then show ?thesis
          using one step ms kb None h assms(1)
          by (intro exI [of _ 1])
            (simp add: start_work_def on_pool_def main_move_def add_job_def touched_def server_of_pool Let_def)
      next
        case (Some n)
        show ?thesis
        proof (cases "length buf < BUFFER_SIZE")
          case True
          then show ?thesis
            using one step ms kb Some h assms(1)
            by (intro exI [of _ 1]) (simp add: start_work_def on_pool_def main_move_def add_job_def Let_def)
        next
          case False
          let ?q1 = "?q\<lparr>job_heap := (job_heap ?q)(n \<mapsto> ?j)\<rparr>"
          obtain st1 where st1: "live_step (By_main_thread t) st = Inr st1"
            "lv_pool st1 = (lv_pool st)\<lparr>main := AddLock n, jobqueue := ?q1\<rparr>" "lv_server st1 = touched e k s"
            using step ms kb Some False assms(1)
            by (simp add: start_work_def on_pool_def main_move_def touched_def Let_def)
          have "run_live (replicate 4 (By_main_thread t)) st = run_live (replicate 3 (By_main_thread t)) st1"
            using st1(1) by (simp add: eval_nat_numeral)
          also have "\<dots> = and_then (thpool_job_enqueue ?q1 n) (\<lambda>q.
              Inr (st1\<lparr>lv_pool := (lv_pool st1)\<lparr>main := Idle, jobqueue := q, pool_mutex := None\<rparr>\<rparr>))"
            using adding_moves [of st1 n t] st1(2) assms(2) by simp
          finally have "same_outcome (handle_event i e (server_of st)) (run_live (replicate 4 (By_main_thread t)) st)"
            using h Some False st1(3)
            by (cases "thpool_job_enqueue ?q1 n") (simp_all add: add_job_def server_of_pool)
          then show ?thesis by blast
        qed
      qed
    qed
  qed
qed

section \<open>The recycling\<close>

lemma recycle_moves:
  assumes "main (lv_pool st) = Idle" "pool_mutex (lv_pool st) = None" "lv_delete st = None" "snd (lv_batch st) = []"
    and "\<not> exit_flag (lv_server st)" "recycle_due (lo_now e) (lv_time st)"
  shows "same_outcome (recycle_timeout_confd (lo_now e) (lo_tm e) (lo_del e)
      (emit [Print (''60s detect one time =====>'' @ nl)] (server_of st))) (run_live [By_wait e, By_main_thread t] st)"
proof -
  let ?s = "emit [Print (''60s detect one time =====>'' @ nl)] (server_of st)"
  have w: "live_step (By_wait e) st = and_then (recycle_slots (lo_now e) (lo_del e) [0..<MAX_EVENTS] ?s)
      (\<lambda>s. Inr (put_server s (st\<lparr>lv_time := lo_now e, lv_batch := (0, lo_events e),
                                   lv_delete := Some (lo_tm e, q_tail (thpool s))\<rparr>)))"
    using assms by (simp add: live_step_def live_turn_def wait_turn_def Let_def)
  show ?thesis
  proof (cases "recycle_slots (lo_now e) (lo_del e) [0..<MAX_EVENTS] ?s")
    case (Inl err)
    then show ?thesis using w by (simp add: recycle_timeout_confd_def)
  next
    case (Inr s)
    let ?st = "put_server s (st\<lparr>lv_time := lo_now e, lv_batch := (0, lo_events e),
                                lv_delete := Some (lo_tm e, q_tail (thpool s))\<rparr>)"
    have d: "live_step (By_main_thread t) ?st
        = (case delete_turn (lo_tm e) (q_tail (thpool s)) ?st of None \<Rightarrow> Inr ?st | Some r \<Rightarrow> r)"
      using assms(1) by (simp add: live_step_def live_turn_def main_turn_def Let_def)
    show ?thesis
      using w Inr d assms(2)
      by (cases "timeout_loop (lo_tm e) SERVER_TIMEOUT (q_tail (thpool s)) 0 (thpool s)")
        (auto simp: recycle_timeout_confd_def delete_timeout_job_def delete_turn_def)
  qed
qed

section \<open>A worker\<close>

text \<open>The semaphore after \<open>sem_wait\<close>.\<close>

definition woken :: "server \<Rightarrow> server" where
  "woken s = s\<lparr>thpool := (thpool s)\<lparr>queueSem := queueSem (thpool s) - 1\<rparr>\<rparr>"

lemma step_worker_moving:
  assumes "i < length (workers (lv_pool st))" "\<And>x. workers (lv_pool st) ! i \<noteq> Run x"
    and "worker_move i (lv_pool st) = Some r"
  shows "live_step (By_pool_worker i ws mem) st = and_then r (\<lambda>p. Inr (st\<lparr>lv_pool := p\<rparr>))"
  using assms by (auto simp: live_step_def live_turn_def worker_turn_def on_pool_def Let_def split: worker.split)

lemma worker_moves:
  assumes "i < length (workers (lv_pool st))" "workers (lv_pool st) ! i = Wait" "thpool_keepalive (lv_pool st)"
    and "pool_mutex (lv_pool st) = None" "queueSem (jobqueue (lv_pool st)) \<noteq> 0"
    and "take_job ((jobqueue (lv_pool st))\<lparr>queueSem := queueSem (jobqueue (lv_pool st)) - 1\<rparr>) = Inr (Some a, 0, q)"
  shows "same_outcome (worker_step ws mem (woken (server_of st))) (run_live (replicate 6 (By_pool_worker i ws mem)) st)"
proof -
  let ?p = "lv_pool st" and ?c = "By_pool_worker i ws mem"
  let ?q1 = "(jobqueue ?p)\<lparr>queueSem := queueSem (jobqueue ?p) - 1\<rparr>"
  let ?p1 = "goto i Woken (?p\<lparr>jobqueue := ?q1\<rparr>)"
  let ?p2 = "goto i Lock ?p1"
  let ?p3 = "goto i Take (?p2\<lparr>pool_mutex := Some (Worker i)\<rparr>)"
  let ?p4 = "goto i (Unlock (Some a)) (?p3\<lparr>jobqueue := q\<rparr>)"
  let ?p5 = "goto i (Run (Some a)) (?p4\<lparr>pool_mutex := None\<rparr>)"
  note step = step_worker_moving [where i = i and ws = ws and mem = mem]
  have 1: "live_step ?c st = Inr (st\<lparr>lv_pool := ?p1\<rparr>)"
    using step [of st "Inr ?p1"] assms(1,2,5) by (simp add: worker_move_def Let_def)
  have 2: "live_step ?c (st\<lparr>lv_pool := ?p1\<rparr>) = Inr (st\<lparr>lv_pool := ?p2\<rparr>)"
    using step [of "st\<lparr>lv_pool := ?p1\<rparr>" "Inr ?p2"] assms(1,3) by (simp add: worker_move_def Let_def)
  have 3: "live_step ?c (st\<lparr>lv_pool := ?p2\<rparr>) = Inr (st\<lparr>lv_pool := ?p3\<rparr>)"
    using step [of "st\<lparr>lv_pool := ?p2\<rparr>" "Inr ?p3"] assms(1,4) by (simp add: worker_move_def Let_def)
  have 4: "live_step ?c (st\<lparr>lv_pool := ?p3\<rparr>) = Inr (st\<lparr>lv_pool := ?p4\<rparr>)"
    using step [of "st\<lparr>lv_pool := ?p3\<rparr>" "Inr ?p4"] assms(1,6) by (simp add: worker_move_def Let_def)
  have 5: "live_step ?c (st\<lparr>lv_pool := ?p4\<rparr>) = Inr (st\<lparr>lv_pool := ?p5\<rparr>)"
    using step [of "st\<lparr>lv_pool := ?p4\<rparr>" "Inr ?p5"] assms(1) by (simp add: worker_move_def Let_def)
  let ?st = "st\<lparr>lv_pool := ?p5\<rparr>" and ?s = "(lv_server st)\<lparr>thpool := q\<rparr>"
  have s: "server_of ?st = ?s" by (simp add: server_of_pool)
  have "run_live (replicate 6 ?c) st = and_then (live_step ?c ?st) Inr"
    using 1 2 3 4 5 by (simp add: eval_nat_numeral and_then_def split: sum.split)
  then have r: "run_live (replicate 6 ?c) st = live_step ?c ?st" by (simp add: and_then_def split: sum.split)
  have 6: "live_step ?c ?st = and_then (deref (job_heap q) (Some a)) (\<lambda>(_, j).
      and_then (respons_stb_info ws mem (job_arg j) ?s) (\<lambda>s.
        let st = put_server s ?st in
        case on_pool (worker_move i (lv_pool st)) st of None \<Rightarrow> Inr st | Some r \<Rightarrow> r))"
    using assms(1) s by (simp add: live_step_def live_turn_def worker_turn_def Let_def)
  have w: "worker_step ws mem (woken (server_of st)) = and_then (deref (job_heap q) (Some a)) (\<lambda>(a, j).
      and_then (respons_stb_info ws mem (job_arg j) ?s) (\<lambda>s. and_then (free_job a (thpool s)) (\<lambda>q. Inr (s\<lparr>thpool := q\<rparr>))))"
    using assms(6) by (simp add: worker_step_def woken_def server_of_def)
  show ?thesis
  proof (cases "job_heap q a")
    case None
    then show ?thesis unfolding r 6 w by (simp add: deref_def)
  next
    case (Some j)
    show ?thesis
    proof (cases "respons_stb_info ws mem (job_arg j) ?s")
      case (Inl err)
      then show ?thesis unfolding r 6 w using Some by (simp add: deref_def)
    next
      case (Inr s')
      then show ?thesis unfolding r 6 w using Some assms(1)
        by (cases "job_heap (thpool s') a")
          (simp_all add: deref_def free_job_def on_pool_def worker_move_def server_of_pool Let_def)
    qed
  qed
qed

end
