(* ===== verification/LiveKernel.thy ===== *)
theory LiveKernel
  imports LiveRun
begin

text \<open>
  From the kernel's promises to what the turns of the interleaved server need: every socket of the
  table is open until the signal handler closes them, so a descriptor that is not open has no slot.
\<close>

section \<open>Turns\<close>

lemma server_sound_of:
  "live_inv st \<Longrightarrow> fds_open (server_of st) \<Longrightarrow> server_sound (server_of st)"
  by (simp add: server_sound_def live_inv_parts(4))

lemma fds_open_emit: "closed es = [] \<Longrightarrow> fds_open s \<Longrightarrow> fds_open (emit es s)"
  by (rule fds_open_same) simp_all

lemma fds_open_simps [simp]:
  "fds_open (s\<lparr>thpool := q\<rparr>) = fds_open s"
  "fds_open (s\<lparr>thpool := q, epoll_connect_client := t\<rparr>) = fds_open (s\<lparr>epoll_connect_client := t\<rparr>)"
  "fds_open (s\<lparr>thpool := q, current_connected_total := n\<rparr>) = fds_open s"
  by (simp_all add: fds_open_def)

lemma acceptor_fds:
  assumes "server_sound (server_of st)" "choice_allowed (By_acceptor port le e) st"
    and "accept_turn_of port le e st = Some (Inr st')"
  shows "fds_open (server_of st')"
proof (cases "lv_accept st")
  case Starting
  then obtain ok where "server_of st' = snd (accept_setup port le (server_of st))"
    using assms(3) by (auto simp: accept_turn_of_def Let_def split: prod.splits)
  then show ?thesis using opening_step_sound [OF assms(1)] by (simp add: server_sound_def)
next
  case Accepting_loop
  then show ?thesis
    using assms(1,3) closing_step_sound [OF assms(1)] fds_open_emit [of _ "server_of st"]
    by (auto simp: accept_turn_of_def accept_full_def server_sound_def Let_def split: if_splits)
next
  case In_accept
  then have "accept_env_ok e (server_of st)" using assms(2) by (simp add: choice_contract_def)
  moreover obtain s where "accept_returned e (server_of st) = Inr s" "server_of st' = s"
    using assms(3) In_accept by (auto simp: accept_turn_of_def Let_def)
  ultimately show ?thesis using returned_sound [OF assms(1)] by (simp add: server_sound_def)
qed (use assms(3) in \<open>simp add: accept_turn_of_def\<close>)

lemma slots_fds:
  assumes "server_sound s" "recycle_slots now del [0..<MAX_EVENTS] s = Inr s'"
  shows "fds_open s'"
proof -
  have inv: "conn_inv (epoll_connect_client s)" "fds_open s"
    using assms(1) by (simp_all add: server_sound_def server_inv_def)
  let ?t = "epoll_connect_client s"
  obtain es where es: "s' = recycled (int (length (stale_fds now ?t))) (map (expire now) ?t) es s"
    "closed es = stale_fds now ?t"
    using recycle_slots_all [OF inv(1), of now del] assms(2) by auto
  have c: "conns (epoll_connect_client s') = keep_fresh now (conns ?t)"
    using conns_expire [OF inv(1)] by (simp add: es(1))
  have f: "exit_accept_flag s' = exit_accept_flag s" "io s' = io s @ es" by (simp_all add: es(1) recycled_def)
  show ?thesis
  proof (rule fds_open_step [OF inv(2) f(2,1)])
    fix fd assume "conns (epoll_connect_client s') fd \<noteq> None"
    then show "fd \<in> opens (open_fds (io s)) es \<or> conns (epoll_connect_client s) fd \<noteq> None \<and> fd \<notin> set (closed es)"
      unfolding c es(2) using stale_not_kept [OF inv(1)] keep_fresh_conns by metis
  qed
qed

lemma wait_fds:
  assumes "server_sound (server_of st)" "wait_turn e st = Some (Inr st')"
  shows "fds_open (server_of st')"
proof -
  let ?s = "emit [Print (''60s detect one time =====>'' @ nl)] (server_of st)"
  have "server_sound ?s" using server_sound_print assms(1) .
  then show ?thesis
    using assms slots_fds [of ?s] by (auto simp: wait_turn_def server_sound_def Let_def split: if_splits)
qed

lemma start_work_fds:
  assumes "start_work e k buf st = Some (Inr st')"
  shows "fds_open (server_of st') = fds_open (touched e k (server_of st))"
  using assms
  by (auto simp: start_work_def on_pool_def server_of_def put_server_def touched_def Let_def split: option.splits)

lemma event_fds:
  assumes "server_sound (server_of st)" "event_env_ok e (server_of st)"
    and "start_event i e (server_of st) = Inr (m, s)" "main (lv_pool st) = Idle"
    and "(let st = put_server s (st\<lparr>lv_batch := b\<rparr>) in
        case m of None \<Rightarrow> Inr st
        | Some (k, buf) \<Rightarrow> (case start_work e k buf st of None \<Rightarrow> Inr st | Some r \<Rightarrow> r)) = Inr st'"
  shows "fds_open (server_of st')"
proof -
  let ?e = "e\<lparr>ev_malloc := None\<rparr>"
  have "handle_event i ?e (server_of st) = Inr (case m of None \<Rightarrow> s | Some (k, buf) \<Rightarrow> touched e k s)"
    unfolding handle_event_no_malloc using assms(3) by (auto split: option.split)
  moreover have "event_env_ok ?e (server_of st)" using assms(2) by (simp add: event_env_ok_def)
  ultimately have f: "fds_open (case m of None \<Rightarrow> s | Some (k, buf) \<Rightarrow> touched e k s)"
    using event_step_sound [OF assms(1)] by (auto simp: server_sound_def)
  let ?st = "put_server s (st\<lparr>lv_batch := b\<rparr>)"
  show ?thesis
  proof (cases m)
    case None
    then show ?thesis using assms(5) f by (auto simp: Let_def)
  next
    case (Some kb)
    obtain k buf where kb: "m = Some (k, buf)" using Some by (cases kb) auto
    have "start_work e k buf ?st \<noteq> None"
      using assms(4) by (simp add: start_work_def on_pool_def main_move_def Let_def split: option.split)
    then have "start_work e k buf ?st = Some (Inr st')" using assms(5) kb by (auto simp: Let_def)
    from start_work_fds [OF this] show ?thesis using f kb by simp
  qed
qed

lemma main_fds:
  assumes "server_sound (server_of st)" "choice_allowed (By_main_thread t) st" "main_turn t st = Some (Inr st')"
  shows "fds_open (server_of st')"
proof (cases "main (lv_pool st) = Idle")
  case False
  then obtain p' where "st' = st\<lparr>lv_pool := p'\<rparr>"
    using assms(3) by (auto simp: main_turn_def on_pool_def Let_def)
  then have "fds_open (server_of st') = fds_open (server_of st)"
    by (simp add: server_of_def)
  then show ?thesis using assms(1) by (simp add: server_sound_def)
next
  case True
  note idle = True
  obtain i es where b: "lv_batch st = (i, es)" by (cases "lv_batch st")
  consider (delete) d where "lv_delete st = Some d" | (event) e es' where "lv_delete st = None" "es = e # es'"
    | (leave) "lv_delete st = None" "es = []" by (cases "lv_delete st"; cases es) auto
  then show ?thesis
  proof cases
    case delete
    obtain tm curjob where "delete_turn tm curjob st = Some (Inr st')"
      using assms(3) idle delete by (cases d) (simp add: main_turn_def Let_def)
    then obtain es n q where "server_of st' = emit es (connect_total_count_sub n ((server_of st)\<lparr>thpool := q\<rparr>))"
      "closed es = []"
      by (auto simp: delete_turn_def split: if_splits)
    then show ?thesis
      using assms(1) by (simp add: fds_open_emit server_sound_def connect_total_count_sub_def)
  next
    case event
    then have "event_env_ok e (server_of st)" using assms(2) idle b by (simp add: choice_contract_def Let_def)
    moreover obtain m s where "start_event i e (server_of st) = Inr (m, s)"
      "(let st = put_server s (st\<lparr>lv_batch := (Suc i, es')\<rparr>) in
        case m of None \<Rightarrow> Inr st
        | Some (k, buf) \<Rightarrow> (case start_work e k buf st of None \<Rightarrow> Inr st | Some r \<Rightarrow> r)) = Inr st'"
      using assms(3) idle b event by (auto simp: main_turn_def Let_def)
    ultimately show ?thesis using event_fds [OF assms(1) _ _ idle] by blast
  next
    case leave
    then have "exit_accept_flag (server_of st')"
      using assms(3) idle b
      by (auto simp: main_turn_def on_pool_def main_move_def main_end_left server_of_def put_server_def Let_def
          split: if_splits)
    then show ?thesis by (simp add: fds_open_def)
  qed
qed

lemma taken_message_ok:
  assumes "live_inv st" "i < length (workers (lv_pool st))" "workers (lv_pool st) ! i = Run x"
    and "deref (job_heap (jobqueue (lv_pool st))) x = Inr (a, j)"
  shows "msg_ok (recv_buffer (job_arg j))"
proof -
  have a: "x = Some a" "contents (job_heap (jobqueue (lv_pool st))) a = Some (payload_of j)"
    using assms(4) by (auto simp: deref_def contents_def split: option.splits)
  have "good_job (payload_of j)"
    using held_good [OF assms(1)] in_hands [OF assms(2) _ a(2)] assms(3) a(1) by simp
  then show ?thesis using job_ok_msg by (auto simp: good_job_def payload_of_def job_msg_def)
qed

lemma worker_fds:
  assumes "live_inv st" "fds_open (server_of st)" "worker_turn i ws mem st = Some (Inr st')"
  shows "fds_open (server_of st')"
proof -
  have i: "i < length (workers (lv_pool st))" using assms(3) by (auto simp: worker_turn_def Let_def split: if_splits)
  have moved: "fds_open (server_of (st\<lparr>lv_pool := p\<rparr>)) = fds_open (server_of st)" for st p
    by (simp add: server_of_def)
  show ?thesis
  proof (cases "\<exists>x. workers (lv_pool st) ! i = Run x")
    case False
    then have "on_pool (worker_move i (lv_pool st)) st = Some (Inr st')"
      using assms(3) i by (auto simp: worker_turn_def Let_def split: worker.splits)
    then show ?thesis using assms(2) moved by (auto simp: on_pool_def)
  next
    case True
    then obtain x a j s where s: "workers (lv_pool st) ! i = Run x"
      "deref (job_heap (jobqueue (lv_pool st))) x = Inr (a, j)"
      "respons_stb_info ws mem (job_arg j) (server_of st) = Inr s"
      "(let st = put_server s st in case on_pool (worker_move i (lv_pool st)) st of None \<Rightarrow> Inr st | Some r \<Rightarrow> r) = Inr st'"
      using assms(3) i by (auto simp: worker_turn_def Let_def)
    have r: "respons_stb_info ws mem \<lparr>recv_buffer = recv_buffer (job_arg j), arg_fd = arg_fd (job_arg j)\<rparr> (server_of st) = Inr s"
      using s(3) by (cases "job_arg j") simp
    have "conn_inv (epoll_connect_client (server_of st))" using live_inv_parts(5) [OF assms(1)] by simp
    from respons_returns [OF this taken_message_ok [OF assms(1) i s(1,2)] r]
    have "leaves (recv_buffer (job_arg j)) (server_of st) s" .
    then have "fds_open s"
      using fds_open_same [OF assms(2), of s] by (auto simp: leaves_def server_of_def)
    then show ?thesis
      using s(4) moved [where st = "put_server s st"] by (auto simp: on_pool_def Let_def split: option.splits)
  qed
qed

lemma step_fds:
  assumes "live_inv st" "fds_open (server_of st)" "choice_allowed c st" "live_step c st = Inr st'"
  shows "fds_open (server_of st')"
proof (cases "live_turn c st")
  case None
  then show ?thesis using assms(2,4) by (simp add: live_step_def)
next
  case (Some r)
  then have t: "live_turn c st = Some (Inr st')" using assms(4) by (simp add: live_step_def)
  note s = server_sound_of [OF assms(1,2)]
  show ?thesis
  proof (cases c)
    case (By_acceptor port le e)
    then show ?thesis using acceptor_fds [OF s] t assms(3) by (simp add: live_turn_def)
  next
    case (By_wait e)
    then show ?thesis using wait_fds [OF s] t by (simp add: live_turn_def)
  next
    case (By_main_thread u)
    then show ?thesis using main_fds [OF s] t assms(3) by (simp add: live_turn_def)
  next
    case (By_pool_worker i ws mem)
    then show ?thesis using worker_fds [OF assms(1,2)] t by (simp add: live_turn_def)
  next
    case (By_signal sig)
    then show ?thesis using t signal_step_sound [OF s, of sig] by (auto simp: live_turn_def server_sound_def)
  qed
qed

section \<open>Runs\<close>

definition live_sound :: "live \<Rightarrow> bool" where
  "live_sound st \<longleftrightarrow> live_inv st \<and> fds_open (server_of st)"

lemma allowed_is_safe: "live_sound st \<Longrightarrow> choice_allowed c st \<Longrightarrow> choice_safe c st"
  by (erule contract_exchange) (auto simp: live_sound_def intro: accept_env_unlisted)

lemma live_sound_step:
  "live_sound st \<Longrightarrow> choice_allowed c st \<Longrightarrow> \<exists>st'. live_step c st = Inr st' \<and> live_sound st'"
  using live_step_advances [OF _ allowed_is_safe] step_fds [of st c] by (fastforce simp: live_sound_def advances_def)

interpretation sound: safe_steps live_sound live_step choice_allowed
  by unfold_locales (rule live_sound_step)

lemma steps_safe:
  "live_sound st \<Longrightarrow> steps_ok live_step choice_allowed cs st \<Longrightarrow> steps_ok live_step choice_safe cs st"
  by (rule steps_ok_weaken [where I = live_sound]) (use allowed_is_safe live_sound_step in \<open>force+\<close>)

text \<open>Runs in which the accept thread is not inside \<open>accept\<close>, or gets no turn, need no promise of it.\<close>

lemma steps_without_acceptor:
  "steps_ok live_step (choice_contract k) cs st \<Longrightarrow> \<forall>c\<in>set cs. \<forall>port le e. c \<noteq> By_acceptor port le e \<Longrightarrow>
     steps_ok live_step (choice_contract k') cs st"
proof (induction cs arbitrary: st)
  case (Cons c cs)
  have "choice_contract k' c st"
    using Cons.prems by (cases c) (auto simp: choice_contract_def Let_def)
  then show ?case using Cons by (auto split: sum.splits)
qed simp

end
