(* ===== verification/LiveBoot.thy ===== *)
theory LiveBoot
  imports LiveWhole LiveKernel
begin

text \<open>
  The interleaved server from the start of \<open>main\<close>, the states of the witnesses, and a run in which
  a client connects, logs in and is served.
\<close>

section \<open>From the start of main\<close>

text \<open>\<open>main\<close> up to its loop, entered at the time \<open>now\<close>.\<close>

definition boot :: "string \<Rightarrow> start_env \<Rightarrow> int \<Rightarrow> live option" where
  "boot arg e now =
     (case main_start [arg] e of
        Inr (Enters_loop config s p, es, ls) \<Rightarrow> Some (live_start now s p ls)
      | _ \<Rightarrow> None)"

lemma hands_free: "\<forall>w\<in>set (workers p). holds w = None \<Longrightarrow> hands p = {#}"
proof -
  assume "\<forall>w\<in>set (workers p). holds w = None"
  then have "map (hand (job_heap (jobqueue p))) (workers p) = map (\<lambda>_. {#}) (workers p)"
    by (auto simp: hand_free)
  then have "hands p = sum_list (map (\<lambda>_. {#}) (workers p))" unfolding hands_def by (rule arg_cong)
  then show ?thesis by simp
qed

lemma live_start_inv:
  assumes "thpool_init n m1 m2 m3 h = Some p" "jobqueue p = thpool (start_state epfd h)" "log_open ls"
  shows "live_inv (live_start now (start_state epfd h) p ls)"
proof -
  let ?st = "live_start now (start_state epfd h) p ls"
  note i = pool_init_inv [OF assms(1)]
  have "server_of ?st = start_state epfd h" using assms(2) by (simp add: server_of_def live_start_def)
  moreover have "hands p = {#}" using i(2) by (intro hands_free) simp
  then have "live_jobs ?st"
    using i(3-5) by (simp add: live_jobs_def live_start_def main_hand_def account_parts)
  ultimately show ?thesis
    using i(1,3) assms(3) start_state_ok [of epfd h] by (simp add: live_inv_def live_start_def start_state_def)
qed

lemma boot_starts:
  assumes "start_ok lines v arg e" "1 \<le> start_level v" "start_level v < 5"
  shows "\<exists>p ls. boot arg e now = Some (live_start now (start_state (se_epoll e) (se_heap e)) p ls)
    \<and> live_inv (live_start now (start_state (se_epoll e) (se_heap e)) p ls)
    \<and> workers p = replicate 15 Test \<and> main p = Idle \<and> calls p = [] \<and> pool_mutex p = None
    \<and> jobqueue p = thpool (start_state (se_epoll e) (se_heap e))"
proof -
  obtain es ls p where s: "main_start [arg] e
       = Inr (Enters_loop (config_of v) (start_state (se_epoll e) (se_heap e)) p, es, ls)"
     "thpool_init THREAD_POLL_SIZE True True True (se_heap e) = Some p"
     "jobqueue p = thpool (start_state (se_epoll e) (se_heap e))" "log_open ls"
    using start_enters [OF assms] by (auto simp: log_holds_def log_ok_def)
  have m: "pool_mutex p = None"
    using s(2) by (auto simp: thpool_init_def thpool_jobqueue_init_def Let_def THREAD_POLL_SIZE_def)
  show ?thesis
    using s(1,3) live_start_inv [OF s(2-4)] pool_init_inv [OF s(2)] m
    by (intro exI [of _ p] exI [of _ ls]) (simp add: boot_def THREAD_POLL_SIZE_def)
qed

text \<open>Before the first connection the kernel's promises are all that is needed.\<close>

lemma boot_sound:
  assumes "start_ok lines v arg e" "1 \<le> start_level v" "start_level v < 5" "boot arg e now = Some st0"
  shows "live_sound st0" "length (workers (lv_pool st0)) = 15"
proof -
  obtain p ls where b: "st0 = live_start now (start_state (se_epoll e) (se_heap e)) p ls" "live_inv st0"
    "workers p = replicate 15 Test" "jobqueue p = thpool (start_state (se_epoll e) (se_heap e))"
    using boot_starts [OF assms(1-3), of now] assms(4) by auto
  have "server_of st0 = start_state (se_epoll e) (se_heap e)" using b(1,4) by (simp add: server_of_def live_start_def)
  then show "live_sound st0" using b(2) start_state_sound by (simp add: live_sound_def server_sound_def)
  show "length (workers (lv_pool st0)) = 15" using b(1,3) by (simp add: live_start_def)
qed

lemma boot_safe:
  assumes "start_ok lines v arg e" "1 \<le> start_level v" "start_level v < 5" "boot arg e now = Some st0"
    and "steps_ok live_step choice_allowed cs st0"
  shows "live_inv st0" "steps_ok live_step choice_safe cs st0"
  using boot_sound(1) [OF assms(1-4)] steps_safe [OF _ assms(5)] by (simp_all add: live_sound_def)

section \<open>Samples\<close>

lemma shipped_start:
  "start_ok shipped_lines shipped_value ''8812'' (sample_env shipped_lines)" "start_level shipped_value = 4"
proof -
  have "atoi ''4'' = 4" "length (show_int (atoi ''8812'')) \<le> 100"
    by (simp_all add: atoi_def is_space_def is_digit_def dec_val_def show_int_def show_nat.simps [of 8812]
        show_nat.simps [of 881] show_nat.simps [of 88] show_nat.simps [of 8])
  then show "start_ok shipped_lines shipped_value ''8812'' (sample_env shipped_lines)" "start_level shipped_value = 4"
    using shipped_text shipped_values
    by (simp_all add: start_ok_def start_level_def sample_env_def INI_FILE_BUF_SIZE_def)
qed

definition sample_listen :: listen_env where
  "sample_listen = \<lparr>le_socket = 3, le_reuseaddr = 0, le_rcvbuf = 0, le_defer = 0, le_bind = 0\<rparr>"

text \<open>The accept thread opens its socket, a client connects, \<open>main\<close> gets its login.\<close>

definition sample_choices :: "live_choice list" where
  "sample_choices = [By_acceptor 8812 sample_listen sample_accept, By_acceptor 8812 sample_listen sample_accept,
     By_acceptor 8812 sample_listen sample_accept,
     By_wait \<lparr>lo_now = 100, lo_tm = 100, lo_del = (\<lambda>_. None), lo_events = [sample_event]\<rparr>]"

lemma quiet_worker:
  assumes "live_inv st" "lv_received st = []"
  shows "choice_safe (By_pool_worker i ws mem) st"
proof -
  have h: "hands (lv_pool st) = {#}"
    using live_inv_parts(3) [OF assms(1)] assms(2) by (simp add: live_jobs_def account_parts)
  have "contents (job_heap (jobqueue (lv_pool st))) a = None"
    if "i < length (workers (lv_pool st))" "workers (lv_pool st) ! i = Run (Some a)" for a
    using in_hands [OF that(1), of a] that(2) h by (metis empty_iff holds.simps(2) not_None_eq set_mset_empty)
  then show ?thesis by (auto simp: choice_contract_def contents_def Let_def split: worker.split option.split)
qed

lemma sample_boot:
  "\<exists>st0. boot ''8812'' (sample_env shipped_lines) 100 = Some st0
     \<and> steps_ok live_step choice_allowed sample_choices st0"
proof -
  have l: "1 \<le> start_level shipped_value" "start_level shipped_value < 5" by (simp_all add: shipped_start(2))
  obtain p ls where b: "boot ''8812'' (sample_env shipped_lines) 100
      = Some (live_start 100 (start_state 4 (\<lambda>_. None)) p ls)"
    using boot_starts [OF shipped_start(1) l, of 100] by (auto simp: sample_env_def)
  let ?st0 = "live_start 100 (start_state 4 (\<lambda>_. None)) p ls"
  let ?a = "By_acceptor 8812 sample_listen sample_accept"
  let ?s = "snd (accept_setup 8812 sample_listen (server_of ?st0))"
  let ?st1 = "put_server ?s (?st0\<lparr>lv_accept := Accepting_loop\<rparr>)"
  have s: "epoll_connect_client ?s = init_epoll_connect" by (simp add: live_start_def start_state_def)
  have 1: "choice_allowed ?a ?st0" "live_step ?a ?st0 = Inr ?st1"
    by (simp_all add: choice_contract_def live_step_def live_turn_def accept_turn_of_def live_start_def
        accept_setup_def sample_listen_def Let_def)
  let ?st2 = "?st1\<lparr>lv_accept := In_accept\<rparr>"
  have 2: "choice_allowed ?a ?st1" "live_step ?a ?st1 = Inr ?st2" "choice_allowed ?a ?st2"
    using s
    by (simp_all add: conns_init sample_accept_def choice_contract_def accept_env_ok_def live_step_def live_turn_def accept_turn_of_def
        accept_setup_def sample_listen_def live_start_def start_state_def server_of_def MAX_EVENTS_def Let_def)
  have 3: "choice_allowed (By_wait \<lparr>lo_now = 100, lo_tm = 100, lo_del = (\<lambda>_. None), lo_events = [sample_event]\<rparr>) st2"
    if "live_step ?a ?st2 = Inr st2" for st2
  proof -
    have "lv_time st2 = 100"
      using that by (auto simp: live_step_def live_turn_def accept_turn_of_def Let_def live_start_def)
    then show ?thesis by (simp add: choice_contract_def recycle_due_def c_int_def SERVER_TIMEOUT_def Let_def)
  qed
  have "steps_ok live_step choice_allowed sample_choices ?st0"
    unfolding sample_choices_def using 1 2 3 by (auto split: sum.split)
  with b show ?thesis by blast
qed

text \<open>A server without messages that is told to end needs no contract but a sound clock.\<close>

definition plain_choice :: "live_choice \<Rightarrow> bool" where
  "plain_choice c = (case c of By_main_thread t \<Rightarrow> tm_ok t | By_wait e \<Rightarrow> False | _ \<Rightarrow> True)"

lemma quiet_step:
  assumes "live_step c st = Inr st'" "snd (lv_batch st) = []" "plain_choice c" "lv_delete st = None"
    "exit_accept_flag (lv_server st)" "lv_accept st \<noteq> In_accept"
  shows "lv_received st' = lv_received st" "snd (lv_batch st') = []" "lv_delete st' = None" "lv_accept st' \<noteq> In_accept"
proof -
  obtain i where b: "lv_batch st = (i, [])" using assms(2) by (metis prod.collapse)
  have p: "lv_received st' = lv_received st \<and> lv_batch st' = lv_batch st \<and> lv_delete st' = lv_delete st
      \<and> lv_accept st' = lv_accept st" if "on_pool r st = Some (Inr st')" for r st st'
    using that by (auto simp: on_pool_def)
  have "lv_received st' = lv_received st \<and> snd (lv_batch st') = [] \<and> lv_delete st' = None \<and> lv_accept st' \<noteq> In_accept"
  proof (cases c)
    case (By_acceptor port le e)
    then show ?thesis using assms(1,2,4-6)
      by (auto simp: live_step_def live_turn_def accept_turn_of_def Let_def
          split: accept_pc.splits if_splits prod.splits)
  next
    case (By_main_thread t)
    show ?thesis
    proof (cases "main (lv_pool st) = Idle")
      case True
      then show ?thesis using assms(1,4-6) b By_main_thread
        by (auto simp: live_step_def live_turn_def main_turn_def on_pool_def Let_def split: if_splits option.splits)
    next
      case False
      then show ?thesis using assms(1,2,4-6) By_main_thread p
        by (auto simp: live_step_def live_turn_def main_turn_def Let_def split: option.splits)
    qed
  next
    case (By_pool_worker i ws mem)
    show ?thesis
    proof (cases "\<exists>x. workers (lv_pool st) ! i = Run x")
      case True
      then obtain x where x: "workers (lv_pool st) ! i = Run x" by blast
      show ?thesis
      proof (cases "i < length (workers (lv_pool st))")
        case True
        then have "live_step c st = and_then (deref (job_heap (jobqueue (lv_pool st))) x) (\<lambda>(_, j).
            and_then (respons_stb_info ws mem (job_arg j) (server_of st)) (\<lambda>s.
              case on_pool (worker_move i (lv_pool (put_server s st))) (put_server s st) of
                None \<Rightarrow> Inr (put_server s st) | Some r \<Rightarrow> r))"
          using x By_pool_worker by (simp add: live_step_def live_turn_def worker_turn_def Let_def)
        from trans [OF this [symmetric] assms(1)] obtain s where "(case on_pool (worker_move i (lv_pool (put_server s st))) (put_server s st) of
            None \<Rightarrow> Inr (put_server s st) | Some r \<Rightarrow> r) = Inr st'"
          by auto
        then show ?thesis using p [of _ "put_server s st" st'] assms(2,4-6)
          by (cases "on_pool (worker_move i (lv_pool (put_server s st))) (put_server s st)") auto
      next
        case False
        then show ?thesis using assms(1,2,4-6) By_pool_worker
          by (simp add: live_step_def live_turn_def worker_turn_def Let_def)
      qed
    next
      case False
      then have "live_turn c st = on_pool (worker_move i (lv_pool st)) st \<or> live_turn c st = None"
        using By_pool_worker by (auto simp: live_turn_def worker_turn_def Let_def split: worker.split)
      then show ?thesis using assms(1,2,4-6) p by (auto simp: live_step_def split: option.splits)
    qed
  qed (use assms in \<open>auto simp: live_step_def live_turn_def plain_choice_def\<close>)
  then show "lv_received st' = lv_received st" "snd (lv_batch st') = []" "lv_delete st' = None" "lv_accept st' \<noteq> In_accept"
    by simp_all
qed

lemma quiet_steps_ok:
  assumes "live_inv st" "exit_flag (lv_server st)" "lv_received st = []" "snd (lv_batch st) = []"
    and "list_all plain_choice cs" "lv_delete st = None" "lv_accept st \<noteq> In_accept"
  shows "steps_ok live_step choice_allowed cs st"
  using assms
proof (induction cs arbitrary: st)
  case (Cons c cs)
  have c: "choice_allowed c st"
  proof (cases c)
    case (By_pool_worker i ws mem)
    then show ?thesis using contract_elsewhere [OF quiet_worker [OF Cons.prems(1,3)] Cons.prems(7)] by simp
  next
    case (By_acceptor port le e)
    then show ?thesis using Cons.prems(7) by (simp add: choice_contract_def)
  qed (use Cons.prems(4-6) in \<open>simp_all add: choice_contract_def plain_choice_def Let_def\<close>)
  obtain st1 where st1: "live_step c st = Inr st1" "live_inv st1" "exit_flag (lv_server st1)"
    using ending_step [OF Cons.prems(1,2) contract_elsewhere [OF c Cons.prems(7)]] by blast
  have "plain_choice c" using Cons.prems(5) by simp
  then have "lv_received st1 = []" "snd (lv_batch st1) = []" "lv_delete st1 = None" "lv_accept st1 \<noteq> In_accept"
    using quiet_step [OF st1(1) Cons.prems(4) _ Cons.prems(6) _ Cons.prems(7)] Cons.prems(2,3)
      live_flags [OF Cons.prems(1)] by simp_all
  then show ?case using Cons.IH [OF st1(2,3)] Cons.prems(5) c st1(1) by simp
qed simp

lemma signal_ends:
  assumes "live_inv st"
  shows "\<exists>st'. live_step (By_signal SIGTERM) st = Inr st' \<and> live_inv st' \<and> exit_flag (lv_server st')
    \<and> live_measure st' = live_measure st \<and> lv_received st' = lv_received st \<and> lv_batch st' = lv_batch st
    \<and> lv_delete st' = lv_delete st \<and> lv_accept st' = lv_accept st \<and> length (workers (lv_pool st')) = length (workers (lv_pool st))"
proof -
  let ?st = "put_server (signal_handler_reboot SIGTERM (server_of st)) st"
  have "exit_flag (signal_handler_reboot SIGTERM (server_of st))"
    using signal_flags [of SIGTERM "server_of st"] by (simp add: flags_def)
  moreover have "live_inv ?st" using signal_turn [OF assms, of SIGTERM] by (simp add: advances_def)
  ultimately show ?thesis
    by (intro exI [of _ ?st]) (simp add: live_step_def live_turn_def live_measure_def before_weight_def)
qed

text \<open>A login waits, a worker waits for the semaphore, and \<open>main\<close> has the next event.\<close>

definition sample_live :: live where
  "sample_live = \<lparr>lv_time = 100, lv_batch = (1, [sample_event\<lparr>ev_malloc := Some 2\<rparr>]), lv_delete = None, lv_accept = Accepting_loop, lv_server = sample_busy,
     lv_pool = \<lparr>workers = [Wait], main = Idle, pool_mutex = None, thpool_keepalive = True,
                jobqueue = thpool sample_busy, calls = []\<rparr>,
     lv_log = sample_log, lv_received = [sample_job]\<rparr>"

lemma sample_busy_queue: "queueSem (thpool sample_busy) = 1" "jobN (thpool sample_busy) = 1"
proof -
  have "and_then (start_event 0 sample_event sample_server) (\<lambda>(m, s). case m of
         None \<Rightarrow> Inr s
       | Some (k, buf) \<Rightarrow> and_then (thpool_add_work (ev_now sample_event) (ev_malloc sample_event) Respons_stb_info k
           (ev_fd sample_event) buf s) (\<lambda>(_, s). Inr s)) = Inr sample_busy"
    using sample_busy_facts(1) unfolding handle_event_start .
  then obtain m s where m: "start_event 0 sample_event sample_server = Inr (m, s)"
    and r: "(case m of None \<Rightarrow> Inr s
       | Some (k, buf) \<Rightarrow> and_then (thpool_add_work (ev_now sample_event) (ev_malloc sample_event) Respons_stb_info k
           (ev_fd sample_event) buf s) (\<lambda>(_, s). Inr s)) = Inr sample_busy"
    by auto
  have q: "thpool s = thpool sample_server" by (rule start_event_thpool [OF m])
  have q0: "queueSem (thpool sample_server) = 0"
    using accept_thpool [OF sample_server_facts(1)] by (simp add: sample_start_def start_state_def)
  obtain k buf where kb: "m = Some (k, buf)"
    using r q sample_busy_facts(4) sample_server_facts(4) by (cases m) auto
  have "ev_malloc sample_event = Some 1" by (simp add: sample_event_def)
  with r kb obtain q' j t where e: "thpool_job_enqueue ((thpool s)\<lparr>job_heap := (job_heap (thpool s))(1 \<mapsto> j)\<rparr>) 1 = Inr q'"
    "s\<lparr>epoll_connect_client := t, thpool := q'\<rparr> = sample_busy"
    by (auto simp: thpool_add_work_def add_job_def Let_def split: if_splits)
  have "thpool sample_busy = q'" unfolding e(2) [symmetric] by simp
  then show "queueSem (thpool sample_busy) = 1" using enqueue_sem [OF e(1)] q q0 by simp
  show "jobN (thpool sample_busy) = 1"
    using length_waiting [of "thpool sample_busy"] sample_busy_facts(2,4) by (simp add: server_inv_def)
qed

lemma sample_live_inv: "live_inv sample_live"
proof -
  have s: "server_of sample_live = sample_busy" by (simp add: server_of_def sample_live_def)
  have g: "login_ok sample_job" "job_ok sample_job"
    using sample_job_facts sample_login_facts(4) sample_busy_facts(2,4) by (simp_all add: login_ok_def server_inv_def)
  then have ok: "server_ok sample_busy" using sample_busy_facts(2-4) by (simp add: server_ok_def)
  have fl: "exit_flag sample_busy = False" "exit_accept_flag sample_busy = False"
    using event_flags [OF sample_busy_facts(1)] accept_flags [OF sample_server_facts(1)] by (simp_all add: flags_def)
  have "queue_inv (thpool sample_busy)" using sample_busy_facts(2) by (simp add: server_inv_def)
  then have "pool_inv (lv_pool sample_live)"
    using sample_busy_queue
    by (simp add: pool_inv_def mutex_inv_def owner_inv_def token_inv_def cnt_def sample_live_def)
  moreover have "live_jobs sample_live"
    using g sample_busy_facts(4)
    by (simp add: live_jobs_def account_parts main_hand_def hands_def hand_def sample_live_def good_job_def)
  ultimately show ?thesis
    using ok s fl log_ok_open [OF sample_log_ok] by (simp add: live_inv_def) (simp add: sample_live_def)
qed

section \<open>A login is served\<close>

text \<open>The four moves of \<open>main\<close> on an event that becomes a job, and their contracts.\<close>

lemma event_path:
  assumes "main (lv_pool st) = Idle" "pool_mutex (lv_pool st) = None" "lv_batch st = (i, e # es)"
    and "handle_event i e (server_of st) = Inr s'" "waiting (thpool s') \<noteq> waiting (jobqueue (lv_pool st))"
    and "choice_safe (By_main_thread t) st" "lv_delete st = None"
  shows "\<exists>st'. run_live (replicate 4 (By_main_thread t)) st = Inr st' \<and> server_of st' = s'
    \<and> lv_pool st' = (lv_pool st)\<lparr>jobqueue := thpool s'\<rparr>
    \<and> steps_ok live_step choice_safe (replicate 4 (By_main_thread t)) st"
proof -
  let ?c = "By_main_thread t"
  have tm: "tm_ok t" using assms(6) by (simp add: choice_contract_def Let_def)
  obtain m s where ms: "start_event i e (server_of st) = Inr (m, s)"
    using assms(4) unfolding handle_event_start by auto
  have q: "thpool s = jobqueue (lv_pool st)" using start_event_thpool [OF ms] by (simp add: server_of_def)
  have r: "(case m of None \<Rightarrow> Inr s | Some (k, buf) \<Rightarrow>
      and_then (thpool_add_work (ev_now e) (ev_malloc e) Respons_stb_info k (ev_fd e) buf s) (\<lambda>(_, s). Inr s)) = Inr s'"
    using assms(4) ms unfolding handle_event_start by simp
  then obtain k buf where kb: "m = Some (k, buf)" using q assms(5) by (cases m) auto
  obtain n where n: "ev_malloc e = Some n"
    using r kb q assms(5) by (cases "ev_malloc e") (auto simp: thpool_add_work_def add_job_def Let_def)
  let ?q1 = "(jobqueue (lv_pool st))\<lparr>job_heap := (job_heap (jobqueue (lv_pool st)))
      (n \<mapsto> new_job Respons_stb_info (ev_now e) buf (ev_fd e))\<rparr>"
  obtain q' where q': "\<not> length buf < BUFFER_SIZE" "thpool_job_enqueue ?q1 n = Inr q'" "s' = (touched e k s)\<lparr>thpool := q'\<rparr>"
    using r kb n q by (auto simp: thpool_add_work_def add_job_def touched_def Let_def split: if_splits)
  obtain st1 where st1: "live_step ?c st = Inr st1"
    "lv_pool st1 = (lv_pool st)\<lparr>main := AddLock n, jobqueue := ?q1\<rparr>" "lv_server st1 = touched e k s"
    using assms(1,3,7) ms kb n q q'(1)
    by (simp add: live_step_def live_turn_def main_turn_def start_work_def on_pool_def main_move_def touched_def Let_def)
  let ?p2 = "(lv_pool st1)\<lparr>main := Add n, pool_mutex := Some Main\<rparr>"
  let ?p3 = "?p2\<lparr>main := AddUnlock, jobqueue := q'\<rparr>"
  let ?p4 = "?p3\<lparr>main := Idle, pool_mutex := None\<rparr>"
  have 2: "live_step ?c st1 = Inr (st1\<lparr>lv_pool := ?p2\<rparr>)"
    using step_main_moving [of st1 "Inr ?p2" t] st1(2) assms(2) by (simp add: main_move_def Let_def)
  have 3: "live_step ?c (st1\<lparr>lv_pool := ?p2\<rparr>) = Inr (st1\<lparr>lv_pool := ?p3\<rparr>)"
    using step_main_moving [of "st1\<lparr>lv_pool := ?p2\<rparr>" "Inr ?p3" t] st1(2) q'(2) by (simp add: main_move_def Let_def)
  have 4: "live_step ?c (st1\<lparr>lv_pool := ?p3\<rparr>) = Inr (st1\<lparr>lv_pool := ?p4\<rparr>)"
    using step_main_moving [of "st1\<lparr>lv_pool := ?p3\<rparr>" "Inr ?p4" t] by (simp add: main_move_def Let_def)
  have ok: "choice_safe ?c st'" if "main (lv_pool st') \<noteq> Idle" for st'
    using that tm by (simp add: choice_contract_def Let_def split: list.split)
  have "run_live (replicate 4 ?c) st = Inr (st1\<lparr>lv_pool := ?p4\<rparr>)"
    using st1(1) 2 3 4 by (simp add: eval_nat_numeral)
  moreover have "steps_ok live_step choice_safe (replicate 4 ?c) st"
    using assms(6) st1(1,2) 2 3 4 ok [of st1] ok [of "st1\<lparr>lv_pool := ?p2\<rparr>"] ok [of "st1\<lparr>lv_pool := ?p3\<rparr>"]
    by (simp add: eval_nat_numeral)
  moreover have "server_of (st1\<lparr>lv_pool := ?p4\<rparr>) = s'" using st1(3) q'(3) by (simp add: server_of_pool)
  moreover have "?p4 = (lv_pool st)\<lparr>jobqueue := thpool s'\<rparr>" using st1(2) q'(3) assms(1,2) by simp
  ultimately show ?thesis by (intro exI [of _ "st1\<lparr>lv_pool := ?p4\<rparr>"]) simp
qed

lemma run_calls:
  assumes "worker_move i p = Some (Inr p')" "workers p ! i = Run x" "deref (job_heap (jobqueue p)) x = Inr (a, j)"
  shows "calls p' = calls p @ [payload_of j]"
  using assms by (auto simp: worker_move_def Let_def)

text \<open>The seven moves of a worker, from the head of its loop to the end of its job.\<close>

lemma worker_path:
  assumes "live_inv st" "i < length (workers (lv_pool st))" "workers (lv_pool st) ! i = Test"
    and "thpool_keepalive (lv_pool st)" "pool_mutex (lv_pool st) = None" "queueSem (jobqueue (lv_pool st)) \<noteq> 0"
    and "waiting (jobqueue (lv_pool st)) = x # xs" "call_allowed ws mem x (epoll_connect_client (lv_server st))"
  shows "\<exists>st'. run_live (replicate 7 (By_pool_worker i ws mem)) st = Inr st'
    \<and> calls (lv_pool st') = calls (lv_pool st) @ [x]
    \<and> steps_ok live_step choice_safe (replicate 7 (By_pool_worker i ws mem)) st"
proof -
  let ?p = "lv_pool st" and ?c = "By_pool_worker i ws mem"
  let ?q1 = "(jobqueue ?p)\<lparr>queueSem := queueSem (jobqueue ?p) - 1\<rparr>"
  have "queue_inv (jobqueue ?p)" by (rule pool_queue_inv [OF live_inv_parts(2) [OF assms(1)]])
  then have "queue_inv ?q1" by (simp add: queue_inv_def queue_rep_def addrs_def)
  moreover have "waiting ?q1 = x # xs" using assms(7) by (simp add: waiting_def addrs_def)
  ultimately obtain a j q where t: "take_job ?q1 = Inr (Some a, 0, q)" "job_heap q a = Some j" "payload_of j = x"
    using take_job_next [of ?q1 x xs] by blast
  let ?pw = "goto i Wait ?p"
  let ?p1 = "goto i Woken (?pw\<lparr>jobqueue := ?q1\<rparr>)"
  let ?p2 = "goto i Lock ?p1"
  let ?p3 = "goto i Take (?p2\<lparr>pool_mutex := Some (Worker i)\<rparr>)"
  let ?p4 = "goto i (Unlock (Some a)) (?p3\<lparr>jobqueue := q\<rparr>)"
  let ?p5 = "goto i (Run (Some a)) (?p4\<lparr>pool_mutex := None\<rparr>)"
  note step = step_worker_moving [where i = i and ws = ws and mem = mem]
  have 0: "live_step ?c st = Inr (st\<lparr>lv_pool := ?pw\<rparr>)"
    using step [of st "Inr ?pw"] assms(2-4) by (simp add: worker_move_def Let_def)
  have 1: "live_step ?c (st\<lparr>lv_pool := ?pw\<rparr>) = Inr (st\<lparr>lv_pool := ?p1\<rparr>)"
    using step [of "st\<lparr>lv_pool := ?pw\<rparr>" "Inr ?p1"] assms(2,6) by (simp add: worker_move_def Let_def)
  have 2: "live_step ?c (st\<lparr>lv_pool := ?p1\<rparr>) = Inr (st\<lparr>lv_pool := ?p2\<rparr>)"
    using step [of "st\<lparr>lv_pool := ?p1\<rparr>" "Inr ?p2"] assms(2,4) by (simp add: worker_move_def Let_def)
  have 3: "live_step ?c (st\<lparr>lv_pool := ?p2\<rparr>) = Inr (st\<lparr>lv_pool := ?p3\<rparr>)"
    using step [of "st\<lparr>lv_pool := ?p2\<rparr>" "Inr ?p3"] assms(2,5) by (simp add: worker_move_def Let_def)
  have 4: "live_step ?c (st\<lparr>lv_pool := ?p3\<rparr>) = Inr (st\<lparr>lv_pool := ?p4\<rparr>)"
    using step [of "st\<lparr>lv_pool := ?p3\<rparr>" "Inr ?p4"] assms(2) t(1) by (simp add: worker_move_def Let_def)
  have 5: "live_step ?c (st\<lparr>lv_pool := ?p4\<rparr>) = Inr (st\<lparr>lv_pool := ?p5\<rparr>)"
    using step [of "st\<lparr>lv_pool := ?p4\<rparr>" "Inr ?p5"] assms(2) by (simp add: worker_move_def Let_def)
  let ?st = "st\<lparr>lv_pool := ?p5\<rparr>"
  have ok6: "choice_safe ?c ?st"
    using assms(2,8) t(2,3) by (simp add: choice_contract_def contents_def server_of_pool Let_def)
  have ok: "choice_safe ?c (st\<lparr>lv_pool := goto i w p\<rparr>)" if "\<And>x. w \<noteq> Run x" "i < length (workers p)" for w p
    using that by (auto simp: choice_contract_def Let_def split: worker.split)
  have ok0: "choice_safe ?c st" using assms(2,3) by (simp add: choice_contract_def Let_def)
  have s: "steps_ok live_step choice_safe (replicate 6 ?c) st"
    using ok0 0 1 2 3 4 5 ok assms(2) by (simp add: eval_nat_numeral)
  have r6: "run_live (replicate 6 ?c) st = Inr ?st" using 0 1 2 3 4 5 by (simp add: eval_nat_numeral)
  have r7: "replicate 7 ?c = replicate 6 ?c @ [?c]" by (simp add: eval_nat_numeral)
  have ok7: "steps_ok live_step choice_safe (replicate 7 ?c) st"
    unfolding r7 using s ok6 r6 by (simp add: steps_ok_append run_live_def split: sum.split)
  then obtain st' where st': "run_live (replicate 7 ?c) st = Inr st'" using run_live_refines [OF assms(1)] by blast
  have i6: "live_inv ?st" using run_live_refines [OF assms(1) s] r6 by auto
  have "run_live (replicate 7 ?c) st = live_step ?c ?st"
    using r6 unfolding r7 by (simp add: run_live_append) (simp add: and_then_def split: sum.split)
  then have "live_step ?c ?st = Inr st'" using st' by simp
  moreover obtain r where r: "worker_turn i ws mem ?st = Some r"
    using assms(2) by (simp add: worker_turn_def Let_def)
  ultimately have "moves_worker i ?st st'"
    using pool_worker_turn [OF i6 ok6 r] by (auto simp: live_step_def live_turn_def)
  then have "worker_move i (lv_pool ?st) = Some (Inr (lv_pool st'))" unfolding moves_worker_def by (rule conjunct1)
  then have "worker_move i ?p5 = Some (Inr (lv_pool st'))" by simp
  then have "calls (lv_pool st') = calls ?p5 @ [payload_of j]"
    by (rule run_calls [where x = "Some a" and a = a]) (use assms(2) t(2) in \<open>simp_all add: deref_def\<close>)
  then have "calls (lv_pool st') = calls ?p @ [x]" using t(3) by simp
  with st' ok7 show ?thesis by blast
qed

definition served_choices :: "live_choice list" where
  "served_choices = sample_choices @ replicate 4 (By_main_thread sample_tm) @ replicate 7 (By_pool_worker 0 [] full_malloc)"

text \<open>A client is accepted and its login is the event that \<open>main\<close> is about to handle.\<close>

lemma sample_accepted:
  assumes "live_inv st0" "st0 = live_start 100 (start_state 4 (\<lambda>_. None)) p ls"
    and "steps_ok live_step choice_safe sample_choices st0"
    and "jobqueue p = thpool (start_state 4 (\<lambda>_. None))" "main p = Idle"
  shows "\<exists>st. run_live sample_choices st0 = Inr st \<and> lv_pool st = p \<and> lv_batch st = (0, [sample_event])
    \<and> conns (epoll_connect_client (lv_server st)) = [5 \<mapsto> accept_peer sample_accept] \<and> \<not> exit_flag (lv_server st) \<and> lv_delete st = None"
proof -
  let ?a = "By_acceptor 8812 sample_listen sample_accept"
  let ?w = "By_wait \<lparr>lo_now = 100, lo_tm = 100, lo_del = (\<lambda>_. None), lo_events = [sample_event]\<rparr>"
  let ?s = "snd (accept_setup 8812 sample_listen (server_of st0))"
  let ?st1 = "put_server ?s (st0\<lparr>lv_accept := Accepting_loop\<rparr>)"
  have s: "epoll_connect_client ?s = init_epoll_connect" "thpool ?s = jobqueue p" "flags ?s = (False, False)"
    "current_connected_total ?s = 0" "\<not> exit_flag ?s" "\<not> exit_accept_flag ?s"
    unfolding assms(2) using assms(4)
    by (simp_all add: live_start_def start_state_def server_of_def accept_setup_def sample_listen_def flags_def Let_def)
  have 1: "live_step ?a st0 = Inr ?st1"
    unfolding assms(2) by (simp add: live_step_def live_turn_def accept_turn_of_def live_start_def
        accept_setup_def sample_listen_def Let_def)
  have i1: "live_inv ?st1"
    using run_live_refines [OF assms(1), of "[?a]"] 1 assms(3) by (simp add: sample_choices_def)
  have so: "server_of ?st1 = ?s" by (simp add: server_of_def put_server_def)
  have inv: "server_inv ?s" using live_inv_parts(4) [OF i1] so by simp
  have e: "fd_unlisted sample_accept ?s" "\<not> accept_refused sample_accept ?s"
    using sample_not_refused s(1) by (simp_all add: fd_unlisted_def conns_init accept_refused_def)
  have fd: "0 \<le> ae_fd sample_accept" "ae_fd sample_accept = 5" "ae_ctl sample_accept \<noteq> -1"
    by (simp_all add: sample_accept_def)
  obtain s2 where s2: "accept_connection sample_accept ?s = Inr s2"
    "abs_of s2 = (abs_of ?s)\<lparr>a_conns := (conns init_epoll_connect)(5 \<mapsto> accept_peer sample_accept), a_total := 1\<rparr>"
    using accept_admitted_eq [OF inv e fd(1)] fd s(1,4) by auto
  have it: "accept_returned sample_accept ?s = Inr s2"
    using s2(1) fd(1) by (simp add: accept_returned_def)
  have fl: "\<not> exit_flag s2" using returned_flags [OF it] s(3) by (simp add: flags_def)
  have q: "thpool s2 = jobqueue p" using thpool_accepts [OF s2(1)] s(2) by simp
  let ?st1' = "?st1\<lparr>lv_accept := In_accept\<rparr>"
  let ?st2 = "put_server s2 (?st1'\<lparr>lv_accept := Accepting_loop\<rparr>)"
  have 2: "live_step ?a ?st1 = Inr ?st1'" "live_step ?a ?st1' = Inr ?st2"
    using so s(4-6) it by (simp_all add: live_step_def live_turn_def accept_turn_of_def MAX_EVENTS_def Let_def)
  have f2: "main (lv_pool ?st2) = main p" "snd (lv_batch ?st2) = []" "lv_time ?st2 = 100" "lv_delete ?st2 = None"
    unfolding assms(2) by (simp_all add: live_start_def put_server_def)
  have 3: "live_step ?w ?st2 = Inr (?st2\<lparr>lv_batch := (0, [sample_event])\<rparr>)"
    using f2 fl assms(5) by (simp add: live_step_def live_turn_def wait_turn_def recycle_due_def c_int_def SERVER_TIMEOUT_def Let_def)
  have "lv_pool ?st2 = p" unfolding assms(2) using q by (simp add: live_start_def put_server_def)
  moreover have "conns (epoll_connect_client s2) = [5 \<mapsto> accept_peer sample_accept]"
    using s2(2) by (simp add: abs_of_def conns_init fun_eq_iff)
  ultimately show ?thesis using 1 2 3 fl f2(4)
    by (intro exI [of _ "?st2\<lparr>lv_batch := (0, [sample_event])\<rparr>"]) (simp add: sample_choices_def)
qed

text \<open>The login is in the queue, and all workers are at the head of their loop.\<close>

definition login_choices :: "live_choice list" where
  "login_choices = sample_choices @ replicate 4 (By_main_thread sample_tm)"

lemma sample_queued:
  "\<exists>st0 st. boot ''8812'' (sample_env shipped_lines) 100 = Some st0
     \<and> steps_ok live_step choice_allowed login_choices st0 \<and> run_live login_choices st0 = Inr st \<and> live_inv st
     \<and> workers (lv_pool st) = replicate 15 Test \<and> main (lv_pool st) = Idle \<and> pool_mutex (lv_pool st) = None
     \<and> calls (lv_pool st) = [] \<and> waiting (jobqueue (lv_pool st)) = [sample_job] \<and> jobN (jobqueue (lv_pool st)) = 1
     \<and> conns (epoll_connect_client (lv_server st)) 5 \<noteq> None"
proof -
  have l: "1 \<le> start_level shipped_value" "start_level shipped_value < 5" by (simp_all add: shipped_start(2))
  let ?ms = "replicate 4 (By_main_thread sample_tm)"
  obtain p ls where b: "boot ''8812'' (sample_env shipped_lines) 100 = Some (live_start 100 (start_state 4 (\<lambda>_. None)) p ls)"
    "live_inv (live_start 100 (start_state 4 (\<lambda>_. None)) p ls)" "workers p = replicate 15 Test" "main p = Idle"
    "jobqueue p = thpool (start_state 4 (\<lambda>_. None))" "pool_mutex p = None" "calls p = []"
    using boot_starts [OF shipped_start(1) l, of 100] by (auto simp: sample_env_def)
  let ?st0 = "live_start 100 (start_state 4 (\<lambda>_. None)) p ls"
  have ok0: "steps_ok live_step choice_allowed sample_choices ?st0" using sample_boot b(1) by auto
  then have ok0': "steps_ok live_step choice_safe sample_choices ?st0"
    using boot_safe(2) [OF shipped_start(1) l b(1)] by blast
  obtain st1 where st1: "run_live sample_choices ?st0 = Inr st1" "lv_pool st1 = p" "lv_batch st1 = (0, [sample_event])"
    "conns (epoll_connect_client (lv_server st1)) = [5 \<mapsto> accept_peer sample_accept]" "lv_delete st1 = None"
    using sample_accepted [OF b(2) HOL.refl ok0' b(5,4)] by blast
  have i1: "live_inv st1" using run_live_refines [OF b(2) ok0'] st1(1) by auto
  have env: "event_env_ok sample_event (server_of st1)"
    using sample_event_ok(1) sample_heap b(5) st1(2)
    by (simp add: event_env_ok_def fresh_addr_def server_of_def start_state_def)
  obtain s' where s': "handle_event 0 sample_event (server_of st1) = Inr s'" "event_done sample_event (server_of st1) s'"
    using handle_event_correct [OF live_inv_parts(4) [OF i1] env sample_event_ok(2)] by blast
  have "length sample_login \<noteq> BUFLEN" by (simp add: sample_login_facts(1) BUFLEN_def)
  then have a: "abs_of s' = (abs_of (server_of st1))
      \<lparr>a_conns := [5 \<mapsto> touch 110 (accept_peer sample_accept)], a_jobs := waiting (jobqueue p) @ [sample_job]\<rparr>"
    using s'(2) st1(2,4) unfolding event_done_def
    by (simp add: abs_event_def sample_event_def sample_job_def abs_of_def server_of_def)
  have w: "waiting (thpool s') = [sample_job]" "conns (epoll_connect_client s') 5 \<noteq> None"
    using arg_cong [OF a, of a_jobs] arg_cong [OF a, of a_conns] b(5) by (simp_all add: start_state_def empty_queue)
  have c: "choice_safe (By_main_thread sample_tm) st1"
    using env sample_event_ok(3) st1(3,5) by (simp add: choice_contract_def sample_tm_def tm_ok_def)
  obtain st2 where st2: "run_live ?ms st1 = Inr st2" "server_of st2 = s'" "lv_pool st2 = p\<lparr>jobqueue := thpool s'\<rparr>"
    "steps_ok live_step choice_safe ?ms st1"
    using event_path [OF _ _ st1(3) s'(1) _ c st1(5)] st1(2) w(1) b(4-6) by (auto simp: start_state_def empty_queue)
  have i2: "live_inv st2" using run_live_refines [OF i1 st2(4)] st2(1) by auto
  have ok2: "steps_ok live_step choice_allowed ?ms st1"
    by (rule steps_without_acceptor [OF st2(4)]) simp
  have t: "epoll_connect_client (lv_server st2) = epoll_connect_client s'" using st2(2) by (auto simp: server_of_def)
  have "jobN (thpool s') = 1"
    using length_waiting [of "thpool s'"] w(1) s'(2) by (simp add: event_done_def server_inv_def)
  moreover have "steps_ok live_step choice_allowed login_choices ?st0" "run_live login_choices ?st0 = Inr st2"
    using ok0 st1(1) st2(1) ok2
    by (simp_all add: login_choices_def steps_ok_append run_live_append run_live_def [symmetric])
  ultimately show ?thesis
    using b(1) i2 st2(3) b(3,4,6,7) w t by (intro exI [of _ ?st0] exI [of _ st2]) simp
qed

lemma sample_served:
  "\<exists>st0 st. boot ''8812'' (sample_env shipped_lines) 100 = Some st0
     \<and> steps_ok live_step choice_allowed served_choices st0
     \<and> run_live served_choices st0 = Inr st \<and> calls (lv_pool st) = [sample_job]"
proof -
  let ?ws = "replicate 7 (By_pool_worker 0 [] full_malloc)"
  obtain st0 st2 where q: "boot ''8812'' (sample_env shipped_lines) 100 = Some st0"
    "steps_ok live_step choice_allowed login_choices st0" "run_live login_choices st0 = Inr st2" "live_inv st2"
    "workers (lv_pool st2) = replicate 15 Test" "main (lv_pool st2) = Idle" "pool_mutex (lv_pool st2) = None"
    "calls (lv_pool st2) = []" "waiting (jobqueue (lv_pool st2)) = [sample_job]" "jobN (jobqueue (lv_pool st2)) = 1"
    "conns (epoll_connect_client (lv_server st2)) 5 \<noteq> None"
    using sample_queued by blast
  have "token_inv (lv_pool st2)" using live_inv_parts(2) [OF q(4)] by (simp add: pool_inv_def)
  then have sem: "thpool_keepalive (lv_pool st2)" "queueSem (jobqueue (lv_pool st2)) \<noteq> 0"
    using q(5,6,10) by (auto simp: token_inv_def cnt_def filter_replicate)
  have call: "call_allowed [] full_malloc sample_job (epoll_connect_client (lv_server st2))"
    using q(11) full_malloc_works
    by (simp add: call_allowed_def servable_def sample_job_facts sample_login_facts reply_len_def cmd_defs)
  obtain st where st: "run_live ?ws st2 = Inr st" "calls (lv_pool st) = [sample_job]" "steps_ok live_step choice_safe ?ws st2"
    using worker_path [OF q(4) _ _ sem(1) q(7) sem(2) q(9) call, of 0] q(5,8) by auto
  have ok2: "steps_ok live_step choice_allowed ?ws st2"
    by (rule steps_without_acceptor [OF st(3)]) simp
  have c: "served_choices = login_choices @ ?ws" by (simp add: served_choices_def login_choices_def)
  have "steps_ok live_step choice_allowed served_choices st0" "run_live served_choices st0 = Inr st"
    unfolding c using q(2,3) st(1) ok2 by (simp_all add: steps_ok_append run_live_append run_live_def [symmetric])
  with q(1) st(2) show ?thesis by blast
qed

end
