(* ===== verification/LiveSystem.thy ===== *)
theory LiveSystem
  imports LiveBoot
begin

text \<open>
  What the server promises from its start to its end, with all threads interleaved: \<open>main_start\<close>
  composed with the runs of the interleaved server.
\<close>

section \<open>Properties\<close>

text \<open>C6. The server that \<open>main_start\<close> boots, over every interleaving of the accept thread, the epoll loop, the 15
  workers inside \<open>thpool_thread_do\<close>, \<open>main\<close> inside \<open>thpool_add_work\<close> and \<open>thpool_destroy\<close>, and the signal handler whose
  turns keep the contracts of \<open>choice_allowed\<close>: it returns from every turn, keeps the invariants of table,
  queue and pool, and follows a specification in which messages are added, taken and served in
  separate steps. The contracts, each in the state its turn finds: \<open>accept\<close> returns a descriptor that is not open, and adding it to epoll does not fail;
  \<open>recv\<close> and \<open>malloc\<close> as documented; received messages have at most 63 bytes (or fill the buffer) and logins
  terminated fields; a recycling finds the first job of the queue in place and not expired when it gets the
  mutex; and when a worker calls the function of its job, the peer of a login is still in the table, \<open>malloc\<close> does not
  fail, and the whole reply is written without \<open>EAGAIN\<close>. What happens otherwise is C12, C13, C23, C26, C30 and C35. A call of
  \<open>respons_stb_info\<close> is one move, so the race of C22 is not among these interleavings. The log's part is C29.\<close>

theorem interleaved_server_refines:
  assumes "start_ok lines v arg e" "1 \<le> start_level v" "start_level v < 5" "boot arg e now = Some st0"
    and "steps_ok live_step choice_allowed cs st0"
  shows "\<exists>st. run_live cs st0 = Inr st \<and> server_ok (server_of st) \<and> pool_inv (lv_pool st)
    \<and> live_spec\<^sup>*\<^sup>* (live_view st0) (live_view st)"
proof -
  from run_live_refines [OF boot_safe [OF assms]] show ?thesis by (auto simp: live_inv_def)
qed

theorem interleaved_server_refines_witness:
  "\<exists>st0 st. boot ''8812'' (sample_env shipped_lines) 100 = Some st0 \<and> run_live served_choices st0 = Inr st
     \<and> server_ok (server_of st)"
proof -
  have l: "1 \<le> start_level shipped_value" "start_level shipped_value < 5" by (simp_all add: shipped_start(2))
  obtain st0 where st0: "boot ''8812'' (sample_env shipped_lines) 100 = Some st0"
    "steps_ok live_step choice_allowed served_choices st0"
    using sample_served by blast
  from interleaved_server_refines [OF shipped_start(1) l st0] st0(1) show ?thesis by blast
qed

text \<open>C8. Under the contracts of C6, among them that no waiting job expires (a deletion of expired jobs drops messages,
  C25), no message is lost, invented or answered twice: over every such interleaving the messages that
  \<open>main\<close> has received are exactly those served, those in a worker's hands, those that wait and the one
  that is being added; when \<open>main\<close> is between two events and all workers are blocked, every message
  has been served exactly once. Only the end of \<open>thpool_destroy\<close> drops the messages that still wait.\<close>

theorem messages_served_once:
  assumes "start_ok lines v arg e" "1 \<le> start_level v" "start_level v < 5" "boot arg e now = Some st0"
    and "steps_ok live_step choice_allowed cs st0" "run_live cs st0 = Inr st" "p = lv_pool st"
  shows "mset (calls p) \<subseteq># mset (lv_received st)
    \<and> (main p \<noteq> Destroyed \<longrightarrow>
         mset (lv_received st) = mset (calls p) + hands p + mset (waiting (jobqueue p)) + main_hand p)
    \<and> (main p = Idle \<and> (\<forall>i<length (workers p). worker_move i p = None) \<longrightarrow>
         mset (calls p) = mset (lv_received st))"
proof -
  have i: "live_inv st" "0 < length (workers p)"
    using run_live_refines [OF boot_safe [OF assms(1-5)]] boot_sound(2) [OF assms(1-4)] assms(6,7) by auto
  have j: "main_hand p + account p \<subseteq># mset (lv_received st)"
    "main p \<noteq> Destroyed \<Longrightarrow> main_hand p + account p = mset (lv_received st)"
    using live_inv_parts(3) [OF i(1)] assms(7) by (simp_all add: live_jobs_def)
  have "mset (calls p) \<subseteq># main_hand p + account p" by (simp add: account_parts add.assoc add.left_commute)
  then have "mset (calls p) \<subseteq># mset (lv_received st)" using j(1) by (rule subset_mset.order_trans)
  moreover have "mset (lv_received st) = mset (calls p) + hands p + mset (waiting (jobqueue p)) + main_hand p"
    if "main p \<noteq> Destroyed"
    using j(2) [OF that] by (simp add: account_parts add.commute)
  moreover have "mset (calls p) = mset (lv_received st)"
    if "main p = Idle" "\<forall>i<length (workers p). worker_move i p = None"
    using drained(2) [OF _ that(1) i(2) that(2)] j(2) that(1) live_inv_parts(2) [OF i(1)] assms(7)
    by (simp add: main_hand_def)
  ultimately show ?thesis by blast
qed

theorem messages_served_once_witness:
  "\<exists>st0 st. boot ''8812'' (sample_env shipped_lines) 100 = Some st0 \<and> run_live served_choices st0 = Inr st
     \<and> calls (lv_pool st) = [sample_job] \<and> mset (calls (lv_pool st)) \<subseteq># mset (lv_received st)"
proof -
  have l: "1 \<le> start_level shipped_value" "start_level shipped_value < 5" by (simp_all add: shipped_start(2))
  obtain st0 st where st: "boot ''8812'' (sample_env shipped_lines) 100 = Some st0"
    "steps_ok live_step choice_allowed served_choices st0" "run_live served_choices st0 = Inr st"
    "calls (lv_pool st) = [sample_job]"
    using sample_served by blast
  from messages_served_once [OF shipped_start(1) l st(1-3) HOL.refl] st(1,3,4) show ?thesis by blast
qed

text \<open>C10. After SIGTERM the server ends, under the contracts of C6 for all turns before and after the signal, so in
  particular without an expired job having been deleted (after which \<open>thpool_destroy\<close> can hang, C12): under every schedule in which \<open>main\<close>, the accept thread and
  each of the 15 workers get a turn again and again, a bounded number of rounds brings the accept
  thread to its end, every worker to its end and \<open>main\<close> through \<open>thpool_destroy\<close>, without undefined
  behaviour in these threads; their calls of the log, which here are effects, are C33. A turn of the accept thread that
  is in \<open>accept\<close> lets that call return: after the handler has shut the listening socket down, it does not block any longer. The signal
  arrives between two moves, not inside a call of \<open>LOG_INFO\<close>, whose mutex the handler would wait for.\<close>

theorem live_server_ends:
  assumes "start_ok lines v arg e" "1 \<le> start_level v" "start_level v < 5" "boot arg e now = Some st0"
    and "steps_ok live_step choice_allowed (cs @ By_signal SIGTERM # concat rounds) st0"
    and "run_live cs st0 = Inr st1" "\<forall>r\<in>set rounds. fair_round 15 r" "live_measure st1 < length rounds"
  shows "\<exists>st. run_live (cs @ By_signal SIGTERM # concat rounds) st0 = Inr st
    \<and> main (lv_pool st) = Destroyed \<and> (\<forall>w\<in>set (workers (lv_pool st)). w = Done) \<and> lv_accept st = Returned"
proof -
  note b = boot_safe [OF assms(1-5)] boot_sound(2) [OF assms(1-4)]
  have ok: "steps_ok live_step choice_safe cs st0"
    "steps_ok live_step choice_safe (By_signal SIGTERM # concat rounds) st1"
    using b(2) assms(6) by (simp_all add: steps_ok_append run_live_def)
  have i: "live_inv st1" "length (workers (lv_pool st1)) = 15"
    using run_live_refines [OF b(1) ok(1)] b(3) assms(6) by auto
  obtain st2 where st2: "live_step (By_signal SIGTERM) st1 = Inr st2" "live_inv st2" "exit_flag (lv_server st2)"
    "live_measure st2 = live_measure st1" "length (workers (lv_pool st2)) = 15"
    using signal_ends [OF i(1)] i(2) by auto
  have ok2: "steps_ok live_step choice_safe (concat rounds) st2" using ok(2) st2(1) by simp
  obtain st where "run_live (concat rounds) st2 = Inr st" "all_ended st"
    using fair_rounds_end [OF st2(2,3) _ ok2] assms(7,8) st2(4,5) by auto
  then show ?thesis using assms(6) st2(1) by (simp add: run_live_append all_ended_def)
qed

definition sample_round :: "live_choice list" where
  "sample_round = By_main_thread sample_tm # By_acceptor 8812 sample_listen sample_accept
     # map (\<lambda>i. By_pool_worker i [] full_malloc) [0..<15]"

theorem live_server_ends_witness:
  "\<exists>st0 st. boot ''8812'' (sample_env shipped_lines) 100 = Some st0
     \<and> run_live (By_signal SIGTERM # concat (replicate 200 sample_round)) st0 = Inr st
     \<and> main (lv_pool st) = Destroyed"
proof -
  have l: "1 \<le> start_level shipped_value" "start_level shipped_value < 5" by (simp_all add: shipped_start(2))
  obtain p ls where b: "boot ''8812'' (sample_env shipped_lines) 100
      = Some (live_start 100 (start_state 4 (\<lambda>_. None)) p ls)"
    "live_inv (live_start 100 (start_state 4 (\<lambda>_. None)) p ls)" "workers p = replicate 15 Test" "main p = Idle"
    "queueSem (jobqueue p) = 0"
    using boot_starts [OF shipped_start(1) l, of 100] by (auto simp: sample_env_def start_state_def)
  let ?st0 = "live_start 100 (start_state 4 (\<lambda>_. None)) p ls" and ?rs = "replicate 200 sample_round"
  obtain st1 where st1: "live_step (By_signal SIGTERM) ?st0 = Inr st1" "live_inv st1" "exit_flag (lv_server st1)"
    "lv_received st1 = []" "snd (lv_batch st1) = []" "lv_delete st1 = None" "lv_accept st1 = Starting"
    using signal_ends [OF b(2)] by (auto simp: live_start_def)
  have "list_all plain_choice (concat ?rs)"
    by (simp add: list_all_iff sample_round_def plain_choice_def)
  then have ok: "steps_ok live_step choice_allowed ([] @ By_signal SIGTERM # concat ?rs) ?st0"
    using quiet_steps_ok [OF st1(2-5) _ st1(6)] st1(1,7) by (simp add: choice_contract_def del: concat_replicate_trivial)
  have m: "live_measure ?st0 < length ?rs"
    using b(3-5) by (simp add: live_measure_def pool_measure_def before_weight_def live_start_def sum_list_replicate)
  have f: "\<forall>r\<in>set ?rs. fair_round 15 r" by (fastforce simp: fair_round_def sample_round_def image_iff)
  from live_server_ends [OF shipped_start(1) l b(1) ok _ f m] b(1) show ?thesis by auto
qed

text \<open>C7. The two granularities agree. From a state in which \<open>main\<close> is between two events and the mutex
  is free: at most four undisturbed moves of \<open>main\<close> do what \<open>handle_event\<close> does in one turn, six
  undisturbed moves of a waiting worker do what \<open>worker_step\<close> does with the semaphore lowered, and the two
  moves of a recycling what \<open>recycle_timeout_confd\<close> does: the same state of the server or the same error.\<close>

theorem moves_make_turns:
  assumes "live_inv st" "main (lv_pool st) = Idle" "pool_mutex (lv_pool st) = None" "lv_delete st = None"
  shows "(lv_batch st = (k, ev # evs) \<longrightarrow>
      (\<exists>n\<le>4. same_outcome (handle_event k ev (server_of st)) (run_live (replicate n (By_main_thread t)) st)))
    \<and> (i < length (workers (lv_pool st)) \<and> workers (lv_pool st) ! i = Wait
        \<and> queueSem (jobqueue (lv_pool st)) \<noteq> 0 \<and> waiting (jobqueue (lv_pool st)) \<noteq> [] \<longrightarrow>
      same_outcome (worker_step ws mem (woken (server_of st))) (run_live (replicate 6 (By_pool_worker i ws mem)) st))
    \<and> (snd (lv_batch st) = [] \<and> \<not> exit_flag (lv_server st) \<and> recycle_due (lo_now e) (lv_time st) \<longrightarrow>
      same_outcome (recycle_timeout_confd (lo_now e) (lo_tm e) (lo_del e)
        (emit [Print (''60s detect one time =====>'' @ nl)] (server_of st))) (run_live [By_wait e, By_main_thread t] st))"
proof (intro conjI impI)
  assume "lv_batch st = (k, ev # evs)"
  then show "\<exists>n\<le>4. same_outcome (handle_event k ev (server_of st)) (run_live (replicate n (By_main_thread t)) st)"
    by (rule event_moves [OF assms(2,3) _ assms(4)])
next
  let ?q = "jobqueue (lv_pool st)"
  let ?q1 = "?q\<lparr>queueSem := queueSem ?q - 1\<rparr>"
  assume w: "i < length (workers (lv_pool st)) \<and> workers (lv_pool st) ! i = Wait \<and> queueSem ?q \<noteq> 0 \<and> waiting ?q \<noteq> []"
  have "queue_inv ?q" by (rule pool_queue_inv [OF live_inv_parts(2) [OF assms(1)]])
  then have "queue_inv ?q1" by (simp add: queue_inv_def queue_rep_def addrs_def)
  moreover have "waiting ?q1 = waiting ?q" by (simp add: waiting_def addrs_def)
  ultimately obtain a q where t: "take_job ?q1 = Inr (Some a, 0, q)"
    using take_job_next [of ?q1] w by (metis list.exhaust)
  have "thpool_keepalive (lv_pool st)"
    using live_inv_parts(2) [OF assms(1)] assms(2) by (simp add: pool_inv_def token_inv_def)
  then show "same_outcome (worker_step ws mem (woken (server_of st))) (run_live (replicate 6 (By_pool_worker i ws mem)) st)"
    using worker_moves [OF _ _ _ assms(3) _ t] w by blast
next
  assume "snd (lv_batch st) = [] \<and> \<not> exit_flag (lv_server st) \<and> recycle_due (lo_now e) (lv_time st)"
  then show "same_outcome (recycle_timeout_confd (lo_now e) (lo_tm e) (lo_del e)
      (emit [Print (''60s detect one time =====>'' @ nl)] (server_of st))) (run_live [By_wait e, By_main_thread t] st)"
    using recycle_moves [OF assms(2-4)] by blast
qed

theorem moves_make_turns_witness:
  "(\<exists>n\<le>4. same_outcome (handle_event 1 (sample_event\<lparr>ev_malloc := Some 2\<rparr>) (server_of sample_live))
      (run_live (replicate n (By_main_thread sample_tm)) sample_live))
   \<and> same_outcome (worker_step [] full_malloc (woken (server_of sample_live)))
      (run_live (replicate 6 (By_pool_worker 0 [] full_malloc)) sample_live)"
  using moves_make_turns [OF sample_live_inv, of 1 "sample_event\<lparr>ev_malloc := Some 2\<rparr>" "[]" sample_tm 0 "[]" full_malloc]
    sample_busy_queue(1) sample_busy_facts(4)
  by (simp add: sample_live_def)

end
