(* ===== verification/LiveServes.thy ===== *)
theory LiveServes
  imports LiveBoot
begin

text \<open>
  The interleaved server answers: while \<open>main\<close> waits for events, turns of the workers and of the accept
  thread in any fair order serve every message that has been received.
\<close>

section \<open>Turns that bring no message\<close>

definition serving_choice :: "live_choice \<Rightarrow> bool" where
  "serving_choice c = (case c of By_pool_worker i ws mem \<Rightarrow> True | By_acceptor port le e \<Rightarrow> True | _ \<Rightarrow> False)"

text \<open>Nothing that matters to the workers has changed.\<close>

definition same_pool :: "live \<Rightarrow> live \<Rightarrow> bool" where
  "same_pool st st' \<longleftrightarrow> lv_pool st' = lv_pool st"

definition worker_waits :: "live_choice \<Rightarrow> live \<Rightarrow> bool" where
  "worker_waits c st =
     (case c of
        By_pool_worker i ws mem \<Rightarrow> i < length (workers (lv_pool st)) \<longrightarrow> worker_move i (lv_pool st) = None
      | _ \<Rightarrow> True)"

lemma same_pool_waits: "same_pool st st' \<Longrightarrow> worker_waits c st' = worker_waits c st"
  by (cases c) (simp_all add: same_pool_def worker_waits_def)

text \<open>What every such turn keeps.\<close>

definition keeps_serving :: "live \<Rightarrow> live \<Rightarrow> bool" where
  "keeps_serving st st' \<longleftrightarrow> live_inv st' \<and> main (lv_pool st') = Idle \<and> lv_received st' = lv_received st
     \<and> length (workers (lv_pool st')) = length (workers (lv_pool st))"

lemma acceptor_keeps_pool:
  assumes "accept_turn_of port le e st = Some (Inr st')"
  shows "lv_pool st' = lv_pool st" "lv_received st' = lv_received st"
proof -
  have "\<exists>s a. st' = put_server s (st\<lparr>lv_accept := a\<rparr>) \<and> thpool s = jobqueue (lv_pool st) \<or> st' = st\<lparr>lv_accept := a\<rparr>
      \<or> st' = put_server s st \<and> thpool s = jobqueue (lv_pool st)"
    using assms returned_thpool
    by (fastforce simp: accept_turn_of_def accept_setup_def close_listen_def Let_def split: accept_pc.splits if_splits)
  then show "lv_pool st' = lv_pool st" "lv_received st' = lv_received st" by auto
qed

lemma serving_step:
  assumes "live_inv st" "main (lv_pool st) = Idle" "choice_safe c st" "serving_choice c"
  shows "\<exists>st'. live_step c st = Inr st' \<and> keeps_serving st st'
    \<and> (pool_measure (lv_pool st') < pool_measure (lv_pool st) \<or> same_pool st st' \<and> worker_waits c st)"
proof -
  obtain st' where st': "live_step c st = Inr st'" "advances st st'"
    using live_step_advances [OF assms(1,3)] by blast
  have keep: "live_inv st'" "length (workers (lv_pool st')) = length (workers (lv_pool st))"
    using st'(2) by (simp_all add: advances_def)
  show ?thesis
  proof (cases "live_turn c st")
    case None
    then have "st' = st" using st'(1) by (simp add: live_step_def)
    moreover have "worker_waits c st"
    proof (cases c)
      case (By_pool_worker i ws mem)
      then show ?thesis using None
        by (auto simp: live_turn_def worker_turn_def on_pool_def worker_waits_def Let_def split: worker.splits)
    qed (simp_all add: worker_waits_def)
    ultimately show ?thesis
      using st'(1) assms(1,2) by (simp add: keeps_serving_def same_pool_def)
  next
    case (Some r)
    then have t: "live_turn c st = Some (Inr st')" using st'(1) by (simp add: live_step_def)
    show ?thesis
    proof (cases c)
      case (By_pool_worker i ws mem)
      then have w: "worker_turn i ws mem st = Some (Inr st')" using t by (simp add: live_turn_def)
      then have i: "i < length (workers (lv_pool st))" by (auto simp: worker_turn_def Let_def split: if_splits)
      have m: "moves_worker i st st'" using pool_worker_turn [OF assms(1) _ w] assms(3) By_pool_worker by auto
      then have mv: "worker_move i (lv_pool st) = Some (Inr (lv_pool st'))" "lv_received st' = lv_received st"
        by (simp_all add: moves_worker_def)
      have "main (lv_pool st') = Idle"
        using worker_move_inv [OF live_inv_parts(2) [OF assms(1)] i mv(1)] assms(2) by simp
      then show ?thesis
        using st'(1) keep mv(2) worker_move_measure [OF i mv(1)] by (simp add: keeps_serving_def)
    next
      case (By_acceptor port le e)
      then have "lv_pool st' = lv_pool st" "lv_received st' = lv_received st"
        using acceptor_keeps_pool t by (simp_all add: live_turn_def)
      then show ?thesis
        using st'(1) keep assms(2) By_acceptor by (simp add: keeps_serving_def same_pool_def worker_waits_def)
    qed (use assms(4) in \<open>simp_all add: serving_choice_def\<close>)
  qed
qed

lemma keeps_serving_trans: "keeps_serving st st1 \<Longrightarrow> keeps_serving st1 st2 \<Longrightarrow> keeps_serving st st2"
  by (simp add: keeps_serving_def)

lemma serving_run:
  assumes "live_inv st" "main (lv_pool st) = Idle" "steps_ok live_step choice_safe cs st" "list_all serving_choice cs"
  shows "\<exists>st'. run_live cs st = Inr st' \<and> keeps_serving st st'
    \<and> (pool_measure (lv_pool st') < pool_measure (lv_pool st) \<or> same_pool st st' \<and> (\<forall>c\<in>set cs. worker_waits c st))"
  using assms
proof (induction cs arbitrary: st)
  case Nil
  then show ?case by (simp add: keeps_serving_def same_pool_def)
next
  case (Cons c cs)
  obtain st1 where st1: "live_step c st = Inr st1" "keeps_serving st st1"
    "pool_measure (lv_pool st1) < pool_measure (lv_pool st) \<or> same_pool st st1 \<and> worker_waits c st"
    using serving_step [OF Cons.prems(1,2)] Cons.prems(3,4) by auto
  have i: "live_inv st1" "main (lv_pool st1) = Idle" using st1(2) by (simp_all add: keeps_serving_def)
  have "steps_ok live_step choice_safe cs st1" "list_all serving_choice cs" using Cons.prems(3,4) st1(1) by simp_all
  then obtain st' where st': "run_live cs st1 = Inr st'" "keeps_serving st1 st'"
    "pool_measure (lv_pool st') < pool_measure (lv_pool st1) \<or> same_pool st1 st' \<and> (\<forall>c\<in>set cs. worker_waits c st1)"
    using Cons.IH [OF i] by blast
  have m: "pool_measure (lv_pool st') < pool_measure (lv_pool st) \<or> same_pool st st' \<and> (\<forall>d\<in>set (c # cs). worker_waits d st)"
  proof (cases "pool_measure (lv_pool st1) < pool_measure (lv_pool st)")
    case True
    then show ?thesis using st'(3) by (auto simp: same_pool_def)
  next
    case False
    then have s: "same_pool st st1" "worker_waits c st" using st1(3) by auto
    then have "pool_measure (lv_pool st1) = pool_measure (lv_pool st)" by (simp add: same_pool_def)
    with st'(3) show ?thesis
    proof (elim disjE)
      assume "same_pool st1 st' \<and> (\<forall>d\<in>set cs. worker_waits d st1)"
      then show ?thesis using s same_pool_waits [OF s(1)] by (simp add: same_pool_def)
    qed simp
  qed
  have "run_live (c # cs) st = Inr st'" using st1(1) st'(1) by simp
  then show ?case using m keeps_serving_trans [OF st1(2) st'(2)] by blast
qed

section \<open>Fair rounds\<close>

text \<open>A round in which \<open>n\<close> workers all get a turn, among others of them and of the accept thread.\<close>

definition serving_round :: "nat \<Rightarrow> live_choice list \<Rightarrow> bool" where
  "serving_round n cs \<longleftrightarrow> list_all serving_choice cs \<and> (\<forall>i<n. \<exists>ws mem. By_pool_worker i ws mem \<in> set cs)"

definition workers_wait :: "live \<Rightarrow> bool" where
  "workers_wait st \<longleftrightarrow> (\<forall>i<length (workers (lv_pool st)). worker_move i (lv_pool st) = None)"

lemma waiting_run:
  assumes "live_inv st" "main (lv_pool st) = Idle" "steps_ok live_step choice_safe cs st" "list_all serving_choice cs"
    "workers_wait st" "run_live cs st = Inr st'"
  shows "workers_wait st'"
  using assms
proof (induction cs arbitrary: st)
  case (Cons c cs)
  obtain st1 where st1: "live_step c st = Inr st1" "keeps_serving st st1"
    "pool_measure (lv_pool st1) < pool_measure (lv_pool st) \<or> same_pool st st1 \<and> worker_waits c st"
    using serving_step [OF Cons.prems(1,2)] Cons.prems(3,4) by auto
  have "same_pool st st1"
  proof (cases c)
    case (By_pool_worker i ws mem)
    have "worker_turn i ws mem st = None"
    proof (cases "i < length (workers (lv_pool st))")
      case True
      then have w: "worker_move i (lv_pool st) = None" using Cons.prems(5) by (simp add: workers_wait_def)
      then have "workers (lv_pool st) ! i \<noteq> Run x" for x by (auto simp: worker_move_def Let_def)
      with w show ?thesis by (simp add: worker_turn_def on_pool_def Let_def split: worker.split)
    qed (simp add: worker_turn_def)
    then show ?thesis using st1(1) By_pool_worker by (simp add: live_step_def live_turn_def same_pool_def)
  next
    case (By_acceptor port le e)
    then show ?thesis
      using st1(1) acceptor_keeps_pool [of port le e st st1]
      by (auto simp: live_step_def live_turn_def same_pool_def split: option.splits)
  qed (use Cons.prems(4) in \<open>simp_all add: serving_choice_def\<close>)
  then have "workers_wait st1" using Cons.prems(5) by (simp add: workers_wait_def same_pool_def)
  then show ?case
    using Cons.IH [of st1] Cons.prems(3,4,6) st1(1,2) by (simp add: keeps_serving_def)
qed simp

lemma serving_rounds:
  assumes "live_inv st" "main (lv_pool st) = Idle" "steps_ok live_step choice_safe (concat rs) st"
    "\<forall>r\<in>set rs. serving_round (length (workers (lv_pool st))) r" "pool_measure (lv_pool st) \<le> length rs"
  shows "\<exists>st'. run_live (concat rs) st = Inr st' \<and> keeps_serving st st' \<and> workers_wait st'"
  using assms
proof (induction rs arbitrary: st)
  case Nil
  have "worker_move i (lv_pool st) = None" if i: "i < length (workers (lv_pool st))" for i
  proof (rule ccontr)
    assume "worker_move i (lv_pool st) \<noteq> None"
    then obtain r where r: "worker_move i (lv_pool st) = Some r" by blast
    then obtain p' where "r = Inr p'" using worker_move_inv [OF live_inv_parts(2) [OF Nil.prems(1)] i] by blast
    then show False using worker_move_measure [OF i] r Nil.prems(5) by fastforce
  qed
  with Nil show ?case by (simp add: keeps_serving_def workers_wait_def)
next
  case (Cons r rs)
  have ok: "steps_ok live_step choice_safe r st" "list_all serving_choice r" "list_all serving_choice (concat rs)"
    using Cons.prems(3,4) by (auto simp: steps_ok_append serving_round_def list_all_iff)
  obtain st1 where st1: "run_live r st = Inr st1" "keeps_serving st st1"
    "pool_measure (lv_pool st1) < pool_measure (lv_pool st) \<or> same_pool st st1 \<and> (\<forall>c\<in>set r. worker_waits c st)"
    using serving_run [OF Cons.prems(1,2) ok(1,2)] by blast
  have i: "live_inv st1" "main (lv_pool st1) = Idle" "length (workers (lv_pool st1)) = length (workers (lv_pool st))"
    using st1(2) by (simp_all add: keeps_serving_def)
  have rest: "steps_ok live_step choice_safe (concat rs) st1"
    using Cons.prems(3) st1(1) by (simp add: steps_ok_append run_live_def)
  show ?case
  proof (cases "pool_measure (lv_pool st1) < pool_measure (lv_pool st)")
    case True
    then obtain st' where "run_live (concat rs) st1 = Inr st'" "keeps_serving st1 st'" "workers_wait st'"
      using Cons.IH [OF i(1,2) rest] Cons.prems(4,5) i(3) by auto
    then show ?thesis using st1(1,2) keeps_serving_trans by (auto simp: run_live_append)
  next
    case False
    then have b: "same_pool st st1" "\<forall>c\<in>set r. worker_waits c st" using st1(3) by auto
    have "worker_move j (lv_pool st) = None" if j: "j < length (workers (lv_pool st))" for j
    proof -
      obtain ws mem where "By_pool_worker j ws mem \<in> set r"
        using Cons.prems(4) j by (auto simp: serving_round_def)
      with b(2) j show ?thesis by (fastforce simp: worker_waits_def)
    qed
    then have w1: "workers_wait st1" using b(1) by (simp add: workers_wait_def same_pool_def)
    obtain st' where st': "run_live (concat rs) st1 = Inr st'" "keeps_serving st1 st'"
      using serving_run [OF i(1,2) rest ok(3)] by blast
    then have "workers_wait st'" using waiting_run [OF i(1,2) rest ok(3) w1] by blast
    then show ?thesis using st' st1(1,2) keeps_serving_trans by (auto simp: run_live_append)
  qed
qed

section \<open>Properties\<close>

text \<open>C36. Under the contracts of C6 (no job expires, logins are served while their connection is in the
  table and have terminated fields, messages have at most 63 bytes, \<open>malloc\<close> works, replies are written without \<open>EAGAIN\<close>, and \<open>accept\<close> returns descriptors that are not open and can be added to epoll) every
  message received is answered: when \<open>main\<close> waits for events, then under every schedule in
  which each of the 15 workers gets a turn again and again, among turns of the accept thread, a bounded
  number of rounds serves all messages received so far, each exactly once, and leaves no job in the
  queue or with a worker. Messages that arrive later are those of a later application.\<close>

theorem messages_get_served:
  assumes "start_ok lines v arg e" "1 \<le> start_level v" "start_level v < 5" "boot arg e now = Some st0"
    and "steps_ok live_step choice_allowed (cs @ concat rounds) st0" "run_live cs st0 = Inr st1"
    and "main (lv_pool st1) = Idle" "\<forall>r\<in>set rounds. serving_round 15 r" "pool_measure (lv_pool st1) \<le> length rounds"
  shows "\<exists>st. run_live (cs @ concat rounds) st0 = Inr st \<and> lv_received st = lv_received st1
    \<and> mset (calls (lv_pool st)) = mset (lv_received st) \<and> waiting (jobqueue (lv_pool st)) = []
    \<and> hands (lv_pool st) = {#}"
proof -
  note b = boot_safe [OF assms(1-5)] boot_sound(2) [OF assms(1-4)]
  have ok: "steps_ok live_step choice_safe cs st0" "steps_ok live_step choice_safe (concat rounds) st1"
    using b(2) assms(6) by (simp_all add: steps_ok_append run_live_def)
  have i: "live_inv st1" "length (workers (lv_pool st1)) = 15"
    using run_live_refines [OF b(1) ok(1)] b(3) assms(6) by auto
  obtain st where st: "run_live (concat rounds) st1 = Inr st" "keeps_serving st1 st" "workers_wait st"
    using serving_rounds [OF i(1) assms(7) ok(2) _ assms(9)] assms(8) i(2) by auto
  let ?p = "lv_pool st"
  have k: "live_inv st" "main ?p = Idle" "lv_received st = lv_received st1" "0 < length (workers ?p)"
    using st(2) i(2) by (simp_all add: keeps_serving_def)
  note d = drained [OF live_inv_parts(2) [OF k(1)] k(2,4) st(3) [unfolded workers_wait_def]]
  have "main_hand ?p + account ?p = mset (lv_received st)"
    using live_inv_parts(3) [OF k(1)] k(2) by (simp add: live_jobs_def)
  then have "mset (calls ?p) = mset (lv_received st)" using d(2) k(2) by (simp add: main_hand_def)
  moreover have "hands ?p = {#}" using d(3) by (intro hands_free) auto
  ultimately show ?thesis using st(1) k(3) d(1) assms(6) by (simp add: run_live_append)
qed

text \<open>The login of the client that has connected is all there is.\<close>

definition login_pending :: "live \<Rightarrow> bool" where
  "login_pending st \<longleftrightarrow> live_inv st \<and> main (lv_pool st) = Idle \<and> lv_received st = [sample_job]
     \<and> conns (epoll_connect_client (lv_server st)) 5 \<noteq> None"

lemma login_allowed:
  assumes "login_pending st"
  shows "choice_safe (By_pool_worker i [] full_malloc) st"
proof -
  let ?p = "lv_pool st"
  have st: "live_inv st" "lv_received st = [sample_job]" "conns (epoll_connect_client (lv_server st)) 5 \<noteq> None"
    using assms by (simp_all add: login_pending_def)
  have "hands ?p \<subseteq># {#sample_job#}"
    using live_inv_parts(3) [OF st(1)] st(2)
    by (simp add: live_jobs_def account_parts) (metis (no_types) mset_subset_eq_add_left mset_subset_eq_add_right subset_mset.order_trans)
  then have one: "x = sample_job" if "x \<in># hands ?p" for x
    using mset_subset_eqD that by fastforce
  have call: "call_allowed [] full_malloc sample_job (epoll_connect_client (lv_server st))"
    using st(3) full_malloc_works
    by (simp add: call_allowed_def servable_def sample_job_facts sample_login_facts reply_len_def cmd_defs)
  have "call_allowed [] full_malloc x (epoll_connect_client (lv_server st))"
    if "i < length (workers ?p)" "workers ?p ! i = Run (Some a)" "contents (job_heap (jobqueue ?p)) a = Some x" for a x
    using one [OF in_hands [OF that(1) _ that(3)]] that(2) call by simp
  then show ?thesis by (auto simp: choice_contract_def Let_def split: worker.split option.split)
qed

lemma login_step:
  assumes "login_pending st"
  shows "\<exists>st'. live_step (By_pool_worker i [] full_malloc) st = Inr st' \<and> login_pending st'"
proof -
  let ?c = "By_pool_worker i [] full_malloc"
  have st: "live_inv st" "main (lv_pool st) = Idle" using assms by (simp_all add: login_pending_def)
  obtain st' where st': "live_step ?c st = Inr st'" "keeps_serving st st'"
    using serving_step [OF st login_allowed [OF assms]] by (auto simp: serving_choice_def)
  have "conns (epoll_connect_client (lv_server st')) = conns (epoll_connect_client (lv_server st))"
  proof (cases "worker_turn i [] full_malloc st")
    case None
    then show ?thesis using st'(1) by (simp add: live_step_def live_turn_def)
  next
    case (Some r)
    then show ?thesis using pool_worker_turn [OF st(1) login_allowed [OF assms] Some] st'(1)
      by (auto simp: live_step_def live_turn_def moves_worker_def)
  qed
  then show ?thesis using st' assms by (auto simp: login_pending_def keeps_serving_def)
qed

lemma login_steps_ok:
  "login_pending st \<Longrightarrow> \<forall>c\<in>set cs. \<exists>i. c = By_pool_worker i [] full_malloc \<Longrightarrow> steps_ok live_step choice_safe cs st"
proof (induction cs arbitrary: st)
  case (Cons c cs)
  obtain i where c: "c = By_pool_worker i [] full_malloc" using Cons.prems(2) by auto
  obtain st' where "live_step c st = Inr st'" "login_pending st'" using login_step [OF Cons.prems(1)] c by blast
  then show ?case using Cons.IH Cons.prems login_allowed c by simp
qed simp

definition login_rounds :: "live_choice list list" where
  "login_rounds = replicate 40 (map (\<lambda>i. By_pool_worker i [] full_malloc) [0..<15])"

theorem messages_get_served_witness:
  "\<exists>st0 st. boot ''8812'' (sample_env shipped_lines) 100 = Some st0
     \<and> run_live (login_choices @ concat login_rounds) st0 = Inr st \<and> mset (calls (lv_pool st)) = {#sample_job#}"
proof -
  have l: "1 \<le> start_level shipped_value" "start_level shipped_value < 5" by (simp_all add: shipped_start(2))
  obtain st0 st1 where q: "boot ''8812'' (sample_env shipped_lines) 100 = Some st0"
    "steps_ok live_step choice_allowed login_choices st0" "run_live login_choices st0 = Inr st1" "live_inv st1"
    "workers (lv_pool st1) = replicate 15 Test" "main (lv_pool st1) = Idle"
    "calls (lv_pool st1) = []" "waiting (jobqueue (lv_pool st1)) = [sample_job]" "jobN (jobqueue (lv_pool st1)) = 1"
    "conns (epoll_connect_client (lv_server st1)) 5 \<noteq> None"
    using sample_queued by blast
  have "hands (lv_pool st1) = {#}" using q(5) by (intro hands_free) simp
  then have "mset (lv_received st1) = {#sample_job#}"
    using live_inv_parts(3) [OF q(4)] q(6-8) by (simp add: live_jobs_def account_parts main_hand_def)
  then have pend: "login_pending st1" using q(4,6,10) by (simp add: login_pending_def)
  have login_workers: "\<forall>c\<in>set (concat login_rounds). \<exists>i. c = By_pool_worker i [] full_malloc" by (auto simp: login_rounds_def)
  have ok1: "steps_ok live_step choice_allowed (concat login_rounds) st1"
    by (rule steps_without_acceptor [OF login_steps_ok [OF pend login_workers]]) (use login_workers in auto)
  have ok: "steps_ok live_step choice_allowed (login_choices @ concat login_rounds) st0"
    using ok1 q(2,3) by (simp add: steps_ok_append run_live_def)
  have "token_inv (lv_pool st1)" using live_inv_parts(2) [OF q(4)] by (simp add: pool_inv_def)
  then have "queueSem (jobqueue (lv_pool st1)) \<le> 1" using q(5,6,9) by (auto simp: token_inv_def)
  then have m: "pool_measure (lv_pool st1) \<le> length login_rounds"
    using q(5,6) by (simp add: pool_measure_def sum_list_replicate login_rounds_def)
  have f: "\<forall>r\<in>set login_rounds. serving_round 15 r"
    by (auto simp: login_rounds_def serving_round_def serving_choice_def list_all_iff image_iff)
  from messages_get_served [OF shipped_start(1) l q(1) ok q(3,6) f m] q(1) pend show ?thesis
    by (auto simp: login_pending_def)
qed

end
