(* ===== verification/LiveTexts.thy ===== *)
theory LiveTexts
  imports LiveRun
begin

text \<open>
  What the threads of the interleaved server log: every message is a text that the log can print
  (no conversion is left in it, whatever the clients send), and a turn only adds to the record of effects.
\<close>

section \<open>Texts\<close>

definition safe :: "string \<Rightarrow> bool" where
  "safe m \<longleftrightarrow> nulfree m \<and> CHR ''%'' \<notin> set m"

lemma safe_simps [simp]:
  "safe []"
  "safe (c # m) \<longleftrightarrow> c \<noteq> NUL \<and> c \<noteq> CHR ''%'' \<and> safe m"
  "safe (m @ n) \<longleftrightarrow> safe m \<and> safe n"
  by (auto simp: safe_def nulfree_def)

lemma safe_nl [simp]: "safe nl"
  by (simp add: nl_def NUL_def)

lemma digit_no_percent: "is_digit c \<Longrightarrow> c \<noteq> CHR ''%''"
  by (auto simp: is_digit_def)

lemma safe_show_nat [simp]: "safe (show_nat n)"
  using show_nat_digits [of n] digit_no_percent by (auto simp: safe_def)

lemma safe_show_int [simp]: "safe (show_int i)"
  by (simp add: show_int_def NUL_def)

lemma safe_inet_ntoa [simp]: "safe (inet_ntoa a)"
  by (simp add: inet_ntoa_def NUL_def)

lemma hex_no_percent: "d < 16 \<Longrightarrow> hex_char d \<noteq> CHR ''%''"
proof
  assume d: "d < 16" and "hex_char d = CHR ''%''"
  then have "of_char (hex_char d) = (37::nat)" by simp
  with d show False by (simp add: hex_char_def split: if_splits)
qed

lemma safe_hex2 [simp]: "safe (hex2 c)"
  using hex_char_not_NUL [OF of_char_div_16, of c] hex_char_not_NUL [of "of_char c mod 16"]
    hex_no_percent [OF of_char_div_16, of c] hex_no_percent [of "of_char c mod 16"]
  by (simp add: hex2_def)

lemma safe_dump [simp]: "safe (concat (map hex2 bs))"
  by (induction bs) simp_all

text \<open>The end of a message is no blank.\<close>

definition ends_dark :: "string \<Rightarrow> bool" where
  "ends_dark m \<longleftrightarrow> m \<noteq> [] \<and> last m \<noteq> CHR '' ''"

lemma ends_dark_simps [simp]:
  "\<not> ends_dark []"
  "ends_dark nl"
  "ends_dark (m @ n) \<longleftrightarrow> (if n = [] then ends_dark m else ends_dark n)"
  "ends_dark (c # n) \<longleftrightarrow> (if n = [] then c \<noteq> CHR '' '' else ends_dark n)"
  by (auto simp: ends_dark_def nl_def)

lemma nl_nonempty [simp]: "nl \<noteq> []"
  by (simp add: nl_def)

text \<open>A message of the server: it is safe, does not end in a blank and is not the line of \<open>log_close\<close>.\<close>

definition log_message :: "string \<Rightarrow> bool" where
  "log_message m \<longleftrightarrow> safe m \<and> ends_dark m \<and> hd m \<noteq> CHR ''L''"

lemma message_text:
  assumes "log_message m"
  shows "text_ok m" "sBuffer m \<noteq> ''LOG END'' @ nl"
proof -
  have m: "nulfree m" "m \<noteq> []" "hd m \<noteq> CHR ''L''"
    using assms by (simp_all add: log_message_def safe_def ends_dark_def)
  show "text_ok m" using assms by (simp add: log_message_def safe_def ends_dark_def text_ok_def)
  have "hd (sBuffer m) = hd m" using m(1,2) by (cases m) (simp_all add: sBuffer_def)
  then show "sBuffer m \<noteq> ''LOG END'' @ nl" using m(3) by auto
qed

section \<open>Effects\<close>

fun loggable :: "effect \<Rightarrow> bool" where
  "loggable (Log l f n m) \<longleftrightarrow> nulfree f \<and> length f < 100 \<and> n < 10000 \<and> log_message m"
| "loggable (Log_s l m) \<longleftrightarrow> False"
| "loggable _ \<longleftrightarrow> True"

text \<open>The record of effects grows, by effects that can be logged.\<close>

definition says :: "server \<Rightarrow> server \<Rightarrow> bool" where
  "says s s' \<longleftrightarrow> (\<exists>es. io s' = io s @ es \<and> list_all loggable es)"

lemma says_refl [simp]: "says s s"
  by (simp add: says_def)

lemma says_trans [trans]: "says s s' \<Longrightarrow> says s' s'' \<Longrightarrow> says s s''"
  by (force simp: says_def)

lemma says_emit [simp]: "list_all loggable es \<Longrightarrow> says s s' \<Longrightarrow> says s (emit es s')"
  by (force simp: says_def)

lemma says_io: "io s1 = io s1' \<Longrightarrow> io s2 = io s2' \<Longrightarrow> says s1 s2 = says s1' s2'"
  by (simp add: says_def)

lemma says_simps [simp]:
  "says s (connect_total_count_add v s') = says s s'"
  "says s (connect_total_count_sub v s') = says s s'"
  "says s (s'\<lparr>epoll_connect_client := t\<rparr>) = says s s'"
  "says s (s'\<lparr>thpool := q\<rparr>) = says s s'"
  "says s (s'\<lparr>listen_fd := n\<rparr>) = says s s'"
  "says s (s'\<lparr>exit_flag := b\<rparr>) = says s s'"
  "says s (s'\<lparr>exit_accept_flag := b'\<rparr>) = says s s'"
  "says (s\<lparr>thpool := q\<rparr>) s' = says s s'"
  "says s (touched e k s') = says s s'"
  by (simp_all add: says_def connect_total_count_add_def connect_total_count_sub_def touched_def)

lemma loggable_closesocket [simp]: "list_all loggable (closesocket fd)"
  by (simp add: closesocket_def)

lemma on_table_says: "on_table f s = Inr s' \<Longrightarrow> says r s \<Longrightarrow> says r s'"
  by (auto simp: on_table_def)

named_theorems text_defs

lemmas [text_defs] = log_message_def main_log_def

section \<open>The accept thread\<close>

lemma loggable_non_blocking: "set_non_blocking g h fd = (r, es) \<Longrightarrow> list_all loggable es"
  by (auto simp: set_non_blocking_def text_defs NUL_def split: if_splits)

lemma setup_says: "accept_setup port le s = (ok, s') \<Longrightarrow> says s s'"
  by (auto simp: accept_setup_def text_defs NUL_def Let_def split: if_splits)

lemma connection_says:
  assumes "accept_connection e s = Inr s'" "safe (ae_strerror e)"
  shows "says s s'"
proof -
  obtain r es where n: "set_non_blocking (ae_getfl e) (ae_setfl e) (ae_fd e) = (r, es)" by fastforce
  have "list_all loggable es" using loggable_non_blocking [OF n] .
  then show ?thesis
    using assms n
    by (auto simp: accept_connection_def connected_msg_def text_defs NUL_def Let_def
        intro!: says_emit elim!: on_table_says split: if_splits)
qed

lemma returned_says:
  assumes "accept_returned e s = Inr s'" "safe (ae_strerror e)"
  shows "says s s'"
  using assms connection_says [of e s s']
  by (auto simp: accept_returned_def text_defs NUL_def split: if_splits)

lemma full_says: "says s (accept_full s)"
  by (simp add: accept_full_def text_defs NUL_def)

lemma close_listen_says [simp]: "says r s \<Longrightarrow> says r (close_listen s)"
  by (simp add: close_listen_def)

section \<open>Recycling\<close>

lemma slot_says:
  assumes "recycle_slot now del i s = Inr s'" "\<And>fd n t. del fd = Some (n, t) \<Longrightarrow> safe t"
  shows "says s s'"
  using assms
  by (auto simp: recycle_slot_def timeout_msg_def text_defs NUL_def Let_def
      intro!: says_emit elim!: on_table_says split: if_splits option.split)

lemma slots_says:
  assumes "recycle_slots now del is s = Inr s'" "\<And>fd n t. del fd = Some (n, t) \<Longrightarrow> safe t"
  shows "says s s'"
  using assms(1)
proof (induction "is" arbitrary: s)
  case (Cons i "is")
  then obtain s1 where s1: "recycle_slot now del i s = Inr s1" "recycle_slots now del is s1 = Inr s'" by auto
  have "says s s1" by (rule slot_says [OF s1(1)]) (rule assms(2))
  also have "says s1 s'" by (rule Cons.IH [OF s1(2)])
  finally show ?case .
qed simp

section \<open>Events\<close>

lemma drop_says: "drop_connection k fd s = Inr s' \<Longrightarrow> says r s \<Longrightarrow> says r s'"
  by (auto simp: drop_connection_def intro!: says_emit elim!: on_table_says split: if_splits)

lemma dump_loggable:
  assumes "dumpInfo info n = Inr es" "n \<le> 63"
  shows "list_all loggable es"
proof -
  have "n \<le> length info" using assms(1) by (auto simp: dumpInfo_def read_at_def split: if_splits)
  from dumpInfo_ok [OF assms(2) this] show ?thesis using assms(1) by (auto simp: text_defs NUL_def)
qed

lemma receive_says:
  assumes "receive_message e k s = Inr (m, s')" "dump_fits e"
  shows "says s s'"
proof (cases "ev_recv e")
  case RecvErr
  then show ?thesis using assms(1)
    by (auto simp: receive_message_def recv_buffer_from_fd_def text_defs NUL_def Let_def elim!: drop_says)
next
  case (Recvd bs)
  show ?thesis
  proof (cases "length bs < BUFLEN")
    case True
    then have "length bs \<le> 63" using assms(2) Recvd by (simp add: dump_fits_def)
    then show ?thesis using assms(1) True Recvd dump_loggable
      by (auto simp: receive_message_def recv_buffer_from_fd_def text_defs NUL_def Let_def)
  next
    case False
    then show ?thesis using assms(1) Recvd
      by (auto simp: receive_message_def recv_buffer_from_fd_def text_defs NUL_def Let_def elim!: drop_says)
  qed
qed

lemma start_event_says:
  assumes "start_event i e s = Inr (m, s')" "dump_fits e"
  shows "says s s'"
proof -
  have r: "says s s'" if "receive_message e k (emit es s) = Inr (m, s')" "list_all loggable es" for k es
    using receive_says [OF that(1) assms(2)] that(2) by (meson says_emit says_refl says_trans)
  show ?thesis using assms(1)
    by (auto simp: start_event_def text_defs NUL_def Let_def elim!: drop_says r split: if_splits)
qed

section \<open>The workers\<close>

lemma send_loop_loggable: "send_loop ws sock buf iLen n = Inr (r, es) \<Longrightarrow> list_all loggable es"
proof (induction ws sock buf iLen n arbitrary: r es rule: send_loop.induct)
  case (1 ws sock buf iLen n)
  then show ?case
    by (auto simp: send_loop.simps [of ws] text_defs NUL_def split: if_splits list.splits write_res.splits)
qed

lemma reply_says:
  assumes "reply_to ws sock b len k s = Inr s'" "list_all loggable k" "says r s"
  shows "says r s'"
  using assms by (auto simp: reply_to_def send_buffer_to_fd_def dest: send_loop_loggable split: if_splits)

lemma loggable_not_found: "loggable (Log LOG_LEVEL_WARNING ''respons_stb_info'' 434 not_found_info)"
  by (simp add: not_found_info_def text_defs NUL_def)

lemma handlers_say:
  "handle_handshake ws fd b s = Inr s' \<Longrightarrow> says r s \<Longrightarrow> says r s'"
  "handle_sendui fd b s = Inr s' \<Longrightarrow> says r s \<Longrightarrow> says r s'"
  "handle_getremote ws fd b s = Inr s' \<Longrightarrow> says r s \<Longrightarrow> says r s'"
  "handle_getalluser ws mem fd s = Inr s' \<Longrightarrow> says r s \<Longrightarrow> says r s'"
  using loggable_not_found
  by (auto simp: handle_handshake_def handle_sendui_def handle_getremote_def handle_getalluser_def Let_def
      elim!: reply_says split: option.splits if_splits)

lemma respons_says: "respons_stb_info ws mem p s = Inr s' \<Longrightarrow> says s s'"
  by (auto simp: respons_stb_info_def Let_def elim!: handlers_say split: if_splits)

section \<open>Signals and the end\<close>

lemma close_all_loggable: "list_all loggable (close_all is t)"
  by (induction "is") (simp_all add: Let_def)

lemma signal_says: "says s (signal_handler_reboot sig s)"
  by (simp add: signal_handler_reboot_def text_defs NUL_def close_all_loggable Let_def)

lemma left_loop_says: "says s (left_loop s)"
  by (simp add: left_loop_def)

end
