(* ===== verification/LogHalves.thy ===== *)
theory LogHalves
  imports LogCorrect
begin

text \<open>
  The two calls that the macro \<open>LOG_INFO\<close> of \<open>log.h\<close> stands for. Each holds the mutex of the log from its
  first to its last statement, but another thread may come between them: so these halves are the
  steps of a log that several threads share. What the file holds is given by the halves in the order
  of the mutex.
\<close>

section \<open>The halves\<close>

datatype log_half = Place (half_entry: log_entry) | Said (half_entry: log_entry)

fun is_place :: "log_half \<Rightarrow> bool" where
  "is_place (Place e) = True"
| "is_place (Said e) = False"

text \<open>\<open>r\<close> tells whether \<open>fopen\<close> succeeds when the file is rotated, \<open>t\<close> is the time of the call.\<close>

definition run_half :: "bool \<Rightarrow> tm \<Rightarrow> log_half \<Rightarrow> log_state \<Rightarrow> log_state result" where
  "run_half r t h s =
     (case h of
        Place e \<Rightarrow> and_then (log_preamble r t (e_level e) (log_prefix e) s) (\<lambda>(_, s). Inr s)
      | Said e \<Rightarrow> and_then (log_s t (e_level e) (e_text e) s) (\<lambda>(_, s). Inr s))"

definition halves_of :: "log_entry \<Rightarrow> log_half list" where
  "halves_of e = [Place e, Said e]"

lemma LOG_INFO_halves:
  "LOG_INFO r t t' e s = and_then (run_half r t (Place e) s) (run_half r t' (Said e))"
  by (simp add: LOG_INFO_def run_half_def and_then_def split: sum.split)

section \<open>What the halves write\<close>

text \<open>The number of calls since the last rotation, the string written last, and the content of the file.\<close>

record log_view =
  lo_count :: nat
  lo_last :: string
  lo_file :: string

definition half_key :: "log_half \<Rightarrow> string" where
  "half_key h = (case h of Place e \<Rightarrow> log_prefix e | Said e \<Rightarrow> sBuffer (e_text e))"

definition half_out :: "tm \<Rightarrow> log_half \<Rightarrow> string" where
  "half_out t h =
     (case h of
        Place e \<Rightarrow> ''['' @ time_stamp t @ '']['' @ preamble_logstr ! nat (e_level e) @ ''] '' @ log_prefix e
      | Said e \<Rightarrow> sBuffer (e_text e))"

definition counted :: "log_half \<Rightarrow> log_view \<Rightarrow> log_view" where
  "counted h v =
     (if \<not> is_place h then v
      else if Suc (lo_count v) < MAX_LOG_LINE_NUM then v\<lparr>lo_count := Suc (lo_count v)\<rparr>
      else v\<lparr>lo_count := 0, lo_file := []\<rparr>)"

definition half_writes :: "int \<Rightarrow> tm \<times> log_half \<Rightarrow> log_view \<Rightarrow> log_view" where
  "half_writes level c v =
     (case c of (t, h) \<Rightarrow>
        let v = counted h v in
        if level < e_level (half_entry h) then v
        else v\<lparr>lo_last := half_key h, lo_file := lo_file v @ (if half_key h = lo_last v then [] else half_out t h)\<rparr>)"

definition log_shows :: "int \<Rightarrow> log_view \<Rightarrow> log_state \<Rightarrow> bool" where
  "log_shows level v s \<longleftrightarrow> log_open s \<and> def_log_level s = level \<and> preamble_count s = lo_count v
     \<and> cstr (last_log_str s) = lo_last v \<and> log_file s = lo_file v"

text \<open>Half by half the log follows this view.\<close>

lemma preamble_repeated:
  assumes "log_open s" "tm_ok t" "nulfree msg" "length msg \<le> 511" "msg = cstr (last_log_str s)"
    "r \<or> Suc (preamble_count s) < MAX_LOG_LINE_NUM"
  shows "\<exists>s'. log_preamble r t level msg s = Inr (0, s') \<and> log_open s' \<and> log_file s' = rotated_file s
    \<and> def_log_level s' = def_log_level s \<and> preamble_count s' = rotated_count s
    \<and> last_log_str s' = last_log_str s"
proof -
  obtain b where b: "log_create_current_time_stamp t s = Inr (s\<lparr>cur_ts_str := b\<rparr>)"
    "length b = TIME_STAMP_BUF_LEN" "cstr b = time_stamp t"
    using stamp_written [OF assms(2)] assms(1) by (auto simp: log_open_def)
  then show ?thesis
    using assms by (simp add: log_open_def log_preamble_def log_flush_def log_rotate_ok rotated_defs sBuffer_fits)
qed

lemma log_s_repeated:
  assumes "log_open s" "tm_ok t" "sBuffer msg = cstr (last_log_str s)"
  shows "\<exists>s'. log_s t level msg s = Inr (0, s') \<and> log_open s' \<and> log_file s' = log_file s
    \<and> def_log_level s' = def_log_level s \<and> preamble_count s' = preamble_count s
    \<and> last_log_str s' = last_log_str s"
proof -
  obtain b where b: "log_create_current_time_stamp t s = Inr (s\<lparr>cur_ts_str := b\<rparr>)"
    "length b = TIME_STAMP_BUF_LEN" "cstr b = time_stamp t"
    using stamp_written [OF assms(2)] assms(1) by (auto simp: log_open_def)
  then show ?thesis using assms by (simp add: log_open_def log_s_def log_flush_def)
qed

lemma place_shown:
  assumes "log_shows level v s" "tm_ok t" "entry_ok e" "level < 5" "r \<or> Suc (lo_count v) < MAX_LOG_LINE_NUM"
  shows "\<exists>s'. run_half r t (Place e) s = Inr s' \<and> log_shows level (half_writes level (t, Place e) v) s'"
proof -
  have s: "log_open s" "def_log_level s = level" "preamble_count s = lo_count v" "cstr (last_log_str s) = lo_last v"
    "log_file s = lo_file v"
    using assms(1) by (simp_all add: log_shows_def)
  have r: "r \<or> Suc (preamble_count s) < MAX_LOG_LINE_NUM" using assms(5) s(3) by simp
  have e: "0 \<le> e_level e" "nulfree (log_prefix e)" "length (log_prefix e) \<le> 511"
    using assms(3) by (simp_all add: entry_ok_def)
  consider "level < e_level e" | "e_level e \<le> level" "log_prefix e = lo_last v" | "e_level e \<le> level" "log_prefix e \<noteq> lo_last v"
    by linarith
  then show ?thesis
  proof cases
    case 1
    then show ?thesis
      using log_preamble_disabled [OF s(1) assms(2) _ r, of "e_level e" "log_prefix e"] s
      by (fastforce simp: run_half_def log_shows_def half_writes_def counted_def rotated_defs Let_def)
  next
    case 2
    then show ?thesis
      using preamble_repeated [OF s(1) assms(2) e(2,3) _ r, of "e_level e"] s
      by (fastforce simp: run_half_def log_shows_def half_writes_def half_key_def counted_def rotated_defs Let_def)
  next
    case 3
    then have "e_level e \<le> def_log_level s" "e_level e < 5" "log_prefix e \<noteq> cstr (last_log_str s)"
      using s(2,4) assms(4) by simp_all
    from log_preamble_enabled [OF s(1) assms(2) this(1) e(1) this(2) e(2,3) this(3) r] show ?thesis
      using 3 s by (fastforce simp: run_half_def log_shows_def half_writes_def half_key_def half_out_def counted_def
          rotated_defs Let_def)
  qed
qed

lemma said_shown:
  assumes "log_shows level v s" "tm_ok t" "entry_ok e"
  shows "\<exists>s'. run_half r t (Said e) s = Inr s' \<and> log_shows level (half_writes level (t, Said e) v) s'"
proof -
  have s: "log_open s" "def_log_level s = level" "preamble_count s = lo_count v" "cstr (last_log_str s) = lo_last v"
    "log_file s = lo_file v"
    using assms(1) by (simp_all add: log_shows_def)
  have e: "text_ok (e_text e)" using assms(3) by (simp add: entry_ok_def)
  consider "level < e_level e" | "e_level e \<le> level" "sBuffer (e_text e) = lo_last v"
    | "e_level e \<le> level" "sBuffer (e_text e) \<noteq> lo_last v"
    by linarith
  then show ?thesis
  proof cases
    case 1
    then show ?thesis
      using log_s_disabled [OF s(1) assms(2), of "e_level e" "e_text e"] s
      by (fastforce simp: run_half_def log_shows_def half_writes_def counted_def Let_def)
  next
    case 2
    then show ?thesis
      using log_s_repeated [OF s(1) assms(2), of "e_text e" "e_level e"] s
      by (fastforce simp: run_half_def log_shows_def half_writes_def half_key_def counted_def Let_def)
  next
    case 3
    then have "e_level e \<le> def_log_level s" "sBuffer (e_text e) \<noteq> cstr (last_log_str s)" using s(2,4) by simp_all
    from log_s_enabled [OF s(1) assms(2) this(1) e this(2)] show ?thesis
      using 3 s by (fastforce simp: run_half_def log_shows_def half_writes_def half_key_def half_out_def counted_def
          log_ok_def Let_def)
  qed
qed

lemma half_shown:
  assumes "log_shows level v s" "tm_ok t" "entry_ok (half_entry h)" "level < 5"
    "is_place h \<longrightarrow> r \<or> Suc (lo_count v) < MAX_LOG_LINE_NUM"
  shows "\<exists>s'. run_half r t h s = Inr s' \<and> log_shows level (half_writes level (t, h) v) s'"
  using assms place_shown said_shown by (cases h) auto

section \<open>The content of the file\<close>

text \<open>
  Without a rotation: each enabled half is written unless its string is that of the enabled half before it.
\<close>

fun changes :: "string \<Rightarrow> (string \<times> string) list \<Rightarrow> string" where
  "changes l [] = []"
| "changes l ((k, out) # ps) = (if k = l then [] else out) @ changes k ps"

definition pieces :: "int \<Rightarrow> (tm \<times> log_half) list \<Rightarrow> (string \<times> string) list" where
  "pieces level hs =
     map (\<lambda>(t, h). (half_key h, half_out t h)) (filter (\<lambda>(t, h). e_level (half_entry h) \<le> level) hs)"

definition places :: "(tm \<times> log_half) list \<Rightarrow> nat" where
  "places hs = length (filter (\<lambda>(t, h). is_place h) hs)"

lemma file_before_rotation:
  "lo_count v + places hs < MAX_LOG_LINE_NUM \<Longrightarrow>
     lo_file (fold (half_writes level) hs v) = lo_file v @ changes (lo_last v) (pieces level hs)"
proof (induction hs arbitrary: v)
  case Nil
  then show ?case by (simp add: pieces_def)
next
  case (Cons c hs)
  obtain t h where c: "c = (t, h)" by (cases c)
  let ?v = "half_writes level c v"
  have n: "lo_count ?v + places hs < MAX_LOG_LINE_NUM"
    using Cons.prems by (auto simp: c half_writes_def counted_def places_def Let_def split: if_splits)
  have "is_place h \<longrightarrow> Suc (lo_count v) < MAX_LOG_LINE_NUM" using Cons.prems by (auto simp: c places_def)
  then show ?case
    using Cons.IH [OF n] by (auto simp: c half_writes_def counted_def pieces_def Let_def)
qed

text \<open>Calls whose halves are not torn apart leave whole lines: the view is that of \<open>log_holds\<close>.\<close>

definition call_halves :: "(tm \<times> tm \<times> log_entry) list \<Rightarrow> (tm \<times> log_half) list" where
  "call_halves cs = concat (map (\<lambda>(t, t', e). [(t, Place e), (t', Said e)]) cs)"

definition fresh_view :: "string \<Rightarrow> log_view" where
  "fresh_view start = \<lparr>lo_count = 0, lo_last = start, lo_file = start\<rparr>"

lemma last_text_no_place:
  assumes "not_place start" "list_all call_ok cs"
  shows "not_place (last_text start level cs)"
  using assms(2)
proof (induction cs rule: rev_induct)
  case (snoc c cs)
  then show ?case using sBuffer_text(4) by (cases c) (simp add: call_ok_def entry_ok_def)
qed (simp add: assms(1))

lemma whole_calls_view:
  assumes "not_place start" "list_all call_ok cs"
  shows "fold (half_writes level) (call_halves cs) (fresh_view start)
    = \<lparr>lo_count = length cs mod MAX_LOG_LINE_NUM, lo_last = last_text start level cs, lo_file = log_kept start level cs\<rparr>"
  using assms(2)
proof (induction cs rule: rev_induct)
  case Nil
  then show ?case by (simp add: call_halves_def fresh_view_def log_kept_def MAX_LOG_LINE_NUM_def)
next
  case (snoc c cs)
  obtain t t' e where c: "c = (t, t', e)" by (cases c)
  have cs: "list_all call_ok cs" and "call_ok c" using snoc.prems by simp_all
  then have e: "text_ok (e_text e)" "length (log_prefix e) < 511" by (simp_all add: c call_ok_def entry_ok_def)
  have "log_prefix e \<noteq> last_text start level cs" "sBuffer (e_text e) \<noteq> log_prefix e"
    using log_prefix_no_line [OF last_text_no_place [OF assms(1) cs] e(2)]
      log_prefix_no_line [OF sBuffer_text(4) [OF e(1)] e(2)] by metis+
  then show ?case
    using snoc.IH [OF cs] rotation_arith [of MAX_LOG_LINE_NUM "length cs"]
    by (simp add: c call_halves_def half_writes_def counted_def half_key_def half_out_def log_kept_snoc log_line_def
        MAX_LOG_LINE_NUM_def Let_def del: mod_Suc)
qed

lemma log_holds_shows:
  assumes "not_place start" "list_all call_ok cs" "log_holds start level cs s"
  shows "log_shows level (fold (half_writes level) (call_halves cs) (fresh_view start)) s"
  using assms(3) whole_calls_view [OF assms(1,2)] by (simp add: log_holds_def log_shows_def log_ok_def)

text \<open>
  Two threads that log from the same place at once: the second place is taken for a repetition and the
  two messages stand behind one another in one line.
\<close>

lemma mixed_lines:
  assumes "log_prefix e = log_prefix e'" "e_level e \<le> level" "e_level e' \<le> level" "log_prefix e \<noteq> l"
    "sBuffer (e_text e) \<noteq> log_prefix e" "sBuffer (e_text e') \<noteq> sBuffer (e_text e)"
  shows "changes l (pieces level [(t, Place e), (t', Place e'), (u, Said e), (u', Said e')])
    = half_out t (Place e) @ sBuffer (e_text e) @ sBuffer (e_text e')"
  using assms by (simp add: pieces_def half_key_def half_out_def)

section \<open>A log that has been closed\<close>

lemma log_s_keeps_open:
  assumes "log_open s" "tm_ok t" "text_ok msg"
  shows "\<exists>s'. log_s t level msg s = Inr (0, s') \<and> log_open s' \<and> def_log_level s' = def_log_level s"
proof -
  consider "def_log_level s < level" | "sBuffer msg = cstr (last_log_str s)"
    | "level \<le> def_log_level s" "sBuffer msg \<noteq> cstr (last_log_str s)"
    by linarith
  then show ?thesis
  proof cases
    case 1
    then show ?thesis using log_s_disabled [OF assms(1,2)] by blast
  next
    case 2
    then show ?thesis using log_s_repeated [OF assms(1,2)] by blast
  next
    case 3
    then show ?thesis using log_s_enabled [OF assms(1,2) _ assms(3)] log_ok_open by blast
  qed
qed

lemma log_close_ends:
  assumes "log_open s" "tm_ok t" "log_close t s = Inr (n, s')"
  shows "log_file_handle s' = Ended \<and> length (cur_ts_str s') = TIME_STAMP_BUF_LEN \<and> def_log_level s' = def_log_level s"
  using log_s_keeps_open [OF assms(1,2) text_ok_marks(2), of "int LOG_LEVEL_INDISPENSABLE"] assms(1,3)
  by (auto simp: log_close_def log_open_def)

lemma half_ended:
  assumes "log_file_handle s = Ended" "length (cur_ts_str s) = TIME_STAMP_BUF_LEN" "tm_ok t"
    "entry_ok (half_entry h)" "def_log_level s < 5"
  shows "run_half r t h s = Inl UseAfterFree"
proof (cases h)
  case (Said e)
  then show ?thesis
    using log_s_ended [OF assms(1-3)] assms(4) by (simp add: run_half_def entry_ok_def)
next
  case (Place e)
  obtain b where b: "log_create_current_time_stamp t s = Inr (s\<lparr>cur_ts_str := b\<rparr>)"
    using stamp_written [OF assms(3,2)] by auto
  have "e_level e \<le> def_log_level s \<Longrightarrow> log_label (e_level e) = Inr (preamble_logstr ! nat (e_level e))"
    using assms(4,5) by (simp add: Place log_label_def preamble_logstr_def entry_ok_def)
  then show ?thesis
    using assms(1) b
    by (auto simp: Place run_half_def log_preamble_def log_rotate_def log_write_def log_flush_def Let_def)
qed

end
