(* ===== verification/LiveLog.thy ===== *)
theory LiveLog
  imports LiveTexts LiveEnds LiveKernel LogHalves
begin

text \<open>
  The interleaved server with its log. A turn leaves the calls of \<open>LOG_INFO\<close> that it makes to its
  thread, which carries out their halves one by one, in order, before its next turn; between any two
  halves the other threads go on. While \<open>main\<close> is in its loop the log never fails and its file is that
  of \<open>half_writes\<close> for the halves in the order of the mutex; after it, every half uses the stream that
  \<open>log_close\<close> has ended.
\<close>

section \<open>The calls of a turn\<close>

definition entry_of :: "nat \<Rightarrow> string \<Rightarrow> nat \<Rightarrow> string \<Rightarrow> log_entry" where
  "entry_of level func line msg = \<lparr>e_level = int level, e_file = ''./g_net_update.c'', e_func = func,
     e_line = line, e_text = msg\<rparr>"

text \<open>All threads of the server log from \<open>g_net_update.c\<close>, and none calls \<open>log_s\<close> alone.\<close>

fun entries :: "effect list \<Rightarrow> log_entry list" where
  "entries [] = []"
| "entries (Log l f n m # es) = entry_of l f n m # entries es"
| "entries (_ # es) = entries es"

lemma entries_append [simp]: "entries (a @ b) = entries a @ entries b"
  by (induction a rule: entries.induct) auto

definition new_entries :: "live \<Rightarrow> live \<Rightarrow> log_entry list" where
  "new_entries st st' = entries (drop (length (io (lv_server st))) (io (lv_server st')))"

section \<open>The threads of the log\<close>

datatype log_thread = Accept_thread | Main_thread | Pool_thread nat | Handler

fun thread_of :: "live_choice \<Rightarrow> log_thread" where
  "thread_of (By_acceptor port le e) = Accept_thread"
| "thread_of (By_wait e) = Main_thread"
| "thread_of (By_main_thread t) = Main_thread"
| "thread_of (By_pool_worker i ws mem) = Pool_thread i"
| "thread_of (By_signal sig) = Handler"

text \<open>
  \<open>lg_todo\<close> are the halves that a thread has still to carry out. Two records are kept for the
  properties: \<open>lg_said\<close>, what the turns have logged, and \<open>lg_done\<close>, the halves in the order of the mutex.
\<close>

record logged =
  lg_live :: live
  lg_todo :: "log_thread \<Rightarrow> log_half list"
  lg_said :: "(log_thread \<times> log_half) list"
  lg_done :: "(log_thread \<times> tm \<times> log_half) list"

definition logged_start :: "live \<Rightarrow> logged" where
  "logged_start st = \<lparr>lg_live = st, lg_todo = (\<lambda>_. []), lg_said = [], lg_done = []\<rparr>"

text \<open>A half comes with the time and the answer of \<open>fopen\<close>, should it rotate the file.\<close>

datatype logged_choice = Turn live_choice | Half log_thread bool tm

definition turn_of :: "live_choice \<Rightarrow> logged \<Rightarrow> logged result" where
  "turn_of c st =
     (let th = thread_of c in
      if lg_todo st th \<noteq> [] then Inr st
      else and_then (live_step c (lg_live st)) (\<lambda>s.
             let hs = concat (map halves_of (new_entries (lg_live st) s)) in
             Inr (st\<lparr>lg_live := s, lg_todo := (lg_todo st)(th := hs), lg_said := lg_said st @ map (Pair th) hs\<rparr>)))"

definition half_of :: "log_thread \<Rightarrow> bool \<Rightarrow> tm \<Rightarrow> logged \<Rightarrow> logged result" where
  "half_of th r t st =
     (case lg_todo st th of
        [] \<Rightarrow> Inr st
      | h # hs \<Rightarrow>
          and_then (run_half r t h (lv_log (lg_live st))) (\<lambda>ls.
            Inr (st\<lparr>lg_live := (lg_live st)\<lparr>lv_log := ls\<rparr>, lg_todo := (lg_todo st)(th := hs),
                    lg_done := lg_done st @ [(th, t, h)]\<rparr>)))"

definition logged_step :: "logged_choice \<Rightarrow> logged \<Rightarrow> logged result" where
  "logged_step c st = (case c of Turn d \<Rightarrow> turn_of d st | Half th r t \<Rightarrow> half_of th r t st)"

definition run_logged :: "logged_choice list \<Rightarrow> logged \<Rightarrow> logged result" where
  "run_logged = run_steps logged_step"

section \<open>The contracts\<close>

text \<open>What \<open>strerror\<close> returns contains no conversion, and \<open>localtime\<close> returns a time.\<close>

definition texts_allowed :: "live_choice \<Rightarrow> bool" where
  "texts_allowed c =
     (case c of
        By_acceptor port le e \<Rightarrow> safe (ae_strerror e)
      | By_wait e \<Rightarrow> \<forall>fd n t. lo_del e fd = Some (n, t) \<longrightarrow> safe t
      | _ \<Rightarrow> True)"

text \<open>The file can be opened again whenever it is rotated.\<close>

definition logged_allowed :: "logged_choice \<Rightarrow> logged \<Rightarrow> bool" where
  "logged_allowed c st =
     (case c of
        Turn d \<Rightarrow> choice_allowed d (lg_live st) \<and> texts_allowed d
      | Half th r t \<Rightarrow> tm_ok t \<and> (r \<or> Suc (preamble_count (lv_log (lg_live st))) < MAX_LOG_LINE_NUM))"

section \<open>A turn\<close>

lemma says_server_of [simp]:
  "says (server_of st) s = says (lv_server st) s"
  "says s (server_of st) = says s (lv_server st)"
  by (simp_all add: says_def server_of_def)

text \<open>What a turn does to the log, apart from its calls: nothing, or \<open>main\<close> closes it.\<close>

definition log_closed_by :: "live \<Rightarrow> live \<Rightarrow> bool" where
  "log_closed_by st st' \<longleftrightarrow> \<not> closing (main (lv_pool st)) \<and> closing (main (lv_pool st'))
     \<and> new_entries st st' = [] \<and> (\<exists>t. tm_ok t \<and> log_close t (lv_log st) = Inr (0, lv_log st'))"

definition logs :: "live \<Rightarrow> live \<Rightarrow> bool" where
  "logs st st' \<longleftrightarrow> says (lv_server st) (lv_server st')
     \<and> (lv_log st' = lv_log st \<and> closing (main (lv_pool st')) = closing (main (lv_pool st)) \<or> log_closed_by st st')"

lemma logs_quiet:
  "says (lv_server st) (lv_server st') \<Longrightarrow> lv_log st' = lv_log st \<Longrightarrow> main (lv_pool st') = main (lv_pool st)
     \<Longrightarrow> logs st st'"
  by (simp add: logs_def)

lemma acceptor_logs:
  assumes "accept_turn_of port le e st = Some (Inr st')" "safe (ae_strerror e)"
  shows "logs st st'"
proof (rule logs_quiet)
  show "says (lv_server st) (lv_server st')"
    using assms setup_says [of port le "server_of st"] returned_says [of e "server_of st"] full_says [of "server_of st"]
      close_listen_says [of "server_of st" "server_of st"]
    by (auto simp: accept_turn_of_def Let_def split: accept_pc.splits if_splits prod.splits)
  show "lv_log st' = lv_log st" "main (lv_pool st') = main (lv_pool st)"
    using assms by (auto simp: accept_turn_of_def Let_def split: accept_pc.splits if_splits prod.splits)
qed

lemma wait_logs:
  assumes "wait_turn e st = Some (Inr st')" "\<And>fd n t. lo_del e fd = Some (n, t) \<Longrightarrow> safe t"
  shows "logs st st'"
proof (cases "recycle_due (lo_now e) (lv_time st)")
  case False
  then show ?thesis using assms(1) by (auto simp: wait_turn_def Let_def intro: logs_quiet split: if_splits)
next
  case True
  then obtain s where s: "recycle_slots (lo_now e) (lo_del e) [0..<MAX_EVENTS]
      (emit [Print (''60s detect one time =====>'' @ nl)] (server_of st)) = Inr s"
    "st' = put_server s (st\<lparr>lv_time := lo_now e, lv_batch := (0, lo_events e), lv_delete := Some (lo_tm e, q_tail (thpool s))\<rparr>)"
    using assms(1) by (auto simp: wait_turn_def Let_def split: if_splits)
  have "says (emit [Print (''60s detect one time =====>'' @ nl)] (server_of st)) s"
    by (rule slots_says [OF s(1)]) (rule assms(2))
  then have "says (lv_server st) s" by (rule says_trans [rotated]) simp
  then show ?thesis unfolding s(2) by (intro logs_quiet) simp_all
qed

lemma delete_logs: "delete_turn tm curjob st = Some (Inr st') \<Longrightarrow> logs st st'"
  by (auto simp: delete_turn_def text_defs NUL_def intro!: logs_quiet says_emit split: if_splits)

lemma start_work_logs:
  assumes "start_work e k buf st = Some (Inr st')" "main (lv_pool st) = Idle"
  shows "says (lv_server st) (lv_server st') \<and> lv_log st' = lv_log st \<and> \<not> closing (main (lv_pool st'))"
  using assms by (auto simp: start_work_def on_pool_def main_move_def Let_def split: if_splits option.splits)

lemma start_work_moves: "main (lv_pool st) = Idle \<Longrightarrow> start_work e k buf st \<noteq> None"
  by (simp add: start_work_def on_pool_def main_move_def Let_def split: option.split)

lemma new_entries_none: "io (lv_server st') = io (lv_server st) @ es \<Longrightarrow> entries es = [] \<Longrightarrow> new_entries st st' = []"
  by (simp add: new_entries_def)

lemma event_logs:
  assumes "start_event i e (server_of st) = Inr (m, s)" "dump_fits e" "main (lv_pool st) = Idle"
    "(let st = put_server s (st\<lparr>lv_batch := b\<rparr>) in
        case m of None \<Rightarrow> Inr st
        | Some (k, buf) \<Rightarrow> (case start_work e k buf st of None \<Rightarrow> Inr st | Some r \<Rightarrow> r)) = Inr st'"
  shows "logs st st'"
proof -
  have s: "says (lv_server st) s" using start_event_says [OF assms(1,2)] by simp
  let ?st = "put_server s (st\<lparr>lv_batch := b\<rparr>)"
  show ?thesis
  proof (cases m)
    case None
    then show ?thesis using assms(4) s by (auto simp: Let_def intro: logs_quiet)
  next
    case (Some kb)
    obtain k buf where kb: "m = Some (k, buf)" using Some by (cases kb) auto
    obtain r where "start_work e k buf ?st = Some r" using start_work_moves [of ?st e k buf] assms(3) by auto
    then have "start_work e k buf ?st = Some (Inr st')" using assms(4) kb by (simp add: Let_def)
    from start_work_logs [OF this] s assms(3) show ?thesis
      by (auto simp: logs_def elim: says_trans)
  qed
qed

lemma leaving_logs:
  assumes "live_inv st" "main (lv_pool st) = Idle" "tm_ok t" "main_end t (server_of st) (lv_log st) = Inr (s, ls)"
    "main_move Destroy ((lv_pool st)\<lparr>jobqueue := thpool s\<rparr>) = Some (Inr p')"
  shows "logs st ((put_server s (st\<lparr>lv_log := ls\<rparr>))\<lparr>lv_pool := p'\<rparr>)"
proof -
  let ?st = "(put_server s (st\<lparr>lv_log := ls\<rparr>))\<lparr>lv_pool := p'\<rparr>"
  obtain n where n: "log_close t (lv_log st) = Inr (n, ls)" "s = left_loop (server_of st)"
    using assms(4) by (auto simp: main_end_left)
  have "log_open (lv_log st)" using assms(1,2) by (simp add: live_inv_def)
  then have z: "log_close t (lv_log st) = Inr (0, ls)" using log_close_returns [OF _ assms(3)] n(1) by force
  have c: "closing (main p')" using assms(2,5) by (auto simp: main_move_def Let_def)
  have "\<exists>es. io s = io (lv_server st) @ es \<and> entries es = []"
    unfolding n(2) by (auto simp: left_loop_def server_of_def closesocket_def intro: exI [of _ "[]"])
  then have "new_entries st ?st = []" using new_entries_none [of ?st st] by auto
  then have "log_closed_by st ?st" using z assms(2,3) c by (auto simp: log_closed_by_def)
  moreover have "says (lv_server st) (lv_server ?st)" using left_loop_says [of "server_of st"] n(2) by simp
  ultimately show ?thesis by (simp add: logs_def)
qed

lemma main_logs:
  assumes "live_inv st" "choice_safe (By_main_thread t) st" "main_turn t st = Some (Inr st')"
  shows "logs st st'"
proof (cases "main (lv_pool st) = Idle")
  case False
  then obtain p' where p': "main_move Destroy (lv_pool st) = Some (Inr p')" "st' = st\<lparr>lv_pool := p'\<rparr>"
    using assms(3) by (auto simp: main_turn_def on_pool_def Let_def)
  then show ?thesis
    using main_move_closing [OF False not_deleting [OF live_inv_parts(2) [OF assms(1)]] p'(1)] by (simp add: logs_def)
next
  case True
  note idle = True
  obtain i es where b: "lv_batch st = (i, es)" by (cases "lv_batch st")
  show ?thesis
  proof (cases "lv_delete st")
    case (Some d)
    then show ?thesis using assms(3) idle delete_logs by (cases d) (simp add: main_turn_def Let_def)
  next
    case None
    show ?thesis
    proof (cases es)
      case (Cons e es')
      then have "dump_fits e"
        using assms(2) idle None b by (simp add: choice_contract_def client_ok_def Let_def)
      then show ?thesis
        using assms(3) idle None b Cons event_logs [OF _ _ idle] by (fastforce simp: main_turn_def Let_def)
    next
      case Nil
      then obtain s ls p' where st': "main_end t (server_of st) (lv_log st) = Inr (s, ls)"
        "main_move Destroy ((lv_pool st)\<lparr>jobqueue := thpool s\<rparr>) = Some (Inr p')"
        "st' = (put_server s (st\<lparr>lv_log := ls\<rparr>))\<lparr>lv_pool := p'\<rparr>"
        using assms(3) idle b None by (auto simp: main_turn_def on_pool_def main_move_def Let_def split: if_splits)
      have "tm_ok t" using assms(2) by (simp add: choice_contract_def Let_def)
      from leaving_logs [OF assms(1) idle this st'(1,2)] show ?thesis by (simp add: st'(3))
    qed
  qed
qed

lemma worker_logs:
  assumes "live_inv st" "choice_safe (By_pool_worker i ws mem) st" "worker_turn i ws mem st = Some (Inr st')"
  shows "logs st st'"
proof (rule logs_quiet)
  obtain st2 where m: "Inr st' = Inr st2" "moves_worker i st st2"
    using pool_worker_turn [OF assms] by blast
  have i: "i < length (workers (lv_pool st))" using assms(3) by (auto simp: worker_turn_def Let_def split: if_splits)
  show "main (lv_pool st') = main (lv_pool st)"
    using worker_move_inv [OF live_inv_parts(2) [OF assms(1)] i] m by (auto simp: moves_worker_def)
  have "says (lv_server st) (lv_server st') \<and> lv_log st' = lv_log st"
  proof (cases "\<exists>x. workers (lv_pool st) ! i = Run x")
    case False
    then have "on_pool (worker_move i (lv_pool st)) st = Some (Inr st')"
      using assms(3) i by (auto simp: worker_turn_def Let_def split: worker.splits)
    then show ?thesis by (auto simp: on_pool_def)
  next
    case True
    then obtain x a j s where s: "workers (lv_pool st) ! i = Run x"
      "deref (job_heap (jobqueue (lv_pool st))) x = Inr (a, j)"
      "respons_stb_info ws mem (job_arg j) (server_of st) = Inr s"
      "(let st = put_server s st in case on_pool (worker_move i (lv_pool st)) st of None \<Rightarrow> Inr st | Some r \<Rightarrow> r) = Inr st'"
      using assms(3) i by (auto simp: worker_turn_def Let_def)
    have "lv_server st' = s \<and> lv_log st' = lv_log st"
      using s(4) by (auto simp: on_pool_def Let_def split: option.splits)
    then show ?thesis using respons_says [OF s(3)] by simp
  qed
  then show "says (lv_server st) (lv_server st')" "lv_log st' = lv_log st" by simp_all
qed

lemma step_logs:
  assumes "live_inv st" "choice_safe c st" "texts_allowed c" "live_step c st = Inr st'"
  shows "logs st st'"
proof (cases "live_turn c st")
  case None
  then show ?thesis using assms(4) by (simp add: live_step_def logs_def)
next
  case (Some r)
  then have t: "live_turn c st = Some (Inr st')" using assms(4) by (simp add: live_step_def)
  show ?thesis
  proof (cases c)
    case (By_acceptor port le e)
    then show ?thesis using acceptor_logs t assms(3) by (simp add: live_turn_def texts_allowed_def)
  next
    case (By_wait e)
    then show ?thesis using wait_logs [of e st st'] t assms(3) by (simp add: live_turn_def texts_allowed_def)
  next
    case (By_main_thread u)
    then show ?thesis using main_logs [OF assms(1)] t assms(2) by (simp add: live_turn_def)
  next
    case (By_pool_worker i ws mem)
    then show ?thesis using worker_logs [OF assms(1)] t assms(2) by (simp add: live_turn_def)
  next
    case (By_signal sig)
    then show ?thesis using t signal_says [of "server_of st" sig]
      by (auto simp: live_turn_def intro: logs_quiet)
  qed
qed

section \<open>The calls on the log\<close>

lemma show_nat_width: "n < 10 ^ Suc k \<Longrightarrow> length (show_nat n) \<le> Suc k"
proof (induction k arbitrary: n)
  case 0
  then show ?case by (simp add: show_nat.simps [of n])
next
  case (Suc k)
  have "n div 10 < 10 ^ Suc k" using Suc.prems by (simp add: less_mult_imp_div_less)
  from Suc.IH [OF this] show ?case by (cases "n < 10") (simp_all add: show_nat.simps [of n])
qed

lemma entry_of_ok:
  assumes "loggable (Log l f n m)"
  shows "entry_ok (entry_of l f n m)" "sBuffer (e_text (entry_of l f n m)) \<noteq> ''LOG END'' @ nl"
proof -
  have m: "nulfree f" "length f < 100" "n < 10000" "log_message m" using assms by simp_all
  have "length (show_nat n) \<le> 4" using show_nat_width [of n 3] m(3) by simp
  then have "length (log_prefix (entry_of l f n m)) < 511" "nulfree (log_prefix (entry_of l f n m))"
    using m(1,2) by (simp_all add: log_prefix_def entry_of_def NUL_def)
  then show "entry_ok (entry_of l f n m)"
    using message_text(1) [OF m(4)] by (simp add: entry_ok_def) (simp add: entry_of_def)
  show "sBuffer (e_text (entry_of l f n m)) \<noteq> ''LOG END'' @ nl"
    using message_text(2) [OF m(4)] by (simp add: entry_of_def)
qed

lemma entries_ok:
  "list_all loggable es \<Longrightarrow> e \<in> set (entries es) \<Longrightarrow> entry_ok e \<and> sBuffer (e_text e) \<noteq> ''LOG END'' @ nl"
proof (induction es rule: entries.induct)
  case (2 l f n m es)
  have "loggable (Log l f n m)" "list_all loggable es" using 2(2) by simp_all
  then show ?case using 2(1,3) entry_of_ok by auto
qed simp_all

lemma said_by_turn:
  assumes "says (lv_server st) (lv_server st')"
  shows "\<forall>e\<in>set (new_entries st st'). entry_ok e"
    "entries (io (lv_server st')) = entries (io (lv_server st)) @ new_entries st st'"
proof -
  obtain es where es: "io (lv_server st') = io (lv_server st) @ es" "list_all loggable es"
    using assms by (auto simp: says_def)
  then have n: "new_entries st st' = entries es" by (simp add: new_entries_def)
  show "\<forall>e\<in>set (new_entries st st'). entry_ok e" using entries_ok [OF es(2)] unfolding n by blast
  show "entries (io (lv_server st')) = entries (io (lv_server st)) @ new_entries st st'"
    using es(1) n by simp
qed

text \<open>The state of the log is no part of the rest.\<close>

lemma lv_log_view [simp]: "live_view (st\<lparr>lv_log := ls\<rparr>) = live_view st"
  by (simp add: live_view_def)

lemma lv_log_sound:
  assumes "live_sound st" "closing (main (lv_pool st)) \<or> log_open ls"
  shows "live_sound (st\<lparr>lv_log := ls\<rparr>)"
  using assms by (auto simp: live_sound_def live_inv_def live_jobs_def)

section \<open>The invariant\<close>

text \<open>What a list of tagged items holds of a thread.\<close>

definition by_thread :: "log_thread \<Rightarrow> (log_thread \<times> 'a) list \<Rightarrow> 'a list" where
  "by_thread th xs = map snd (filter (\<lambda>x. fst x = th) xs)"

lemma by_thread_simps [simp]:
  "by_thread th [] = []"
  "by_thread th (xs @ ys) = by_thread th xs @ by_thread th ys"
  "by_thread th [(th', x)] = (if th' = th then [x] else [])"
  "by_thread th (map (Pair th') zs) = (if th' = th then zs else [])"
  by (simp_all add: by_thread_def filter_map comp_def)

text \<open>A thread carries out its halves in the order of its calls.\<close>

definition in_order :: "logged \<Rightarrow> bool" where
  "in_order st \<longleftrightarrow> (\<forall>th. map snd (by_thread th (lg_done st)) @ lg_todo st th = by_thread th (lg_said st))
     \<and> map snd (lg_said st) = concat (map halves_of (entries (io (lv_server (lg_live st)))))"

definition log_now :: "int \<Rightarrow> log_view \<Rightarrow> logged \<Rightarrow> log_view" where
  "log_now level v st = fold (half_writes level) (map snd (lg_done st)) v"

definition log_follows :: "int \<Rightarrow> log_view \<Rightarrow> logged \<Rightarrow> bool" where
  "log_follows level v st \<longleftrightarrow>
     (if closing (main (lv_pool (lg_live st)))
      then log_file_handle (lv_log (lg_live st)) = Ended \<and> length (cur_ts_str (lv_log (lg_live st))) = TIME_STAMP_BUF_LEN
        \<and> def_log_level (lv_log (lg_live st)) = level
      else log_shows level (log_now level v st) (lv_log (lg_live st)))"

definition logged_inv :: "int \<Rightarrow> log_view \<Rightarrow> logged \<Rightarrow> bool" where
  "logged_inv level v st \<longleftrightarrow> live_sound (lg_live st) \<and> (\<forall>th. \<forall>h\<in>set (lg_todo st th). entry_ok (half_entry h))
     \<and> in_order st \<and> log_follows level v st"

section \<open>Steps\<close>

lemma halves_ok: "\<forall>e\<in>set es. entry_ok e \<Longrightarrow> h \<in> set (concat (map halves_of es)) \<Longrightarrow> entry_ok (half_entry h)"
  by (auto simp: halves_of_def)

text \<open>A turn: it is one of the interleaved server, and its calls are left to its thread.\<close>

definition logged_advances :: "int \<Rightarrow> log_view \<Rightarrow> logged \<Rightarrow> logged \<Rightarrow> bool" where
  "logged_advances level v st st' \<longleftrightarrow> logged_inv level v st'
     \<and> live_spec\<^sup>*\<^sup>* (live_view (lg_live st)) (live_view (lg_live st'))"

lemma follows_after_turn:
  assumes "log_follows level v st" "logs (lg_live st) s" "live_sound (lg_live st)"
  shows "log_follows level v (st\<lparr>lg_live := s, lg_todo := td, lg_said := sd\<rparr>)"
proof -
  let ?s = "lg_live st"
  have n: "log_now level v (st\<lparr>lg_live := s, lg_todo := td, lg_said := sd\<rparr>) = log_now level v st"
    by (simp add: log_now_def)
  show ?thesis
  proof (cases "log_closed_by ?s s")
    case False
    then have "lv_log s = lv_log ?s" "closing (main (lv_pool s)) = closing (main (lv_pool ?s))"
      using assms(2) by (auto simp: logs_def)
    then show ?thesis using assms(1) n by (simp add: log_follows_def)
  next
    case True
    then obtain t where c: "\<not> closing (main (lv_pool ?s))" "closing (main (lv_pool s))" "tm_ok t"
      "log_close t (lv_log ?s) = Inr (0, lv_log s)"
      by (auto simp: log_closed_by_def)
    have "log_open (lv_log ?s)" "def_log_level (lv_log ?s) = level"
      using assms(1) c(1) by (simp_all add: log_follows_def log_shows_def)
    then show ?thesis using log_close_ends [OF _ c(3,4)] c(2) by (simp add: log_follows_def)
  qed
qed

lemma turn_keeps:
  assumes "logged_inv level v st" "choice_allowed c (lg_live st)" "texts_allowed c"
  shows "\<exists>st'. turn_of c st = Inr st' \<and> logged_advances level v st st'
    \<and> (closing (main (lv_pool (lg_live st))) \<longrightarrow> closing (main (lv_pool (lg_live st'))))"
proof (cases "lg_todo st (thread_of c) = []")
  case False
  then show ?thesis using assms(1) by (simp add: turn_of_def logged_advances_def)
next
  case True
  note i = assms(1) [unfolded logged_inv_def]
  have so: "live_sound (lg_live st)" using i by blast
  have ord: "\<forall>th. map snd (by_thread th (lg_done st)) @ lg_todo st th = by_thread th (lg_said st)"
    using i by (simp add: in_order_def)
  have safe: "choice_safe c (lg_live st)" using allowed_is_safe [OF so assms(2)] .
  obtain s where s: "live_step c (lg_live st) = Inr s" "live_sound s" using live_sound_step [OF so assms(2)] by blast
  have li: "live_inv (lg_live st)" using so by (simp add: live_sound_def)
  have lg: "logs (lg_live st) s" using step_logs [OF li safe assms(3) s(1)] .
  have sp: "live_spec\<^sup>*\<^sup>* (live_view (lg_live st)) (live_view s)"
    using live_step_advances [OF li safe] s(1) by (auto simp: advances_def)
  note e = said_by_turn [of "lg_live st" s]
  have sy: "says (lv_server (lg_live st)) (lv_server s)" using lg by (simp add: logs_def)
  let ?hs = "concat (map halves_of (new_entries (lg_live st) s))"
  let ?st = "st\<lparr>lg_live := s, lg_todo := (lg_todo st)(thread_of c := ?hs),
    lg_said := lg_said st @ map (Pair (thread_of c)) ?hs\<rparr>"
  have "turn_of c st = Inr ?st" using True s(1) by (simp add: turn_of_def Let_def)
  moreover have "closing (main (lv_pool (lg_live st))) \<longrightarrow> closing (main (lv_pool s))"
    using lg by (auto simp: logs_def log_closed_by_def)
  moreover have "in_order ?st" using i spec [OF ord, of "thread_of c"] True e(2) [OF sy] by (auto simp: in_order_def comp_def)
  moreover have "\<forall>th. \<forall>h\<in>set (lg_todo ?st th). entry_ok (half_entry h)"
    using i halves_ok [OF e(1) [OF sy]] by simp
  moreover have "log_follows level v ?st" using follows_after_turn [OF _ lg so] i by blast
  ultimately show ?thesis using s(2) sp by (simp add: logged_advances_def logged_inv_def)
qed

text \<open>A half: while the log is open it follows the view, after that it uses the ended stream.\<close>

lemma half_keeps:
  assumes "logged_inv level v st" "level < 5" "tm_ok t"
    "r \<or> Suc (preamble_count (lv_log (lg_live st))) < MAX_LOG_LINE_NUM"
    "\<not> closing (main (lv_pool (lg_live st)))"
  shows "\<exists>st'. half_of th r t st = Inr st' \<and> logged_advances level v st st'
    \<and> main (lv_pool (lg_live st')) = main (lv_pool (lg_live st))"
proof (cases "lg_todo st th")
  case Nil
  then show ?thesis using assms(1) by (simp add: half_of_def logged_advances_def)
next
  case (Cons h hs)
  note i = assms(1) [unfolded logged_inv_def]
  have ord: "\<forall>th. map snd (by_thread th (lg_done st)) @ lg_todo st th = by_thread th (lg_said st)"
    using i by (simp add: in_order_def)
  have sh: "log_shows level (log_now level v st) (lv_log (lg_live st))" using i assms(5) by (simp add: log_follows_def)
  have "entry_ok (half_entry h)" using i Cons by (metis list.set_intros(1))
  moreover have "r \<or> Suc (lo_count (log_now level v st)) < MAX_LOG_LINE_NUM"
    using assms(4) sh by (simp add: log_shows_def)
  ultimately obtain ls where ls: "run_half r t h (lv_log (lg_live st)) = Inr ls"
    "log_shows level (half_writes level (t, h) (log_now level v st)) ls"
    using half_shown [OF sh assms(3) _ assms(2)] by blast
  let ?st = "st\<lparr>lg_live := (lg_live st)\<lparr>lv_log := ls\<rparr>, lg_todo := (lg_todo st)(th := hs), lg_done := lg_done st @ [(th, t, h)]\<rparr>"
  have "half_of th r t st = Inr ?st" using Cons ls(1) by (simp add: half_of_def)
  moreover have "live_sound ((lg_live st)\<lparr>lv_log := ls\<rparr>)"
    using lv_log_sound i ls(2) by (simp add: log_shows_def)
  moreover have "in_order ?st" using i spec [OF ord, of th] Cons by (auto simp: in_order_def)
  moreover have "log_follows level v ?st" using ls(2) assms(5) by (simp add: log_follows_def log_now_def)
  moreover have "\<forall>th. \<forall>h\<in>set (lg_todo ?st th). entry_ok (half_entry h)"
    using i Cons by (auto simp del: split_paired_All) (metis list.set_intros(2))
  ultimately show ?thesis by (simp add: logged_advances_def logged_inv_def)
qed

lemma half_after_close:
  assumes "logged_inv level v st" "level < 5" "tm_ok t" "closing (main (lv_pool (lg_live st)))"
  shows "half_of th r t st = (if lg_todo st th = [] then Inr st else Inl UseAfterFree)"
proof (cases "lg_todo st th")
  case (Cons h hs)
  note i = assms(1) [unfolded logged_inv_def]
  have "entry_ok (half_entry h)" using i Cons by (metis list.set_intros(1))
  moreover have "log_file_handle (lv_log (lg_live st)) = Ended" "def_log_level (lv_log (lg_live st)) < 5"
    "length (cur_ts_str (lv_log (lg_live st))) = TIME_STAMP_BUF_LEN"
    using i assms(2,4) by (simp_all add: log_follows_def)
  ultimately show ?thesis using half_ended [OF _ _ assms(3)] Cons by (simp add: half_of_def)
qed (simp add: half_of_def)

section \<open>Runs\<close>

text \<open>A half that is carried out after \<open>main\<close> has closed the log.\<close>

definition uses_closed_log :: "logged_choice \<Rightarrow> logged \<Rightarrow> bool" where
  "uses_closed_log c st \<longleftrightarrow> closing (main (lv_pool (lg_live st))) \<and> (\<exists>th r t. c = Half th r t \<and> lg_todo st th \<noteq> [])"

lemma logged_step_outcome:
  assumes "logged_inv level v st" "level < 5" "logged_allowed c st"
  shows "if uses_closed_log c st then logged_step c st = Inl UseAfterFree
    else \<exists>st'. logged_step c st = Inr st' \<and> logged_advances level v st st'"
proof (cases c)
  case (Turn d)
  then show ?thesis
    using turn_keeps [OF assms(1)] assms(3) by (auto simp: uses_closed_log_def logged_step_def logged_allowed_def)
next
  case (Half th r t)
  have t: "tm_ok t" "r \<or> Suc (preamble_count (lv_log (lg_live st))) < MAX_LOG_LINE_NUM"
    using assms(3) Half by (simp_all add: logged_allowed_def)
  show ?thesis
  proof (cases "closing (main (lv_pool (lg_live st)))")
    case True
    then show ?thesis
      using half_after_close [OF assms(1,2) t(1)] assms(1) Half
      by (simp add: uses_closed_log_def logged_step_def logged_advances_def)
  next
    case False
    then show ?thesis
      using half_keeps [OF assms(1,2) t, of th] Half by (auto simp: uses_closed_log_def logged_step_def)
  qed
qed

text \<open>A run that fails does so in such a half.\<close>

definition after_the_loop :: "logged_choice list \<Rightarrow> logged \<Rightarrow> bool" where
  "after_the_loop ms st \<longleftrightarrow>
     (\<exists>as c bs st'. ms = as @ c # bs \<and> run_logged as st = Inr st' \<and> uses_closed_log c st')"

lemma run_logged_holds:
  assumes "logged_inv level v st" "level < 5" "steps_ok logged_step logged_allowed ms st"
  shows "case run_logged ms st of
      Inl err \<Rightarrow> err = UseAfterFree \<and> after_the_loop ms st
    | Inr st' \<Rightarrow> logged_advances level v st st'"
  using assms(1,3)
proof (induction ms arbitrary: st)
  case Nil
  then show ?case by (simp add: run_logged_def logged_advances_def)
next
  case (Cons c ms)
  note o = logged_step_outcome [OF Cons.prems(1) assms(2), of c]
  show ?case
  proof (cases "uses_closed_log c st")
    case True
    then have "after_the_loop (c # ms) st"
      unfolding after_the_loop_def by (intro exI [of _ "[]"]) (auto simp: run_logged_def)
    then show ?thesis using o Cons.prems(2) True by (simp add: run_logged_def)
  next
    case False
    then obtain st1 where st1: "logged_step c st = Inr st1" "logged_advances level v st st1"
      using o Cons.prems(2) by auto
    have after: "after_the_loop (c # ms) st" if a: "after_the_loop ms st1"
    proof -
      obtain as d bs st2 where d: "ms = as @ d # bs" "run_logged as st1 = Inr st2" "uses_closed_log d st2"
        using a by (auto simp: after_the_loop_def)
      then have "c # ms = (c # as) @ d # bs" "run_logged (c # as) st = Inr st2"
        using st1(1) by (simp_all add: run_logged_def)
      with d(3) show ?thesis unfolding after_the_loop_def by blast
    qed
    have "logged_inv level v st1" "steps_ok logged_step logged_allowed ms st1"
      using st1 Cons.prems(2) by (simp_all add: logged_advances_def)
    from Cons.IH [OF this] show ?thesis
      using st1 after by (auto simp: run_logged_def logged_advances_def split: sum.splits)
  qed
qed

end
