(* ===== verification/LiveLogged.thy ===== *)
theory LiveLogged
  imports LiveLog LiveBoot
begin

text \<open>
  What the log file of the server holds, from the start of \<open>main\<close> over every interleaving of its
  threads and of the halves of their log calls, and the use of the closed log at its end.
\<close>

section \<open>From the start of main\<close>

text \<open>What the file holds after the halves \<open>hs\<close>, in the order of the mutex.\<close>

definition log_text :: "int \<Rightarrow> (tm \<times> log_half) list \<Rightarrow> string" where
  "log_text level hs = lo_file (fold (half_writes level) hs (fresh_view (''LOG START'' @ nl)))"

lemma log_text_changes:
  "places hs < MAX_LOG_LINE_NUM \<Longrightarrow>
     log_text level hs = ''LOG START'' @ nl @ changes (''LOG START'' @ nl) (pieces level hs)"
  using file_before_rotation [of "fresh_view (''LOG START'' @ nl)" hs level] by (simp add: log_text_def fresh_view_def)

text \<open>The three calls of \<open>main\<close> before its loop.\<close>

definition start_halves :: "start_env \<Rightarrow> (tm \<times> log_half) list" where
  "start_halves e = call_halves (start_calls e)"

lemma start_calls_ok:
  assumes "tm_ok (se_tm e)"
  shows "list_all call_ok (start_calls e)"
proof -
  have "entry_ok (main_entry l line msg)" if "100 \<le> line" "line < 1000" "text_ok msg" for l line msg
    using that by (simp add: entry_ok_def main_prefix)
  then show ?thesis using assms start_texts by (simp add: start_calls_def call_ok_def)
qed

definition start_view :: "int \<Rightarrow> start_env \<Rightarrow> log_view" where
  "start_view level e = fold (half_writes level) (start_halves e) (fresh_view (''LOG START'' @ nl))"

lemma boot_follows:
  assumes "start_ok lines v arg e" "1 \<le> start_level v" "start_level v < 5" "boot arg e now = Some st0"
  shows "logged_inv (start_level v) (start_view (start_level v) e) (logged_start st0)"
    "\<not> closing (main (lv_pool st0))"
proof -
  obtain es ls p where s: "main_start [arg] e
      = Inr (Enters_loop (config_of v) (start_state (se_epoll e) (se_heap e)) p, es, ls)"
    "thpool_init THREAD_POLL_SIZE True True True (se_heap e) = Some p"
    "log_holds (''LOG START'' @ nl) (start_level v) (start_calls e) ls"
    using start_enters [OF assms(1-3)] by blast
  have st0: "st0 = live_start now (start_state (se_epoll e) (se_heap e)) p ls"
    using assms(4) s(1) by (simp add: boot_def)
  have "main p = Idle" using pool_init_inv [OF s(2)] by simp
  then show c: "\<not> closing (main (lv_pool st0))" by (simp add: st0 live_start_def)
  have "not_place (''LOG START'' @ nl)" by (simp add: not_place_def nl_def)
  moreover have "list_all call_ok (start_calls e)" using start_calls_ok assms(1) by (simp add: start_ok_def)
  ultimately have "log_shows (start_level v) (start_view (start_level v) e) ls"
    using log_holds_shows s(3) by (simp add: start_view_def start_halves_def)
  then show "logged_inv (start_level v) (start_view (start_level v) e) (logged_start st0)"
    using boot_sound(1) [OF assms] c
    by (simp add: logged_inv_def logged_start_def in_order_def log_follows_def log_now_def st0 live_start_def start_state_def)
qed

section \<open>Calls\<close>

lemma entries_closing [simp]: "entries (closesocket fd) = []" "entries (close_all is t) = []"
proof -
  show c: "entries (closesocket fd) = []" for fd by (simp add: closesocket_def)
  show "entries (close_all is t) = []" by (induction "is") (simp_all add: c Let_def)
qed

definition killed_entry :: log_entry where
  "killed_entry = entry_of LOG_LEVEL_FATAL ''signal_handler_reboot'' 61 ''receive kill signal exit the server.''"

lemma signal_entries:
  assumes "live_step (By_signal SIGTERM) st = Inr st'"
  shows "new_entries st st' = [killed_entry]"
proof -
  have "st' = put_server (signal_handler_reboot SIGTERM (server_of st)) st"
    using assms by (simp add: live_step_def live_turn_def)
  moreover have "\<exists>es. io (signal_handler_reboot SIGTERM (server_of st)) = io (lv_server st) @ es \<and> entries es = [killed_entry]"
    by (cases "listen_fd (lv_server st) = -1")
      (simp_all add: signal_handler_reboot_def close_listen_def server_of_def killed_entry_def Let_def)
  then obtain es where "io (signal_handler_reboot SIGTERM (server_of st)) = io (lv_server st) @ es"
    "entries es = [killed_entry]"
    by blast
  ultimately show ?thesis by (simp add: new_entries_def)
qed

lemma accept_makes_call:
  assumes "live_step (By_acceptor port le a) st = Inr st'" "lv_accept st = In_accept" "ae_fd a < 0"
    "ae_errno a \<notin> {EAGAIN, ECONNABORTED, EPROTO, EINTR}"
  shows "new_entries st st' \<noteq> []"
  using assms
  by (auto simp: live_step_def live_turn_def accept_turn_of_def accept_returned_def new_entries_def server_of_def Let_def)

section \<open>A shutdown\<close>

text \<open>SIGTERM arrives and the handler logs it; then \<open>main\<close> leaves its loop.\<close>

definition sample_kill :: "logged_choice list" where
  "sample_kill = [Turn (By_signal SIGTERM), Half Handler True sample_tm, Half Handler True sample_tm]"

definition sample_shutdown :: "logged_choice list" where
  "sample_shutdown = sample_kill @ [Turn (By_main_thread sample_tm)]"

lemma kill_run:
  assumes "logged_inv 4 v st" "lg_todo st = (\<lambda>_. [])" "\<not> closing (main (lv_pool (lg_live st)))" "lg_done st = []"
  shows "steps_ok logged_step logged_allowed sample_kill st"
    "\<exists>st'. run_logged sample_kill st = Inr st' \<and> lg_todo st' = (\<lambda>_. []) \<and> exit_flag (lv_server (lg_live st'))
       \<and> lv_batch (lg_live st') = lv_batch (lg_live st) \<and> lv_delete (lg_live st') = lv_delete (lg_live st)
       \<and> main (lv_pool (lg_live st')) = main (lv_pool (lg_live st))
       \<and> lg_done st' = [(Handler, sample_tm, Place killed_entry), (Handler, sample_tm, Said killed_entry)]"
proof -
  let ?live = "lg_live st" and ?h = "Half Handler True sample_tm"
  have li: "live_inv ?live" using assms(1) by (simp add: logged_inv_def live_sound_def)
  obtain s where s: "live_step (By_signal SIGTERM) ?live = Inr s" "exit_flag (lv_server s)"
    "lv_batch s = lv_batch ?live" "lv_delete s = lv_delete ?live"
    using signal_ends [OF li] by blast
  have m: "main (lv_pool s) = main (lv_pool ?live)" using s(1) by (auto simp: live_step_def live_turn_def)
  note e = signal_entries [OF s(1)]
  let ?st1 = "st\<lparr>lg_live := s, lg_todo := (lg_todo st)(Handler := [Place killed_entry, Said killed_entry]),
    lg_said := lg_said st @ map (Pair Handler) [Place killed_entry, Said killed_entry]\<rparr>"
  have 1: "logged_step (Turn (By_signal SIGTERM)) st = Inr ?st1"
    using assms(2) s(1) e by (simp add: logged_step_def turn_of_def halves_of_def Let_def)
  have ok1: "logged_allowed (Turn (By_signal SIGTERM)) st"
    by (simp add: logged_allowed_def choice_contract_def texts_allowed_def)
  have i1: "logged_inv 4 v ?st1"
    using logged_step_outcome [OF assms(1) _ ok1] 1 by (auto simp: uses_closed_log_def logged_advances_def)
  have okh: "logged_allowed ?h st'" for st' by (simp add: logged_allowed_def)
  have nc: "\<not> closing (main (lv_pool (lg_live ?st1)))" using assms(3) m by simp
  obtain st2 where 2: "half_of Handler True sample_tm ?st1 = Inr st2" "logged_inv 4 v st2"
    "\<not> closing (main (lv_pool (lg_live st2)))"
    using half_keeps [OF i1 _ sample_tm_ok _ nc, of True Handler] nc by (auto simp: logged_advances_def)
  obtain ls where st2: "st2 = ?st1\<lparr>lg_live := s\<lparr>lv_log := ls\<rparr>, lg_todo := (lg_todo st)(Handler := [Said killed_entry]),
    lg_done := [(Handler, sample_tm, Place killed_entry)]\<rparr>"
    using 2(1) assms(4) by (auto simp: half_of_def)
  obtain st3 where 3: "half_of Handler True sample_tm st2 = Inr st3"
    using half_keeps [OF 2(2) _ sample_tm_ok _ 2(3), of True Handler] by auto
  show "steps_ok logged_step logged_allowed sample_kill st"
    using 1 2(1) ok1 okh by (simp add: sample_kill_def logged_step_def split: sum.split)
  have "run_logged sample_kill st = Inr st3"
    using 1 2(1) 3 by (simp add: sample_kill_def run_logged_def logged_step_def)
  moreover have "lg_todo st3 = (\<lambda>_. []) \<and> exit_flag (lv_server (lg_live st3)) \<and> lv_batch (lg_live st3) = lv_batch ?live
      \<and> lv_delete (lg_live st3) = lv_delete ?live \<and> main (lv_pool (lg_live st3)) = main (lv_pool ?live)
      \<and> lg_done st3 = [(Handler, sample_tm, Place killed_entry), (Handler, sample_tm, Said killed_entry)]"
    using 3 s(2-4) m assms(2) unfolding st2 by (auto simp: half_of_def)
  ultimately show "\<exists>st'. run_logged sample_kill st = Inr st' \<and> lg_todo st' = (\<lambda>_. []) \<and> exit_flag (lv_server (lg_live st'))
       \<and> lv_batch (lg_live st') = lv_batch (lg_live st) \<and> lv_delete (lg_live st') = lv_delete (lg_live st)
       \<and> main (lv_pool (lg_live st')) = main (lv_pool (lg_live st))
       \<and> lg_done st' = [(Handler, sample_tm, Place killed_entry), (Handler, sample_tm, Said killed_entry)]"
    by blast
qed

lemma sample_boot_logged:
  "\<exists>st0. boot ''8812'' (sample_env shipped_lines) 100 = Some st0
     \<and> logged_inv 4 (start_view 4 (sample_env shipped_lines)) (logged_start st0)
     \<and> main (lv_pool st0) = Idle \<and> lv_batch st0 = (0, []) \<and> lv_delete st0 = None"
proof -
  have l: "1 \<le> start_level shipped_value" "start_level shipped_value < 5" by (simp_all add: shipped_start(2))
  obtain st0 where "boot ''8812'' (sample_env shipped_lines) 100 = Some st0" "main (lv_pool st0) = Idle"
    "lv_batch st0 = (0, [])" "lv_delete st0 = None"
    using boot_starts [OF shipped_start(1) l, of 100] by (auto simp: live_start_def)
  then show ?thesis using boot_follows(1) [OF shipped_start(1) l] shipped_start(2) by auto
qed

lemma leave_run:
  assumes "logged_inv 4 v st" "lg_todo st = (\<lambda>_. [])" "exit_flag (lv_server (lg_live st))"
    "main (lv_pool (lg_live st)) = Idle" "lv_batch (lg_live st) = (0, [])" "lv_delete (lg_live st) = None"
  shows "logged_allowed (Turn (By_main_thread sample_tm)) st"
    "\<exists>st'. logged_step (Turn (By_main_thread sample_tm)) st = Inr st' \<and> closing (main (lv_pool (lg_live st')))
       \<and> lg_todo st' Handler = []"
proof -
  let ?live = "lg_live st"
  have li: "live_inv ?live" using assms(1) by (simp add: logged_inv_def live_sound_def)
  show "logged_allowed (Turn (By_main_thread sample_tm)) st"
    using assms(5,6) by (simp add: logged_allowed_def choice_contract_def texts_allowed_def)
  have "log_open (lv_log ?live)" using li assms(4) by (simp add: live_inv_def)
  then obtain ls where "log_close sample_tm (lv_log ?live) = Inr (0, ls)" using log_close_returns sample_tm_ok by blast
  then obtain s where "live_step (By_main_thread sample_tm) ?live = Inr s" "closing (main (lv_pool s))"
    using assms(3-6)
    by (simp add: live_step_def live_turn_def main_turn_def main_end_left on_pool_def main_move_def Let_def)
  then show "\<exists>st'. logged_step (Turn (By_main_thread sample_tm)) st = Inr st' \<and> closing (main (lv_pool (lg_live st')))
       \<and> lg_todo st' Handler = []"
    using assms(2) by (simp add: logged_step_def turn_of_def Let_def)
qed

section \<open>Properties\<close>

text \<open>C29. The server and its log, over every interleaving of the threads' turns and of the halves of
  their log calls (\<open>LOG_INFO\<close> takes the mutex for the place and again for the message), as long as the
  contracts of C6 hold in each turn's state, \<open>strerror\<close> returns no conversions, and the file can be reopened when it is
  rotated: the log never makes the server fail while \<open>main\<close> is in its loop, and the server still
  follows its specification. Each thread's halves are carried out in its order, and the log file is
  that of the halves in the order of the mutex: before the first rotation, its start line and each
  enabled half, the place with stamp and label, the message as it is, unless it repeats the enabled
  half before it; so calls that run undisturbed leave whole lines, and calls of two threads can share
  one. The only possible failure is a half carried out after \<open>main\<close> has closed the log.\<close>

theorem server_with_log:
  assumes "start_ok lines v arg e" "1 \<le> start_level v" "start_level v < 5" "boot arg e now = Some st0"
    and "steps_ok logged_step logged_allowed ms (logged_start st0)"
  shows "case run_logged ms (logged_start st0) of
      Inl err \<Rightarrow> err = UseAfterFree \<and> after_the_loop ms (logged_start st0)
    | Inr st \<Rightarrow> server_ok (server_of (lg_live st)) \<and> pool_inv (lv_pool (lg_live st))
        \<and> live_spec\<^sup>*\<^sup>* (live_view st0) (live_view (lg_live st))
        \<and> map snd (lg_said st) = concat (map halves_of (entries (io (lv_server (lg_live st)))))
        \<and> (\<forall>th. map snd (by_thread th (lg_done st)) @ lg_todo st th = by_thread th (lg_said st))
        \<and> (\<not> closing (main (lv_pool (lg_live st))) \<longrightarrow>
             (let hs = start_halves e @ map snd (lg_done st) in
                log_file (lv_log (lg_live st)) = log_text (start_level v) hs
              \<and> (places hs < MAX_LOG_LINE_NUM \<longrightarrow>
                   log_file (lv_log (lg_live st)) = ''LOG START'' @ nl
                     @ changes (''LOG START'' @ nl) (pieces (start_level v) hs))))"
proof -
  have now: "lo_file (log_now (start_level v) (start_view (start_level v) e) st)
      = log_text (start_level v) (start_halves e @ map snd (lg_done st))" for st
    by (simp add: log_now_def start_view_def log_text_def)
  show ?thesis
    using run_logged_holds [OF boot_follows(1) [OF assms(1-4)] assms(3,5)] log_text_changes
    by (auto simp: logged_advances_def logged_inv_def live_sound_def live_inv_def in_order_def log_follows_def
        log_shows_def now logged_start_def Let_def split: sum.splits)
qed

theorem server_with_log_witness:
  "\<exists>st0 st. boot ''8812'' (sample_env shipped_lines) 100 = Some st0 \<and> run_logged sample_kill (logged_start st0) = Inr st
     \<and> log_file (lv_log (lg_live st)) = log_text 4 (start_halves (sample_env shipped_lines)
         @ [(sample_tm, Place killed_entry), (sample_tm, Said killed_entry)])"
proof -
  have l: "1 \<le> start_level shipped_value" "start_level shipped_value < 5" by (simp_all add: shipped_start(2))
  obtain st0 where b: "boot ''8812'' (sample_env shipped_lines) 100 = Some st0"
    "logged_inv 4 (start_view 4 (sample_env shipped_lines)) (logged_start st0)" "main (lv_pool st0) = Idle"
    using sample_boot_logged by blast
  have 0: "lg_todo (logged_start st0) = (\<lambda>_. [])" "\<not> closing (main (lv_pool (lg_live (logged_start st0))))"
    "lg_done (logged_start st0) = []"
    using b(3) by (simp_all add: logged_start_def)
  obtain st where st: "run_logged sample_kill (logged_start st0) = Inr st" "main (lv_pool (lg_live st)) = Idle"
    "lg_done st = [(Handler, sample_tm, Place killed_entry), (Handler, sample_tm, Said killed_entry)]"
    using kill_run(2) [OF b(2) 0] b(3) by (auto simp: logged_start_def)
  from server_with_log [OF shipped_start(1) l b(1) kill_run(1) [OF b(2) 0]] b(1) st show ?thesis
    by (simp add: shipped_start(2) Let_def)
qed

text \<open>C33. \<open>main\<close> closes the log before it stops the other threads. Once it has, in any run under the contracts of
  C29, every half of a log call that a thread still carries out uses the closed stream; and a second
  SIGTERM and an \<open>accept\<close> that fails, as the one that the first signal has interrupted does on its closed
  socket, are turns with such a call.\<close>

theorem log_used_at_shutdown:
  assumes "start_ok lines v arg e" "1 \<le> start_level v" "start_level v < 5" "boot arg e now = Some st0"
    and "steps_ok logged_step logged_allowed (ms @ [c]) (logged_start st0)"
    and "run_logged ms (logged_start st0) = Inr st1" "closing (main (lv_pool (lg_live st1)))"
  shows "(\<forall>th r t. c = Half th r t \<longrightarrow> run_logged (ms @ [c]) (logged_start st0)
        = (if lg_todo st1 th = [] then Inr st1 else Inl UseAfterFree))
    \<and> (\<forall>d r t. c = Turn d \<and> tm_ok t \<and> lg_todo st1 (thread_of d) = []
          \<and> (d = By_signal SIGTERM \<or> (\<exists>port le a. d = By_acceptor port le a \<and> lv_accept (lg_live st1) = In_accept
               \<and> ae_fd a < 0 \<and> ae_errno a \<notin> {EAGAIN, ECONNABORTED, EPROTO, EINTR}))
        \<longrightarrow> run_logged (ms @ [c, Half (thread_of d) r t]) (logged_start st0) = Inl UseAfterFree)"
proof (intro conjI allI impI)
  let ?v = "start_view (start_level v) e"
  have ok: "steps_ok logged_step logged_allowed ms (logged_start st0)" "logged_allowed c st1"
    using assms(5,6) by (simp_all add: steps_ok_append run_logged_def)
  have i: "logged_inv (start_level v) ?v st1"
    using run_logged_holds [OF boot_follows(1) [OF assms(1-4)] assms(3) ok(1)] assms(6)
    by (simp add: logged_advances_def)
  have run: "run_logged (ms @ cs) (logged_start st0) = run_logged cs st1" for cs
    using assms(6) by (simp add: run_logged_def run_steps_append)
  show "run_logged (ms @ [c]) (logged_start st0) = (if lg_todo st1 th = [] then Inr st1 else Inl UseAfterFree)"
    if "c = Half th r t" for th r t
    using half_after_close [OF i assms(3) _ assms(7)] ok(2) that
    unfolding run by (simp add: run_logged_def logged_step_def logged_allowed_def)
  fix d r t
  assume d: "c = Turn d \<and> tm_ok t \<and> lg_todo st1 (thread_of d) = []
      \<and> (d = By_signal SIGTERM \<or> (\<exists>port le a. d = By_acceptor port le a \<and> lv_accept (lg_live st1) = In_accept
           \<and> ae_fd a < 0 \<and> ae_errno a \<notin> {EAGAIN, ECONNABORTED, EPROTO, EINTR}))"
  then have ad: "choice_allowed d (lg_live st1)" "texts_allowed d" using ok(2) by (simp_all add: logged_allowed_def)
  obtain st2 where st2: "turn_of d st1 = Inr st2" "logged_inv (start_level v) ?v st2"
    "closing (main (lv_pool (lg_live st2)))"
    using turn_keeps [OF i ad] assms(7) by (auto simp: logged_advances_def)
  then obtain s where s: "live_step d (lg_live st1) = Inr s"
    "lg_todo st2 (thread_of d) = concat (map halves_of (new_entries (lg_live st1) s))"
    using d by (auto simp: turn_of_def Let_def)
  have "new_entries (lg_live st1) s \<noteq> []" using d s(1) signal_entries accept_makes_call by fastforce
  then have "lg_todo st2 (thread_of d) \<noteq> []"
    unfolding s(2) by (cases "new_entries (lg_live st1) s") (simp_all add: halves_of_def)
  then show "run_logged (ms @ [c, Half (thread_of d) r t]) (logged_start st0) = Inl UseAfterFree"
    using half_after_close [OF st2(2) assms(3) _ st2(3)] d st2(1)
    unfolding run by (simp add: run_logged_def logged_step_def)
qed

theorem log_used_at_shutdown_witness:
  "\<exists>st0. boot ''8812'' (sample_env shipped_lines) 100 = Some st0
     \<and> run_logged (sample_shutdown @ [Turn (By_signal SIGTERM), Half Handler True sample_tm]) (logged_start st0)
         = Inl UseAfterFree"
proof -
  have l: "1 \<le> start_level shipped_value" "start_level shipped_value < 5" by (simp_all add: shipped_start(2))
  obtain st0 where b: "boot ''8812'' (sample_env shipped_lines) 100 = Some st0"
    "logged_inv 4 (start_view 4 (sample_env shipped_lines)) (logged_start st0)" "main (lv_pool st0) = Idle"
    "lv_batch st0 = (0, [])" "lv_delete st0 = None"
    using sample_boot_logged by blast
  have 0: "lg_todo (logged_start st0) = (\<lambda>_. [])" "\<not> closing (main (lv_pool (lg_live (logged_start st0))))"
    "lg_done (logged_start st0) = []"
    using b(3) by (simp_all add: logged_start_def)
  obtain st1 where st1: "run_logged sample_kill (logged_start st0) = Inr st1" "lg_todo st1 = (\<lambda>_. [])"
    "exit_flag (lv_server (lg_live st1))" "main (lv_pool (lg_live st1)) = Idle" "lv_batch (lg_live st1) = (0, [])"
    "lv_delete (lg_live st1) = None"
    using kill_run(2) [OF b(2) 0] b(3-5) by (auto simp: logged_start_def)
  have i1: "logged_inv 4 (start_view 4 (sample_env shipped_lines)) st1"
    using run_logged_holds [OF b(2) _ kill_run(1) [OF b(2) 0]] st1(1) by (simp add: logged_advances_def)
  note leave = leave_run [OF i1 st1(2-6)]
  obtain st2 where st2: "logged_step (Turn (By_main_thread sample_tm)) st1 = Inr st2"
    "closing (main (lv_pool (lg_live st2)))" "lg_todo st2 Handler = []"
    using leave(2) by blast
  have run: "run_logged sample_shutdown (logged_start st0) = Inr st2"
    using st1(1) st2(1) by (simp add: sample_shutdown_def run_logged_def run_steps_append)
  have "logged_allowed (Turn (By_signal SIGTERM)) st2"
    by (simp add: logged_allowed_def choice_contract_def texts_allowed_def)
  then have ok: "steps_ok logged_step logged_allowed (sample_shutdown @ [Turn (By_signal SIGTERM)]) (logged_start st0)"
    using kill_run(1) [OF b(2) 0] st1(1) st2(1) leave(1) run
    by (auto simp: sample_shutdown_def steps_ok_append run_logged_def split: sum.split)
  from log_used_at_shutdown [OF shipped_start(1) l b(1) ok run st2(2)] b(1) st2(3) show ?thesis by simp
qed

end
