(* ===== verification/Spec2Isabelle.thy ===== *)
theory Spec2Isabelle
  imports SessionCorrect TableRuns SqlCorrect LiveSystem LiveServes LiveLogged
begin

text \<open>
  JQServer is a rendezvous server for peer-to-peer clients: a client logs in with an id and a
  password, asks for the public address of another user, or lists the users. The server is one
  process (\<open>src/server\<close>) of an accept thread, an epoll loop in \<open>main\<close>, and a pool of worker
  threads that answer the messages. This development models it from the source, function by
  function, and proves what it promises and where it breaks its promises.

  \<^bold>\<open>The parts and how they work together.\<close>
  The accept thread (\<open>accept_thread\<close> in \<open>g_net_update.c\<close>) enters every new socket into the
  connection table (\<open>epoll_connect.c\<close>) and registers it with epoll. The loop of \<open>main\<close> takes the
  epoll events, reads a message (\<open>recv_buffer_from_fd\<close>), dumps it (\<open>dumpInfo\<close>) and submits it with
  its socket as a job to the pool (\<open>thpool_add_work\<close> in \<open>thread_pool.c\<close>); once in 60 seconds it
  recycles connections and jobs that are too old. A worker (\<open>thpool_thread_do\<close>) takes the oldest
  job and calls \<open>respons_stb_info\<close>, which answers according to the types of \<open>proto.h\<close>.

  \<^bold>\<open>The shared base.\<close>
  Theory \<open>Prelude\<close> holds the errors (every undefined behaviour of C and every misuse of memory is
  a value of the type \<open>error\<close>; a fallible statement returns \<open>error + 'a\<close>), the sequencing
  \<open>and_then\<close>, index scans and updates of arrays. \<open>CString\<close> and \<open>CText\<close> hold the C library on
  character arrays: an array is a \<open>string\<close> of its full size, a write or read outside it is
  \<open>OutOfBounds\<close>. The locale \<open>codec\<close> is the contract of fixed-width fields, interpreted for 32 and
  64 bits and for the message header. \<open>Effects\<close> is the record of the calls that leave the process.

  \<^bold>\<open>The connection table.\<close>
  \<open>EpollConnect\<close> has one definition per function of \<open>epoll_connect.c\<close>, on the list of the 10240
  slots. \<open>ConnRegistry\<close> states the invariant \<open>conn_inv\<close>, the abstraction \<open>conns\<close> to a map from
  descriptor to peer, and the locale \<open>conn_registry\<close> that the event loop relies on, interpreted on
  the code's operations; \<open>TableRuns\<close> extends it to whole histories of the table, with the runs of \<open>Runs\<close>. \<open>UserList\<close> proves the two passes of \<open>get_all_users\<close>.

  \<^bold>\<open>The job queue and the thread pool.\<close>
  \<open>JobQueue\<close> models the linked list in an explicit heap, so that a use after free is an error;
  \<open>QueueRefinement\<close> proves that it implements a list; \<open>QueueInterface\<close> states the contract as the
  locale \<open>job_queue\<close>, proves facts of whole histories in it and interprets it. \<open>ThreadPool\<close> models
  the threads as interleaved moves, a move being the code between two accesses to the mutex, the
  semaphore or \<open>thpool_keepalive\<close>; \<open>PoolCorrect\<close>, \<open>PoolRun\<close>, \<open>PoolLiveness\<close>, \<open>PoolSchedules\<close> and
  \<open>PoolShutdown\<close> prove exclusion, ownership of jobs, a decreasing measure, absence of deadlock,
  fair schedules and the shutdown, and show what a time-out deletion does to all this.

  \<^bold>\<open>The messages.\<close>
  \<open>Proto\<close> gives the layouts of \<open>proto.h\<close> (x86-64, little endian) and what a client that casts to
  the structs reads. \<open>NetIO\<close> has the loops of \<open>send_buffer_to_fd\<close>, \<open>recv_buffer_from_fd\<close> and
  \<open>dumpInfo\<close>. \<open>Respond\<close> has one definition per case of \<open>respons_stb_info\<close>; \<open>Replies\<close> computes the
  reply buffers, \<open>RespondCorrect\<close> proves each handler, \<open>Dispatch\<close> the selection, \<open>HandlerSafety\<close>
  which calls are free of undefined behaviour for any answers of the kernel.

  \<^bold>\<open>The running server.\<close>
  \<open>ServerState\<close> is the state (the static variables, the table, the queue and the effects so far).
  \<open>EventLoop\<close> has the accept thread, \<open>recycle_timeout_confd\<close>, the epoll loop and the signal handler.
  \<open>Recycle\<close>, \<open>EventCorrect\<close> and \<open>EventRefine\<close> prove them against an abstract server
  (connections, jobs, count). \<open>ServerRun\<close> composes the threads into the step relation
  \<open>server_step\<close> and proves the invariant of the reachable states; \<open>reachable P\<close> are those that clients
  can bring about who cause only events of \<open>P\<close>, so that what holds for every \<open>P\<close> holds whatever they send. \<open>SystemRun\<close> is the server as a
  program over a schedule of turns (\<open>run_server\<close>), with the contracts of the environment along a run and
  the abstract server every run refines. \<open>Samples\<close> and \<open>SampleRun\<close> have the concrete
  states of the witnesses, \<open>Findings\<close> facts on behaviours one does not expect.

  \<^bold>\<open>Configuration, log and start-up.\<close>
  \<open>ConfigInfo\<close> is the reader of \<open>config.ini\<close> (\<open>read_config_info\<close> of \<open>config_info.c\<close> with
  \<open>read_file_to_buff\<close> of \<open>file_operations.c\<close>): the key words are searched in the text of the file
  and their values copied into the fixed fields of \<open>CONFIG_INFO\<close>. \<open>ConfigCorrect\<close> shows which files
  are read back exactly and which lose a value. \<open>LogModel\<close> has the functions and macros of \<open>log.c\<close> and
  \<open>log.h\<close> on the text of the open file, which every 500000th call starts anew; \<open>LogCorrect\<close> proves
  that a sequence of undisturbed calls leaves one line per enabled call since then; \<open>LogHalves\<close> takes the two calls of a
  \<open>LOG_INFO\<close> apart and says what the file holds for any order of such halves. \<open>StartUp\<close> is
  \<open>main\<close> before and after its loop (\<open>main_start\<close>, \<open>main_end\<close>), which composes the configuration, the
  log, the connection table, the pool and the sockets in the order the code calls them.

\<^bold>\<open>The database pool.\<close>
  \<open>SqlPool\<close> is \<open>sql_pool.c\<close> and its caller in \<open>database_process.c\<close>. A mutex of a connection is
  \<open>Free\<close> or \<open>Held\<close> by a thread; \<open>pthread_mutex_init\<close> on a held mutex makes it free, as in glibc, which
  is what \<open>create_connect\<close> does on a reconnect. \<open>SqlCorrect\<close> states the promise of the pool as the
  locale \<open>object_pool\<close> (an object handed out was free, is then held, and releasing it restores the
  locks), interprets it on the code's \<open>get_db_connect_from_pool\<close> and \<open>release_sock_to_sql_pool\<close>, and
  proves from it that a query returns its connection. The server is built
  with this code switched off (\<open>CONNECT_TO_SQL_SUCCESS\<close> is 0).

\<^bold>\<open>The clients.\<close>
  \<open>Layouts\<close> has the structs of both copies of \<open>proto.h\<close> with the C rules for offsets, and shows that
  they give the offsets of \<open>Proto\<close>. \<open>Clients\<close> has the packets, the command parser and the printing of the
  Windows test client (\<open>Win32ClientTest.cpp\<close>) and the packets of the Linux one (\<open>JQClient.c\<close>);
  \<open>ClientSessions\<close> has their threads and \<open>main\<close> functions. \<open>ClientCorrect\<close> runs their packets against the
  handlers of \<open>Respond\<close>: what the Windows client sends logs it in and finds another user, what the Linux
  client sends does not fit the server's layouts. \<open>SessionCorrect\<close> shows what the Windows client sends
  from start to end, and follows a session from \<open>accept\<close> to the login through all the server's threads.

\<^bold>\<open>All threads interleaved.\<close>
  \<open>LiveServer\<close> composes the server at the level of the pool's moves: the record \<open>live\<close> has the server's
  state, the pool, the batch of epoll events that \<open>main\<close> is in, and where the accept thread is. An
  event is split where \<open>main\<close> waits for the mutex (\<open>start_event\<close>, \<open>start_work\<close>, then the moves of
  \<open>main_move\<close>), the recycling where \<open>delete_timeout_job\<close> waits for it, with the tail already read
  (\<open>wait_turn\<close>, \<open>delete_turn\<close>); a worker runs \<open>respons_stb_info\<close> in its move \<open>Run\<close> (\<open>worker_turn\<close>), with every other
  thread going on between the removal of the job and that call; \<open>accept_turn_of\<close> and the signal
  handler are the other threads, \<open>live_step\<close> one turn and \<open>run_live\<close> a schedule. \<open>PoolParts\<close> follows a single
  job through the pool: waiting, in a worker's hands, called. \<open>LiveCorrect\<close> has the invariant \<open>live_inv\<close> and
  the specification \<open>live_spec\<close>, in which a message is added, taken and served in steps of their own;
  \<open>LiveTurns\<close>, \<open>LiveRun\<close> and \<open>LiveKernel\<close> prove that each turn keeps the one and advances the other, while the contracts
  \<open>choice_allowed\<close> hold (the kernel's answers, \<open>malloc\<close>, messages the dump can hold, terminated logins whose connection is still in the
  table when they are served, and a recycling that, when it gets the mutex, finds the job it has read still
  first in the queue and not too old: C12 and C13 show what happens otherwise). \<open>LiveEnds\<close> has the
  measure \<open>live_measure\<close> that falls in every fair round after a signal, \<open>LiveWhole\<close> the agreement of the moves
  with the single turns of \<open>SystemRun\<close>. \<open>LiveBoot\<close> puts \<open>main_start\<close> in front (\<open>boot\<close>) and has the
  sample runs; \<open>LiveSystem\<close> states the properties of the whole program: refinement (C6), agreement of the two granularities (C7), every
  message served once (C8), and the end after SIGTERM (C10). \<open>LiveServes\<close> adds that no message waits
  for ever: fair turns of the workers serve all that have been received (C36).

\<^bold>\<open>The log of the running server.\<close>
  In the theories above a call of \<open>LOG_INFO\<close> is an effect. \<open>LiveTexts\<close> proves that every turn of the
  interleaved server only adds effects, and that every message logged is one the log can print: the
  log uses the finished message as a format, and no conversion gets into one, whatever the clients
  send (\<open>loggable\<close>, \<open>says\<close>), as long as \<open>strerror\<close> returns none. \<open>LiveLog\<close> is the server with its log
  (\<open>logged_step\<close>, \<open>run_logged\<close>): a turn leaves the halves of its calls to its thread (\<open>turn_of\<close>), which carries them out one by one
  on the \<open>log_state\<close> that \<open>main_start\<close> has opened, among the turns and halves of the others (\<open>half_of\<close>), before its next turn. \<open>LiveLogged\<close> states what the file holds from the start to the end of the server (C29), and that
  \<open>main\<close> closes the log while the other threads may still use it (C33).

  \<^bold>\<open>What is a parameter.\<close>
  The answers of the kernel (\<open>recv\<close>, \<open>write\<close>, \<open>accept\<close>, \<open>epoll_ctl\<close>, \<open>epoll_wait\<close>, \<open>fcntl\<close>,
  \<open>time\<close>) and of \<open>malloc\<close> are arguments of the definitions; the hypotheses on them
  say that \<open>accept\<close> returns a descriptor that is not open and that adding it to epoll does not fail
  (\<open>accept_env_ok\<close>; the first is documented, the second an assumption, and C35 is the failing case), that \<open>recv\<close> returns at
  most the length asked for and \<open>malloc\<close> a block that is not in use (\<open>event_env_ok\<close>, documented), and, where a theorem
  says so, that \<open>malloc\<close> does not fail (\<open>malloc_works\<close>) and that the writes of a reply take it all without \<open>EAGAIN\<close>
  (\<open>answers\<close>). \<open>client_ok\<close> limits the clients: messages that the dump can hold, logins with terminated fields.
  Everything else is computed.

  \<^bold>\<open>Bounds, fuel and widths.\<close>
  Loops over arrays and messages are structural recursions on the array or on the rest of the
  message; \<open>send_loop\<close> recurses on the list of the kernel's answers and gives \<open>None\<close> when the list
  ends before the loop, so that a claim that it returns says for which answers; the loop
  of \<open>recv_buffer_from_fd\<close> runs once, since each of its branches clears its flag. \<open>empty_loop\<close> and \<open>timeout_loop\<close> carry a
  termination proof on the number of jobs. The fields of the messages are 32 and 64 bit words;
  the server's own counters and descriptors are mathematical integers, since they stay far below
  2^31. \<open>init_epoll_connect_by_index\<close> copies 20 bytes from the static buffer of \<open>inet_ntoa\<close>, whose text
  has at most 16: the bytes behind the text are the argument \<open>ae_mem\<close>, and with a buffer that ends
  before the twentieth byte the copy is an error (C4).

  \<^bold>\<open>Atomicity.\<close>
  The steps of \<open>server_step\<close> and the turns of \<open>SystemRun\<close> are whole iterations of a thread. The pool,
  and with it the interleaved server of \<open>LiveServer\<close>, is interleaved at the level of its
  synchronisation: every access to the mutex, the semaphore or \<open>thpool_keepalive\<close> is a move of its
  own. Single moves there are a call of \<open>respons_stb_info\<close>, what the accept thread does between two
  calls of \<open>accept\<close>, a run of the signal handler and the expiry of connections. The flag that ends the
  accept thread is read before \<open>accept\<close>, which returns in a later move. A call of \<open>LOG_INFO\<close> is two calls that each
  lock the log's mutex: in the theories of the log these halves are steps of their own, between which the
  other threads go on. Where an interleaving inside such a move matters (a client that connects
  between the two passes of \<open>get_all_users\<close>, a time-out deletion during a worker's turn) it is
  stated on its own (C12, C13, C22).

  \<^bold>\<open>What is not modelled.\<close>
  Of \<open>main\<close>: the calls without an effect on the program's own state (\<open>setsid\<close>, \<open>setrlimit\<close>, the
  registration of signals); the values its log lines print are fields of \<open>start_env\<close>. A signal that arrives
  while its thread is inside a call of \<open>LOG_INFO\<close> (the handler would wait for the log's own mutex) is
  not a schedule of the model, whose handler runs between two moves. Of the clients: the texts the Windows client
  prints in a Chinese encoding, and the interleaving of a client's own threads, each of which is a
  definition of its own. The header collections, the Visual C++ project files and the make files hold
  no code of their own.
\<close>

section \<open>The running server\<close>

text \<open>C1. In every state the server can reach from the one \<open>main\<close> enters its loop with, whatever
  messages the clients send, the connection table is well formed (no slot locked, every address a C string,
  each descriptor in at most one slot), the job queue is a sound linked list, and every waiting job carries a full,
  terminated message. When the clients send no login with an unterminated field, the names and passwords in the table are
  C strings as well. The steps are whole iterations of the accept thread, the epoll loop, the
  recycling, the workers and the signal handler, in any order. Assumed of the kernel (\<open>accept_env_ok\<close>,
  \<open>event_env_ok\<close>): \<open>accept\<close> returns a descriptor that is not open, adding it to epoll does not fail (C4 and C35 have
  the failing case), \<open>recv\<close> returns at most the length asked for, and \<open>malloc\<close> a block that is not in use.\<close>

theorem reachable_sound:
  assumes "reachable P s"
  shows "conn_inv (epoll_connect_client s) \<and> queue_inv (thpool s) \<and> list_all job_ok (waiting (thpool s))
    \<and> ((\<forall>e. P e \<longrightarrow> client_ok e) \<longrightarrow> names_ok (epoll_connect_client s))"
  using reachable_is_sound [OF assms] reachable_names [OF _ assms]
  by (simp add: server_sound_def server_ok_def server_inv_def)

theorem reachable_sound_witness:
  "reachable client_ok sample_server \<and> conn_inv (epoll_connect_client sample_server)
   \<and> names_ok (epoll_connect_client sample_server)"
  using reachable_sound [OF sample_server_reachable] sample_server_reachable by blast



text \<open>C3. Handling an epoll event does to the connections, the waiting jobs and the count what
  the abstract event does, in every branch: a message becomes a job and renews its connection's
  time; an error, a full buffer, an event that is not a read or an unknown socket ends the
  connection; and the socket is closed exactly when its connection ends. Names and passwords stay.\<close>

theorem handle_event_refines:
  assumes "server_inv s" "event_env_ok e s" "dump_fits e"
  shows "\<exists>s' es. handle_event index e s = Inr s' \<and> server_inv s'
    \<and> abs_of s' = abs_event e (abs_of s) \<and> io s' = io s @ es
    \<and> closed es = (if 0 \<le> ev_fd e \<and> a_conns (abs_event e (abs_of s)) (ev_fd e) = None then [ev_fd e] else [])
    \<and> logins (epoll_connect_client s') = logins (epoll_connect_client s)"
  using handle_event_correct [OF assms] unfolding event_done_def by blast

theorem handle_event_refines_witness:
  "\<exists>s'. handle_event 0 sample_event sample_server = Inr s'
     \<and> abs_of s' = abs_event sample_event (abs_of sample_server)"
  using handle_event_refines [OF sample_inv(1) sample_event_ok(1,2)] by blast

text \<open>C4. An accepted connection that passes the checks is entered in the table with the time,
  the address as text and the port, and counted; when \<open>epoll_ctl\<close> fails it is closed and not
  counted, but it stays in the table. The descriptor is one that has no slot. The table takes the address with a \<open>memcpy\<close> of 20 bytes from the
  static buffer of \<open>inet_ntoa\<close>, whose text is at most 16 bytes with its NUL: the bytes behind it are
  whatever memory holds (\<open>ae_mem\<close>), which the theorem leaves open; given just a buffer shorter than 20 bytes,
  as the library's is, the same call reads behind its end.\<close>

theorem accept_admits:
  assumes "server_inv s" "fd_unlisted e s" "\<not> accept_refused e s" "0 \<le> ae_fd e"
  shows "\<exists>s' es. accept_connection e s = Inr s' \<and> server_inv s' \<and> io s' = io s @ es
    \<and> closed es = (if ae_ctl e = -1 then [ae_fd e] else [])
    \<and> conns (epoll_connect_client s') = (conns (epoll_connect_client s))
        (ae_fd e \<mapsto> (ae_now e, inet_ntoa (ae_addr e), uint (ae_port e)))
    \<and> current_connected_total s' = current_connected_total s + (if ae_ctl e = -1 then 0 else 1)
    \<and> waiting (thpool s') = waiting (thpool s)
    \<and> (\<forall>n<IP_ADDR_LENGTH. init_epoll_connect_by_index (ae_now e)
          (get_epoll_connect_free_event_index (epoll_connect_client s)) (ae_fd e) (take n (client_ip e))
          (uint (ae_port e)) (epoll_connect_client s) = Inl OutOfBounds)"
proof -
  let ?t = "epoll_connect_client s"
  obtain s' es where s': "accept_connection e s = Inr s'" "server_inv s'" "io s' = io s @ es"
    "closed es = (if ae_ctl e = -1 then [ae_fd e] else [])"
    "abs_of s' = (abs_of s)\<lparr>a_conns := (conns ?t)(ae_fd e \<mapsto> accept_peer e),
       a_total := current_connected_total s + (if ae_ctl e = -1 then 0 else 1)\<rparr>"
    using accept_admitted_eq [OF assms] by blast
  from s'(5) have "conns (epoll_connect_client s') = (conns ?t)(ae_fd e \<mapsto> accept_peer e)"
    "current_connected_total s' = current_connected_total s + (if ae_ctl e = -1 then 0 else 1)"
    "waiting (thpool s') = waiting (thpool s)"
    by (simp_all add: abs_of_def)
  moreover have inv: "conn_inv ?t" using assms(1) by (simp add: server_inv_def)
  have "get_epoll_connect_free_event_index ?t \<noteq> -1" using assms(3) alloc_none_iff [OF inv] by (simp add: accept_refused_def)
  then obtain k where "get_epoll_connect_free_event_index ?t = int k" "k < length ?t"
    by (rule free_index_found)
  then have "\<forall>n<IP_ADDR_LENGTH. init_epoll_connect_by_index (ae_now e) (get_epoll_connect_free_event_index ?t)
      (ae_fd e) (take n (client_ip e)) (uint (ae_port e)) ?t = Inl OutOfBounds"
    using short_address_overread [OF inv] by (simp add: conn_inv_length [OF inv])
  ultimately show ?thesis using s'(1-4) by (auto simp: accept_peer_def)
qed

theorem accept_admits_witness:
  "\<exists>s'. accept_connection sample_accept sample_start = Inr s'
     \<and> conns (epoll_connect_client s') 5 = Some (100, inet_ntoa 0x0700A8C0, 5000)"
proof -
  have "server_inv sample_start" using sample_start_ok by (simp add: server_ok_def)
  from accept_admits [OF this sample_accept_ok(2) sample_not_refused] show ?thesis
    by (auto simp: sample_accept_def)
qed

text \<open>C35. When \<open>epoll_ctl\<close> fails to add a new connection, its socket is closed but its slot is not freed. The kernel
  may then give the same descriptor to the next connection, which gets a slot of its own: two slots
  have the descriptor, each with the peer of its own connection, and every look-up by the descriptor
  finds the one that was left behind. So an address asked for by descriptor, the renewal of the time and the
  login of the new connection go to the slot of the old one.\<close>

theorem failed_add_listed_twice:
  assumes "server_inv s" "fd_unlisted e s" "\<not> accept_refused e s" "0 \<le> ae_fd e" "ae_ctl e = -1"
    and "ae_fd e' = ae_fd e" "0 \<le> ae_getfl e'" "0 \<le> ae_setfl e'" "ae_rcvbuf e' = 0"
    and "Suc (count_users (epoll_connect_client s)) < MAX_EVENTS"
  shows "\<exists>s1 s2 i j. accept_connection e s = Inr s1 \<and> accept_connection e' s1 = Inr s2
    \<and> i \<noteq> j \<and> i < MAX_EVENTS \<and> j < MAX_EVENTS
    \<and> connect_fd (epoll_connect_client s2 ! i) = ae_fd e \<and> connect_fd (epoll_connect_client s2 ! j) = ae_fd e
    \<and> peer_of (epoll_connect_client s2 ! i) = accept_peer e \<and> peer_of (epoll_connect_client s2 ! j) = accept_peer e'
    \<and> get_matched_event_index_by_fd (ae_fd e) (epoll_connect_client s2) = int i"
  by (rule failed_add_keeps_slot [OF assms])

theorem failed_add_listed_twice_witness:
  "\<exists>s1 s2 i j. accept_connection (sample_accept\<lparr>ae_ctl := -1\<rparr>) sample_start = Inr s1
     \<and> accept_connection (sample_accept\<lparr>ae_port := 6000\<rparr>) s1 = Inr s2
     \<and> i \<noteq> j \<and> get_matched_event_index_by_fd 5 (epoll_connect_client s2) = int i
     \<and> peer_of (epoll_connect_client s2 ! i) = (100, inet_ntoa 0x0700A8C0, 5000)
     \<and> peer_of (epoll_connect_client s2 ! j) = (100, inet_ntoa 0x0700A8C0, 6000)"
proof -
  let ?e = "sample_accept\<lparr>ae_ctl := -1\<rparr>" and ?e' = "sample_accept\<lparr>ae_port := 6000\<rparr>"
  have inv: "server_inv sample_start" using sample_start_ok by (simp add: server_ok_def)
  have ok: "fd_unlisted ?e sample_start" "\<not> accept_refused ?e sample_start"
    using sample_accept_ok(2) sample_not_refused by (simp_all add: fd_unlisted_def accept_refused_def)
  have fd: "0 \<le> ae_fd ?e" "ae_ctl ?e = -1" "ae_fd ?e' = ae_fd ?e" "0 \<le> ae_getfl ?e'" "0 \<le> ae_setfl ?e'" "ae_rcvbuf ?e' = 0"
    "Suc (count_users (epoll_connect_client sample_start)) < MAX_EVENTS" "ae_fd ?e = 5"
    by (simp_all add: sample_accept_def count_users_init MAX_EVENTS_def)
  have peers: "accept_peer ?e = (100, inet_ntoa 0x0700A8C0, 5000)" "accept_peer ?e' = (100, inet_ntoa 0x0700A8C0, 6000)"
    by (simp_all add: accept_peer_def sample_accept_def)
  show ?thesis using failed_add_listed_twice [OF inv ok fd(1-7)] unfolding peers fd(8) by blast
qed

text \<open>C5. The whole server, over any schedule of its threads' turns whose answers keep the contracts
  below in the state each turn finds (\<open>turns_ok\<close>): every turn returns, the state stays
  reachable, and the abstract server takes the same run. Its turns are: a connection admitted or
  not, a message made a job and its connection's time renewed, a connection ended, the old
  connections and jobs dropped when the recycling is due, the oldest job served, and no further
  turn of the accept thread or the epoll loop once a SIGTERM or SIGKILL has been caught. The contracts: those of C2,
  with a job served only while its login's connection is in the table, so that messages of 64 to 1023 bytes,
  logins with unterminated fields, logins served too late, a failing \<open>malloc\<close> or EPOLL_CTL_ADD and a write that would block
  are not in these runs (C26, C23, C30 and C35 show what they do).\<close>

theorem server_run_refines:
  assumes "reachable client_ok s" "turns_ok ms (t, s)"
  shows "\<exists>t' s'. run_server ms (t, s) = Inr (t', s') \<and> reachable client_ok s'
    \<and> abs_state_of (t', s') = fold abs_turn ms (abs_state_of (t, s))"
  using whole.run_refines [of "(t, s)" ms] assms by (simp add: run_server_def turns_ok_def)

theorem server_run_refines_witness:
  "\<exists>t' s'. run_server sample_turns (100, sample_start) = Inr (t', s') \<and> reachable client_ok s'
     \<and> exit_flag s' \<and> waiting (thpool s') = []
     \<and> conns (epoll_connect_client s') 5 = Some (110, inet_ntoa 0x0700A8C0, 5000)"
proof -
  obtain t' s' where r: "run_server sample_turns (100, sample_start) = Inr (t', s')" "reachable client_ok s'"
    "abs_state_of (t', s') = fold abs_turn sample_turns (abs_state_of (100, sample_start))"
    using server_run_refines [OF sample_start_reachable sample_turns_ok] by blast
  from r(3) have "exit_flag s'" "waiting (thpool s') = []"
    "conns (epoll_connect_client s') 5 = Some (110, inet_ntoa 0x0700A8C0, 5000)"
    unfolding sample_turns_abs by (simp_all add: abs_state_of_def abs_of_def)
  with r(1,2) show ?thesis by blast
qed

text \<open>An accepted connection is refused when the table is full or one of the socket options
  cannot be set: it is closed, and table, count and queue stay as they are.\<close>

theorem accept_refuses:
  assumes "conn_inv (epoll_connect_client s)" "accept_refused e s"
  shows "\<exists>es. accept_connection e s = Inr (emit es s) \<and> closed es = [ae_fd e]"
  by (rule accept_refused_eq [OF assms])

theorem accept_refuses_witness:
  "\<exists>es. accept_connection (sample_accept\<lparr>ae_getfl := -1\<rparr>) sample_start = Inr (emit es sample_start)
     \<and> closed es = [5]"
  using accept_refuses [of sample_start "sample_accept\<lparr>ae_getfl := -1\<rparr>"] conn_inv_init
  by (simp add: accept_refused_def sample_accept_def)

text \<open>C25. Recycling removes exactly the connections whose time is more than 60 seconds back and
  closes exactly their sockets in table order; it drops the expired jobs from the front of the
  queue; and it takes both numbers off the connection count.\<close>

theorem recycle_removes_stale:
  assumes "server_inv s"
  shows "\<exists>s' es. recycle_timeout_confd now tm del s = Inr s' \<and> server_inv s'
    \<and> conns (epoll_connect_client s') = keep_fresh now (conns (epoll_connect_client s))
    \<and> io s' = io s @ es \<and> closed es = stale_fds now (epoll_connect_client s)
    \<and> waiting (thpool s') = dropWhile (expired tm SERVER_TIMEOUT) (waiting (thpool s))
    \<and> current_connected_total s' = current_connected_total s
        - int (length (stale_fds now (epoll_connect_client s)))
        - int (length (takeWhile (expired tm SERVER_TIMEOUT) (waiting (thpool s))))"
  using recycle_correct [OF assms] by blast

theorem recycle_removes_stale_witness:
  "\<exists>s'. recycle_timeout_confd 161 161 (\<lambda>_. None) sample_server = Inr s'
     \<and> conns (epoll_connect_client s') 5 = None"
proof -
  have "keep_fresh 161 (conns (epoll_connect_client sample_server)) 5 = None"
    by (simp add: keep_fresh_def sample_server_facts(2) sample_peer SERVER_TIMEOUT_def)
  then show ?thesis
    using recycle_removes_stale [OF sample_inv(1), of 161 161 "\<lambda>_. None"] by metis
qed

text \<open>A worker's turn serves the oldest job: the job leaves the queue and is freed, the
  connections and the count stay, no socket is closed, and no undefined behaviour occurs,
  whatever the kernel answers to the reply's writes (short of \<open>EAGAIN\<close>).\<close>

theorem worker_serves_oldest:
  assumes "server_inv s" "names_ok (epoll_connect_client s)" "waiting (thpool s) = p # ps"
    and "servable (job_msg p) (job_sock p) (epoll_connect_client s)" "malloc_works mem"
    and "answers (reply_len (msg_type (job_msg p)) (epoll_connect_client s)) ws"
  shows "\<exists>s' es. worker_step ws mem s = Inr s' \<and> server_inv s' \<and> names_ok (epoll_connect_client s')
    \<and> waiting (thpool s') = ps \<and> conns (epoll_connect_client s') = conns (epoll_connect_client s)
    \<and> current_connected_total s' = current_connected_total s \<and> io s' = io s @ es \<and> closed es = []"
proof -
  obtain s' es where "worker_step ws mem s = Inr s'" "server_inv s'" "names_ok (epoll_connect_client s')"
    "abs_of s' = (abs_of s)\<lparr>a_jobs := ps\<rparr>" "io s' = io s @ es" "closed es = []"
    using worker_serves [OF assms] by blast
  moreover from this(4) have "waiting (thpool s') = ps"
    "conns (epoll_connect_client s') = conns (epoll_connect_client s)"
    "current_connected_total s' = current_connected_total s"
    by (simp_all add: abs_of_def)
  ultimately show ?thesis by blast
qed

theorem worker_serves_oldest_witness:
  "\<exists>s'. worker_step [] full_malloc sample_busy = Inr s' \<and> waiting (thpool s') = []
     \<and> conns (epoll_connect_client s') 5 = Some (110, inet_ntoa 0x0700A8C0, 5000)"
proof -
  have "servable (job_msg sample_job) (job_sock sample_job) (epoll_connect_client sample_busy)"
    by (simp add: servable_def sample_job_facts sample_login_facts sample_busy_facts(5))
  moreover have "answers (reply_len (msg_type (job_msg sample_job)) (epoll_connect_client sample_busy)) []"
    by (simp add: sample_job_facts sample_login_facts reply_len_def cmd_defs)
  ultimately show ?thesis
    using worker_serves_oldest [OF sample_busy_facts(2,3,4) _ full_malloc_works] sample_busy_facts(5)
    by metis
qed

text \<open>C30. A login that is served after its connection has left the table dereferences NULL: the
  server's process would be killed.\<close>

theorem late_login_crashes:
  assumes "server_inv s" "waiting (thpool s) = p # ps" "msg_type (job_msg p) = CMD_SENDUI"
    and "job_sock p \<noteq> -1" "conns (epoll_connect_client s) (job_sock p) = None"
  shows "worker_step ws mem s = Inl NullDeref"
  by (rule worker_late_login [OF assms])

theorem late_login_crashes_witness: "worker_step [] full_malloc sample_gone = Inl NullDeref"
  by (rule late_login_crashes [OF sample_gone_facts(1,2)])
    (simp_all add: sample_job_facts sample_login_facts sample_gone_facts(3))

section \<open>The thread pool\<close>

text \<open>C9. As long as no time-out deletion is made, at most one thread is inside a critical
  section at any time, no move runs into undefined behaviour, and a job is held by one worker
  only, is not in the queue at the same time and is allocated.\<close>

theorem pool_exclusion:
  assumes "thpool_init n m1 m2 m3 h = Some p" "pool_reaches p p'"
  shows "(\<forall>i<length (workers p'). \<forall>j<length (workers p').
           in_crit (workers p' ! i) \<and> in_crit (workers p' ! j) \<longrightarrow> i = j)
    \<and> (\<forall>i<length (workers p'). in_crit (workers p' ! i) \<longrightarrow> \<not> main_crit (main p'))
    \<and> (\<forall>i<length (workers p'). \<forall>x. holds (workers p' ! i) = Some x \<longrightarrow>
         (\<exists>a. x = Some a \<and> job_heap (jobqueue p') a \<noteq> None \<and> a \<notin> set (addrs (jobqueue p'))
            \<and> (\<forall>j<length (workers p'). holds (workers p' ! j) = Some (Some a) \<longrightarrow> j = i)))
    \<and> (\<forall>c r. choice_ok c p' \<and> pool_move c p' = Some r \<longrightarrow> (\<exists>p''. r = Inr p''))"
proof -
  have inv: "pool_inv p'" using reaches_inv [OF assms(2)] pool_init_inv(1) [OF assms(1)] by blast
  then have m: "mutex_inv p'" and o: "owner_inv p'" by (simp_all add: pool_inv_def)
  have 1: "\<forall>i<length (workers p'). in_crit (workers p' ! i) \<longrightarrow> pool_mutex p' = Some (Worker i)"
    and 2: "main_crit (main p') \<longrightarrow> pool_mutex p' = Some Main"
    using m by (simp_all add: mutex_inv_def)
  have "i = j" if "i < length (workers p')" "j < length (workers p')" "in_crit (workers p' ! i)"
    "in_crit (workers p' ! j)" for i j
    using 1 that by (metis option.inject thread.inject)
  moreover have "\<not> main_crit (main p')" if "i < length (workers p')" "in_crit (workers p' ! i)" for i
    using 1 2 that by (metis option.inject thread.distinct(1))
  ultimately show ?thesis using owner_invD [OF o] pool_move_inv [OF inv] by blast
qed

theorem pool_exclusion_witness:
  "\<exists>p :: unit pool. two_workers = Some p \<and> pool_reaches p p
     \<and> (\<forall>i<length (workers p). in_crit (workers p ! i) \<longrightarrow> \<not> main_crit (main p))"
proof -
  obtain p :: "unit pool" where p: "two_workers = Some p" using two_workers_eq by blast
  have "pool_reaches p p" by (rule pool_reaches.stay)
  then show ?thesis
    using pool_exclusion [of 2 True True True "\<lambda>_. None" p p] p by (auto simp: two_workers_def)
qed

text \<open>A running pool gets its work done: enough rounds in which each worker has a turn,
  in particular as many as the measure of the state, leave the queue empty, all workers waiting
  for the semaphore, and each job that was called before, held or waiting called exactly once.\<close>

theorem pool_drains:
  assumes "pool_inv p" "main p = Idle" "0 < length (workers p)" "pool_measure p \<le> n"
  shows "\<exists>p'. run_pool (concat (replicate n (worker_round (length (workers p))))) p = Inr p'
    \<and> waiting (jobqueue p') = [] \<and> mset (calls p') = account p \<and> (\<forall>w\<in>set (workers p'). w = Wait)"
  using worker_rounds [OF assms] by blast

theorem pool_drains_witness:
  "\<exists>p p' :: unit pool. two_workers = Some p
     \<and> run_pool (concat (replicate (pool_measure p) (worker_round (length (workers p))))) p = Inr p'
     \<and> (\<forall>w\<in>set (workers p'). w = Wait)"
proof -
  obtain p :: "unit pool" where p: "two_workers = Some p" using two_workers_eq by blast
  then have "pool_inv p" "main p = Idle" "0 < length (workers p)"
    using pool_init_inv [of 2 True True True "\<lambda>_. None" p] by (simp_all add: two_workers_def)
  then show ?thesis using pool_drains [OF _ _ _ order_refl] p by metis
qed

text \<open>C11. \<open>thpool_destroy\<close> returns: from any state in which it has been called and that satisfies \<open>pool_inv\<close>, every
  schedule made of sufficiently many fair rounds (each round gives a turn to every worker and to the
  destroying thread in any order and any number of times, \<open>fair_pool_round\<close>) ends with every worker returned and the pool destroyed; no thread waits
  for the semaphore or the mutex forever. \<open>pool_inv\<close> is what every run without a time-out deletion keeps (C9); after a
  deletion of an expired job it may fail, and the pool hang (C12).\<close>

theorem destroy_returns:
  assumes "pool_inv p" "closing (main p)"
    and "\<forall>r\<in>set rounds. fair_pool_round (length (workers p)) r" "pool_measure p < length rounds"
  shows "\<exists>p'. run_pool (concat rounds) p = Inr p' \<and> main p' = Destroyed \<and> (\<forall>w\<in>set (workers p'). w = Done)"
  by (rule closing_rounds [OF assms])

theorem destroy_returns_witness:
  "\<exists>p p1 p' :: unit pool. two_workers = Some p \<and> main_move Destroy p = Some (Inr p1)
     \<and> run_pool (concat (replicate (Suc (pool_measure p1)) (all_round (length (workers p1))))) p1 = Inr p'
     \<and> main p' = Destroyed"
proof -
  obtain p :: "unit pool" where p: "two_workers = Some p" using two_workers_eq by blast
  then have inv: "pool_inv p" "main p = Idle"
    using pool_init_inv [of 2 True True True "\<lambda>_. None" p] by (simp_all add: two_workers_def)
  obtain r where r: "main_move Destroy p = Some r" using inv(2) by (simp add: main_move_def Let_def)
  have ok: "command_ok Destroy p" by (simp add: command_ok_def)
  obtain p1 where p1: "r = Inr p1" "pool_inv p1" using main_move_inv [OF inv(1) ok r] by blast
  have c: "closing (main p1)" using r p1(1) inv(2) by (auto simp: main_move_def Let_def)
  let ?rs = "replicate (Suc (pool_measure p1)) (all_round (length (workers p1)) :: unit choice list)"
  have "\<forall>r\<in>set ?rs. fair_pool_round (length (workers p1)) r" "pool_measure p1 < length ?rs"
    using fair_all_round by (simp_all del: replicate_Suc)
  from destroy_returns [OF p1(2) c this] show ?thesis using p r p1(1) by metis
qed

text \<open>C12. The deletion of an expired job leaves its semaphore token behind: the worker that gets
  it finds the queue empty and returns while it owns the mutex. From then on the mutex is owned
  by a thread that is gone, whatever happens next: no work is added and no worker passes it.\<close>

theorem expiry_locks_pool:
  assumes "two_workers = Some p" "length buf = BUFFER_SIZE" "now - tm > time_out"
  shows "\<exists>p'. run_pool (expiry_schedule f tm buf sock now time_out) p = Inr p' \<and> dead_mutex p'
    \<and> (\<forall>cs p''. run_pool cs p' = Inr p'' \<longrightarrow> dead_mutex p''
         \<and> (\<forall>n cmd. main p'' = AddLock n \<longrightarrow> pool_move (By_main cmd) p'' = None)
         \<and> (\<forall>i<length (workers p''). workers p'' ! i = Lock \<longrightarrow> pool_move (By_worker i) p'' = None))"
  using expiry_run [OF assms(2,3,1)] dead_mutex_run dead_mutex_blocks by metis

theorem expiry_locks_pool_witness:
  "\<exists>p p' :: unit pool. two_workers = Some p
     \<and> run_pool (expiry_schedule () 0 (replicate 1024 NUL) 5 100 60) p = Inr p' \<and> dead_mutex p'"
proof -
  obtain p :: "unit pool" where p: "two_workers = Some p" using two_workers_eq by blast
  have "length (replicate 1024 NUL) = BUFFER_SIZE" "(100::int) - 0 > 60" by (simp_all add: BUFFER_SIZE_def)
  from expiry_locks_pool [OF p this] show ?thesis using p by blast
qed

text \<open>C13. The deletion reads the queue's tail before it locks the mutex. In any sound pool with two or more waiting
  jobs, a worker at its \<open>sem_wait\<close>, a token and the mutex free: when the deletion has read the tail and that worker then takes,
  runs and frees the oldest job, the deletion reads freed memory, whatever the job and the
  times are.\<close>

theorem deletion_races:
  assumes "pool_inv p" "main p = Idle" "pool_mutex p = None" "i < length (workers p)" "workers p ! i = Wait"
    and "queueSem (jobqueue p) \<noteq> 0" "2 \<le> length (waiting (jobqueue p))"
  shows "run_pool (By_main (Delete_timeout now time_out) # replicate 6 (By_worker i) @ replicate 2 (By_main Destroy)) p
    = Inl UseAfterFree"
proof -
  obtain x y ys where "waiting (jobqueue p) = x # y # ys"
    using assms(7) by (auto simp: numeral_2_eq_2 Suc_le_length_iff)
  from race_run [OF assms(1-6) this] show ?thesis by (simp add: race_schedule_def)
qed

theorem deletion_races_witness:
  "\<exists>p :: unit pool. two_workers = Some p
     \<and> run_pool (race_start () 0 (replicate 1024 NUL) 5
          @ By_main (Delete_timeout 100 60) # replicate 6 (By_worker 0) @ replicate 2 (By_main Destroy)) p = Inl UseAfterFree"
proof -
  obtain p :: "unit pool" where p: "two_workers = Some p" using two_workers_eq by blast
  obtain p' where p': "run_pool (race_start () 0 (replicate 1024 NUL) 5) p = Inr p'"
    and ok: "pool_inv p'" "main p' = Idle" "pool_mutex p' = None" "0 < length (workers p')" "workers p' ! 0 = Wait"
      "queueSem (jobqueue p') \<noteq> 0" "2 \<le> length (waiting (jobqueue p'))"
    using race_state [OF p, of "replicate 1024 NUL"] by (auto simp: BUFFER_SIZE_def)
  show ?thesis using p deletion_races [OF ok, of 100 60] by (auto simp: run_pool_append p')
qed

section \<open>The job queue\<close>

text \<open>C14. The linked queue behaves as a list over any sequence of submissions, removals by workers and
  deletions of expired jobs, as long as \<open>malloc\<close> returns blocks that are not in use (\<open>mallocs_ok\<close>): no operation fails,
  the jobs served are those the list operations give (a submission appends, a removal takes the first, a
  deletion drops the expired ones at the front), and the jobs that wait are the rest. Without a
  deletion it is first in, first out: the jobs served, followed by those still waiting, are the jobs that waited before, followed by the
  jobs submitted, each with the function, message, socket and time it was submitted with.\<close>

theorem queue_is_fifo:
  assumes "queue_inv q" "list_all payload_ok (submitted ops)"
    and "mallocs_ok fresh_addr submit_job serve_job delete_timeout_job ops q"
  shows "\<exists>ys q'. run_queue fresh_addr submit_job serve_job delete_timeout_job ops q = Inr (ys, q') \<and> queue_inv q'
    \<and> list_queue expired ops (waiting q) = (ys, waiting q')
    \<and> (no_prune ops \<longrightarrow> ys @ waiting q' = waiting q @ submitted ops)"
  using jq.run_lists [OF assms] list_queue_fifo by blast

theorem queue_is_fifo_witness:
  "\<exists>ys q'. run_queue fresh_addr submit_job serve_job delete_timeout_job [Submit 1 sample_job, Serve]
       (thpool sample_server) = Inr (ys, q') \<and> ys @ waiting q' = [sample_job]"
proof -
  let ?q = "thpool sample_server" and ?ops = "[Submit 1 sample_job, Serve]"
  have inv: "queue_inv ?q" using sample_inv(1) by (simp add: server_inv_def)
  have ok: "payload_ok sample_job" using sample_busy_facts(2,4) by (simp add: server_inv_def job_ok_def)
  have fr: "fresh_addr 1 ?q" by (simp add: fresh_addr_def sample_heap)
  have "mallocs_ok fresh_addr submit_job serve_job delete_timeout_job ?ops ?q"
    using fr by (simp split: sum.split)
  then show ?thesis using queue_is_fifo [OF inv, of ?ops] ok by (auto simp: sample_server_facts(4))
qed

text \<open>\<open>delete_timeout_job\<close> frees exactly the jobs at the front of the queue that have waited
  longer than the time-out, returns their number, and leaves the semaphore as it was.\<close>

theorem delete_timeout_removes_expired:
  assumes "queue_inv q"
  shows "\<exists>q'. delete_timeout_job tm time_out q = Inr (length (takeWhile (expired tm time_out) (waiting q)), q')
    \<and> queue_inv q' \<and> waiting q' = dropWhile (expired tm time_out) (waiting q) \<and> queueSem q' = queueSem q"
  by (rule delete_timeout_correct [OF assms])

theorem delete_timeout_removes_expired_witness:
  "\<exists>q'. delete_timeout_job 171 60 (thpool sample_busy) = Inr (1, q') \<and> waiting q' = []"
proof -
  have "queue_inv (thpool sample_busy)" using sample_busy_facts(2) by (simp add: server_inv_def)
  moreover have "expired 171 60 sample_job"
    by (simp add: expired_def sample_job_def job_of_def sample_event_def)
  ultimately show ?thesis
    using delete_timeout_removes_expired [of "thpool sample_busy" 171 60] by (auto simp: sample_busy_facts(4))
qed

section \<open>The connection table\<close>

text \<open>C16. The table implements a map from descriptors to peers, over any sequence of insertions of descriptors
  that are not in the map (in the slot the search for a free one finds, given up when there is none; the
  address given as at least 20 bytes that hold a C string), removals and renewals of the time (\<open>table_ok\<close>): each operation
  returns and does to the connections what it does to the map; afterwards exactly the sockets
  of the map are found, each with its address and port. An insertion of a descriptor that is still in
  the table is the case of C35.\<close>

theorem table_implements_map:
  assumes "conn_inv t" "steps_ok table_step table_ok ms t"
  shows "\<exists>t'. run_steps table_step ms t = Inr t' \<and> conn_inv t' \<and> conns t' = fold abs_table ms (conns t)
    \<and> (\<forall>fd. fd \<noteq> -1 \<longrightarrow> (get_matched_event_index_by_fd fd t' = -1 \<longleftrightarrow> fold abs_table ms (conns t) fd = None))
    \<and> (\<forall>fd tm ip port. fold abs_table ms (conns t) fd = Some (tm, ip, port) \<longrightarrow>
         get_client_addr_by_index (get_matched_event_index_by_fd fd t') t' = Inr ip
         \<and> get_client_port_by_index (get_matched_event_index_by_fd fd t') t' = port)"
proof -
  obtain t' where t': "run_steps table_step ms t = Inr t'" "conn_inv t'" "conns t' = fold abs_table ms (conns t)"
    using tab.ops.run_refines [OF assms(1)] assms(2) unfolding table_step_def table_ok_def abs_table_def by blast
  then show ?thesis using reg.find_iff [OF t'(2)] client_addr_ok [OF t'(2)] by metis
qed

theorem table_implements_map_witness:
  "\<exists>t'. run_steps table_step [Insert 5 (100, ''10.0.0.1'' @ replicate 12 NUL, 5000), Renew 5 120] init_epoll_connect
       = Inr t' \<and> conns t' 5 = Some (120, ''10.0.0.1'', 5000)
     \<and> get_client_addr_by_index (get_matched_event_index_by_fd 5 t') t' = Inr ''10.0.0.1''"
proof -
  let ?a = "(100, ''10.0.0.1'' @ replicate 12 NUL, 5000)" and ?ms = "[Insert 5 (100, ''10.0.0.1'' @ replicate 12 NUL, 5000), Renew 5 120]"
  have a: "arg_ok ?a" "arg_peer ?a = (100, ''10.0.0.1'', 5000)"
    by (simp_all add: arg_ok_def arg_peer_def IP_ADDR_LENGTH_def eval_nat_numeral cstr_Cons NUL_def)
  have c: "conns init_epoll_connect = Map.empty" by (rule ext) (rule conns_init)
  have "steps_ok table_step table_ok ?ms init_epoll_connect"
    using a(1) by (simp add: table_ok_def reg_ok_def c split: sum.split)
  moreover have "fold abs_table ?ms Map.empty = [5 \<mapsto> (120, ''10.0.0.1'', 5000)]"
    using a(2) by (simp add: abs_table_def abs_reg_def MAX_EVENTS_def touch_def)
  ultimately show ?thesis using table_implements_map [OF conn_inv_init, of ?ms] unfolding c by fastforce
qed

text \<open>A new connection is found
  afterwards and every other one as before; when it is freed through its descriptor the map is
  what it was; and the table refuses only when all its slots are in use.\<close>

theorem table_is_a_map:
  assumes "conn_inv t" "count_users t \<noteq> MAX_EVENTS" "arg_ok a" "fd \<noteq> -1" "conns t fd = None"
  shows "\<exists>t' t''. ins_conn (get_epoll_connect_free_event_index t) fd a t = Inr t' \<and> conn_inv t'
    \<and> conns t' = (conns t)(fd \<mapsto> arg_peer a)
    \<and> (\<forall>d. d \<noteq> -1 \<longrightarrow> (get_matched_event_index_by_fd d t' = -1 \<longleftrightarrow> d \<noteq> fd \<and> get_matched_event_index_by_fd d t = -1))
    \<and> free_event_by_index (get_matched_event_index_by_fd fd t') t' = Inr t'' \<and> conn_inv t'' \<and> conns t'' = conns t"
proof -
  have k: "get_epoll_connect_free_event_index t \<noteq> -1"
    using assms(1,2) by (simp add: free_index_none_iff conn_inv_length)
  obtain t' where t': "ins_conn (get_epoll_connect_free_event_index t) fd a t = Inr t'" "conn_inv t'"
    "conns t' = (conns t)(fd \<mapsto> arg_peer a)"
    using reg.ins_free [OF assms(1) k assms(3-5)] by blast
  moreover obtain t'' where "free_event_by_index (get_matched_event_index_by_fd fd t') t' = Inr t''"
    "conn_inv t''" "conns t'' = conns t"
    using reg.ins_then_del [OF assms(1) k assms(3-5)] t'(1) by auto
  moreover have "\<forall>d. d \<noteq> -1 \<longrightarrow> (get_matched_event_index_by_fd d t' = -1
      \<longleftrightarrow> d \<noteq> fd \<and> get_matched_event_index_by_fd d t = -1)"
    using reg.ins_then_find [OF assms(1) k assms(3-5) t'(1)] by blast
  ultimately show ?thesis by blast
qed

theorem table_is_a_map_witness:
  "\<exists>t'. ins_conn (get_epoll_connect_free_event_index init_epoll_connect) 5
          (100, ''10.0.0.1'' @ replicate 12 NUL, 5000) init_epoll_connect = Inr t'
     \<and> conns t' 5 = Some (100, ''10.0.0.1'', 5000)"
proof -
  let ?a = "(100, ''10.0.0.1'' @ replicate 12 NUL, 5000)"
  have "arg_ok ?a" "arg_peer ?a = (100, ''10.0.0.1'', 5000)"
    by (simp_all add: arg_ok_def arg_peer_def IP_ADDR_LENGTH_def eval_nat_numeral cstr_Cons NUL_def)
  moreover have "count_users init_epoll_connect \<noteq> MAX_EVENTS" by (simp add: count_users_init MAX_EVENTS_def)
  ultimately show ?thesis
    using table_is_a_map [OF conn_inv_init, of ?a 5] conns_init by fastforce
qed

section \<open>The message handlers\<close>

text \<open>C17. The handshake is answered with 264 bytes: a header of type \<open>CMD_HANDSHAKE_ACK\<close> and
  length 264, and the text with the client's own address and port, of which 255 characters are
  kept.\<close>

theorem handshake_answered:
  assumes "conn_inv (epoll_connect_client s)" "msg_ok recv" "accepts 264 ws"
    and "conns (epoll_connect_client s) sock = Some (tm, ip, port)"
  shows "\<exists>es. handle_handshake ws sock recv s = Inr (emit es s) \<and> closed es = []
    \<and> length (sent_to sock es) = 264
    \<and> get_header (sent_to sock es) = \<lparr>iMessageType = CMD_HANDSHAKE_ACK, iMessageLen = 264\<rparr>
    \<and> str_at 8 (sent_to sock es) = Inr (take 255 (handshake_info ip port))"
  by (rule handle_handshake_ok [OF assms])

theorem handshake_answered_witness:
  "\<exists>es. handle_handshake [Wrote 100, Wrote 164] 5 (in_buffer sample_login) sample_busy = Inr (emit es sample_busy)
     \<and> str_at 8 (sent_to 5 es) = Inr (take 255 (handshake_info (inet_ntoa 0x0700A8C0) 5000))"
proof -
  have "conn_inv (epoll_connect_client sample_busy)" using sample_busy_facts(2) by (simp add: server_inv_def)
  moreover have "accepts 264 [Wrote 100, Wrote 164]" by (simp add: eval_nat_numeral)
  ultimately show ?thesis
    using handshake_answered [OF _ sample_login_facts(2) _ sample_busy_facts(5)] by blast
qed

text \<open>C18. A login stores the id and the password of the message in the slot of its connection:
  the other slots, the connections and their times are unchanged, the connection is then found
  under the id unless an earlier slot has it, and the table's names stay C strings exactly when
  both fields are terminated within their 10 and 7 bytes.\<close>

theorem login_recorded:
  assumes "conn_inv (epoll_connect_client s)" "names_ok (epoll_connect_client s)" "msg_ok recv"
    and "get_matched_event_index_by_fd sock (epoll_connect_client s) = int k"
    and "\<forall>j<k. user_key (UsrhashId (epoll_connect_client s ! j)) \<noteq> user_key (msg_userId recv)"
  shows "\<exists>es t'. handle_sendui sock recv s = Inr (emit es (s\<lparr>epoll_connect_client := t'\<rparr>)) \<and> closed es = []
    \<and> t' = (epoll_connect_client s)[k := logged_in recv (epoll_connect_client s ! k)]
    \<and> conn_inv t' \<and> conns t' = conns (epoll_connect_client s)
    \<and> get_matched_event_index_by_UsrHashId (msg_userId recv) t' = int k
    \<and> (names_ok t' \<longleftrightarrow> fields_ok recv)"
proof -
  let ?t = "epoll_connect_client s"
  let ?t' = "?t[k := logged_in recv (?t ! k)]"
  have k: "k < length ?t"
    using assms(4) unfolding get_matched_event_index_by_fd_def by (simp add: scan_int_iff)
  have "get_matched_event_index_by_UsrHashId (msg_userId recv) ?t' = int k"
    using k assms(5) by (simp add: matched_user_iff user_key_logged_in)
  then show ?thesis
    using handle_sendui_ok [OF assms(1,3,4)] logged_in_conns [OF assms(1) k] logged_in_names [OF assms(2) k]
    by (intro exI [of _ "[Print (''[SENDUI] '' @ cstr (drop 8 recv) @ ''  login'' @ nl)]"] exI [of _ ?t'])
      (simp add: fields_ok_def)
qed

theorem login_recorded_witness:
  "\<exists>es t'. handle_sendui 5 (in_buffer sample_login) sample_server
       = Inr (emit es (sample_server\<lparr>epoll_connect_client := t'\<rparr>)) \<and> names_ok t'
     \<and> get_matched_event_index_by_UsrHashId ''alice'' t' = 0"
proof -
  note sl = sample_slot
  have "\<forall>j<0. user_key (UsrhashId (epoll_connect_client sample_server ! j)) \<noteq> user_key (msg_userId (in_buffer sample_login))"
    by simp
  moreover have "get_matched_event_index_by_UsrHashId (msg_userId (in_buffer sample_login)) t'
      = get_matched_event_index_by_UsrHashId ''alice'' t'" for t'
    by (rule matched_user_cong) (simp add: user_key_def sample_login_facts(5) cstr_Cons NUL_def)
  ultimately show ?thesis
    using login_recorded [OF sample_inv(2,3) sample_login_facts(2), of 5 0] sl sample_login_facts(4) by auto
qed

text \<open>C19. A request for a peer's address that names a known user is answered with flag 1 and
  the address and port of the first slot with that id; when the address is the text of an IPv4
  address, the binary field is that very address. The password of the request plays no part.\<close>

theorem getremote_finds_peer:
  assumes "conn_inv (epoll_connect_client s)" "names_ok (epoll_connect_client s)" "msg_ok recv" "accepts 276 ws"
    and "get_matched_event_index_by_UsrHashId (msg_userId recv) (epoll_connect_client s) = int k"
    and "peer_of (epoll_connect_client s ! k) = (tm, inet_ntoa addr, port)"
  shows "\<exists>es. handle_getremote ws sock recv s = Inr (emit es s) \<and> closed es = []
    \<and> length (sent_to sock es) = 276
    \<and> get_header (sent_to sock es) = \<lparr>iMessageType = CMD_GETREMOTE_ACK, iMessageLen = 276\<rparr>
    \<and> ack_flag (get_remote_ack (sent_to sock es)) = 1
    \<and> ack_ip (get_remote_ack (sent_to sock es)) = addr
    \<and> ack_port (get_remote_ack (sent_to sock es)) = word_of_int port"
  using handle_getremote_found [OF assms, of sock] by (auto simp: remote_reads_def inet_addr_ntoa)

theorem getremote_finds_peer_witness:
  "\<exists>es. handle_getremote [Wrote 276] 5 (replicate 1024 NUL) sample_server = Inr (emit es sample_server)
     \<and> ack_ip (get_remote_ack (sent_to 5 es)) = 0x0700A8C0"
proof -
  have m: "msg_ok (replicate 1024 NUL)" by (simp add: msg_ok_def BUFFER_SIZE_def)
  have a: "accepts 276 [Wrote 276]" by (simp add: eval_nat_numeral)
  have "get_matched_event_index_by_UsrHashId (msg_userId (replicate 1024 NUL)) (epoll_connect_client sample_server) = int 0"
    unfolding matched_user_iff using sample_slot by (simp add: user_key_def msg_userId_def layout_defs)
  from getremote_finds_peer [OF sample_inv(2,3) m a this sample_slot(4)] show ?thesis by blast
qed

text \<open>A request that names no user of the table is answered with flag 0, a zero address and
  port, and the text that the peer was not found.\<close>

theorem getremote_reports_absent:
  assumes "conn_inv (epoll_connect_client s)" "names_ok (epoll_connect_client s)" "msg_ok recv" "accepts 276 ws"
    and "\<forall>c\<in>set (epoll_connect_client s). user_key (UsrhashId c) \<noteq> user_key (msg_userId recv)"
  shows "\<exists>es. handle_getremote ws sock recv s = Inr (emit es s) \<and> closed es = []
    \<and> length (sent_to sock es) = 276
    \<and> get_remote_ack (sent_to sock es)
        = \<lparr>ack_flag = 0, ack_ip = 0, ack_port = 0, ack_info = take 255 not_found_info\<rparr>"
  using handle_getremote_absent [OF assms(1-4)] assms(5) by (auto simp: remote_reads_def matched_user_none)

theorem getremote_reports_absent_witness:
  "\<exists>es. handle_getremote [Wrote 276] 5 (in_buffer sample_login) sample_start = Inr (emit es sample_start)
     \<and> ack_flag (get_remote_ack (sent_to 5 es)) = 0"
proof -
  have a: "accepts 276 [Wrote 276]" by (simp add: eval_nat_numeral)
  have "\<forall>c\<in>set (epoll_connect_client sample_start). user_key (UsrhashId c) \<noteq> user_key (msg_userId (in_buffer sample_login))"
    by (auto simp: init_epoll_connect_eq init_slot_def zero_slot_def user_key_def sample_login_facts(5))
  from getremote_reports_absent [OF _ _ sample_login_facts(2) a this, of 5] show ?thesis
    using conn_inv_init names_ok_init by auto
qed

text \<open>C21. The list of all users is one node per live slot, in slot order, each with the slot's
  time, address, port, id and password; the header's type and length and the count agree with
  it, and exactly 12 + 56 n bytes are sent for n users.\<close>

theorem getalluser_lists_users:
  assumes "conn_inv (epoll_connect_client s)" "names_ok (epoll_connect_client s)"
    and "n = count_users (epoll_connect_client s)" "accepts (12 + 56 * n) ws"
    and "mem (12 + 56 * n) = Some blk" "length blk = 12 + 56 * n"
  shows "\<exists>es. handle_getalluser ws mem sock s = Inr (emit es s) \<and> closed es = []
    \<and> length (sent_to sock es) = 12 + 56 * n
    \<and> get_header (sent_to sock es)
        = \<lparr>iMessageType = CMD_GETALLUSER_ACK, iMessageLen = word_of_nat (12 + 56 * n)\<rparr>
    \<and> reply_cnt (sent_to sock es) = word_of_nat n
    \<and> (\<forall>i<n. reply_node i (sent_to sock es) = node_of (filter live (epoll_connect_client s) ! i))"
  by (rule handle_getalluser_ok [where n = n and mem = mem, OF assms])

theorem getalluser_lists_users_witness:
  "\<exists>es. handle_getalluser [Wrote 12] full_malloc 5 sample_start = Inr (emit es sample_start)
     \<and> reply_cnt (sent_to 5 es) = 0"
proof -
  have "conn_inv (epoll_connect_client sample_start)" "names_ok (epoll_connect_client sample_start)"
    "0 = count_users (epoll_connect_client sample_start)"
    using conn_inv_init names_ok_init by (simp_all add: count_users_init)
  moreover have "accepts (12 + 56 * 0) [Wrote 12]" by (simp add: eval_nat_numeral)
  ultimately show ?thesis
    using getalluser_lists_users [of sample_start 0 "[Wrote 12]" full_malloc "replicate 12 NUL"]
    by (auto simp: full_malloc_def)
qed

text \<open>C22. The users are counted and written in two separate passes without a lock: when a user
  connects in between, the reply is written past the end of its buffer.\<close>

theorem getalluser_overflows_on_growth:
  assumes "conn_inv t2" "names_ok t2" "count_users t1 < count_users t2"
    and "mem (12 + 56 * count_users t1) = Some blk" "length blk = 12 + 56 * count_users t1"
  shows "getalluser_reply mem t1 t2 = Inl OutOfBounds"
  by (rule getalluser_reply_race [where mem = mem, OF assms])

theorem getalluser_overflows_on_growth_witness:
  "getalluser_reply full_malloc init_epoll_connect (epoll_connect_client sample_server) = Inl OutOfBounds"
  by (rule getalluser_overflows_on_growth [OF sample_inv(2,3), where blk = "replicate 12 NUL"])
    (simp_all add: count_users_init sample_count full_malloc_def)

section \<open>Users who leave\<close>

text \<open>A user who has gone offline is still reported as found: after the slot has been freed
  the reply has flag 1 and the old address, although the text for the other case says that the
  client may be offline.\<close>

theorem offline_user_found:
  assumes "conn_inv (epoll_connect_client s)" "names_ok (epoll_connect_client s)" "msg_ok recv" "accepts 276 ws"
    and "get_matched_event_index_by_UsrHashId (msg_userId recv) (epoll_connect_client s) = int k"
    and "peer_of (epoll_connect_client s ! k) = (tm, ip, port)"
    and "free_event_by_index (int k) (epoll_connect_client s) = Inr t'"
  shows "\<exists>es. handle_getremote ws sock recv (s\<lparr>epoll_connect_client := t'\<rparr>)
        = Inr (emit es (s\<lparr>epoll_connect_client := t'\<rparr>))
    \<and> ack_flag (get_remote_ack (sent_to sock es)) = 1
    \<and> ack_ip (get_remote_ack (sent_to sock es)) = inet_addr ip"
  using offline_found [OF assms, of sock] by (auto simp: remote_reads_def)

theorem offline_user_found_witness:
  "\<exists>t' es. free_event_by_index 0 (epoll_connect_client sample_server) = Inr t'
     \<and> handle_getremote [Wrote 276] 6 (replicate 1024 NUL) (sample_server\<lparr>epoll_connect_client := t'\<rparr>)
         = Inr (emit es (sample_server\<lparr>epoll_connect_client := t'\<rparr>))
     \<and> ack_flag (get_remote_ack (sent_to 6 es)) = 1"
proof -
  obtain t' where t': "free_event_by_index (int 0) (epoll_connect_client sample_server) = Inr t'"
    using free_event_by_index_eq [OF sample_inv(2)] by blast
  have m: "msg_ok (replicate 1024 NUL)" by (simp add: msg_ok_def BUFFER_SIZE_def)
  have a: "accepts 276 [Wrote 276]" by (simp add: eval_nat_numeral)
  have "get_matched_event_index_by_UsrHashId (msg_userId (replicate 1024 NUL)) (epoll_connect_client sample_server) = int 0"
    unfolding matched_user_iff using sample_slot by (simp add: user_key_def msg_userId_def layout_defs)
  from offline_user_found [OF sample_inv(2,3) m a this sample_slot(4) t', of 6] t' show ?thesis by auto
qed

text \<open>A new connection takes over the login of the slot it gets: it is entered with the id
  and the password of whoever used the slot before, without having logged in.\<close>

theorem new_connection_inherits_login:
  assumes "conn_inv t" "get_epoll_connect_free_event_index t = int k" "arg_ok a" "fd \<noteq> -1" "conns t fd = None"
    and "ins_conn (int k) fd a t = Inr t'"
  shows "live (t' ! k) \<and> connect_fd (t' ! k) = fd \<and> UsrhashId (t' ! k) = UsrhashId (t ! k)
    \<and> conn_passwd (t' ! k) = conn_passwd (t ! k)"
  using slot_taken_over [OF assms] by blast

theorem new_connection_inherits_login_witness:
  "\<exists>t'. ins_conn 0 5 (accept_arg sample_accept) init_epoll_connect = Inr t'
     \<and> UsrhashId (t' ! 0) = UsrhashId (init_epoll_connect ! 0)"
proof -
  have k: "get_epoll_connect_free_event_index init_epoll_connect = int 0" by (rule free_index_init)
  obtain t' where t': "ins_conn (int 0) 5 (accept_arg sample_accept) init_epoll_connect = Inr t'"
    using reg.ins_free [OF conn_inv_init _ accept_arg_ok _ conns_init, of 5] k by auto
  from new_connection_inherits_login [OF conn_inv_init k accept_arg_ok _ conns_init t']
    t' show ?thesis by auto
qed

text \<open>C23. A login with an id of ten characters or more is stored without a terminator; when its
  slot is one of the first ten, every later request for a peer's address reads past the field
  while it prints the table.\<close>

theorem long_login_breaks_getremote:
  assumes "conn_inv (epoll_connect_client s)" "msg_ok recv" "length (cstr (msg_userId recv)) \<ge> 10"
    and "get_matched_event_index_by_fd sock (epoll_connect_client s) = int k" "k < 10"
  shows "\<exists>s'. handle_sendui sock recv s = Inr s'
    \<and> (\<forall>ws sock' recv'. \<exists>e. handle_getremote ws sock' recv' s' = Inl e)"
  by (rule long_login [OF assms])

theorem long_login_breaks_getremote_witness:
  "\<exists>s'. handle_sendui 5 (replicate 20 CHR ''x'' @ replicate 1004 NUL) sample_server = Inr s'
     \<and> (\<exists>e. handle_getremote [] 5 (replicate 1024 NUL) s' = Inl e)"
proof -
  let ?m = "replicate 20 CHR ''x'' @ replicate 1004 NUL"
  have "msg_ok ?m" by (simp add: msg_ok_def BUFFER_SIZE_def)
  moreover have "cstr (msg_userId ?m) = replicate 12 CHR ''x''"
    using cstr_append_NUL [of "replicate 12 CHR ''x''" "replicate 1003 NUL"]
    by (simp add: msg_userId_def layout_defs nulfree_def NUL_def replicate_Suc [symmetric] del: replicate_Suc)
  ultimately show ?thesis
    using long_login_breaks_getremote [OF sample_inv(2), of ?m 5 0] sample_slot(3) by fastforce
qed

section \<open>Sending, receiving and stopping\<close>

text \<open>C24. A message is sent completely and in order when the kernel accepts it in any number of
  parts, to its socket only, and its length is returned.\<close>

theorem send_completes:
  assumes "accepts n ws" "n \<le> length buf"
  shows "\<exists>es. send_buffer_to_fd ws sock buf (int n) = Inr (Some (int n), es)
    \<and> sent_to sock es = take n buf \<and> closed es = [] \<and> (\<forall>s. s \<noteq> sock \<longrightarrow> sent_to s es = [])"
  by (rule send_buffer_accepts [OF assms])

theorem send_completes_witness:
  "\<exists>es. send_buffer_to_fd [Wrote 2, Wrote 0, Wrote 3] 7 ''hello'' 5 = Inr (Some 5, es) \<and> sent_to 7 es = ''hello''"
  using send_completes [of 5 "[Wrote 2, Wrote 0, Wrote 3]" "''hello''" 7] by (auto simp: eval_nat_numeral)

text \<open>When the first write would block, the code adds one to the number of bytes left and
  writes from before the start of the buffer.\<close>

theorem send_again_underruns:
  assumes "0 < iLen" "iLen \<le> length buf"
  shows "send_buffer_to_fd (WouldBlock # ws) sock buf (int iLen) = Inl OutOfBounds"
  by (rule send_first_again [OF assms])

theorem send_again_underruns_witness:
  "send_buffer_to_fd [WouldBlock, Wrote 5] 7 ''hello'' 5 = Inl OutOfBounds"
  using send_again_underruns [of 5 "''hello''" "[Wrote 5]" 7] by simp

text \<open>C26. The dump of a received message overflows its buffer exactly when the message is longer
  than 63 bytes; shorter messages are logged as their hexadecimal digits.\<close>

theorem dump_bounds:
  assumes "len \<le> length info"
  shows "dumpInfo info len = (if len \<le> 63
     then Inr [Log LOG_LEVEL_INDISPENSABLE ''dumpInfo'' 351
            (''dump info length = '' @ show_int (int len) @ '', '' @ concat (map hex2 (take len info)) @ nl)]
     else Inl OutOfBounds)"
  using dumpInfo_ok [OF _ assms] dumpInfo_overflow [OF _ assms] by auto

theorem dump_bounds_witness: "dumpInfo (replicate 1024 NUL) 64 = Inl OutOfBounds"
  using dump_bounds [of 64 "replicate 1024 NUL"] by simp

text \<open>C27. On SIGTERM or SIGKILL the handler sets both exit flags and closes the listening socket,
  if it is open, and then every socket of the table, each exactly once.\<close>

theorem termination_closes_all:
  assumes "conn_inv (epoll_connect_client s)" "sig = SIGTERM \<or> sig = SIGKILL"
  shows "exit_flag (signal_handler_reboot sig s) \<and> exit_accept_flag (signal_handler_reboot sig s)
    \<and> listen_fd (signal_handler_reboot sig s) = -1
    \<and> (\<exists>es. io (signal_handler_reboot sig s) = io s @ es
         \<and> closed es = (if listen_fd s \<noteq> -1 then [listen_fd s] else [])
             @ map connect_fd (filter live (epoll_connect_client s)))"
  using terminate_correct [OF assms] by blast

theorem termination_closes_all_witness:
  "exit_flag (signal_handler_reboot SIGTERM sample_server) \<and> listen_fd (signal_handler_reboot SIGTERM sample_server) = -1"
  using termination_closes_all [OF sample_inv(2), of SIGTERM] by simp

end
